(* ===== verification/Engram_Prelude.thy ===== *)
theory Engram_Prelude
  imports Complex_Main "HOL-Library.Word" "HOL-Library.Sublist" "HOL-Library.Char_ord"
    "HOL-Library.List_Lexorder" "HOL-Library.Multiset"
begin

text \<open>
  Shared ground of the development: the types every component uses, the part of the Go
  standard library the sources call (\<^verbatim>\<open>strings\<close>, \<^verbatim>\<open>unicode/utf8\<close>, \<^verbatim>\<open>sort\<close>,
  \<^verbatim>\<open>hash/fnv\<close>), and generic facts on lists.

  A Go string is a byte sequence, and so is \<^typ>\<open>string\<close> here: \<^term>\<open>length\<close> is Go's
  \<^verbatim>\<open>len\<close>. An instant is the number of nanoseconds since Go's zero time, so that
  \<^verbatim>\<open>t.IsZero()\<close> is \<open>t = 0\<close>; a duration is a number of nanoseconds. Both are unbounded
  integers: no component here adds durations anywhere near \<open>2 ^ 63\<close> nanoseconds
  (292 years). A \<^verbatim>\<open>float64\<close> is a rational number: comparisons and sums are exact, rounding
  is not modelled, and NaN and the infinities are left out unless a component says otherwise. A
  \<^verbatim>\<open>float32\<close> is only stored and copied, so it is its 32 bits.
\<close>

unbundle bit_operations_syntax

section \<open>Types and collections\<close>

type_synonym gotime = int
type_synonym duration = int
type_synonym float64 = rat
type_synonym byte = "8 word"
type_synonym float32 = "32 word"
type_synonym uint64 = "64 word"
type_synonym rune = "32 word"

named_theorems inv_rules \<open>an operation keeps its component's invariant\<close>
named_theorems seen_simps \<open>facts on loops that skip what was seen before\<close>

abbreviation second :: duration where "second \<equiv> 1000000000"

abbreviation minute :: duration where "minute \<equiv> 60 * second"

abbreviation hour :: duration where "hour \<equiv> 60 * minute"

section \<open>Runs of operations and their invariants\<close>

text \<open>
  A component is a state and a set of operations on it. A run applies a list of operations
  from the left. An invariant that the initial states have and each operation keeps holds
  after every run.
\<close>

definition run_ops :: "('e \<Rightarrow> 's \<Rightarrow> 's) \<Rightarrow> 'e list \<Rightarrow> 's \<Rightarrow> 's" where
  "run_ops step es s = fold step es s"

lemma run_ops_Nil [simp]: "run_ops step [] s = s"
  by (simp add: run_ops_def)

lemma run_ops_Cons [simp]: "run_ops step (e # es) s = run_ops step es (step e s)"
  by (simp add: run_ops_def)

lemma run_ops_append: "run_ops step (es @ fs) s = run_ops step fs (run_ops step es s)"
  by (simp add: run_ops_def)

locale invariant_system =
  fixes init :: "'s \<Rightarrow> bool"
    and step :: "'e \<Rightarrow> 's \<Rightarrow> 's"
    and inv :: "'s \<Rightarrow> bool"
  assumes inv_init: "init s \<Longrightarrow> inv s"
    and inv_step: "inv s \<Longrightarrow> inv (step e s)"
begin

lemma inv_run: "inv s \<Longrightarrow> inv (run_ops step es s)"
  by (induction es arbitrary: s) (auto intro: inv_step)

lemma inv_reached: "init s \<Longrightarrow> inv (run_ops step es s)"
  by (rule inv_run [OF inv_init])

end

section \<open>Strings\<close>

subsection \<open>White space\<close>

text \<open>
  \<^verbatim>\<open>unicode.IsSpace\<close> holds for the 25 code points of the White\_Space property; these are
  their UTF-8 encodings. No encoding is a prefix of another, and the first byte of each is
  never a continuation byte, so decoding a rune at either end of a string and testing it is
  looking for one of these byte sequences there.
\<close>

definition space_runes :: "string list" where
  "space_runes =
     [[CHR 0x09], [CHR 0x0A], [CHR 0x0B], [CHR 0x0C], [CHR 0x0D], [CHR 0x20],
      [CHR 0xC2, CHR 0x85], [CHR 0xC2, CHR 0xA0], [CHR 0xE1, CHR 0x9A, CHR 0x80]]
     @ map (\<lambda>b. [CHR 0xE2, CHR 0x80, b])
         [CHR 0x80, CHR 0x81, CHR 0x82, CHR 0x83, CHR 0x84, CHR 0x85, CHR 0x86, CHR 0x87,
          CHR 0x88, CHR 0x89, CHR 0x8A, CHR 0xA8, CHR 0xA9, CHR 0xAF]
     @ [[CHR 0xE2, CHR 0x81, CHR 0x9F], [CHR 0xE3, CHR 0x80, CHR 0x80]]"

text \<open>The length of the member of \<open>ps\<close> that \<open>s\<close> starts with, or 0.\<close>

definition match_len :: "string list \<Rightarrow> string \<Rightarrow> nat" where
  "match_len ps s = (case find (\<lambda>p. prefix p s) ps of None \<Rightarrow> 0 | Some p \<Rightarrow> length p)"

definition space_len :: "string \<Rightarrow> nat" where
  "space_len s = match_len space_runes s"

definition space_len_end :: "string \<Rightarrow> nat" where
  "space_len_end s = match_len (map rev space_runes) (rev s)"

function trim_left :: "string \<Rightarrow> string" where
  "trim_left s = (if s = [] \<or> space_len s = 0 then s else trim_left (drop (space_len s) s))"
  by pat_completeness auto
termination
  by (relation "measure length") auto

function trim_right :: "string \<Rightarrow> string" where
  "trim_right s =
     (if s = [] \<or> space_len_end s = 0 then s
      else trim_right (take (length s - space_len_end s) s))"
  by pat_completeness auto
termination
  by (relation "measure length") auto

declare trim_left.simps [simp del] trim_right.simps [simp del]

text \<open>\<^verbatim>\<open>strings.TrimSpace\<close>.\<close>

definition TrimSpace :: "string \<Rightarrow> string" where
  "TrimSpace s = trim_right (trim_left s)"

lemma trim_left_id: "space_len s = 0 \<Longrightarrow> trim_left s = s"
  by (subst trim_left.simps) simp

lemma trim_right_id: "space_len_end s = 0 \<Longrightarrow> trim_right s = s"
  by (subst trim_right.simps) simp

lemma TrimSpace_id: "space_len s = 0 \<Longrightarrow> space_len_end s = 0 \<Longrightarrow> TrimSpace s = s"
  by (simp add: TrimSpace_def trim_left_id trim_right_id)

lemma match_len_0: "(\<And>p. p \<in> set ps \<Longrightarrow> \<not> prefix p s) \<Longrightarrow> match_len ps s = 0"
  by (auto simp: match_len_def find_Some_iff split: option.splits)

lemma match_len_0_iff: "[] \<notin> set ps \<Longrightarrow> match_len ps s = 0 \<longleftrightarrow> (\<forall>p \<in> set ps. \<not> prefix p s)"
  by (auto simp: match_len_def find_None_iff find_Some_iff split: option.splits)
    (metis nth_mem)+

lemma match_len_le: "match_len ps s \<le> length s"
  by (auto simp: match_len_def find_Some_iff split: option.splits intro: prefix_length_le)

lemma Nil_notin_space_runes [simp]: "[] \<notin> set space_runes"
  by (simp add: space_runes_def)

lemma space_len_0_iff: "space_len s = 0 \<longleftrightarrow> (\<forall>p \<in> set space_runes. \<not> prefix p s)"
  by (simp add: space_len_def match_len_0_iff)

lemma space_len_end_0_iff: "space_len_end s = 0 \<longleftrightarrow> (\<forall>p \<in> set space_runes. \<not> suffix p s)"
proof -
  have "[] \<notin> set (map rev space_runes)" by (auto simp del: Nil_notin_space_runes) simp
  then show ?thesis by (simp add: space_len_end_def match_len_0_iff suffix_to_prefix)
qed

lemma space_len_le: "space_len s \<le> length s" and space_len_end_le: "space_len_end s \<le> length s"
  using match_len_le [of space_runes s] match_len_le [of "map rev space_runes" "rev s"]
  by (simp_all add: space_len_def space_len_end_def)

lemma space_len_prefix: "space_len s = 0 \<Longrightarrow> prefix t s \<Longrightarrow> space_len t = 0"
  unfolding space_len_0_iff using prefix_order.trans by blast

lemma space_len_Nil [simp]: "space_len [] = 0" "space_len_end [] = 0"
  using space_len_le [of "[]"] space_len_end_le [of "[]"] by simp_all

lemma space_len_trim_left: "space_len (trim_left s) = 0"
proof (induction s rule: trim_left.induct)
  case (1 s)
  then show ?case by (subst trim_left.simps) auto
qed

lemma space_len_trim_right: "space_len_end (trim_right s) = 0"
proof (induction s rule: trim_right.induct)
  case (1 s)
  then show ?case by (subst trim_right.simps) auto
qed

lemma suffix_trim_left: "suffix (trim_left s) s"
proof (induction s rule: trim_left.induct)
  case (1 s)
  then show ?case
    by (subst trim_left.simps) (auto intro: suffix_order.trans suffix_drop)
qed

lemma prefix_trim_right: "prefix (trim_right s) s"
proof (induction s rule: trim_right.induct)
  case (1 s)
  then show ?case
    by (subst trim_right.simps) (auto intro: prefix_order.trans take_is_prefix)
qed

lemma TrimSpace_trimmed: "space_len (TrimSpace s) = 0 \<and> space_len_end (TrimSpace s) = 0"
  unfolding TrimSpace_def
  using space_len_prefix [OF space_len_trim_left prefix_trim_right] space_len_trim_right by blast

lemma TrimSpace_idem [simp]: "TrimSpace (TrimSpace s) = TrimSpace s"
  using TrimSpace_trimmed by (intro TrimSpace_id) blast+

lemma length_TrimSpace: "length (TrimSpace s) \<le> length s"
  unfolding TrimSpace_def
  using prefix_length_le [OF prefix_trim_right] suffix_length_le [OF suffix_trim_left]
  by (rule order_trans)

subsection \<open>Case\<close>

text \<open>
  \<^verbatim>\<open>strings.ToLower\<close> lowers ASCII strings bytewise and maps every other string rune by rune
  with the tables of package \<^verbatim>\<open>unicode\<close>; the second part is the argument \<open>u\<close>.
\<close>

abbreviation byte_of :: "char \<Rightarrow> nat" where "byte_of c \<equiv> of_char c"

definition is_ascii :: "string \<Rightarrow> bool" where
  "is_ascii s = list_all (\<lambda>c. byte_of c < 128) s"

definition ascii_lower :: "char \<Rightarrow> char" where
  "ascii_lower c = (if 65 \<le> byte_of c \<and> byte_of c \<le> 90 then char_of (byte_of c + 32) else c)"

definition ToLower :: "(string \<Rightarrow> string) \<Rightarrow> string \<Rightarrow> string" where
  "ToLower u s = (if is_ascii s then map ascii_lower s else u s)"

subsection \<open>Searching, splitting and joining\<close>

text \<open>\<^verbatim>\<open>strings.Contains(s, sub)\<close>, \<^verbatim>\<open>HasPrefix\<close>, \<^verbatim>\<open>HasSuffix\<close> and \<^verbatim>\<open>Join\<close>.\<close>

definition Contains :: "string \<Rightarrow> string \<Rightarrow> bool" where
  "Contains s sub = list_ex (prefix sub) (suffixes s)"

abbreviation HasPrefix :: "string \<Rightarrow> string \<Rightarrow> bool" where "HasPrefix s p \<equiv> prefix p s"

abbreviation HasSuffix :: "string \<Rightarrow> string \<Rightarrow> bool" where "HasSuffix s p \<equiv> suffix p s"

fun Join :: "string list \<Rightarrow> string \<Rightarrow> string" where
  "Join [] sep = []"
| "Join [x] sep = x"
| "Join (x # y # xs) sep = x @ sep @ Join (y # xs) sep"

lemma Contains_iff: "Contains s sub \<longleftrightarrow> sublist sub s"
  by (auto simp: Contains_def list_ex_iff sublist_altdef' sublist_altdef)

lemma Join_snoc: "xs \<noteq> [] \<Longrightarrow> Join (xs @ [x]) sep = Join xs sep @ sep @ x"
  by (induction xs sep rule: Join.induct) auto

lemma length_Join:
  "int (length (Join xs sep))
     = sum_list (map (int \<circ> length) xs) + int (length sep) * max 0 (int (length xs) - 1)"
  by (induction xs sep rule: Join.induct) (auto simp: algebra_simps)

text \<open>
  \<^verbatim>\<open>strings.Fields\<close>: the maximal runs of non-space runes. \<open>acc\<close> is the field being read,
  reversed. Moving one byte at a time past a non-space rune is sound because no space
  encoding starts with a continuation byte.
\<close>

function fields_loop :: "string \<Rightarrow> string \<Rightarrow> string list" where
  "fields_loop acc s =
     (if s = [] then (if acc = [] then [] else [rev acc])
      else if space_len s > 0
      then (if acc = [] then [] else [rev acc]) @ fields_loop [] (drop (space_len s) s)
      else fields_loop (hd s # acc) (tl s))"
  by pat_completeness auto
termination
  by (relation "measure (\<lambda>(acc, s). length s)") auto

declare fields_loop.simps [simp del]

definition Fields :: "string \<Rightarrow> string list" where
  "Fields s = fields_loop [] s"

subsection \<open>Runes\<close>

text \<open>
  \<^verbatim>\<open>utf8.DecodeRuneInString\<close> on a non-empty string: the code point and its width; an invalid
  or truncated encoding is U+FFFD of width 1.
\<close>

definition cont_byte :: "nat \<Rightarrow> bool" where
  "cont_byte b \<longleftrightarrow> 0x80 \<le> b \<and> b \<le> 0xBF"

definition decode_rune :: "string \<Rightarrow> nat \<times> nat" where
  "decode_rune s =
     (case s of [] \<Rightarrow> (0xFFFD, 1) | c0 # s1 \<Rightarrow>
      let b0 = byte_of c0 in
      if b0 < 0x80 then (b0, 1)
      else case s1 of [] \<Rightarrow> (0xFFFD, 1) | c1 # s2 \<Rightarrow>
      let b1 = byte_of c1 in
      if b0 < 0xC2 \<or> \<not> cont_byte b1 then (0xFFFD, 1)
      else if b0 < 0xE0 then ((b0 - 0xC0) * 64 + (b1 - 0x80), 2)
      else case s2 of [] \<Rightarrow> (0xFFFD, 1) | c2 # s3 \<Rightarrow>
      let b2 = byte_of c2 in
      if \<not> cont_byte b2 \<or> (b0 = 0xE0 \<and> b1 < 0xA0) \<or> (b0 = 0xED \<and> b1 > 0x9F) then (0xFFFD, 1)
      else if b0 < 0xF0 then ((b0 - 0xE0) * 4096 + (b1 - 0x80) * 64 + (b2 - 0x80), 3)
      else case s3 of [] \<Rightarrow> (0xFFFD, 1) | c3 # _ \<Rightarrow>
      let b3 = byte_of c3 in
      if b0 > 0xF4 \<or> \<not> cont_byte b3 \<or> (b0 = 0xF0 \<and> b1 < 0x90) \<or> (b0 = 0xF4 \<and> b1 > 0x8F)
      then (0xFFFD, 1)
      else ((b0 - 0xF0) * 262144 + (b1 - 0x80) * 4096 + (b2 - 0x80) * 64 + (b3 - 0x80), 4))"

lemma decode_rune_width: "0 < snd (decode_rune s)"
  by (simp add: decode_rune_def Let_def split: list.split)

lemma decode_rune_fits: "s \<noteq> [] \<Longrightarrow> snd (decode_rune s) \<le> length s"
  by (auto simp: decode_rune_def Let_def split: list.splits)

text \<open>The conversion \<^verbatim>\<open>[]rune(s)\<close>.\<close>

function runes :: "string \<Rightarrow> nat list" where
  "runes s = (if s = [] then [] else fst (decode_rune s) # runes (drop (snd (decode_rune s)) s))"
  by pat_completeness auto
termination
  by (relation "measure length") (auto simp: decode_rune_width)

declare runes.simps [simp del]

section \<open>Loops over a set of seen keys\<close>

text \<open>
  Many loops keep the first element of each key and skip the rest:
  \<^verbatim>\<open>if seen[k] { continue }; seen[k] = true; out = append(out, x)\<close>.
\<close>

fun keep_first :: "('a \<Rightarrow> 'k) \<Rightarrow> 'k list \<Rightarrow> 'a list \<Rightarrow> 'a list" where
  "keep_first key seen [] = []"
| "keep_first key seen (x # xs) =
     (if key x \<in> set seen then keep_first key seen xs
      else x # keep_first key (key x # seen) xs)"

lemma keep_first_fresh [seen_simps]:
  "x \<in> set (keep_first key seen xs) \<Longrightarrow> key x \<notin> set seen"
  by (induction xs arbitrary: seen) (fastforce split: if_splits)+

lemma keep_first_subset [seen_simps]: "set (keep_first key seen xs) \<subseteq> set xs"
  by (induction xs arbitrary: seen) auto

lemma distinct_keep_first [seen_simps]: "distinct (map key (keep_first key seen xs))"
  by (induction xs arbitrary: seen) (fastforce dest: keep_first_fresh)+

lemma keys_keep_first [seen_simps]:
  "key ` set (keep_first key seen xs) = key ` set xs - set seen"
  by (induction xs arbitrary: seen) auto

lemma subseq_keep_first: "subseq (keep_first key seen xs) xs"
  by (induction xs arbitrary: seen) auto

lemma keep_first_id [simp]:
  "distinct (map key xs) \<Longrightarrow> key ` set xs \<inter> set seen = {} \<Longrightarrow> keep_first key seen xs = xs"
  by (induction xs arbitrary: seen) auto

lemma keep_first_set: "set (keep_first (\<lambda>x. x) [] xs) = set xs"
  using keys_keep_first [of "\<lambda>x. x" "[]" xs] by simp

section \<open>Stable sorting\<close>

text \<open>
  \<^verbatim>\<open>sort.SliceStable\<close> and \<^verbatim>\<open>slices.SortStableFunc\<close>: the result is determined by the
  comparison when it is a strict weak order, so insertion sort stands for the library's
  algorithm.
\<close>

fun insert_stable :: "('a \<Rightarrow> 'a \<Rightarrow> bool) \<Rightarrow> 'a \<Rightarrow> 'a list \<Rightarrow> 'a list" where
  "insert_stable lt x [] = [x]"
| "insert_stable lt x (y # ys) = (if lt y x then y # insert_stable lt x ys else x # y # ys)"

fun sort_stable :: "('a \<Rightarrow> 'a \<Rightarrow> bool) \<Rightarrow> 'a list \<Rightarrow> 'a list" where
  "sort_stable lt [] = []"
| "sort_stable lt (x # xs) = insert_stable lt x (sort_stable lt xs)"

lemma mset_insert_stable: "mset (insert_stable lt x ys) = add_mset x (mset ys)"
  by (induction ys) auto

lemma mset_sort_stable [simp]: "mset (sort_stable lt xs) = mset xs"
  by (induction xs) (auto simp: mset_insert_stable)

lemma set_sort_stable [simp]: "set (sort_stable lt xs) = set xs"
  by (metis mset_sort_stable set_mset_mset)

lemma length_sort_stable [simp]: "length (sort_stable lt xs) = length xs"
  by (metis mset_sort_stable size_mset)

locale strict_weak_order =
  fixes lt :: "'a \<Rightarrow> 'a \<Rightarrow> bool"
  assumes asym: "lt x y \<Longrightarrow> \<not> lt y x"
    and incomp_trans: "\<not> lt x y \<Longrightarrow> \<not> lt y z \<Longrightarrow> \<not> lt x z"
begin

lemma sorted_insert_stable:
  "sorted_wrt (\<lambda>x y. \<not> lt y x) ys \<Longrightarrow> sorted_wrt (\<lambda>x y. \<not> lt y x) (insert_stable lt x ys)"
proof (induction ys)
  case (Cons y ys)
  have "set (insert_stable lt x ys) = insert x (set ys)"
    by (metis mset_insert_stable set_mset_add_mset_insert set_mset_mset)
  with Cons show ?case by (auto dest: asym incomp_trans)
qed simp

lemma sorted_sort_stable: "sorted_wrt (\<lambda>x y. \<not> lt y x) (sort_stable lt xs)"
  by (induction xs) (auto intro: sorted_insert_stable)

lemma filter_insert_stable:
  assumes "sorted_wrt (\<lambda>x y. \<not> lt y x) ys"
  shows "filter (\<lambda>y. \<not> lt y z \<and> \<not> lt z y) (insert_stable lt x ys)
    = filter (\<lambda>y. \<not> lt y z \<and> \<not> lt z y) (x # ys)"
  using assms by (induction ys) (auto dest: incomp_trans)

text \<open>Elements that compare equal keep their order.\<close>

lemma sort_stable_stable:
  "filter (\<lambda>y. \<not> lt y z \<and> \<not> lt z y) (sort_stable lt xs)
     = filter (\<lambda>y. \<not> lt y z \<and> \<not> lt z y) xs"
  by (induction xs) (auto simp: filter_insert_stable sorted_sort_stable)

end

section \<open>Decimal numbers\<close>

text \<open>\<^verbatim>\<open>%d\<close> of a non-negative number.\<close>

fun show_nat :: "nat \<Rightarrow> string" where
  "show_nat n = (if n < 10 then [char_of (48 + n)] else show_nat (n div 10) @ [char_of (48 + n mod 10)])"

declare show_nat.simps [simp del]

lemma char_digit_inj:
  "a < 10 \<Longrightarrow> b < 10 \<Longrightarrow> (char_of (48 + a) :: char) = char_of (48 + b) \<longleftrightarrow> a = (b :: nat)"
  by (simp add: char_of_eq_iff take_bit_eq_mod)

lemma show_nat_digits: "c \<in> set (show_nat n) \<Longrightarrow> c \<noteq> CHR ''-''"
proof (induction n rule: show_nat.induct)
  case (1 n)
  have "(char_of (48 + k) :: char) \<noteq> CHR ''-''" if "k < 10" for k :: nat
    using that by (simp add: char_of_eq_iff take_bit_eq_mod)
  from this [of n] this [of "n mod 10"] show ?case
    using 1 by (cases "n < 10") (auto simp: show_nat.simps [of n])
qed

lemma show_nat_not_Nil [simp]: "show_nat n \<noteq> []" "[] \<noteq> show_nat n"
  by (subst show_nat.simps, simp)+

lemma show_nat_inject [simp]: "show_nat m = show_nat n \<longleftrightarrow> m = n"
proof (induction m arbitrary: n rule: show_nat.induct)
  case (1 m)
  show ?case
  proof (cases "m < 10")
    case True
    then show ?thesis
      by (subst (1 2) show_nat.simps) (auto simp: char_digit_inj append_eq_Cons_conv)
  next
    case False
    show ?thesis
    proof (cases "n < 10")
      case True
      with False show ?thesis
        by (subst (1 2) show_nat.simps) (auto simp: append_eq_Cons_conv)
    next
      case n: False
      have "m = n \<longleftrightarrow> m div 10 = n div 10 \<and> m mod 10 = n mod 10"
        by (metis mult_div_mod_eq)
      with "1.IH" [OF False] False n show ?thesis
        by (subst (1 2) show_nat.simps) (simp add: char_digit_inj)
    qed
  qed
qed

text \<open>\<^verbatim>\<open>%d\<close> of an \<^verbatim>\<open>int\<close>, and \<^verbatim>\<open>strconv.Atoi\<close>, on the range of a 64-bit \<^verbatim>\<open>int\<close>.\<close>

definition show_int :: "int \<Rightarrow> string" where
  "show_int n = (if n < 0 then CHR ''-'' # show_nat (nat (- n)) else show_nat (nat n))"

definition is_digit :: "char \<Rightarrow> bool" where
  "is_digit c \<longleftrightarrow> 48 \<le> (of_char c :: nat) \<and> (of_char c :: nat) \<le> 57"

definition digits_val :: "string \<Rightarrow> nat" where
  "digits_val s = foldl (\<lambda>n c. n * 10 + (of_char c - 48)) 0 s"

definition digits_int :: "bool \<Rightarrow> string \<Rightarrow> int option" where
  "digits_int neg s =
     (if s = [] \<or> \<not> list_all is_digit s then None
      else let n = int (digits_val s) in
        if neg then (if n \<le> 2 ^ 63 then Some (- n) else None)
        else if n < 2 ^ 63 then Some n else None)"

definition Atoi :: "string \<Rightarrow> int option" where
  "Atoi s =
     (case s of [] \<Rightarrow> None
      | c # cs \<Rightarrow> if c = CHR ''-'' then digits_int True cs
                else if c = CHR ''+'' then digits_int False cs else digits_int False s)"

lemma digits_val_snoc: "digits_val (s @ [c]) = digits_val s * 10 + (of_char c - 48)"
  by (simp add: digits_val_def)

lemma digit_char: "k < 10 \<Longrightarrow> of_char (char_of (48 + k) :: char) = (48 + k :: nat) \<and> is_digit (char_of (48 + k))"
  by (simp add: is_digit_def)

lemma show_nat_value: "digits_val (show_nat n) = n \<and> list_all is_digit (show_nat n)"
proof (induction n rule: show_nat.induct)
  case (1 n)
  then show ?case
    by (subst (1 2) show_nat.simps)
      (auto simp: digits_val_snoc digit_char digits_val_def [of "[_]"])
qed

lemma digits_int_show_nat:
  "digits_int neg (show_nat k) = (if neg then (if int k \<le> 2 ^ 63 then Some (- int k) else None)
      else if int k < 2 ^ 63 then Some (int k) else None)"
  using show_nat_value [of k] by (simp add: digits_int_def)

lemma Atoi_show_nat: "Atoi (show_nat k) = digits_int False (show_nat k)"
  using show_nat_value [of k] by (cases "show_nat k") (auto simp: is_digit_def Atoi_def)

lemma Atoi_show_int:
  assumes "- (2 ^ 63) \<le> n" "n < 2 ^ 63"
  shows "Atoi (show_int n) = Some n"
proof (cases "n < 0")
  case True
  then show ?thesis using assms by (simp add: show_int_def Atoi_def digits_int_show_nat)
next
  case False
  then show ?thesis using assms by (simp add: show_int_def Atoi_show_nat digits_int_show_nat)
qed

end
