(* ===== verification/Circuit_Breaker.thy ===== *)
theory Circuit_Breaker
  imports Engram_Prelude
begin

text \<open>
  The circuit breaker in front of the embedding service
  (\<^verbatim>\<open>src/internal/embed/circuit_breaker.go\<close>). Every method holds the mutex for its whole
  body, so a concurrent execution is a sequence of whole methods: each is one function on the
  state. The clock is read through \<^verbatim>\<open>cb.now\<close>; the instants read are arguments, two of them
  where the code reads the clock twice. The multiplier is a \<^verbatim>\<open>float64\<close>; it is a rational
  here, and rounding of the product to 53 bits is not modelled (durations below \<open>2 ^ 53\<close>
  nanoseconds are represented exactly).
\<close>

section \<open>State\<close>

datatype CircuitState = StateClosed | StateOpen | StateHalfOpen

definition CircuitState_String :: "CircuitState \<Rightarrow> string" where
  "CircuitState_String s =
     (case s of StateClosed \<Rightarrow> ''closed'' | StateOpen \<Rightarrow> ''open'' | StateHalfOpen \<Rightarrow> ''half_open'')"

datatype cb_error = errCircuitOpen | errProbeDisabled

record CircuitConfig =
  Enabled :: bool
  FailureThreshold :: int
  FailureWindow :: duration
  OpenDuration :: duration
  BackoffMultiplier :: rat
  BackoffCap :: duration

text \<open>
  \<open>cb_notified\<close> is the list of \<^verbatim>\<open>onStateChange\<close> calls started so far, oldest first;
  \<open>onStateChange\<close> says whether a callback is set.
\<close>

record CircuitBreaker =
  cb_state :: CircuitState
  failures :: "gotime list"
  openedAt :: gotime
  nextProbeAt :: gotime
  consecutiveOpens :: int
  cb_cfg :: CircuitConfig
  probeInFlight :: bool
  onStateChange :: bool
  cb_notified :: "(CircuitState \<times> CircuitState) list"

definition NewCircuitBreaker :: "CircuitConfig \<Rightarrow> CircuitBreaker" where
  "NewCircuitBreaker cfg =
     \<lparr>cb_state = StateClosed, failures = [], openedAt = 0, nextProbeAt = 0,
      consecutiveOpens = 0, cb_cfg = cfg, probeInFlight = False, onStateChange = False,
      cb_notified = []\<rparr>"

section \<open>Operations\<close>

definition transitionTo :: "CircuitState \<Rightarrow> CircuitBreaker \<Rightarrow> CircuitBreaker" where
  "transitionTo newState cb =
     (let oldState = cb_state cb in
      cb\<lparr>cb_state := newState,
         cb_notified := (if onStateChange cb then cb_notified cb @ [(oldState, newState)]
                         else cb_notified cb)\<rparr>)"

text \<open>The conversion \<^verbatim>\<open>time.Duration(f)\<close> truncates towards zero.\<close>

definition duration_of_float :: "rat \<Rightarrow> duration" where
  "duration_of_float x = (if x < 0 then - \<lfloor>- x\<rfloor> else \<lfloor>x\<rfloor>)"

text \<open>The body of the loop \<^verbatim>\<open>for i := 1; i < cb.consecutiveOpens; i++\<close>, with its \<^verbatim>\<open>break\<close>.\<close>

fun backoff_loop :: "CircuitConfig \<Rightarrow> nat \<Rightarrow> duration \<Rightarrow> duration" where
  "backoff_loop cfg 0 cooldown = cooldown"
| "backoff_loop cfg (Suc n) cooldown =
     (let c = duration_of_float (of_int cooldown * BackoffMultiplier cfg) in
      if c > BackoffCap cfg then BackoffCap cfg else backoff_loop cfg n c)"

definition cooldown :: "CircuitConfig \<Rightarrow> int \<Rightarrow> duration" where
  "cooldown cfg opens = backoff_loop cfg (nat (opens - 1)) (OpenDuration cfg)"

definition updateNextProbeTime :: "gotime \<Rightarrow> CircuitBreaker \<Rightarrow> CircuitBreaker" where
  "updateNextProbeTime now cb =
     cb\<lparr>nextProbeAt := now + cooldown (cb_cfg cb) (consecutiveOpens cb)\<rparr>"

definition Allow :: "gotime \<Rightarrow> CircuitBreaker \<Rightarrow> cb_error option \<times> CircuitBreaker" where
  "Allow now cb =
     (if \<not> Enabled (cb_cfg cb) then (None, cb)
      else case cb_state cb of
        StateClosed \<Rightarrow> (None, cb)
      | StateOpen \<Rightarrow>
          if now > nextProbeAt cb
          then (None, (transitionTo StateHalfOpen cb)\<lparr>probeInFlight := True\<rparr>)
          else (Some errCircuitOpen, cb)
      | StateHalfOpen \<Rightarrow>
          if probeInFlight cb then (Some errCircuitOpen, cb)
          else (None, cb\<lparr>probeInFlight := True\<rparr>))"

definition AllowProbe :: "gotime \<Rightarrow> CircuitBreaker \<Rightarrow> cb_error option \<times> CircuitBreaker" where
  "AllowProbe now cb =
     (if \<not> Enabled (cb_cfg cb) then (Some errProbeDisabled, cb)
      else case cb_state cb of
        StateClosed \<Rightarrow> (Some errCircuitOpen, cb)
      | StateOpen \<Rightarrow>
          if now > nextProbeAt cb
          then (None, (transitionTo StateHalfOpen cb)\<lparr>probeInFlight := True\<rparr>)
          else (Some errCircuitOpen, cb)
      | StateHalfOpen \<Rightarrow>
          if probeInFlight cb then (Some errCircuitOpen, cb)
          else (None, cb\<lparr>probeInFlight := True\<rparr>))"

definition RecordSuccess :: "CircuitBreaker \<Rightarrow> CircuitBreaker" where
  "RecordSuccess cb =
     (if \<not> Enabled (cb_cfg cb) then cb
      else
        let cb = cb\<lparr>probeInFlight := False\<rparr> in
        if cb_state cb = StateHalfOpen
        then (transitionTo StateClosed cb)\<lparr>failures := [], consecutiveOpens := 0\<rparr>
        else cb)"

text \<open>
  \<^verbatim>\<open>RecordFailure\<close> reads the clock at its start (\<open>now\<close>) and again in
  \<^verbatim>\<open>updateNextProbeTime\<close> (\<open>now'\<close>).
\<close>

definition RecordFailure :: "gotime \<Rightarrow> gotime \<Rightarrow> CircuitBreaker \<Rightarrow> CircuitBreaker" where
  "RecordFailure now now' cb =
     (if \<not> Enabled (cb_cfg cb) then cb
      else
        let cutoff = now - FailureWindow (cb_cfg cb);
            validFailures = filter (\<lambda>t. t > cutoff) (failures cb);
            cb = cb\<lparr>probeInFlight := False, failures := validFailures @ [now]\<rparr>
        in
        if int (length (failures cb)) \<ge> FailureThreshold (cb_cfg cb)
        then case cb_state cb of
               StateClosed \<Rightarrow>
                 transitionTo StateOpen
                   (updateNextProbeTime now' (cb\<lparr>openedAt := now, consecutiveOpens := 1\<rparr>))
             | StateHalfOpen \<Rightarrow>
                 (transitionTo StateOpen
                   (updateNextProbeTime now'
                     (cb\<lparr>openedAt := now, consecutiveOpens := consecutiveOpens cb + 1\<rparr>)))
                 \<lparr>failures := []\<rparr>
             | StateOpen \<Rightarrow> cb
        else cb)"

definition AbandonProbe :: "CircuitBreaker \<Rightarrow> CircuitBreaker" where
  "AbandonProbe cb =
     (if \<not> Enabled (cb_cfg cb) then cb
      else if \<not> probeInFlight cb then cb
      else
        let cb = cb\<lparr>probeInFlight := False\<rparr> in
        if cb_state cb = StateHalfOpen then cb\<lparr>cb_state := StateOpen\<rparr> else cb)"

lemmas breaker_defs = Allow_def AllowProbe_def RecordSuccess_def RecordFailure_def
  AbandonProbe_def transitionTo_def updateNextProbeTime_def Let_def

text \<open>A concurrent execution as a sequence of method calls, each with the instants it reads.\<close>

datatype cb_op = OpAllow gotime | OpAllowProbe gotime | OpSuccess | OpFailure gotime gotime
  | OpAbandon

fun cb_step :: "cb_op \<Rightarrow> CircuitBreaker \<Rightarrow> CircuitBreaker" where
  "cb_step (OpAllow t) cb = snd (Allow t cb)"
| "cb_step (OpAllowProbe t) cb = snd (AllowProbe t cb)"
| "cb_step OpSuccess cb = RecordSuccess cb"
| "cb_step (OpFailure t t') cb = RecordFailure t t' cb"
| "cb_step OpAbandon cb = AbandonProbe cb"

text \<open>What a call answers: a refusal, or nothing (\<open>None\<close>) when it is granted.\<close>

fun cb_answer :: "cb_op \<Rightarrow> CircuitBreaker \<Rightarrow> cb_error option" where
  "cb_answer (OpAllow t) cb = fst (Allow t cb)"
| "cb_answer (OpAllowProbe t) cb = fst (AllowProbe t cb)"
| "cb_answer _ cb = None"

fun is_admission :: "cb_op \<Rightarrow> bool" where
  "is_admission (OpAllow t) = True"
| "is_admission (OpAllowProbe t) = True"
| "is_admission _ = False"

fun cb_answers :: "cb_op list \<Rightarrow> CircuitBreaker \<Rightarrow> cb_error option list" where
  "cb_answers [] cb = []"
| "cb_answers (e # es) cb = cb_answer e cb # cb_answers es (cb_step e cb)"

section \<open>The state invariant\<close>

text \<open>
  A probe slot is held only in the half-open state, and the count of consecutive openings is
  zero exactly while the circuit is closed.
\<close>

definition cb_inv :: "CircuitBreaker \<Rightarrow> bool" where
  "cb_inv cb \<longleftrightarrow>
     (probeInFlight cb \<longrightarrow> cb_state cb = StateHalfOpen) \<and>
     (if cb_state cb = StateClosed then consecutiveOpens cb = 0 else consecutiveOpens cb \<ge> 1)"

lemma cb_inv_new: "cb_inv (NewCircuitBreaker cfg)"
  by (simp add: cb_inv_def NewCircuitBreaker_def)

lemma Allow_inv [inv_rules]: "cb_inv cb \<Longrightarrow> cb_inv (snd (Allow t cb))"
  by (auto simp: cb_inv_def breaker_defs split: CircuitState.splits if_splits)

lemma AllowProbe_inv [inv_rules]: "cb_inv cb \<Longrightarrow> cb_inv (snd (AllowProbe t cb))"
  by (auto simp: cb_inv_def breaker_defs split: CircuitState.splits if_splits)

lemma RecordSuccess_inv [inv_rules]: "cb_inv cb \<Longrightarrow> cb_inv (RecordSuccess cb)"
  by (auto simp: cb_inv_def breaker_defs split: if_splits)

lemma RecordFailure_inv [inv_rules]: "cb_inv cb \<Longrightarrow> cb_inv (RecordFailure t t' cb)"
  by (auto simp: cb_inv_def breaker_defs split: CircuitState.splits if_splits)

lemma AbandonProbe_inv [inv_rules]: "cb_inv cb \<Longrightarrow> cb_inv (AbandonProbe cb)"
  by (auto simp: cb_inv_def breaker_defs split: if_splits)

lemma cb_step_inv: "cb_inv cb \<Longrightarrow> cb_inv (cb_step e cb)"
  by (cases e) (auto intro: inv_rules)

interpretation breaker: invariant_system "\<lambda>cb. \<exists>cfg. cb = NewCircuitBreaker cfg" cb_step cb_inv
  by unfold_locales (auto intro: cb_inv_new cb_step_inv)

lemma cb_step_cfg [simp]: "cb_cfg (cb_step e cb) = cb_cfg cb"
  by (cases e) (auto simp: breaker_defs split: CircuitState.splits)

section \<open>Admission\<close>

text \<open>In a degraded circuit whose slot is taken, or whose cooldown runs, admissions change nothing.\<close>

lemma refused_while_probing:
  assumes "Enabled (cb_cfg cb)" "cb_state cb = StateHalfOpen" "probeInFlight cb" "is_admission e"
  shows "cb_answer e cb = Some errCircuitOpen \<and> cb_step e cb = cb"
  using assms by (cases e) (auto simp: breaker_defs)

fun admission_time :: "cb_op \<Rightarrow> gotime" where
  "admission_time (OpAllow t) = t"
| "admission_time (OpAllowProbe t) = t"
| "admission_time _ = 0"

lemma refused_in_cooldown:
  assumes "Enabled (cb_cfg cb)" "cb_state cb = StateOpen" "is_admission e"
    "admission_time e \<le> nextProbeAt cb"
  shows "cb_answer e cb = Some errCircuitOpen \<and> cb_step e cb = cb"
  using assms by (cases e) (auto simp: breaker_defs)

text \<open>Requests that are each refused without effect are refused one after the other.\<close>

lemma refused_all:
  assumes "\<And>e. e \<in> set es \<Longrightarrow> cb_answer e cb = Some err \<and> cb_step e cb = cb"
  shows "set (cb_answers es cb) \<subseteq> {Some err} \<and> run_ops cb_step es cb = cb"
  using assms by (induction es) auto

lemma granted_takes_slot:
  assumes "Enabled (cb_cfg cb)" "cb_state cb \<noteq> StateClosed" "is_admission e"
    "cb_answer e cb = None"
  shows "cb_state (cb_step e cb) = StateHalfOpen \<and> probeInFlight (cb_step e cb)
    \<and> \<not> (cb_state cb = StateHalfOpen \<and> probeInFlight cb)"
  using assms by (cases e) (auto simp: breaker_defs split: CircuitState.splits if_splits)

text \<open>
  C7: At most one recovery probe is in flight. Once an \<^verbatim>\<open>Allow\<close> or \<^verbatim>\<open>AllowProbe\<close> is granted
  on a circuit that is not closed, every later admission request, on either path and at any
  instant, is refused with \<^verbatim>\<open>errCircuitOpen\<close> and leaves the breaker unchanged, until one of
  the calls that resolve the probe is made.
\<close>

theorem probe_slot_exclusive:
  assumes "Enabled (cb_cfg cb)" "cb_state cb \<noteq> StateClosed" "is_admission e"
    "cb_answer e cb = None" "\<forall>e' \<in> set es. is_admission e'"
  shows "set (cb_answers es (cb_step e cb)) \<subseteq> {Some errCircuitOpen}
    \<and> run_ops cb_step es (cb_step e cb) = cb_step e cb"
  by (rule refused_all, rule refused_while_probing)
    (use granted_takes_slot [OF assms(1-4)] assms(1,5) in simp_all)

definition cb_prod_cfg :: CircuitConfig where
  "cb_prod_cfg = \<lparr>Enabled = True, FailureThreshold = 5, FailureWindow = 30 * second,
     OpenDuration = 30 * second, BackoffMultiplier = 2, BackoffCap = 5 * minute\<rparr>"

definition cb_open_example :: CircuitBreaker where
  "cb_open_example = (NewCircuitBreaker cb_prod_cfg)
     \<lparr>cb_state := StateOpen, nextProbeAt := 100, consecutiveOpens := 1\<rparr>"

lemmas cb_example_defs = cb_open_example_def NewCircuitBreaker_def cb_prod_cfg_def

theorem probe_slot_exclusive_witness:
  "set (cb_answers [OpAllowProbe 102, OpAllow 900] (cb_step (OpAllow 101) cb_open_example))
     \<subseteq> {Some errCircuitOpen}
   \<and> run_ops cb_step [OpAllowProbe 102, OpAllow 900] (cb_step (OpAllow 101) cb_open_example)
     = cb_step (OpAllow 101) cb_open_example"
  by (rule probe_slot_exclusive) (simp_all add: cb_example_defs breaker_defs)

text \<open>
  an open circuit fails fast for the whole cooldown and admits a probe afterwards. While
  the circuit is open, every sequence of requests at instants up to \<^verbatim>\<open>nextProbeAt\<close> is refused
  without changing the breaker; the first request after \<^verbatim>\<open>nextProbeAt\<close>, on either path, is
  granted and moves the breaker to half-open with the slot taken.
\<close>

theorem open_fails_fast:
  assumes "Enabled (cb_cfg cb)" "cb_state cb = StateOpen"
    "\<forall>e \<in> set es. is_admission e \<and> admission_time e \<le> nextProbeAt cb"
    "is_admission e" "admission_time e > nextProbeAt cb"
  shows "set (cb_answers es cb) \<subseteq> {Some errCircuitOpen} \<and> run_ops cb_step es cb = cb
    \<and> cb_answer e (run_ops cb_step es cb) = None
    \<and> cb_state (cb_step e (run_ops cb_step es cb)) = StateHalfOpen
    \<and> probeInFlight (cb_step e (run_ops cb_step es cb))"
proof -
  have idle: "set (cb_answers es cb) \<subseteq> {Some errCircuitOpen} \<and> run_ops cb_step es cb = cb"
    by (rule refused_all, rule refused_in_cooldown) (use assms(1-3) in simp_all)
  moreover have "cb_answer e cb = None"
    using assms by (cases e) (auto simp: breaker_defs)
  ultimately show ?thesis
    using granted_takes_slot [of cb e] assms by simp
qed

theorem open_fails_fast_witness:
  "set (cb_answers [OpAllow 7, OpAllowProbe 100] cb_open_example) \<subseteq> {Some errCircuitOpen}
   \<and> run_ops cb_step [OpAllow 7, OpAllowProbe 100] cb_open_example = cb_open_example
   \<and> cb_answer (OpAllow 101) (run_ops cb_step [OpAllow 7, OpAllowProbe 100] cb_open_example) = None
   \<and> cb_state (cb_step (OpAllow 101)
        (run_ops cb_step [OpAllow 7, OpAllowProbe 100] cb_open_example)) = StateHalfOpen
   \<and> probeInFlight (cb_step (OpAllow 101)
        (run_ops cb_step [OpAllow 7, OpAllowProbe 100] cb_open_example))"
  by (rule open_fails_fast) (simp_all add: cb_example_defs)

section \<open>Tripping\<close>

text \<open>
  Failures reported to a closed breaker, in time order. The count that matters at the
  \<open>i\<close>-th failure is the number of failures so far that lie in the window ending there.
\<close>

definition window_count :: "duration \<Rightarrow> gotime list \<Rightarrow> nat \<Rightarrow> nat" where
  "window_count w ts i = length (filter (\<lambda>t. t > ts ! i - w) (take (Suc i) ts))"

definition trips :: "CircuitConfig \<Rightarrow> gotime list \<Rightarrow> bool" where
  "trips cfg ts \<longleftrightarrow>
     list_ex (\<lambda>i. FailureThreshold cfg \<le> int (window_count (FailureWindow cfg) ts i))
       [0..<length ts]"

definition fail_run :: "(gotime \<times> gotime) list \<Rightarrow> CircuitBreaker \<Rightarrow> CircuitBreaker" where
  "fail_run ps cb = run_ops cb_step (map (\<lambda>(t, t'). OpFailure t t') ps) cb"

lemma fail_run_snoc: "fail_run (ps @ [(t, t')]) cb = RecordFailure t t' (fail_run ps cb)"
  by (simp add: fail_run_def run_ops_append)

lemma fail_run_cfg [simp]: "cb_cfg (fail_run ps cb) = cb_cfg cb"
  by (induction ps arbitrary: cb)
    (auto simp: fail_run_def breaker_defs split: CircuitState.splits)

lemma RecordFailure_open: "cb_state cb = StateOpen \<Longrightarrow> cb_state (RecordFailure t t' cb) = StateOpen"
  by (simp add: breaker_defs)

lemma window_count_last:
  assumes "0 < w"
  shows "window_count w (ts @ [t]) (length ts) = Suc (length (filter (\<lambda>x. x > t - w) ts))"
  using assms by (simp add: window_count_def)

lemma window_count_prefix: "i < length ts \<Longrightarrow> window_count w (ts @ [t]) i = window_count w ts i"
  by (simp add: window_count_def nth_append)

lemma trips_snoc:
  assumes "0 < FailureWindow cfg"
  shows "trips cfg (ts @ [t]) \<longleftrightarrow> trips cfg ts \<or>
    FailureThreshold cfg \<le> 1 + int (length (filter (\<lambda>x. x > t - FailureWindow cfg) ts))"
  using assms
  by (auto simp: trips_def list_ex_iff window_count_last window_count_prefix)

text \<open>While the breaker has not tripped it holds exactly the failures of the current window.\<close>

lemma fail_run_state:
  assumes "Enabled cfg" "0 < FailureWindow cfg" "sorted (map fst ps)"
  shows "if trips cfg (map fst ps) then cb_state (fail_run ps (NewCircuitBreaker cfg)) = StateOpen
    else cb_state (fail_run ps (NewCircuitBreaker cfg)) = StateClosed
      \<and> failures (fail_run ps (NewCircuitBreaker cfg))
        = filter (\<lambda>t. t > last (map fst ps) - FailureWindow cfg) (map fst ps)"
  using assms(3)
proof (induction ps rule: rev_induct)
  case Nil
  show ?case by (simp add: trips_def fail_run_def NewCircuitBreaker_def)
next
  case (snoc p ps)
  obtain t t' where p: "p = (t, t')" by (cases p)
  let ?cb = "fail_run ps (NewCircuitBreaker cfg)"
  obtain ts where ts: "map fst ps = ts" by blast
  have cfg: "cb_cfg ?cb = cfg" by (simp add: NewCircuitBreaker_def)
  have IH: "if trips cfg ts then cb_state ?cb = StateOpen else cb_state ?cb = StateClosed
      \<and> failures ?cb = filter (\<lambda>x. x > last ts - FailureWindow cfg) ts"
    using snoc by (simp add: sorted_append ts)
  show ?case
  proof (cases "trips cfg ts")
    case True
    with IH show ?thesis
      using assms(2) by (simp add: p ts fail_run_snoc trips_snoc RecordFailure_open)
  next
    case False
    have mono: "last ts \<le> t" if "ts \<noteq> []"
      using snoc.prems that by (simp add: p ts sorted_append)
    have keep: "filter (\<lambda>x. x > t - FailureWindow cfg) (failures ?cb)
        = filter (\<lambda>x. x > t - FailureWindow cfg) ts"
      using IH False mono by (cases "ts = []") (auto intro!: filter_cong)
    show ?thesis
      using IH False keep cfg assms(1,2)
      by (simp add: p ts fail_run_snoc trips_snoc breaker_defs not_le)
  qed
qed

text \<open>
  C30: The breaker trips exactly on the sliding window. A new, enabled breaker with a positive window that
  receives nothing but failures, at non-decreasing instants, is open at the end if and only if some failure closed a window of
  length \<^verbatim>\<open>FailureWindow\<close> holding at least \<^verbatim>\<open>FailureThreshold\<close> failures; otherwise it is
  still closed.
\<close>

theorem trips_on_sliding_window:
  assumes "Enabled cfg" "0 < FailureWindow cfg" "sorted (map fst ps)"
  shows "cb_state (fail_run ps (NewCircuitBreaker cfg))
    = (if trips cfg (map fst ps) then StateOpen else StateClosed)"
  using fail_run_state [OF assms] by (simp split: if_splits)

theorem trips_on_sliding_window_witness:
  "cb_state (fail_run (map (\<lambda>t. (t * second, t * second)) [0, 10, 20, 25, 29])
     (NewCircuitBreaker cb_prod_cfg)) = StateOpen
   \<and> cb_state (fail_run (map (\<lambda>t. (t * second, t * second)) [0, 10, 20, 25, 30])
     (NewCircuitBreaker cb_prod_cfg)) = StateClosed"
proof -
  have eval: "trips cb_prod_cfg (map (\<lambda>t. t * second) [0, 10, 20, 25, 29])
      \<and> \<not> trips cb_prod_cfg (map (\<lambda>t. t * second) [0, 10, 20, 25, 30])"
    by code_simp
  show ?thesis
    using eval trips_on_sliding_window
        [of cb_prod_cfg "map (\<lambda>t. (t * second, t * second)) [0, 10, 20, 25, 29]"]
      trips_on_sliding_window
        [of cb_prod_cfg "map (\<lambda>t. (t * second, t * second)) [0, 10, 20, 25, 30]"]
    by (simp add: cb_prod_cfg_def)
qed

section \<open>Backoff\<close>

lemma duration_of_float_of_int [simp]: "duration_of_float (of_int n) = n"
  by (simp add: duration_of_float_def)

lemma backoff_loop_integral:
  assumes "BackoffMultiplier cfg = of_int m" "1 \<le> m" "0 \<le> c" "c \<le> BackoffCap cfg"
  shows "backoff_loop cfg n c = min (BackoffCap cfg) (c * m ^ n)"
  using assms(3,4)
proof (induction n arbitrary: c)
  case 0
  then show ?case by simp
next
  case (Suc n)
  have scaled: "duration_of_float (of_int c * BackoffMultiplier cfg) = c * m"
    using duration_of_float_of_int [of "c * m"] by (simp add: assms(1))
  have pos: "0 \<le> c * m" using Suc.prems(1) assms(2) by simp
  show ?case
  proof (cases "c * m > BackoffCap cfg")
    case True
    have "c * m * 1 \<le> c * m * m ^ n"
      using pos assms(2) by (intro mult_left_mono) auto
    with True show ?thesis by (simp add: scaled mult.assoc)
  next
    case False
    with Suc.IH [OF pos] show ?thesis by (simp add: scaled mult.assoc)
  qed
qed

text \<open>
  the cooldown of the \<open>k\<close>-th consecutive opening is the base duration times the
  multiplier to the power \<open>k - 1\<close>, capped at \<^verbatim>\<open>BackoffCap\<close>, for every integral multiplier of
  at least one and a base within the cap; the loop with its early exit computes exactly this.
\<close>

theorem cooldown_capped_power:
  assumes "BackoffMultiplier cfg = of_int m" "1 \<le> m" "0 \<le> OpenDuration cfg"
    "OpenDuration cfg \<le> BackoffCap cfg" "1 \<le> k"
  shows "cooldown cfg k = min (BackoffCap cfg) (OpenDuration cfg * m ^ nat (k - 1))"
  unfolding cooldown_def using assms(1-4) by (rule backoff_loop_integral)

theorem cooldown_capped_power_witness:
  "cooldown cb_prod_cfg 4 = 240 * second \<and> cooldown cb_prod_cfg 5 = 300 * second"
  using cooldown_capped_power [of cb_prod_cfg 2 4] cooldown_capped_power [of cb_prod_cfg 2 5]
  by (simp add: cb_prod_cfg_def)

section \<open>Resolving a probe\<close>

text \<open>
  abandoning a probe is neutral. If a request on an open circuit is granted and its caller
  gives the slot back with \<^verbatim>\<open>AbandonProbe\<close>, every field of the breaker is what it was before
  the request: the failure window, the opening time, the next probe instant and the count of
  consecutive openings. Only the notification of the move to half-open remains.
\<close>

theorem abandon_is_neutral:
  assumes "Enabled (cb_cfg cb)" "cb_state cb = StateOpen" "\<not> probeInFlight cb"
    "is_admission e" "cb_answer e cb = None"
  shows "AbandonProbe (cb_step e cb) = cb\<lparr>cb_notified := cb_notified (cb_step e cb)\<rparr>"
  using assms by (cases e) (auto simp: breaker_defs split: if_splits)

theorem abandon_is_neutral_witness:
  "AbandonProbe (cb_step (OpAllow 101) cb_open_example)
     = cb_open_example\<lparr>cb_notified := cb_notified (cb_step (OpAllow 101) cb_open_example)\<rparr>"
  by (rule abandon_is_neutral) (simp_all add: cb_example_defs breaker_defs)

lemma RecordFailure_trip:
  assumes "Enabled (cb_cfg cb)" "cb_state cb = StateClosed"
    "cb_state (RecordFailure t t' cb) = StateOpen"
  shows "RecordFailure t t' cb = transitionTo StateOpen (updateNextProbeTime t'
    (cb\<lparr>probeInFlight := False,
        failures := filter (\<lambda>x. x > t - FailureWindow (cb_cfg cb)) (failures cb) @ [t],
        openedAt := t, consecutiveOpens := 1\<rparr>))"
  using assms by (simp add: RecordFailure_def Let_def split: if_splits)

lemma RecordFailure_below:
  assumes "Enabled (cb_cfg cb)" "2 \<le> FailureThreshold (cb_cfg cb)"
    "filter (\<lambda>x. x > t - FailureWindow (cb_cfg cb)) (failures cb) = []"
  shows "RecordFailure t t' cb = cb\<lparr>probeInFlight := False, failures := [t]\<rparr>"
  using assms by (simp add: RecordFailure_def Let_def)

text \<open>
  a probe that fails does not reopen a circuit whose cooldown is at least as long as its
  failure window (as in the deployed defaults, 30 s each). When the probe runs, every failure
  that tripped the circuit has left the window, so the failure of the probe is alone in it and
  stays below any threshold above one: the breaker remains half-open with the slot free, with
  no new cooldown, and grants the next request at once, at whatever instant it comes.
\<close>

theorem failed_probe_leaves_half_open:
  assumes "Enabled (cb_cfg cb)" "cb_state cb = StateClosed" "\<forall>x \<in> set (failures cb). x \<le> t0"
    "t0 \<le> t0'" "cb_state (RecordFailure t0 t0' cb) = StateOpen"
    "FailureWindow (cb_cfg cb) \<le> OpenDuration (cb_cfg cb)" "2 \<le> FailureThreshold (cb_cfg cb)"
    "nextProbeAt (RecordFailure t0 t0' cb) < t" "t \<le> t1"
    "cb' = RecordFailure t1 t1' (snd (Allow t (RecordFailure t0 t0' cb)))"
  shows "cb_state cb' = StateHalfOpen \<and> \<not> probeInFlight cb' \<and> failures cb' = [t1]
    \<and> nextProbeAt cb' = nextProbeAt (RecordFailure t0 t0' cb) \<and> fst (Allow t2 cb') = None"
proof -
  let ?w = "FailureWindow (cb_cfg cb)"
  let ?cb0 = "RecordFailure t0 t0' cb"
  have tripped: "failures ?cb0 = filter (\<lambda>x. x > t0 - ?w) (failures cb) @ [t0]"
      "cb_cfg ?cb0 = cb_cfg cb" "nextProbeAt ?cb0 = t0' + OpenDuration (cb_cfg cb)"
    using RecordFailure_trip [OF assms(1,2,5)]
    by (simp_all add: transitionTo_def updateNextProbeTime_def cooldown_def Let_def)
  have half: "cb_state (snd (Allow t ?cb0)) = StateHalfOpen"
      "cb_cfg (snd (Allow t ?cb0)) = cb_cfg cb" "failures (snd (Allow t ?cb0)) = failures ?cb0"
      "nextProbeAt (snd (Allow t ?cb0)) = nextProbeAt ?cb0"
    using assms(1,5,8) tripped(2) by (simp_all add: Allow_def transitionTo_def Let_def)
  have "x \<le> t1 - ?w" if "x \<in> set (failures ?cb0)" for x
  proof -
    have "x \<le> t0" using that assms(3) unfolding tripped(1) by auto
    then show ?thesis using assms(4,6,8,9) unfolding tripped(3) by linarith
  qed
  then have "filter (\<lambda>x. x > t1 - ?w) (failures (snd (Allow t ?cb0))) = []"
    unfolding half by (auto simp: filter_empty_conv not_less)
  then have "cb' = (snd (Allow t ?cb0))\<lparr>probeInFlight := False, failures := [t1]\<rparr>"
    unfolding assms(10) by (intro RecordFailure_below) (use assms(1,7) half in simp_all)
  then show ?thesis
    using half assms(1) by (simp add: Allow_def [of t2])
qed

definition cb_closed_example :: CircuitBreaker where
  "cb_closed_example = (NewCircuitBreaker cb_prod_cfg)\<lparr>failures := [1, 2, 3, 4]\<rparr>"

theorem failed_probe_leaves_half_open_witness:
  "let tripped = RecordFailure 5 5 cb_closed_example;
       cb' = RecordFailure (31 * second) (31 * second) (snd (Allow (31 * second) tripped))
   in cb_state tripped = StateOpen \<and> cb_state cb' = StateHalfOpen
     \<and> fst (Allow (31 * second) cb') = None"
proof -
  have trip: "cb_state (RecordFailure 5 5 cb_closed_example) = StateOpen
      \<and> nextProbeAt (RecordFailure 5 5 cb_closed_example) = 30 * second + 5"
    by (simp add: cb_closed_example_def NewCircuitBreaker_def cb_prod_cfg_def breaker_defs
        cooldown_def)
  then show ?thesis
    using failed_probe_leaves_half_open [of cb_closed_example 5 5 "31 * second" "31 * second"
        "RecordFailure (31 * second) (31 * second)
           (snd (Allow (31 * second) (RecordFailure 5 5 cb_closed_example)))" "31 * second"
        "31 * second"]
    by (simp add: cb_closed_example_def NewCircuitBreaker_def cb_prod_cfg_def Let_def)
qed

text \<open>
  in every state a breaker can reach, through any interleaving of its methods, a probe slot
  is held only while the state is half-open, and the count of consecutive openings is zero
  while the circuit is closed and positive otherwise.
\<close>

theorem breaker_invariant: "cb_inv (run_ops cb_step es (NewCircuitBreaker cfg))"
  by (rule breaker.inv_reached) blast

end
