(* ===== verification/Go_Regexp.thy ===== *)
theory Go_Regexp
  imports Engram_Prelude
begin

text \<open>
  The regular expressions the sources compile, with the leftmost-first semantics of Go's
  package \<^verbatim>\<open>regexp\<close>: among the matches that start at the leftmost possible position, the one
  a backtracking search would find first. \<open>ends r s i\<close> lists the ends of the matches of \<open>r\<close>
  in \<open>s\<close> from byte \<open>i\<close> in that order of preference. Positions are byte positions and a
  pattern for one character consumes a whole UTF-8 encoded rune.
\<close>

datatype regex =
    Eps
  | Rune "nat \<Rightarrow> bool"
  | Seq regex regex
  | Alt regex regex
  | Star regex
  | WordB
  | LineStart
  | LineEnd
  | TextStart

definition word_char :: "char \<Rightarrow> bool" where
  "word_char c =
     (let b = byte_of c in 48 \<le> b \<and> b \<le> 57 \<or> 65 \<le> b \<and> b \<le> 90 \<or> b = 95 \<or> 97 \<le> b \<and> b \<le> 122)"

definition word_at :: "string \<Rightarrow> nat \<Rightarrow> bool" where
  "word_at s i = (i < length s \<and> word_char (s ! i))"

definition word_before :: "string \<Rightarrow> nat \<Rightarrow> bool" where
  "word_before s i = (0 < i \<and> i \<le> length s \<and> word_char (s ! (i - 1)))"

definition newline_at :: "string \<Rightarrow> nat \<Rightarrow> bool" where
  "newline_at s i = (i < length s \<and> byte_of (s ! i) = 10)"

text \<open>
  Greedy repetition, longest first; an iteration that consumes nothing ends it. \<open>n\<close> bounds
  the number of iterations, and the length of the rest of the string is enough.
\<close>

fun star_ends :: "(nat \<Rightarrow> nat list) \<Rightarrow> nat \<Rightarrow> nat \<Rightarrow> nat list" where
  "star_ends m 0 i = [i]"
| "star_ends m (Suc n) i = concat (map (star_ends m n) (filter (\<lambda>j. i < j) (m i))) @ [i]"

fun ends :: "regex \<Rightarrow> string \<Rightarrow> nat \<Rightarrow> nat list" where
  "ends Eps s i = [i]"
| "ends (Rune P) s i =
     (if i < length s
      then let (c, w) = decode_rune (drop i s) in if P c then [i + w] else []
      else [])"
| "ends (Seq a b) s i = concat (map (ends b s) (ends a s i))"
| "ends (Alt a b) s i = ends a s i @ ends b s i"
| "ends (Star a) s i = star_ends (ends a s) (length s - i) i"
| "ends WordB s i = (if word_before s i \<noteq> word_at s i then [i] else [])"
| "ends LineStart s i = (if i = 0 \<or> newline_at s (i - 1) then [i] else [])"
| "ends LineEnd s i = (if i = length s \<or> newline_at s i then [i] else [])"
| "ends TextStart s i = (if i = 0 then [i] else [])"

section \<open>Patterns\<close>

definition Plus :: "regex \<Rightarrow> regex" where
  "Plus r = Seq r (Star r)"

definition Opt :: "regex \<Rightarrow> regex" where
  "Opt r = Alt r Eps"

definition space_class :: "nat \<Rightarrow> bool" where
  "space_class c \<longleftrightarrow> c = 9 \<or> c = 10 \<or> c = 12 \<or> c = 13 \<or> c = 32"

definition digit_class :: "nat \<Rightarrow> bool" where
  "digit_class c \<longleftrightarrow> 48 \<le> c \<and> c \<le> 57"

definition one_of :: "string \<Rightarrow> nat \<Rightarrow> bool" where
  "one_of cs c = list_ex (\<lambda>x. byte_of x = c) cs"

definition any_char :: "nat \<Rightarrow> bool" where
  "any_char c \<longleftrightarrow> c \<noteq> 10"

fun seqs :: "regex list \<Rightarrow> regex" where
  "seqs [] = Eps"
| "seqs [r] = r"
| "seqs (r # q # rs) = Seq r (seqs (q # rs))"

fun alts :: "regex list \<Rightarrow> regex" where
  "alts [] = Rune (\<lambda>_. False)"
| "alts [r] = r"
| "alts (r # q # rs) = Alt r (alts (q # rs))"

text \<open>A literal, and a literal under \<^verbatim>\<open>(?i)\<close>: simple folding adds U+212A to k, U+017F to s.\<close>

definition lit :: "string \<Rightarrow> regex" where
  "lit cs = seqs (map (\<lambda>x. Rune (\<lambda>c. c = byte_of x)) cs)"

definition folds_to :: "char \<Rightarrow> nat \<Rightarrow> bool" where
  "folds_to x c =
     (let b = byte_of x in
      c = b \<or> (97 \<le> b \<and> b \<le> 122 \<and> c + 32 = b)
        \<or> (b = 107 \<and> c = 0x212A) \<or> (b = 115 \<and> c = 0x17F))"

definition ilit :: "string \<Rightarrow> regex" where
  "ilit cs = seqs (map (\<lambda>x. Rune (folds_to x)) cs)"

section \<open>Searching\<close>

text \<open>
  The leftmost match from position \<open>i\<close>, as \<^verbatim>\<open>FindStringIndex\<close> reports it. The search may
  start at any byte; a match never starts inside a rune, because the patterns used consume
  runes from a rune boundary on and \<open>step\<close> moves by whole runes.
\<close>

definition rune_width :: "string \<Rightarrow> nat \<Rightarrow> nat" where
  "rune_width s i = snd (decode_rune (drop i s))"

lemma rune_width_pos: "0 < rune_width s i"
  by (simp add: rune_width_def decode_rune_width)

function find_from :: "regex \<Rightarrow> string \<Rightarrow> nat \<Rightarrow> (nat \<times> nat) option" where
  "find_from r s i =
     (if i > length s then None
      else case ends r s i of
        e # _ \<Rightarrow> Some (i, e)
      | [] \<Rightarrow> if i = length s then None else find_from r s (i + rune_width s i))"
  by pat_completeness auto
termination
  by (relation "measure (\<lambda>(r, s, i). Suc (length s) - i)")
    (auto simp: rune_width_pos intro!: diff_less_mono2)

declare find_from.simps [simp del]

definition MatchString :: "regex \<Rightarrow> string \<Rightarrow> bool" where
  "MatchString r s \<longleftrightarrow> find_from r s 0 \<noteq> None"

text \<open>
  \<^verbatim>\<open>FindAllStringIndex(s, -1)\<close> for a pattern that never matches the empty string: each search
  starts where the last match ended.
\<close>

function find_all :: "regex \<Rightarrow> string \<Rightarrow> nat \<Rightarrow> (nat \<times> nat) list" where
  "find_all r s i =
     (case find_from r s i of
        None \<Rightarrow> []
      | Some (b, e) \<Rightarrow> if e > i then (b, e) # find_all r s e else [(b, e)])"
  by pat_completeness auto
termination
proof (relation "measure (\<lambda>(r, s, i). Suc (length s) - i)", goal_cases)
  case (2 r s i p b e)
  have "i \<le> length s"
    using 2(1,2) by (subst (asm) find_from.simps) (auto split: if_splits)
  with 2(3) show ?case by simp
qed simp

declare find_all.simps [simp del]

text \<open>The slice \<^verbatim>\<open>s[i:j]\<close>.\<close>

definition slice :: "string \<Rightarrow> nat \<Rightarrow> nat \<Rightarrow> string" where
  "slice s i j = take (j - i) (drop i s)"

text \<open>What lies between the matches, from position \<open>i\<close>: \<^verbatim>\<open>Split(s, -1)\<close>.\<close>

fun gaps :: "string \<Rightarrow> nat \<Rightarrow> (nat \<times> nat) list \<Rightarrow> string list" where
  "gaps s i [] = [drop i s]"
| "gaps s i ((b, e) # ms) = slice s i b # gaps s e ms"

definition Split :: "regex \<Rightarrow> string \<Rightarrow> string list" where
  "Split r s = gaps s 0 (find_all r s 0)"

text \<open>\<^verbatim>\<open>ReplaceAllStringFunc\<close>; \<^verbatim>\<open>ReplaceAllString\<close> is the case of a constant function.\<close>

fun replace_at :: "(string \<Rightarrow> string) \<Rightarrow> string \<Rightarrow> nat \<Rightarrow> (nat \<times> nat) list \<Rightarrow> string" where
  "replace_at f s i [] = drop i s"
| "replace_at f s i ((b, e) # ms) = slice s i b @ f (slice s b e) @ replace_at f s e ms"

definition ReplaceAllStringFunc :: "regex \<Rightarrow> (string \<Rightarrow> string) \<Rightarrow> string \<Rightarrow> string" where
  "ReplaceAllStringFunc r f s = replace_at f s 0 (find_all r s 0)"

definition ReplaceAllString :: "regex \<Rightarrow> string \<Rightarrow> string \<Rightarrow> string" where
  "ReplaceAllString r repl s = ReplaceAllStringFunc r (\<lambda>_. repl) s"

section \<open>Matches lie in the string and do not overlap\<close>

lemma star_ends_bounds:
  assumes "\<And>i j. i \<le> n \<Longrightarrow> j \<in> set (m i) \<Longrightarrow> i \<le> j \<and> j \<le> n"
  shows "i \<le> n \<Longrightarrow> j \<in> set (star_ends m k i) \<Longrightarrow> i \<le> j \<and> j \<le> n"
proof (induction k arbitrary: i)
  case (Suc k)
  then consider "j = i" | x where "x \<in> set (m i)" "i < x" "j \<in> set (star_ends m k x)"
    by auto
  then show ?case
  proof cases
    case 2
    with assms [OF Suc.prems(1)] have "x \<le> n" by blast
    from Suc.IH [OF this 2(3)] 2(2) show ?thesis by simp
  qed (use Suc.prems in simp)
qed simp

lemma ends_bounds: "i \<le> length s \<Longrightarrow> j \<in> set (ends r s i) \<Longrightarrow> i \<le> j \<and> j \<le> length s"
proof (induction r arbitrary: i j)
  case (Rune P)
  then have "i < length s" "j = i + snd (decode_rune (drop i s))"
    by (auto simp: case_prod_beta split: if_splits)
  then show ?case
    using decode_rune_fits [of "drop i s"] by simp
next
  case (Seq a b)
  from Seq.prems(2) obtain k where k: "k \<in> set (ends a s i)" "j \<in> set (ends b s k)"
    by auto
  from Seq.IH(1) [OF Seq.prems(1) k(1)] Seq.IH(2) [OF _ k(2)] show ?case by simp
next
  case (Star a)
  have "j \<in> set (star_ends (ends a s) (length s - i) i)" using Star.prems(2) by simp
  with star_ends_bounds [of "length s" "ends a s", OF Star.IH Star.prems(1)]
  show ?case by blast
next
  case (Alt a b)
  from Alt.prems(2) have "j \<in> set (ends a s i) \<or> j \<in> set (ends b s i)" by simp
  then show ?case using Alt.IH Alt.prems(1) by blast
qed (simp_all split: if_splits)

lemma find_from_bounds: "find_from r s i = Some (b, e) \<Longrightarrow> i \<le> b \<and> b \<le> e \<and> e \<le> length s"
proof (induction r s i rule: find_from.induct)
  case (1 r s i)
  show ?case
  proof (cases "ends r s i")
    case Nil
    with "1.prems" have "i \<noteq> length s" "\<not> length s < i"
      "find_from r s (i + rune_width s i) = Some (b, e)"
      by (auto simp: find_from.simps [of r s i] split: if_splits)
    from "1.IH" [OF this(2) Nil this(1,3)] show ?thesis by simp
  next
    case (Cons x xs)
    with "1.prems" have "\<not> length s < i" "b = i" "e = x"
      by (auto simp: find_from.simps [of r s i] split: if_splits)
    with ends_bounds [of i s e r] Cons show ?thesis by simp
  qed
qed

text \<open>The spans of \<open>ms\<close> follow one another in \<open>s\<close> from position \<open>i\<close> on.\<close>

fun spans_from :: "string \<Rightarrow> nat \<Rightarrow> (nat \<times> nat) list \<Rightarrow> bool" where
  "spans_from s i [] = (i \<le> length s)"
| "spans_from s i ((b, e) # ms) = (i \<le> b \<and> b \<le> e \<and> e \<le> length s \<and> spans_from s e ms)"

lemma find_all_spans: "i \<le> length s \<Longrightarrow> spans_from s i (find_all r s i)"
proof (induction r s i rule: find_all.induct)
  case (1 r s i)
  show ?case
  proof (cases "find_from r s i")
    case None
    with "1.prems" show ?thesis by (simp add: find_all.simps [of r s i])
  next
    case (Some be)
    obtain b e where be: "be = (b, e)" by (cases be)
    note bounds = find_from_bounds [OF Some [unfolded be]]
    with "1.IH" [OF Some be [symmetric]] show ?thesis
      by (simp add: find_all.simps [of r s i] Some be)
  qed
qed

lemma slice_append: "i \<le> j \<Longrightarrow> j \<le> length s \<Longrightarrow> slice s i j @ drop j s = drop i s"
  by (metis append_take_drop_id drop_drop le_add_diff_inverse2 slice_def)

lemma slice_slice:
  assumes "i \<le> j" "j \<le> k"
  shows "slice s i j @ slice s j k = slice s i k"
proof -
  have split: "k - i = (j - i) + (k - j)" using assms by simp
  show ?thesis unfolding slice_def split take_add using assms by simp
qed

text \<open>Replacing every match by itself gives the string back.\<close>

lemma replace_at_id: "spans_from s i ms \<Longrightarrow> replace_at (\<lambda>m. m) s i ms = drop i s"
proof (induction s i ms rule: spans_from.induct)
  case (2 s i b e ms)
  then have "replace_at (\<lambda>m. m) s i ((b, e) # ms) = slice s i b @ slice s b e @ drop e s"
    by simp
  also have "\<dots> = drop i s"
    using 2(2) slice_append by auto
  finally show ?case .
qed simp

lemma spans_from_le: "spans_from s i ms \<Longrightarrow> i \<le> length s"
  by (induction s i ms rule: spans_from.induct) auto

end
