(* ===== verification/Layer_B_Text.thy ===== *)
theory Layer_B_Text
  imports Go_Regexp
begin

text \<open>
  The text side of Layer B: the aggregation predicate and its anchor
  (\<^verbatim>\<open>src/internal/aggq/aggq.go\<close>), and the terms, stems and sentence spans of
  \<^verbatim>\<open>src/internal/layerb/layerb.go\<close>. The argument \<open>u\<close> is the Unicode part of
  \<^verbatim>\<open>strings.ToLower\<close>.
\<close>

section \<open>Aggregation questions\<close>

definition aggregationRe :: regex where
  "aggregationRe = seqs [WordB,
     alts [Seq (ilit ''how many'') (Opt (ilit '' times'')), ilit ''how often'',
       ilit ''how much total'', ilit ''total number of'', ilit ''sum of'', ilit ''count of'',
       Seq (ilit ''list '') (alts [ilit ''all'', ilit ''every'', ilit ''everything'']),
       ilit ''every time'', Seq (ilit ''all occasion'') (Opt (ilit ''s''))],
     WordB]"

definition temporalQuantityRe :: regex where
  "temporalQuantityRe = seqs [WordB, ilit ''how many '',
     alts (map (\<lambda>w. Seq (ilit w) (Opt (ilit ''s''))) [''day'', ''week'', ''month'', ''year'']),
     ilit '' '', alts (map ilit [''ago'', ''before'', ''after'']), WordB]"

definition monetaryAggRe :: regex where
  "monetaryAggRe = seqs [WordB, ilit ''how much'', WordB, Star (Rune any_char), WordB,
     alts [ilit ''save'', ilit ''saved'', ilit ''spend'', ilit ''spent'',
       Seq (ilit ''raise'') (Opt (ilit ''d'')), ilit ''earn'', ilit ''earned'',
       ilit ''in total'', ilit ''altogether''],
     WordB]"

definition aggregationStripRe :: regex where
  "aggregationStripRe = Seq TextStart
     (alts [Seq (ilit ''how many '') (Opt (ilit ''times '')), ilit ''how often '',
       ilit ''how much total '', Seq (ilit ''what is the total '') (Opt (ilit ''number of '')),
       ilit ''what is the sum of '', ilit ''give me a count of '', ilit ''count of ''])"

definition IsMultiFactComposition :: "string \<Rightarrow> bool" where
  "IsMultiFactComposition question =
     (if MatchString temporalQuantityRe question then False
      else MatchString aggregationRe question \<or> MatchString monetaryAggRe question)"

definition IsAggregationQuestion :: "string \<Rightarrow> bool" where
  "IsAggregationQuestion question = IsMultiFactComposition question"

definition aggq_StopWords :: "string list" where
  "aggq_StopWords =
     [''a'', ''an'', ''the'', ''for'', ''on'', ''in'', ''of'', ''to'', ''and'', ''or'',
      ''about'', ''with'', ''at'', ''by'', ''from'', ''near'', ''around'', ''into'', ''through'',
      ''i'', ''me'', ''my'', ''you'', ''your'', ''do'', ''is'', ''are'', ''some'', ''any'',
      ''can'', ''could'', ''would'', ''should'', ''what'', ''which'', ''how'', ''when'', ''where'',
      ''recommend'', ''suggest'', ''advise'', ''like'', ''likes'', ''love'', ''loves'',
      ''enjoy'', ''enjoys'', ''prefer'', ''prefers'', ''favorite'', ''favourite'',
      ''avoid'', ''avoids'']"

text \<open>\<^verbatim>\<open>strings.TrimRight(s, cutset)\<close> for an ASCII cutset.\<close>

definition TrimRight :: "string \<Rightarrow> string \<Rightarrow> string" where
  "TrimRight s cutset = rev (dropWhile (\<lambda>c. c \<in> set cutset) (rev s))"

definition ExtractAggregationAnchor :: "(string \<Rightarrow> string) \<Rightarrow> string \<Rightarrow> string" where
  "ExtractAggregationAnchor u question =
     (let stripped = TrimRight (ReplaceAllString aggregationStripRe [] question) ''?!.,;:'';
          stripped = (if stripped = [] then question else stripped);
          keep = filter (\<lambda>tok. ToLower u (TrimRight tok ''?!.,;:'') \<notin> set aggq_StopWords)
            (Fields stripped)
      in if keep = [] then stripped else Join keep '' '')"

section \<open>Terms\<close>

definition alnum_class :: "nat \<Rightarrow> bool" where
  "alnum_class c \<longleftrightarrow> 97 \<le> c \<and> c \<le> 122 \<or> 48 \<le> c \<and> c \<le> 57"

definition nonWordRE :: regex where
  "nonWordRE = Plus (Rune (\<lambda>c. \<not> alnum_class c))"

definition layerb_stopWords :: "string list" where
  "layerb_stopWords =
     [''a'', ''an'', ''the'', ''i'', ''me'', ''my'', ''did'', ''do'', ''does'', ''have'', ''had'',
      ''how'', ''many'', ''much'', ''times'', ''time'', ''what'', ''is'', ''was'', ''were'', ''of'',
      ''to'', ''on'', ''in'', ''for'', ''and'']"

definition normalizeText :: "(string \<Rightarrow> string) \<Rightarrow> string \<Rightarrow> string" where
  "normalizeText u text = TrimSpace (ReplaceAllString nonWordRE '' '' (ToLower u text))"

text \<open>\<open>token[:len(token)-n]\<close>\<close>

definition chop :: "nat \<Rightarrow> string \<Rightarrow> string" where
  "chop n token = take (length token - n) token"

definition endsWithSibilant :: "string \<Rightarrow> bool" where
  "endsWithSibilant s =
     (if HasSuffix s ''ch'' \<or> HasSuffix s ''sh'' then True
      else if length s = 0 then False
      else last s \<in> {CHR ''s'', CHR ''x'', CHR ''z''})"

definition endsWithSibilantOrIrregularO :: "string \<Rightarrow> bool" where
  "endsWithSibilantOrIrregularO s =
     (if endsWithSibilant s then True else if length s = 0 then False else last s = CHR ''o'')"

text \<open>\<^verbatim>\<open>isConsonant(token, index)\<close>; no caller passes a negative index.\<close>

fun isConsonant :: "string \<Rightarrow> nat \<Rightarrow> bool" where
  "isConsonant token 0 =
     (if 0 < length token
      then token ! 0 \<notin> {CHR ''a'', CHR ''e'', CHR ''i'', CHR ''o'', CHR ''u''} else False)"
| "isConsonant token (Suc i) =
     (if Suc i < length token
      then (if token ! Suc i \<in> {CHR ''a'', CHR ''e'', CHR ''i'', CHR ''o'', CHR ''u''} then False
            else if token ! Suc i = CHR ''y'' then \<not> isConsonant token i
            else True)
      else False)"

text \<open>The number of vowel runs that are followed by a consonant.\<close>

fun measure_loop :: "string \<Rightarrow> nat list \<Rightarrow> bool \<Rightarrow> nat \<Rightarrow> nat" where
  "measure_loop token [] inVowelRun n = n"
| "measure_loop token (i # is) inVowelRun n =
     (if isConsonant token i
      then (if inVowelRun then measure_loop token is False (Suc n)
            else measure_loop token is inVowelRun n)
      else measure_loop token is True n)"

definition measure_token :: "string \<Rightarrow> nat" where
  "measure_token token = measure_loop token [0..<length token] False 0"

definition endsWithDoubleConsonant :: "string \<Rightarrow> bool" where
  "endsWithDoubleConsonant token =
     (if length token < 2 then False
      else token ! (length token - 1) = token ! (length token - 2)
        \<and> isConsonant token (length token - 1))"

definition isShortStem :: "string \<Rightarrow> bool" where
  "isShortStem token =
     (if length token < 3 then False
      else let l = length token - 1 in
        measure_token token = 1 \<and> isConsonant token l \<and> \<not> isConsonant token (l - 1)
        \<and> isConsonant token (l - 2) \<and> token ! l \<notin> {CHR ''w'', CHR ''x'', CHR ''y''})"

definition stemAfterSuffix :: "string \<Rightarrow> string" where
  "stemAfterSuffix base =
     (if HasSuffix base ''ic'' then base @ ''e''
      else if HasSuffix base ''at'' \<or> HasSuffix base ''bl'' \<or> HasSuffix base ''iz'' then base @ ''e''
      else if endsWithDoubleConsonant base \<and> \<not> HasSuffix base ''l'' \<and> \<not> HasSuffix base ''s''
        \<and> \<not> HasSuffix base ''z'' then chop 1 base
      else if isShortStem base then base @ ''e''
      else base)"

definition stem :: "string \<Rightarrow> string" where
  "stem token =
     (if length token > 4 \<and> HasSuffix token ''ied'' then chop 3 token @ ''y''
      else if length token > 4 \<and> HasSuffix token ''ing'' then stemAfterSuffix (chop 3 token)
      else if length token > 3 \<and> HasSuffix token ''ed'' then stemAfterSuffix (chop 2 token)
      else if length token > 3 \<and> HasSuffix token ''es''
      then (if endsWithSibilantOrIrregularO (chop 2 token) then chop 2 token else chop 1 token)
      else if length token > 2 \<and> HasSuffix token ''s'' \<and> \<not> HasSuffix token ''ss'' then chop 1 token
      else token)"

text \<open>\<^verbatim>\<open>dedupe\<close> trims each item, drops empty ones and keeps the first of each.\<close>

definition dedupe :: "string list \<Rightarrow> string list" where
  "dedupe items = keep_first (\<lambda>x. x) [] (filter (\<lambda>x. x \<noteq> []) (map TrimSpace items))"

text \<open>The loop body of \<^verbatim>\<open>normalizeTerms\<close>: \<open>None\<close> is \<^verbatim>\<open>continue\<close>.\<close>

definition term_of_part :: "string \<Rightarrow> string option" where
  "term_of_part part =
     (if part \<in> set layerb_stopWords then None
      else let part = stem part in
        if part = [] \<or> part \<in> set layerb_stopWords then None else Some part)"

definition normalizeTerms :: "(string \<Rightarrow> string) \<Rightarrow> string \<Rightarrow> string list" where
  "normalizeTerms u text =
     dedupe (List.map_filter term_of_part (Fields (normalizeText u text)))"

definition matchedAnchorTerms :: "(string \<Rightarrow> string) \<Rightarrow> string \<Rightarrow> string list \<Rightarrow> string list" where
  "matchedAnchorTerms u normalized terms =
     filter (\<lambda>t. t \<in> set (normalizeTerms u normalized)) terms"

definition minimumAnchorTermMatches :: "nat \<Rightarrow> nat" where
  "minimumAnchorTermMatches termCount =
     (if termCount \<le> 0 then 0 else if termCount \<le> 2 then termCount else termCount - 1)"

definition minimumAnchorTermMatchesForAggregation :: "nat \<Rightarrow> nat" where
  "minimumAnchorTermMatchesForAggregation termCount = (if termCount < 2 then termCount else 2)"

section \<open>Sentence spans\<close>

type_synonym span = "nat \<times> nat"

text \<open>
  \<^verbatim>\<open>trimSpanBounds(text, start, end)\<close>: the two loops move the bounds over white space. The
  result is \<open>None\<close> where the code returns \<^verbatim>\<open>false\<close>.
\<close>

function trim_start :: "string \<Rightarrow> nat \<Rightarrow> nat \<Rightarrow> nat" where
  "trim_start text i j =
     (if i < j \<and> 0 < space_len (slice text i j)
      then trim_start text (i + space_len (slice text i j)) j else i)"
  by pat_completeness auto
termination
  by (relation "measure (\<lambda>(text, i, j). j - i)") auto

function trim_end :: "string \<Rightarrow> nat \<Rightarrow> nat \<Rightarrow> nat" where
  "trim_end text i j =
     (if i < j \<and> 0 < space_len_end (slice text i j)
      then trim_end text i (j - space_len_end (slice text i j)) else j)"
  by pat_completeness auto
termination
  by (relation "measure (\<lambda>(text, i, j). j - i)") auto

declare trim_start.simps [simp del] trim_end.simps [simp del]

definition trimSpanBounds :: "string \<Rightarrow> nat \<Rightarrow> nat \<Rightarrow> span option" where
  "trimSpanBounds text i j =
     (let i' = trim_start text i j; j' = trim_end text i' j in
      if i' \<ge> j' then None else Some (i', j'))"

text \<open>
  The loop over the runes of the text: \<open>i\<close> is the byte index, \<open>start\<close> where the current
  sentence began. The terminators are ASCII, so scanning bytes finds the same positions.
\<close>

fun span_loop :: "string \<Rightarrow> nat list \<Rightarrow> nat \<Rightarrow> span list" where
  "span_loop text [] start =
     (case trimSpanBounds text start (length text) of None \<Rightarrow> [] | Some sp \<Rightarrow> [sp])"
| "span_loop text (i # is) start =
     (if text ! i \<in> {CHR ''.'', CHR ''!'', CHR ''?'', CHR 0x0A}
      then (case trimSpanBounds text start (i + 1) of None \<Rightarrow> [] | Some sp \<Rightarrow> [sp])
        @ span_loop text is (i + 1)
      else span_loop text is start)"

definition sentenceSpans :: "string \<Rightarrow> span list" where
  "sentenceSpans text =
     (if TrimSpace text = [] then [] else span_loop text [0..<length text] 0)"

section \<open>Facts on terms\<close>

lemma dedupe_distinct: "distinct (dedupe xs)"
  using distinct_keep_first [of "\<lambda>x. x" "[]" "filter (\<lambda>x. x \<noteq> []) (map TrimSpace xs)"]
  by (simp add: dedupe_def)

lemma set_dedupe: "set (dedupe xs) = TrimSpace ` set xs - {[]}"
  by (auto simp: dedupe_def keep_first_set)

lemma dedupe_trimmed: "x \<in> set (dedupe xs) \<Longrightarrow> TrimSpace x = x"
  by (auto simp: set_dedupe)

lemma dedupe_id: "distinct xs \<Longrightarrow> (\<And>x. x \<in> set xs \<Longrightarrow> TrimSpace x = x \<and> x \<noteq> []) \<Longrightarrow> dedupe xs = xs"
  by (simp add: dedupe_def map_idI filter_True)

lemma dedupe_idem [simp]: "dedupe (dedupe xs) = dedupe xs"
  by (rule dedupe_id) (auto simp: dedupe_distinct set_dedupe)

lemma dedupe_filter_terms: "dedupe (filter P (dedupe xs)) = filter P (dedupe xs)"
  by (rule dedupe_id) (auto simp: dedupe_distinct set_dedupe)

section \<open>Facts on spans\<close>

lemma length_slice: "j \<le> length s \<Longrightarrow> length (slice s i j) = j - i"
  by (simp add: slice_def)

lemma trim_start_bounds:
  "i \<le> j \<Longrightarrow> j \<le> length str \<Longrightarrow> i \<le> trim_start str i j \<and> trim_start str i j \<le> j"
proof (induction str i j rule: trim_start.induct)
  case (1 str i j)
  show ?case
  proof (cases "i < j \<and> 0 < space_len (slice str i j)")
    case True
    have "i + space_len (slice str i j) \<le> j"
      using space_len_le [of "slice str i j"] "1.prems" by (simp add: length_slice)
    from "1.IH" [OF True this "1.prems"(2)] show ?thesis
      using True by (simp add: trim_start.simps [of str i j])
  qed (use "1.prems" in \<open>auto simp: trim_start.simps [of str i j]\<close>)
qed

lemma trim_end_bounds:
  "i \<le> j \<Longrightarrow> j \<le> length str \<Longrightarrow> i \<le> trim_end str i j \<and> trim_end str i j \<le> j"
proof (induction str i j rule: trim_end.induct)
  case (1 str i j)
  show ?case
  proof (cases "i < j \<and> 0 < space_len_end (slice str i j)")
    case True
    have "i \<le> j - space_len_end (slice str i j)" "j - space_len_end (slice str i j) \<le> length str"
      using space_len_end_le [of "slice str i j"] "1.prems" by (simp_all add: length_slice)
    from "1.IH" [OF True this] have "i \<le> trim_end str i (j - space_len_end (slice str i j))"
      "trim_end str i (j - space_len_end (slice str i j)) \<le> j"
      by linarith+
    with True show ?thesis by (simp add: trim_end.simps [of str i j])
  qed (use "1.prems" in \<open>auto simp: trim_end.simps [of str i j]\<close>)
qed

lemma trim_start_space: "trim_start str i j < j \<Longrightarrow> space_len (slice str (trim_start str i j) j) = 0"
proof (induction str i j rule: trim_start.induct)
  case (1 str i j)
  then show ?case
    by (cases "i < j \<and> 0 < space_len (slice str i j)") (auto simp: trim_start.simps [of str i j])
qed

lemma trim_end_space: "i < trim_end str i j \<Longrightarrow> space_len_end (slice str i (trim_end str i j)) = 0"
proof (induction str i j rule: trim_end.induct)
  case (1 str i j)
  then show ?case
    by (cases "i < j \<and> 0 < space_len_end (slice str i j)") (auto simp: trim_end.simps [of str i j])
qed

lemma prefix_slice: "j \<le> k \<Longrightarrow> prefix (slice s i j) (slice s i k)"
  unfolding slice_def by (metis diff_le_mono min.absorb1 take_is_prefix take_take)

text \<open>A span of the text with no white space at either end.\<close>

definition tight_span :: "string \<Rightarrow> span \<Rightarrow> bool" where
  "tight_span str sp \<longleftrightarrow>
     (case sp of (i, j) \<Rightarrow> i < j \<and> j \<le> length str
        \<and> space_len (slice str i j) = 0 \<and> space_len_end (slice str i j) = 0)"

lemma trimSpanBounds_tight:
  assumes "trimSpanBounds str i j = Some (i', j')" "i \<le> j" "j \<le> length str"
  shows "tight_span str (i', j') \<and> i \<le> i' \<and> j' \<le> j"
proof -
  note d = assms(1) [unfolded trimSpanBounds_def Let_def]
  from d have i': "i' = trim_start str i j" and j': "j' = trim_end str i' j" and "i' < j'"
    by (auto split: if_splits)
  have b: "i \<le> i'" "i' \<le> j" using trim_start_bounds [OF assms(2,3)] by (auto simp: i')
  have e: "j' \<le> j" using trim_end_bounds [OF b(2) assms(3)] by (simp add: j')
  with \<open>i' < j'\<close> have lead: "space_len (slice str i' j) = 0"
    using trim_start_space [of str i j] by (simp add: i')
  have "space_len_end (slice str i' j') = 0"
    using trim_end_space [of i' str j] \<open>i' < j'\<close> by (simp add: j')
  with b e \<open>i' < j'\<close> assms(3) space_len_prefix [OF lead prefix_slice [OF e]] show ?thesis
    by (auto simp: tight_span_def)
qed

lemma spans_from_mono: "spans_from s j ms \<Longrightarrow> i \<le> j \<Longrightarrow> spans_from s i ms"
  by (cases ms) auto

lemma span_loop_spans:
  assumes "sorted_wrt (<) is" "\<And>k. k \<in> set is \<Longrightarrow> start \<le> k \<and> k < length str" "start \<le> length str"
  shows "spans_from str start (span_loop str is start)
    \<and> list_all (tight_span str) (span_loop str is start)"
  using assms
proof (induction str "is" start rule: span_loop.induct)
  case (1 str start)
  show ?case
  proof (cases "trimSpanBounds str start (length str)")
    case None
    with "1.prems" show ?thesis by simp
  next
    case (Some sp)
    obtain i j where sp: "sp = (i, j)" by (cases sp)
    from trimSpanBounds_tight [OF Some [unfolded sp] "1.prems"(3)] Some show ?thesis
      by (auto simp: sp tight_span_def)
  qed
next
  case (2 str k "is" start)
  show ?case
  proof (cases "str ! k \<in> {CHR ''.'', CHR ''!'', CHR ''?'', CHR 0x0A}")
    case False
    with "2.IH"(2) [OF False] "2.prems" show ?thesis by simp
  next
    case True
    have k: "start \<le> k + 1" "k + 1 \<le> length str" using "2.prems"(2) [of k] by auto
    have IH: "spans_from str (k + 1) (span_loop str is (k + 1))
        \<and> list_all (tight_span str) (span_loop str is (k + 1))"
      using "2.IH"(1) [OF True] "2.prems" k by (auto simp: Suc_le_eq)
    show ?thesis
    proof (cases "trimSpanBounds str start (k + 1)")
      case None
      with True IH k spans_from_mono show ?thesis by auto
    next
      case (Some sp)
      obtain i j where sp: "sp = (i, j)" by (cases sp)
      from trimSpanBounds_tight [OF Some [unfolded sp] k]
      have tight: "tight_span str (i, j)" "start \<le> i" "j \<le> k + 1" by auto
      then have "i \<le> j" "j \<le> length str" by (simp_all add: tight_span_def)
      with tight Some True IH spans_from_mono [of str "k + 1" _ j]
      show ?thesis by (simp add: sp)
    qed
  qed
qed

lemma sentenceSpans_facts:
  "spans_from str 0 (sentenceSpans str) \<and> list_all (tight_span str) (sentenceSpans str)"
proof (cases "TrimSpace str = []")
  case True
  then show ?thesis by (simp add: sentenceSpans_def)
next
  case False
  then show ?thesis
    using span_loop_spans [of "[0..<length str]" 0 str] by (simp add: sentenceSpans_def)
qed

end
