(* ===== verification/Union_Find.thy ===== *)
theory Union_Find
  imports Engram_Prelude
begin

text \<open>
  The union-find forest that \<^verbatim>\<open>contributionsAreConnected\<close> and \<^verbatim>\<open>connectedComponents\<close>
  (\<^verbatim>\<open>src/internal/layerb/layerb.go\<close>, \<^verbatim>\<open>diagnose.go\<close>) build in a local slice
  \<^verbatim>\<open>parent\<close>: \<^verbatim>\<open>find\<close> walks to the root and halves the path on its way, \<^verbatim>\<open>union\<close> links one
  root to the other. The walk has no bound of its own, so it is a partial function whose
  result \<open>None\<close> means that it does not return; the contract below says it always does.
\<close>

section \<open>The contract\<close>

text \<open>
  \<open>repr u f\<close>: the structure \<open>u\<close> represents the partition in which the class of \<open>i\<close> has the
  representative \<open>f i\<close>.
\<close>

locale disjoint_set_forest =
  fixes lookup :: "'u \<Rightarrow> nat \<Rightarrow> ('u \<times> nat) option"
    and unite :: "'u \<Rightarrow> nat \<Rightarrow> nat \<Rightarrow> 'u option"
    and repr :: "'u \<Rightarrow> (nat \<Rightarrow> nat) \<Rightarrow> bool"
    and dim :: "'u \<Rightarrow> nat"
  assumes lookup_law:
      "repr u f \<Longrightarrow> i < dim u \<Longrightarrow> \<exists>u'. lookup u i = Some (u', f i) \<and> repr u' f \<and> dim u' = dim u"
    and unite_law:
      "repr u f \<Longrightarrow> a < dim u \<Longrightarrow> b < dim u \<Longrightarrow>
        \<exists>u'. unite u a b = Some u' \<and> repr u' (\<lambda>i. if f i = f a then f b else f i)
          \<and> dim u' = dim u"
    and repr_dim: "repr u f \<Longrightarrow> i < dim u \<Longrightarrow> f i < dim u"

text \<open>The classes generated by a list of edges: the equivalence closure of the edges.\<close>

definition linked :: "(nat \<times> nat) list \<Rightarrow> (nat \<times> nat) set" where
  "linked es = (set es \<union> (set es)\<inverse>)\<^sup>*"

lemma linked_refl [simp]: "(i, i) \<in> linked es"
  by (simp add: linked_def)

lemma linked_sym: "(i, j) \<in> linked es \<Longrightarrow> (j, i) \<in> linked es"
  unfolding linked_def by (rule symD [OF sym_rtrancl]) (auto simp: sym_def)

lemma linked_trans: "(i, j) \<in> linked es \<Longrightarrow> (j, k) \<in> linked es \<Longrightarrow> (i, k) \<in> linked es"
  by (simp add: linked_def)

lemma linked_edge: "(i, j) \<in> set es \<Longrightarrow> (i, j) \<in> linked es"
  by (auto simp: linked_def)

lemma linked_mono: "set es \<subseteq> set fs \<Longrightarrow> linked es \<subseteq> linked fs"
  unfolding linked_def by (rule rtrancl_mono) auto

lemma linked_Nil: "linked [] = Id"
  by (simp add: linked_def)

text \<open>Adding the edge \<open>(a, b)\<close> at the end merges the class of \<open>a\<close> into that of \<open>b\<close>.\<close>

lemma linked_snoc:
  "(i, j) \<in> linked (es @ [(a, b)]) \<longleftrightarrow>
     (i, j) \<in> linked es \<or> (i, a) \<in> linked es \<and> (b, j) \<in> linked es
       \<or> (i, b) \<in> linked es \<and> (a, j) \<in> linked es"
proof
  assume "(i, j) \<in> linked (es @ [(a, b)])"
  then show "(i, j) \<in> linked es \<or> (i, a) \<in> linked es \<and> (b, j) \<in> linked es
      \<or> (i, b) \<in> linked es \<and> (a, j) \<in> linked es"
    unfolding linked_def [of "es @ [(a, b)]"]
  proof (induction rule: rtrancl_induct)
    case (step x y)
    then consider "x = a" "y = b" | "x = b" "y = a" | "(x, y) \<in> linked es"
      by (auto intro: linked_edge linked_sym)
    then show ?case
      using step.IH by cases (auto intro: linked_trans)
  qed simp
next
  let ?L = "linked (es @ [(a, b)])"
  have ab: "(a, b) \<in> ?L" by (rule linked_edge) simp
  have sub: "linked es \<subseteq> ?L" by (rule linked_mono) auto
  assume "(i, j) \<in> linked es \<or> (i, a) \<in> linked es \<and> (b, j) \<in> linked es
      \<or> (i, b) \<in> linked es \<and> (a, j) \<in> linked es"
  then show "(i, j) \<in> ?L"
    using sub ab by (meson linked_sym linked_trans subsetD)
qed

text \<open>A loop that unites the ends of each edge in turn.\<close>

fun unite_all :: "('u \<Rightarrow> nat \<Rightarrow> nat \<Rightarrow> 'u option) \<Rightarrow> (nat \<times> nat) list \<Rightarrow> 'u \<Rightarrow> 'u option" where
  "unite_all unite [] u = Some u"
| "unite_all unite ((a, b) # es) u =
     (case unite u a b of None \<Rightarrow> None | Some u' \<Rightarrow> unite_all unite es u')"

text \<open>A loop that looks every element of a list up.\<close>

fun find_each ::
  "('u \<Rightarrow> nat \<Rightarrow> ('u \<times> nat) option) \<Rightarrow> nat list \<Rightarrow> 'u \<Rightarrow> ('u \<times> nat list) option" where
  "find_each lookup [] u = Some (u, [])"
| "find_each lookup (i # is) u =
     (case lookup u i of None \<Rightarrow> None
      | Some (u', r) \<Rightarrow>
          (case find_each lookup is u' of None \<Rightarrow> None | Some (u'', rs) \<Rightarrow> Some (u'', r # rs)))"

lemma unite_all_append:
  "unite_all unite (es @ fs) u
     = (case unite_all unite es u of None \<Rightarrow> None | Some u' \<Rightarrow> unite_all unite fs u')"
  by (induction es arbitrary: u) (auto split: option.splits)

context disjoint_set_forest
begin

lemma unite_all_linked:
  assumes "repr u (\<lambda>i. i)" "\<And>a b. (a, b) \<in> set es \<Longrightarrow> a < dim u \<and> b < dim u"
  shows "\<exists>u' f. unite_all unite es u = Some u' \<and> repr u' f \<and> dim u' = dim u
    \<and> (\<forall>i j. f i = f j \<longleftrightarrow> (i, j) \<in> linked es)"
  using assms(2)
proof (induction es rule: rev_induct)
  case Nil
  show ?case using assms(1) by (auto simp: linked_Nil)
next
  case (snoc e es)
  obtain a b where e: "e = (a, b)" by (cases e)
  have "\<And>a b. (a, b) \<in> set es \<Longrightarrow> a < dim u \<and> b < dim u" using snoc.prems by auto
  from snoc.IH [OF this] obtain u1 f where
      u1: "unite_all unite es u = Some u1" "repr u1 f" "dim u1 = dim u"
        "\<forall>i j. f i = f j \<longleftrightarrow> (i, j) \<in> linked es"
    by blast
  have "a < dim u1" "b < dim u1" using snoc.prems e u1(3) by auto
  from unite_law [OF u1(2) this] obtain u2 where
      u2: "unite u1 a b = Some u2" "repr u2 (\<lambda>i. if f i = f a then f b else f i)"
        "dim u2 = dim u1"
    by blast
  have "(if f i = f a then f b else f i) = (if f j = f a then f b else f j)
      \<longleftrightarrow> (i, j) \<in> linked (es @ [(a, b)])" for i j
    using u1(4) by (simp add: linked_snoc) (metis linked_sym)
  with u1 u2 show ?case
    by (auto simp: unite_all_append e intro!: exI [of _ "\<lambda>i. if f i = f a then f b else f i"])
qed

lemma find_each_reps:
  assumes "repr u f" "\<And>i. i \<in> set is \<Longrightarrow> i < dim u"
  shows "\<exists>u'. find_each lookup is u = Some (u', map f is) \<and> repr u' f \<and> dim u' = dim u"
  using assms
proof (induction "is" arbitrary: u)
  case (Cons i "is")
  from lookup_law [OF Cons.prems(1)] Cons.prems(2) obtain u1 where
      u1: "lookup u i = Some (u1, f i)" "repr u1 f" "dim u1 = dim u"
    by (metis list.set_intros(1))
  with Cons.IH [OF u1(2)] Cons.prems(2) obtain u2 where
      "find_each lookup is u1 = Some (u2, map f is)" "repr u2 f" "dim u2 = dim u1"
    by auto
  with u1 show ?case by simp
qed simp

end

section \<open>The forest of the code\<close>

text \<open>
  \<^verbatim>\<open>for parent[i] != i { parent[i] = parent[parent[i]]; i = parent[i] }\<close>
\<close>

partial_function (option) find_root :: "nat list \<Rightarrow> nat \<Rightarrow> (nat list \<times> nat) option" where
  "find_root parent i =
     (if parent ! i = i then Some (parent, i)
      else let parent' = parent[i := parent ! (parent ! i)] in find_root parent' (parent' ! i))"

definition union_roots :: "nat list \<Rightarrow> nat \<Rightarrow> nat \<Rightarrow> nat list option" where
  "union_roots parent a b =
     (case find_root parent a of None \<Rightarrow> None
      | Some (parent1, ra) \<Rightarrow>
          (case find_root parent1 b of None \<Rightarrow> None
           | Some (parent2, rb) \<Rightarrow>
               Some (if ra \<noteq> rb then parent2[ra := rb] else parent2)))"

text \<open>
  \<open>d\<close> decreases along every parent link, so the walk ends; \<open>f\<close> is constant along links and
  maps every node to a root.
\<close>

definition forest_with :: "(nat \<Rightarrow> nat) \<Rightarrow> nat list \<Rightarrow> (nat \<Rightarrow> nat) \<Rightarrow> bool" where
  "forest_with d parent f \<longleftrightarrow>
     (\<forall>i < length parent. parent ! i < length parent \<and> f i < length parent
        \<and> f (parent ! i) = f i \<and> parent ! (f i) = f i
        \<and> (if parent ! i = i then f i = i else d (parent ! i) < d i))
     \<and> (\<forall>i \<ge> length parent. f i = i)"

definition forest :: "nat list \<Rightarrow> (nat \<Rightarrow> nat) \<Rightarrow> bool" where
  "forest parent f \<longleftrightarrow> (\<exists>d. forest_with d parent f)"

lemma forest_withD:
  assumes "forest_with d parent f" "i < length parent"
  shows "parent ! i < length parent" "f i < length parent" "f (parent ! i) = f i"
    "parent ! (f i) = f i" "parent ! i = i \<Longrightarrow> f i = i"
    "parent ! i \<noteq> i \<Longrightarrow> d (parent ! i) < d i"
  using assms unfolding forest_with_def by metis+

lemma forest_grandparent:
  assumes "forest_with d parent f" "i < length parent" "parent ! i \<noteq> i"
  shows "d (parent ! (parent ! i)) < d i"
  using forest_withD(6) [OF assms] forest_withD(6) [OF assms(1) forest_withD(1) [OF assms(1,2)]]
  by (cases "parent ! (parent ! i) = parent ! i") auto

lemma forest_halve:
  assumes F: "forest_with d parent f" and i: "i < length parent" "parent ! i \<noteq> i"
  shows "forest_with d (parent[i := parent ! (parent ! i)]) f"
  unfolding forest_with_def
proof (intro conjI allI impI)
  note D = forest_withD [OF F]
  let ?g = "parent ! (parent ! i)"
  have pi: "parent ! i < length parent" by (rule D(1) [OF i(1)])
  have g: "?g < length parent" "f ?g = f i" "d ?g < d i"
    using D(1,3) [OF pi] D(3) [OF i(1)] forest_grandparent [OF F i] by auto
  then have "?g \<noteq> i" by auto
  note g = g this
  have root: "f j \<noteq> i" if "j < length parent" for j
    using D(4) [OF that] i(2) by auto
  fix j
  assume "j < length (parent[i := ?g])"
  then have j: "j < length parent" by simp
  show "parent[i := ?g] ! j < length (parent[i := ?g])"
    and "f j < length (parent[i := ?g])"
    and "f (parent[i := ?g] ! j) = f j"
    and "parent[i := ?g] ! (f j) = f j"
    and "if parent[i := ?g] ! j = j then f j = j else d (parent[i := ?g] ! j) < d j"
    using D [OF j] g root [OF j] i j by (auto simp: nth_list_update)
next
  fix j
  assume "j \<ge> length (parent[i := parent ! (parent ! i)])"
  with F show "f j = j" by (simp add: forest_with_def)
qed

lemma find_root_forest:
  assumes "forest_with d parent f" "i < length parent"
  shows "\<exists>parent'. find_root parent i = Some (parent', f i) \<and> forest_with d parent' f
    \<and> length parent' = length parent"
  using assms
proof (induction "d i" arbitrary: parent i rule: less_induct)
  case less
  note D = forest_withD [OF less.prems]
  show ?case
  proof (cases "parent ! i = i")
    case True
    with D(5) less.prems(1) show ?thesis by (simp add: find_root.simps)
  next
    case False
    let ?p = "parent[i := parent ! (parent ! i)]"
    let ?g = "parent ! (parent ! i)"
    have H: "forest_with d ?p f" by (rule forest_halve [OF less.prems False])
    have pi: "?p ! i = ?g" using less.prems(2) by simp
    note H' = forest_withD [OF H, of i]
    have "f ?g = f i" "?g < length ?p"
      using H' less.prems(2) pi by auto
    from less.hyps [OF forest_grandparent [OF less.prems False] H this(2)] this(1) False pi
    show ?thesis by (simp add: find_root.simps [of parent i] Let_def)
  qed
qed

text \<open>Linking root \<open>ra\<close> below root \<open>rb\<close>.\<close>

lemma forest_link:
  assumes F: "forest_with d parent f" and a: "a < length parent" and b: "b < length parent"
    and ne: "f a \<noteq> f b"
  shows "forest_with (\<lambda>i. if f i = f a then d i + d (f b) + 1 else d i)
    (parent[f a := f b]) (\<lambda>i. if f i = f a then f b else f i)"
  unfolding forest_with_def
proof (intro conjI allI impI)
  note D = forest_withD [OF F]
  have ra: "f a < length parent" "parent ! f a = f a" and rb: "f b < length parent" "parent ! f b = f b"
    using D [OF a] D [OF b] by auto
  have fra: "f (f a) = f a" and frb: "f (f b) = f b"
    using D(5) [OF ra(1,2)] D(5) [OF rb(1,2)] by auto
  fix i
  assume "i < length (parent[f a := f b])"
  then have i: "i < length parent" by simp
  note Di = D [OF i]
  show "parent[f a := f b] ! i < length (parent[f a := f b])"
    and "(if f i = f a then f b else f i) < length (parent[f a := f b])"
    and "(if f (parent[f a := f b] ! i) = f a then f b else f (parent[f a := f b] ! i))
        = (if f i = f a then f b else f i)"
    and "parent[f a := f b] ! (if f i = f a then f b else f i) = (if f i = f a then f b else f i)"
    and "if parent[f a := f b] ! i = i then (if f i = f a then f b else f i) = i
      else (if f (parent[f a := f b] ! i) = f a
            then d (parent[f a := f b] ! i) + d (f b) + 1 else d (parent[f a := f b] ! i))
        < (if f i = f a then d i + d (f b) + 1 else d i)"
    using Di ra rb fra frb ne i by (auto simp: nth_list_update)
next
  fix i
  assume "i \<ge> length (parent[f a := f b])"
  then have "f i = i" "i \<noteq> f a"
    using F forest_withD(2) [OF F a] by (auto simp: forest_with_def)
  then show "(if f i = f a then f b else f i) = i"
    by simp
qed

interpretation parent_forest: disjoint_set_forest find_root union_roots forest length
proof
  fix u f i
  assume "forest u f" "i < length u"
  then show "\<exists>u'. find_root u i = Some (u', f i) \<and> forest u' f \<and> length u' = length u"
    unfolding forest_def using find_root_forest by blast
next
  fix u f a b
  assume u: "forest u f" and a: "a < length u" and b: "b < length u"
  then obtain d where d: "forest_with d u f" by (auto simp: forest_def)
  from find_root_forest [OF d a] obtain u1 where
      u1: "find_root u a = Some (u1, f a)" "forest_with d u1 f" "length u1 = length u"
    by blast
  from find_root_forest [OF u1(2)] b u1(3) obtain u2 where
      u2: "find_root u1 b = Some (u2, f b)" "forest_with d u2 f" "length u2 = length u1"
    by metis
  show "\<exists>u'. union_roots u a b = Some u' \<and> forest u' (\<lambda>i. if f i = f a then f b else f i)
      \<and> length u' = length u"
  proof (cases "f a = f b")
    case True
    then have "(\<lambda>i. if f i = f a then f b else f i) = f" by auto
    with True u1 u2 show ?thesis by (auto simp: union_roots_def forest_def)
  next
    case False
    with forest_link [OF u2(2), of a b] a b u1(3) u2(3) u1(1) u2(1) show ?thesis
      by (auto simp: union_roots_def forest_def)
  qed
next
  fix u f i
  assume "forest u f" "i < length u"
  then show "f i < length u" by (auto simp: forest_def dest: forest_withD(2))
qed

lemma forest_upt: "forest [0..<n] (\<lambda>i. i)"
  by (auto simp: forest_def forest_with_def)

end
