(* ===== verification/Engram_Types.thy ===== *)
theory Engram_Types
  imports Engram_Prelude
begin

text \<open>
  The core data of the memory system and its validators (\<^verbatim>\<open>src/internal/types/types.go\<close>).
  A pointer field is an option; the prefixes of the field names tell the records apart.
\<close>

section \<open>Closed sets of strings\<close>

definition memory_types :: "string list" where
  "memory_types =
     [''decision'', ''pattern'', ''error'', ''context'', ''architecture'', ''preference'']"

definition relation_types :: "string list" where
  "relation_types =
     [''caused_by'', ''relates_to'', ''depends_on'', ''supersedes'', ''used_in'', ''resolved_by'',
      ''contradicts'', ''supports'', ''derived_from'', ''part_of'', ''follows'']"

definition failure_classes :: "string list" where
  "failure_classes =
     [''vocabulary_mismatch'', ''aggregation_failure'', ''stale_ranking'', ''missing_content'',
      ''scope_mismatch'', ''other'']"

definition ValidateFailureClass :: "string \<Rightarrow> bool" where
  "ValidateFailureClass s = (if s = [] then True else s \<in> set failure_classes)"

definition ValidateMemoryType :: "string \<Rightarrow> bool" where
  "ValidateMemoryType s = (s \<in> set memory_types)"

definition ValidateRelationType :: "string \<Rightarrow> bool" where
  "ValidateRelationType s = (s \<in> set relation_types)"

definition ValidateImportance :: "int \<Rightarrow> int" where
  "ValidateImportance n = (if n < 0 then 0 else if n > 4 then 4 else n)"

text \<open>
  The validator of confidences looks at the special values first, so its argument is a
  \<^verbatim>\<open>float64\<close> with them.
\<close>

datatype float_value = NaN | Inf bool | Fin float64

datatype confidence_error = GotNaN | NotFinite | BelowZero | AboveOne

definition ValidatePatternConfidence :: "float_value \<Rightarrow> confidence_error + float64" where
  "ValidatePatternConfidence f =
     (case f of NaN \<Rightarrow> Inl GotNaN
      | Inf _ \<Rightarrow> Inl NotFinite
      | Fin x \<Rightarrow> if x < 0 then Inl BelowZero else if x > 1 then Inl AboveOne else Inr x)"

section \<open>Records\<close>

record Memory =
  m_ID :: string
  m_Content :: string
  m_RawBody :: string
  m_MemoryType :: string
  m_Project :: string
  m_Tags :: "string list"
  m_Importance :: int
  m_AccessCount :: int
  m_LastAccessed :: gotime
  m_CreatedAt :: gotime
  m_UpdatedAt :: gotime
  m_Immutable :: bool
  m_ExpiresAt :: "gotime option"
  m_Summary :: "string option"
  m_ContentHash :: "string option"
  m_StorageMode :: string
  m_ValidFrom :: "gotime option"
  m_ValidTo :: "gotime option"
  m_InvalidationReason :: "string option"
  m_PatternConfidence :: "float64 option"
  m_DynamicImportance :: "float64 option"
  m_RetrievalIntervalHrs :: float64
  m_NextReviewAt :: "gotime option"
  m_TimesRetrieved :: int
  m_TimesUseful :: int
  m_RetrievalPrecision :: "float64 option"
  m_EpisodeID :: string
  m_DocumentID :: string

record Chunk =
  c_ID :: string
  c_MemoryID :: string
  c_ChunkText :: string
  c_ChunkIndex :: int
  c_ChunkHash :: string
  c_Embedding :: "float32 list"
  c_SectionHeading :: "string option"
  c_ChunkType :: string
  c_LastMatched :: "gotime option"
  c_Project :: string

record Relationship =
  r_ID :: string
  r_SourceID :: string
  r_TargetID :: string
  r_RelType :: string
  r_Strength :: float64
  r_Project :: string
  r_CreatedAt :: gotime

record ConnectedMemory =
  k_Memory :: "Memory option"
  k_RelType :: string
  k_Direction :: string
  k_Strength :: float64

record SearchResult =
  s_Memory :: "Memory option"
  s_Score :: float64
  s_ScoreBreakdown :: "string \<rightharpoonup> float64"
  s_MatchedChunk :: string
  s_ChunkScore :: float64
  s_MatchedChunkIndex :: int
  s_AtomPreamble :: string
  s_Connected :: "ConnectedMemory list"
  s_MatchedChunkSection :: "string option"

section \<open>Validators\<close>

lemma ValidateImportance_range: "0 \<le> ValidateImportance n \<and> ValidateImportance n \<le> 4"
  by (simp add: ValidateImportance_def)

lemma ValidateImportance_id: "0 \<le> n \<Longrightarrow> n \<le> 4 \<Longrightarrow> ValidateImportance n = n"
  by (simp add: ValidateImportance_def)

end
