(* ===== verification/Layer_B.thy ===== *)
theory Layer_B
  imports Layer_B_Text Union_Find Engram_Types
begin

text \<open>
  Layer B's deterministic aggregation (\<^verbatim>\<open>src/internal/layerb/layerb.go\<close>, \<^verbatim>\<open>diagnose.go\<close>)
  over the store of \<^verbatim>\<open>src/internal/db/postgres_layerb.go\<close>: evidence spans are extracted from
  the recalled memories, two gates decide whether together they cover the question, and only
  then is anything persisted and counted.
\<close>

section \<open>Data\<close>

record lb_Atom =
  a_Project :: string
  a_MemoryID :: string
  a_ProvenanceSpan :: string
  a_SpanText :: string
  a_Statement :: string
  a_NormalizedText :: string
  a_EventTime :: "gotime option"

record lb_Event =
  e_Project :: string
  e_MemoryID :: string
  e_ProvenanceSpan :: string
  e_SpanText :: string
  e_Anchor :: string
  e_NormalizedText :: string
  e_EventTime :: "gotime option"

record lb_EventRecord =
  er_MemoryID :: string
  er_ProvenanceSpan :: string
  er_SpanText :: string
  er_Anchor :: string
  er_NormalizedText :: string
  er_EventTime :: "gotime option"

record lb_Summary =
  lb_Mode :: string
  lb_Anchor :: string
  lb_Count :: nat
  lb_Evidence :: "lb_EventRecord list"

type_synonym memberContribution = "lb_Atom list \<times> string list"

section \<open>Extraction\<close>

definition show_span :: "span \<Rightarrow> string" where
  "show_span sp = ''chars:'' @ show_nat (fst sp) @ ''-'' @ show_nat (snd sp)"

definition memoryEventTime :: "Memory \<Rightarrow> gotime option" where
  "memoryEventTime mem =
     (case m_ValidFrom mem of Some t \<Rightarrow> Some t
      | None \<Rightarrow> if m_CreatedAt mem = 0 then None else Some (m_CreatedAt mem))"

definition atom_at :: "(string \<Rightarrow> string) \<Rightarrow> Memory \<Rightarrow> span \<Rightarrow> lb_Atom" where
  "atom_at u mem sp =
     (let sentence = slice (m_Content mem) (fst sp) (snd sp) in
      \<lparr>a_Project = m_Project mem, a_MemoryID = m_ID mem, a_ProvenanceSpan = show_span sp,
       a_SpanText = sentence, a_Statement = sentence, a_NormalizedText = normalizeText u sentence,
       a_EventTime = memoryEventTime mem\<rparr>)"

definition extractMatchingAtoms ::
  "(string \<Rightarrow> string) \<Rightarrow> Memory \<Rightarrow> string list \<Rightarrow> lb_Atom list \<times> string list" where
  "extractMatchingAtoms u mem anchorTerms =
     (let content = m_Content mem;
          wholeMemoryMatched = dedupe (matchedAnchorTerms u (normalizeText u content) anchorTerms);
          aggregationMin = minimumAnchorTermMatchesForAggregation (length anchorTerms);
          qualifies = (\<lambda>sp.
            let sentence = slice content (fst sp) (snd sp) in
            sentence \<noteq> [] \<and>
            \<not> length (matchedAnchorTerms u (normalizeText u sentence) anchorTerms) < aggregationMin);
          matches = map (atom_at u mem) (filter qualifies (sentenceSpans content))
      in
      if matches \<noteq> [] then (matches, wholeMemoryMatched)
      else if length wholeMemoryMatched < minimumAnchorTermMatches (length anchorTerms)
      then ([], [])
      else
        (case trimSpanBounds content 0 (length content) of
           Some sp \<Rightarrow> ([atom_at u mem sp], wholeMemoryMatched)
         | None \<Rightarrow> ([], wholeMemoryMatched)))"

section \<open>Connectivity of the contributions\<close>

definition sharesTerm :: "string list \<Rightarrow> string list \<Rightarrow> bool" where
  "sharesTerm a b = list_ex (\<lambda>t. t \<in> set a) b"

text \<open>The pairs the two nested loops visit and unite, in their order.\<close>

definition shared_pairs :: "string list list \<Rightarrow> (nat \<times> nat) list" where
  "shared_pairs ts =
     concat (map (\<lambda>i. map (Pair i)
       (filter (\<lambda>j. sharesTerm (ts ! i) (ts ! j)) [Suc i..<length ts])) [0..<length ts])"

text \<open>
  \<open>None\<close> would mean that a walk in the forest does not return. \<^verbatim>\<open>find(0)\<close> is compared with
  \<^verbatim>\<open>find(i)\<close> for each \<open>i\<close> from 1 on.
\<close>

definition contributionsAreConnected :: "string list list \<Rightarrow> bool option" where
  "contributionsAreConnected ts =
     (if length ts \<le> 1 then Some True
      else case unite_all union_roots (shared_pairs ts) [0..<length ts] of
        None \<Rightarrow> None
      | Some parent \<Rightarrow>
          (case find_each find_root [0..<length ts] parent of
             None \<Rightarrow> None
           | Some (_, roots) \<Rightarrow> Some (list_all (\<lambda>r. r = hd roots) (tl roots))))"

definition connectedComponents :: "string list list \<Rightarrow> nat option" where
  "connectedComponents ts =
     (if length ts \<le> 1 then Some (length ts)
      else case unite_all union_roots (shared_pairs ts) [0..<length ts] of
        None \<Rightarrow> None
      | Some parent \<Rightarrow>
          (case find_each find_root [0..<length ts] parent of
             None \<Rightarrow> None
           | Some (_, roots) \<Rightarrow> Some (card (set roots))))"

section \<open>Building the summary\<close>

datatype lb_error = UpsertAtomFailed | UpsertEventFailed | ListEventsFailed

text \<open>The interface \<^verbatim>\<open>Store\<close>: each method may fail.\<close>

record 's lb_Store =
  UpsertLayerBAtom :: "lb_Atom \<Rightarrow> 's \<Rightarrow> 's option"
  UpsertLayerBEvent :: "lb_Event \<Rightarrow> 's \<Rightarrow> 's option"
  ListLayerBEvents :: "string \<Rightarrow> string list \<Rightarrow> 's \<Rightarrow> lb_EventRecord list option"

text \<open>
  The first loop of \<^verbatim>\<open>BuildSummary\<close>: the project of the first usable result, and for each
  contributing memory its id and contribution.
\<close>

definition usable :: "SearchResult \<Rightarrow> Memory option" where
  "usable r =
     (case s_Memory r of None \<Rightarrow> None
      | Some mem \<Rightarrow> if TrimSpace (m_Content mem) = [] then None else Some mem)"

definition contribution ::
  "(string \<Rightarrow> string) \<Rightarrow> string list \<Rightarrow> Memory \<Rightarrow> (string \<times> memberContribution) option" where
  "contribution u anchorTerms mem =
     (let (matches, matched) = extractMatchingAtoms u mem anchorTerms in
      if matches = [] then None else Some (m_ID mem, matches, dedupe matched))"

fun first_project :: "Memory list \<Rightarrow> string" where
  "first_project [] = []"
| "first_project (mem # mems) = (if m_Project mem = [] then first_project mems else m_Project mem)"

definition contributions_of ::
  "(string \<Rightarrow> string) \<Rightarrow> string list \<Rightarrow> SearchResult list \<Rightarrow> (string \<times> memberContribution) list" where
  "contributions_of u anchorTerms results =
     List.map_filter (contribution u anchorTerms) (List.map_filter usable results)"

definition event_of :: "string \<Rightarrow> lb_Atom \<Rightarrow> lb_Event" where
  "event_of anchor atom =
     \<lparr>e_Project = a_Project atom, e_MemoryID = a_MemoryID atom,
      e_ProvenanceSpan = a_ProvenanceSpan atom, e_SpanText = a_SpanText atom, e_Anchor = anchor,
      e_NormalizedText = a_NormalizedText atom, e_EventTime = a_EventTime atom\<rparr>"

text \<open>The loop that persists an atom and its event, with its early returns.\<close>

fun persist :: "'s lb_Store \<Rightarrow> string \<Rightarrow> lb_Atom list \<Rightarrow> 's \<Rightarrow> (lb_error \<times> 's) + 's" where
  "persist store anchor [] s = Inr s"
| "persist store anchor (atom # atoms) s =
     (case UpsertLayerBAtom store atom s of
        None \<Rightarrow> Inl (UpsertAtomFailed, s)
      | Some s1 \<Rightarrow>
          (case UpsertLayerBEvent store (event_of anchor atom) s1 of
             None \<Rightarrow> Inl (UpsertEventFailed, s1)
           | Some s2 \<Rightarrow> persist store anchor atoms s2))"

definition evidence_before :: "lb_EventRecord \<Rightarrow> lb_EventRecord \<Rightarrow> bool" where
  "evidence_before a b =
     (case (er_EventTime a, er_EventTime b) of
        (None, None) \<Rightarrow> er_ProvenanceSpan a < er_ProvenanceSpan b
      | (None, Some _) \<Rightarrow> False
      | (Some _, None) \<Rightarrow> True
      | (Some s, Some t) \<Rightarrow>
          if s = t then er_ProvenanceSpan a < er_ProvenanceSpan b else s < t)"

text \<open>The three gates before anything is persisted: \<open>None\<close> is \<^verbatim>\<open>return nil, nil\<close>.\<close>

definition gates ::
  "string \<Rightarrow> string list \<Rightarrow> (string \<times> memberContribution) list \<Rightarrow> bool option" where
  "gates project anchorTerms cs =
     (if cs = [] \<or> project = [] then Some False
      else if length (dedupe (concat (map (snd \<circ> snd) cs)))
        < minimumAnchorTermMatches (length anchorTerms) then Some False
      else contributionsAreConnected (map (snd \<circ> snd) cs))"

definition collect ::
  "'s lb_Store \<Rightarrow> string \<Rightarrow> string \<Rightarrow> string list \<Rightarrow> 's \<Rightarrow> lb_error + lb_Summary option" where
  "collect store project wantAnchor memoryIDs s =
     (case ListLayerBEvents store project (dedupe memoryIDs) s of
        None \<Rightarrow> Inl ListEventsFailed
      | Some records \<Rightarrow>
          let evidence = filter (\<lambda>r. er_Anchor r = wantAnchor) records in
          if evidence = [] then Inr None
          else Inr (Some \<lparr>lb_Mode = ''count'', lb_Anchor = wantAnchor, lb_Count = length evidence,
            lb_Evidence = sort_stable evidence_before evidence\<rparr>))"

definition persist_and_collect ::
  "'s lb_Store \<Rightarrow> string \<Rightarrow> string \<Rightarrow> (string \<times> memberContribution) list \<Rightarrow> 's
    \<Rightarrow> (lb_error + lb_Summary option) \<times> 's" where
  "persist_and_collect store project wantAnchor cs s =
     (case persist store wantAnchor (concat (map (fst \<circ> snd) cs)) s of
        Inl (err, s') \<Rightarrow> (Inl err, s')
      | Inr s' \<Rightarrow> (collect store project wantAnchor (map fst cs) s', s'))"

definition BuildSummary ::
  "(string \<Rightarrow> string) \<Rightarrow> 's lb_Store \<Rightarrow> string \<Rightarrow> SearchResult list \<Rightarrow> 's
    \<Rightarrow> ((lb_error + lb_Summary option) \<times> 's) option" where
  "BuildSummary u store q results s =
     (if \<not> IsAggregationQuestion q then Some (Inr None, s)
      else
        let anchor = TrimSpace (ExtractAggregationAnchor u q);
            anchorTerms = normalizeTerms u anchor in
        if anchorTerms = [] then Some (Inr None, s)
        else
          let cs = contributions_of u anchorTerms results;
              project = first_project (List.map_filter usable results);
              wantAnchor = Join anchorTerms '' '' in
          case gates project anchorTerms cs of
            None \<Rightarrow> None
          | Some False \<Rightarrow> Some (Inr None, s)
          | Some True \<Rightarrow> Some (persist_and_collect store project wantAnchor cs s))"

section \<open>Diagnosis\<close>

datatype lb_gate = GateNone | GateNotAggregation | GateEmptyAnchor | GateNoContributions
  | GateCollectiveCoverage | GateConnectivity

record lb_Diagnosis =
  d_Anchor :: string
  d_AnchorTerms :: "string list"
  d_UnionRequired :: nat
  d_RecallCount :: nat
  d_ContributingMemories :: nat
  d_UnionMatchedTerms :: "string list"
  d_Connected :: bool
  d_ConnectedComponents :: nat
  d_FailedGate :: lb_gate
  d_WouldFire :: bool

definition DiagnoseBuildSummary ::
  "(string \<Rightarrow> string) \<Rightarrow> string \<Rightarrow> SearchResult list \<Rightarrow> lb_Diagnosis option" where
  "DiagnoseBuildSummary u q results =
     (let d = \<lparr>d_Anchor = [], d_AnchorTerms = [], d_UnionRequired = 0,
            d_RecallCount = length results, d_ContributingMemories = 0, d_UnionMatchedTerms = [],
            d_Connected = True, d_ConnectedComponents = 0, d_FailedGate = GateNone,
            d_WouldFire = False\<rparr> in
      if \<not> IsAggregationQuestion q then Some (d\<lparr>d_FailedGate := GateNotAggregation\<rparr>)
      else
        let anchor = TrimSpace (ExtractAggregationAnchor u q);
            anchorTerms = normalizeTerms u anchor;
            d = d\<lparr>d_Anchor := anchor, d_AnchorTerms := anchorTerms,
              d_UnionRequired := minimumAnchorTermMatches (length anchorTerms)\<rparr> in
        if anchorTerms = [] then Some (d\<lparr>d_FailedGate := GateEmptyAnchor\<rparr>)
        else
          let cs = contributions_of u anchorTerms results;
              terms = map (snd \<circ> snd) cs;
              d = d\<lparr>d_ContributingMemories := length cs\<rparr> in
          if cs = [] then Some (d\<lparr>d_FailedGate := GateNoContributions\<rparr>)
          else
            let unionMatched = dedupe (concat terms);
                d = d\<lparr>d_UnionMatchedTerms := unionMatched\<rparr> in
            case connectedComponents terms of
              None \<Rightarrow> None
            | Some n \<Rightarrow>
                let d = d\<lparr>d_ConnectedComponents := n\<rparr> in
                if length unionMatched < d_UnionRequired d
                then Some (d\<lparr>d_FailedGate := GateCollectiveCoverage\<rparr>)
                else if \<not> n \<le> 1
                then Some (d\<lparr>d_Connected := False, d_FailedGate := GateConnectivity\<rparr>)
                else Some (d\<lparr>d_Connected := True, d_FailedGate := GateNone, d_WouldFire := True\<rparr>))"

section \<open>The connectivity gate decides connectivity\<close>

text \<open>
  Two contributions are adjacent when they share a term; a set of contributions is connected
  when every one is reachable from every other along adjacent ones.
\<close>

definition share_graph :: "string list list \<Rightarrow> (nat \<times> nat) set" where
  "share_graph ts =
     {(i, j). i < length ts \<and> j < length ts \<and> set (ts ! i) \<inter> set (ts ! j) \<noteq> {}}"

definition terms_connected :: "string list list \<Rightarrow> bool" where
  "terms_connected ts \<longleftrightarrow> (\<forall>i < length ts. \<forall>j < length ts. (i, j) \<in> (share_graph ts)\<^sup>*)"

definition term_classes :: "string list list \<Rightarrow> nat set set" where
  "term_classes ts = (\<lambda>i. {j. j < length ts \<and> (i, j) \<in> (share_graph ts)\<^sup>*}) ` {..<length ts}"

lemma sharesTerm_iff: "sharesTerm a b \<longleftrightarrow> set a \<inter> set b \<noteq> {}"
  by (auto simp: sharesTerm_def list_ex_iff)

lemma shared_pairs_iff:
  "(i, j) \<in> set (shared_pairs ts) \<longleftrightarrow> i < j \<and> (i, j) \<in> share_graph ts"
  by (auto simp: shared_pairs_def share_graph_def sharesTerm_iff image_iff)

lemma linked_shared_pairs: "linked (shared_pairs ts) = (share_graph ts)\<^sup>*"
proof
  show "linked (shared_pairs ts) \<subseteq> (share_graph ts)\<^sup>*"
    unfolding linked_def
    by (rule rtrancl_mono) (auto simp: shared_pairs_iff, auto simp: share_graph_def)
  have "(i, j) \<in> linked (shared_pairs ts)" if "(i, j) \<in> share_graph ts" for i j
  proof -
    have flip: "(j, i) \<in> share_graph ts" using that by (auto simp: share_graph_def)
    have edge: "(x, y) \<in> linked (shared_pairs ts)" if "x < y" "(x, y) \<in> share_graph ts" for x y
      using that by (simp add: linked_edge shared_pairs_iff)
    consider "i < j" | "j < i" | "i = j" by linarith
    then show ?thesis
      using edge that flip linked_sym by cases auto
  qed
  then have "share_graph ts \<subseteq> linked (shared_pairs ts)" by auto
  then show "(share_graph ts)\<^sup>* \<subseteq> linked (shared_pairs ts)"
    unfolding linked_def by (metis rtrancl_idemp rtrancl_mono)
qed

lemma shared_roots:
  obtains parent parent' f where
    "unite_all union_roots (shared_pairs ts) [0..<length ts] = Some parent"
    "find_each find_root [0..<length ts] parent = Some (parent', map f [0..<length ts])"
    "\<And>i j. f i = f j \<longleftrightarrow> (i, j) \<in> (share_graph ts)\<^sup>*"
proof -
  have "\<And>a b. (a, b) \<in> set (shared_pairs ts) \<Longrightarrow> a < length [0..<length ts] \<and> b < length [0..<length ts]"
    by (auto simp: shared_pairs_iff share_graph_def)
  note unite = parent_forest.unite_all_linked
    [of "[0..<length ts]" "shared_pairs ts", OF forest_upt this]
  obtain parent f where
      p: "unite_all union_roots (shared_pairs ts) [0..<length ts] = Some parent" "forest parent f"
        "length parent = length ts" "\<forall>i j. f i = f j \<longleftrightarrow> (i, j) \<in> linked (shared_pairs ts)"
    using unite by (simp, blast)
  from parent_forest.find_each_reps [OF p(2), of "[0..<length ts]"] p(3) obtain parent' where
      "find_each find_root [0..<length ts] parent = Some (parent', map f [0..<length ts])"
    by auto
  with p show ?thesis by (intro that [of parent parent' f]) (simp_all add: linked_shared_pairs)
qed

lemma share_rep: "\<exists>f :: nat \<Rightarrow> nat. \<forall>i j. f i = f j \<longleftrightarrow> (i, j) \<in> (share_graph ts)\<^sup>*"
proof (rule shared_roots [of ts])
  fix f :: "nat \<Rightarrow> nat"
  assume "\<And>i j. f i = f j \<longleftrightarrow> (i, j) \<in> (share_graph ts)\<^sup>*"
  then show ?thesis by blast
qed

lemma tl_upt0: "tl [0..<n] = [1..<n]"
  by (cases n) (auto simp: upt_rec)

lemma contributionsAreConnected_iff: "contributionsAreConnected ts = Some (terms_connected ts)"
proof (cases "length ts \<le> 1")
  case True
  then have "terms_connected ts" by (auto simp: terms_connected_def le_Suc_eq)
  with True show ?thesis by (simp add: contributionsAreConnected_def)
next
  case False
  obtain parent parent' f where
      p: "unite_all union_roots (shared_pairs ts) [0..<length ts] = Some parent"
        "find_each find_root [0..<length ts] parent = Some (parent', map f [0..<length ts])"
        "\<And>i j. f i = f j \<longleftrightarrow> (i, j) \<in> (share_graph ts)\<^sup>*"
    by (rule shared_roots [of ts]) blast
  from False have ne: "0 < length ts" by linarith
  have "hd (map f [0..<length ts]) = f 0" using ne by (simp add: hd_map)
  moreover have "tl (map f [0..<length ts]) = map f [1..<length ts]"
    by (simp add: map_tl [symmetric] tl_upt0)
  ultimately have "contributionsAreConnected ts = Some (\<forall>i \<in> {1..<length ts}. f i = f 0)"
    using False p by (simp add: contributionsAreConnected_def list_all_iff)
  also have "(\<forall>i \<in> {1..<length ts}. f i = f 0) \<longleftrightarrow> (\<forall>i < length ts. f i = f 0)"
    by (auto simp: Suc_le_eq)
  also have "\<dots> \<longleftrightarrow> terms_connected ts"
    using ne unfolding terms_connected_def p(3) [symmetric] by metis
  finally show ?thesis .
qed

lemma term_classes_card: "card (term_classes ts) = card (f ` {..<length ts})"
  if f: "\<And>i j. f i = f j \<longleftrightarrow> (i, j) \<in> (share_graph ts)\<^sup>*" for f :: "nat \<Rightarrow> nat"
proof -
  let ?c = "\<lambda>r. {j. j < length ts \<and> f j = r}"
  have "term_classes ts = ?c ` f ` {..<length ts}"
    unfolding term_classes_def image_image f [symmetric] by (intro image_cong) auto
  moreover have "inj_on ?c (f ` {..<length ts})"
    by (rule inj_onI) auto
  ultimately show ?thesis by (simp add: card_image)
qed

lemma connectedComponents_eq: "connectedComponents ts = Some (card (term_classes ts))"
proof (cases "length ts \<le> 1")
  case True
  then consider "length ts = 0" | "length ts = 1" by linarith
  then show ?thesis
    by cases (auto simp: connectedComponents_def term_classes_def lessThan_Suc)
next
  case False
  obtain parent parent' f where
      p: "unite_all union_roots (shared_pairs ts) [0..<length ts] = Some parent"
        "find_each find_root [0..<length ts] parent = Some (parent', map f [0..<length ts])"
        "\<And>i j. f i = f j \<longleftrightarrow> (i, j) \<in> (share_graph ts)\<^sup>*"
    by (rule shared_roots [of ts]) blast
  then show ?thesis
    using False term_classes_card [OF p(3)]
    by (simp add: connectedComponents_def atLeast0LessThan)
qed

lemma terms_connected_classes:
  assumes "ts \<noteq> []"
  shows "terms_connected ts \<longleftrightarrow> card (term_classes ts) \<le> 1"
proof -
  obtain f :: "nat \<Rightarrow> nat" where f: "\<And>i j. f i = f j \<longleftrightarrow> (i, j) \<in> (share_graph ts)\<^sup>*"
    using share_rep by metis
  have "terms_connected ts \<longleftrightarrow> (\<forall>i < length ts. \<forall>j < length ts. f i = f j)"
    by (simp add: terms_connected_def f)
  also have "\<dots> \<longleftrightarrow> card (f ` {..<length ts}) \<le> 1"
    by (auto simp: card_le_Suc0_iff_eq)
  finally show ?thesis by (simp add: term_classes_card [OF f])
qed

text \<open>
  C8: The connectivity gate always returns, and it answers yes exactly when the contributing
  memories form one connected component of the graph in which two memories are adjacent when
  they share a matched anchor term; the component count the diagnosis reports is the number of
  components of that graph.
\<close>

theorem connectivity_gate_correct:
  "contributionsAreConnected ts = Some (terms_connected ts)
   \<and> connectedComponents ts = Some (card (term_classes ts))"
  by (simp add: contributionsAreConnected_iff connectedComponents_eq)

text \<open>
  C36: The diagnosis agrees with the builder. \<^verbatim>\<open>DiagnoseBuildSummary\<close> always returns; where it
  reports that a gate blocks, \<^verbatim>\<open>BuildSummary\<close> returns no summary and leaves the store untouched.
  Where none blocks, it persists the atoms of the contributing memories and then collects, with one
  exception: when no usable memory names a project, the diagnosis says that a summary would be
  built and \<^verbatim>\<open>BuildSummary\<close> returns none, the store untouched.
\<close>

theorem diagnosis_agrees:
  "\<exists>d. DiagnoseBuildSummary u q results = Some d \<and>
     BuildSummary u store q results s =
       (let project = first_project (List.map_filter usable results) in
        if d_WouldFire d \<and> project \<noteq> []
        then Some (persist_and_collect store project (Join (d_AnchorTerms d) '' '')
          (contributions_of u (d_AnchorTerms d) results) s)
        else Some (Inr None, s))"
proof (cases "IsAggregationQuestion q
    \<and> normalizeTerms u (TrimSpace (ExtractAggregationAnchor u q)) \<noteq> []")
  case False
  then show ?thesis
    by (auto simp: DiagnoseBuildSummary_def BuildSummary_def Let_def)
next
  case True
  let ?terms = "normalizeTerms u (TrimSpace (ExtractAggregationAnchor u q))"
  let ?cs = "contributions_of u ?terms results"
  let ?low = "length (dedupe (concat (map (snd \<circ> snd) ?cs)))
    < minimumAnchorTermMatches (length ?terms)"
  note defs = DiagnoseBuildSummary_def BuildSummary_def gates_def Let_def
    contributionsAreConnected_iff connectedComponents_eq
  consider "?cs = []" | "?cs \<noteq> []" "?low" | "?cs \<noteq> []" "\<not> ?low" by blast
  then show ?thesis
  proof cases
    case 3
    with terms_connected_classes [of "map (snd \<circ> snd) ?cs"] True show ?thesis
      by (cases "terms_connected (map (snd \<circ> snd) ?cs)") (simp_all add: defs)
  qed (use True in \<open>simp_all add: defs\<close>)
qed

section \<open>Provenance of the evidence\<close>

text \<open>A provenance string identifies its span.\<close>

lemma show_span_inject: "show_span a = show_span b \<longleftrightarrow> a = b"
proof
  assume "show_span a = show_span b"
  then have e: "show_nat (fst a) @ CHR ''-'' # show_nat (snd a) = show_nat (fst b) @ CHR ''-'' # show_nat (snd b)"
    by (simp add: show_span_def)
  have nd: "CHR ''-'' \<notin> set (show_nat n)" for n using show_nat_digits by blast
  from e show "a = b"
    unfolding append_Cons_eq_iff [OF nd nd] by (simp add: prod_eq_iff)
qed simp

definition atom_of_span :: "(string \<Rightarrow> string) \<Rightarrow> Memory \<Rightarrow> lb_Atom \<Rightarrow> span \<Rightarrow> bool" where
  "atom_of_span u mem a sp \<longleftrightarrow> tight_span (m_Content mem) sp
     \<and> a_Project a = m_Project mem \<and> a_MemoryID a = m_ID mem
     \<and> a_ProvenanceSpan a = show_span sp
     \<and> a_SpanText a = slice (m_Content mem) (fst sp) (snd sp) \<and> a_SpanText a \<noteq> []"

lemma atom_at_span: "tight_span (m_Content mem) sp \<Longrightarrow> atom_of_span u mem (atom_at u mem sp) sp"
  by (cases sp) (auto simp: atom_of_span_def atom_at_def Let_def tight_span_def slice_def)

lemma spans_from_distinct: "spans_from s i ms \<Longrightarrow> list_all (\<lambda>(a, b). a < b) ms \<Longrightarrow> distinct ms"
proof (induction ms arbitrary: i)
  case (Cons m ms)
  obtain a b where m: "m = (a, b)" by (cases m)
  have "(a, b) \<notin> set ms" if "spans_from s c ms" "a < c" for a b c :: nat
    using that
  proof (induction ms arbitrary: c)
    case (Cons m' ms)
    obtain a' b' where "m' = (a', b')" by (cases m')
    with Cons.prems Cons.IH [of b'] show ?case by auto
  qed simp
  with Cons m show ?case by auto
qed simp

text \<open>
  provenance. Every atom extracted from a memory is the text of a span of that memory, with
  no white space at its ends, under that memory's project and id; its provenance string
  identifies the span, and no two atoms of the memory carry the same provenance.
\<close>

theorem extracted_atoms_provenance:
  "list_all (\<lambda>a. \<exists>!sp. atom_of_span u mem a sp) (fst (extractMatchingAtoms u mem terms))
   \<and> distinct (map a_ProvenanceSpan (fst (extractMatchingAtoms u mem terms)))"
proof -
  have unique: "\<exists>!sp. atom_of_span u mem (atom_at u mem sp') sp" if "tight_span (m_Content mem) sp'" for sp'
    using atom_at_span [OF that]
    by (rule ex1I) (use atom_at_span [OF that, of u] in \<open>simp add: atom_of_span_def show_span_inject\<close>)
  have whole: "tight_span (m_Content mem) sp"
    if "trimSpanBounds (m_Content mem) 0 (length (m_Content mem)) = Some sp" for sp
    using trimSpanBounds_tight [of "m_Content mem" 0 "length (m_Content mem)"] that by (cases sp) auto
  note spans = sentenceSpans_facts [of "m_Content mem"]
  have "list_all (\<lambda>(a, b). a < b) (sentenceSpans (m_Content mem))"
    using spans by (auto simp: list_all_iff tight_span_def)
  then have "distinct (sentenceSpans (m_Content mem))"
    using spans spans_from_distinct by blast
  moreover have "a_ProvenanceSpan (atom_at u mem sp) = show_span sp" for sp
    by (simp add: atom_at_def Let_def)
  ultimately have "distinct (map a_ProvenanceSpan (map (atom_at u mem) (filter P (sentenceSpans (m_Content mem)))))"
    for P
    by (simp add: distinct_map comp_def inj_on_def show_span_inject)
  with unique whole spans show ?thesis
    by (auto simp: extractMatchingAtoms_def Let_def list_all_iff split: option.splits)
qed

end
