(* ===== verification/Layer_B_Store.thy ===== *)
theory Layer_B_Store
  imports Layer_B
begin

text \<open>
  What \<^verbatim>\<open>BuildSummary\<close> relies on from its store, stated as a contract; the tables and SQL
  statements of \<^verbatim>\<open>src/internal/db/postgres_layerb.go\<close> that provide it; and what a summary
  built over them says.
\<close>

section \<open>The contract of the store\<close>

type_synonym event_id = "string \<times> string \<times> string \<times> string"

definition event_key :: "lb_Event \<Rightarrow> event_id" where
  "event_key e = (e_Project e, e_MemoryID e, e_ProvenanceSpan e, e_Anchor e)"

definition record_of :: "lb_Event \<Rightarrow> lb_EventRecord" where
  "record_of e =
     \<lparr>er_MemoryID = e_MemoryID e, er_ProvenanceSpan = e_ProvenanceSpan e,
      er_SpanText = e_SpanText e, er_Anchor = e_Anchor e,
      er_NormalizedText = e_NormalizedText e, er_EventTime = e_EventTime e\<rparr>"

definition record_id :: "lb_EventRecord \<Rightarrow> string \<times> string \<times> string" where
  "record_id r = (er_MemoryID r, er_ProvenanceSpan r, er_Anchor r)"

text \<open>
  \<open>events s\<close> is the content of the event table: one record per key. Listing returns the
  records of the asked project and memories, each key once.
\<close>

locale layerb_store =
  fixes store :: "'s lb_Store"
    and inv :: "'s \<Rightarrow> bool"
    and events :: "'s \<Rightarrow> event_id \<rightharpoonup> lb_EventRecord"
  assumes upsert_atom_law:
      "inv s \<Longrightarrow> UpsertLayerBAtom store a s = Some s' \<Longrightarrow> inv s' \<and> events s' = events s"
    and upsert_event_law:
      "inv s \<Longrightarrow> UpsertLayerBEvent store e s = Some s' \<Longrightarrow>
        inv s' \<and> events s' = (events s)(event_key e \<mapsto> record_of e)"
    and list_law:
      "inv s \<Longrightarrow> ListLayerBEvents store p ids s = Some rs \<Longrightarrow>
        set rs = {r. \<exists>m sp an. events s (p, m, sp, an) = Some r \<and> m \<in> set ids}
        \<and> distinct (map record_id rs)"
    and keyed: "inv s \<Longrightarrow> events s (p, m, sp, an) = Some r \<Longrightarrow> record_id r = (m, sp, an)"

text \<open>The order of the evidence is a strict weak order, so sorting by it is meaningful.\<close>

interpretation evidence_order: strict_weak_order evidence_before
  by unfold_locales
    (auto simp: evidence_before_def split: option.splits if_splits prod.splits)

lemma distinct_map_mset: "mset xs = mset ys \<Longrightarrow> distinct (map f xs) \<longleftrightarrow> distinct (map f ys)"
  by (metis mset_eq_imp_distinct_iff mset_map)

context layerb_store
begin

lemma persist_events:
  assumes "inv s" "persist store anchor atoms s = Inr s'"
  shows "inv s' \<and> (\<forall>k. events s' k =
    (case find (\<lambda>a. event_key (event_of anchor a) = k) (rev atoms) of
       Some a \<Rightarrow> Some (record_of (event_of anchor a)) | None \<Rightarrow> events s k))"
  using assms
proof (induction atoms arbitrary: s)
  case (Cons a atoms)
  from Cons.prems(2) obtain s1 s2 where
      s1: "UpsertLayerBAtom store a s = Some s1"
      and s2: "UpsertLayerBEvent store (event_of anchor a) s1 = Some s2"
      and rest: "persist store anchor atoms s2 = Inr s'"
    by (auto split: option.splits)
  have i1: "inv s1" "events s1 = events s" using upsert_atom_law [OF Cons.prems(1) s1] by auto
  have i2: "inv s2" "events s2 = (events s)(event_key (event_of anchor a) \<mapsto> record_of (event_of anchor a))"
    using upsert_event_law [OF i1(1) s2] i1(2) by auto
  have app: "find P (xs @ [a]) = (case find P xs of Some x \<Rightarrow> Some x | None \<Rightarrow> if P a then Some a else None)"
    for P xs
    by (induction xs) auto
  show ?case
    using Cons.IH [OF i2(1) rest] i2(2) by (auto simp: app split: option.splits)
qed simp

text \<open>Every persisted atom has a record, and every record with a persisted key is one of theirs.\<close>

lemma persist_complete:
  assumes "inv s" "persist store anchor atoms s = Inr s'" "a \<in> set atoms"
  shows "\<exists>b \<in> set atoms. event_key (event_of anchor b) = event_key (event_of anchor a)
    \<and> events s' (event_key (event_of anchor a)) = Some (record_of (event_of anchor b))"
proof -
  let ?k = "event_key (event_of anchor a)"
  have "find (\<lambda>b. event_key (event_of anchor b) = ?k) (rev atoms) \<noteq> None"
    using assms(3) by (auto simp: find_None_iff)
  then obtain b where b: "find (\<lambda>b. event_key (event_of anchor b) = ?k) (rev atoms) = Some b"
    by blast
  then have "b \<in> set atoms" "event_key (event_of anchor b) = ?k"
    by (auto simp: find_Some_iff) (metis length_rev nth_mem set_rev)
  moreover have "events s' ?k = Some (record_of (event_of anchor b))"
    using persist_events [OF assms(1,2), THEN conjunct2, rule_format, of ?k] by (simp add: b)
  ultimately show ?thesis by blast
qed

lemma collect_evidence:
  assumes "inv s" "collect store project anchor ids s = Inr (Some summ)"
  shows "lb_Mode summ = ''count'' \<and> lb_Anchor summ = anchor
    \<and> lb_Count summ = length (lb_Evidence summ)
    \<and> set (lb_Evidence summ)
        = {r. \<exists>m sp. events s (project, m, sp, anchor) = Some r \<and> m \<in> set (dedupe ids)}
    \<and> distinct (map record_id (lb_Evidence summ))
    \<and> sorted_wrt (\<lambda>x y. \<not> evidence_before y x) (lb_Evidence summ)"
proof -
  from assms(2) obtain rs where
      rs: "ListLayerBEvents store project (dedupe ids) s = Some rs"
      and summ: "summ = \<lparr>lb_Mode = ''count'', lb_Anchor = anchor,
          lb_Count = length (filter (\<lambda>r. er_Anchor r = anchor) rs),
          lb_Evidence = sort_stable evidence_before (filter (\<lambda>r. er_Anchor r = anchor) rs)\<rparr>"
    by (auto simp: collect_def Let_def split: option.splits if_splits)
  note law = list_law [OF assms(1) rs]
  have anchors: "er_Anchor r = an" if "events s (project, m, sp, an) = Some r" for r m sp an
    using keyed [OF assms(1) that] by (simp add: record_id_def)
  have "set (filter (\<lambda>r. er_Anchor r = anchor) rs)
      = {r. \<exists>m sp. events s (project, m, sp, anchor) = Some r \<and> m \<in> set (dedupe ids)}"
  proof (intro subset_antisym subsetI)
    fix r
    assume "r \<in> set (filter (\<lambda>r. er_Anchor r = anchor) rs)"
    then obtain m sp an where "events s (project, m, sp, an) = Some r" "m \<in> set (dedupe ids)"
        "er_Anchor r = anchor"
      using law by auto
    then show "r \<in> {r. \<exists>m sp. events s (project, m, sp, anchor) = Some r \<and> m \<in> set (dedupe ids)}"
      using anchors by blast
  next
    fix r
    assume "r \<in> {r. \<exists>m sp. events s (project, m, sp, anchor) = Some r \<and> m \<in> set (dedupe ids)}"
    then obtain m sp where m: "events s (project, m, sp, anchor) = Some r" "m \<in> set (dedupe ids)"
      by blast
    then have "r \<in> set rs" using law by blast
    with anchors [OF m(1)] show "r \<in> set (filter (\<lambda>r. er_Anchor r = anchor) rs)" by simp
  qed
  moreover have "distinct (map record_id (sort_stable evidence_before (filter (\<lambda>r. er_Anchor r = anchor) rs)))"
    using law by (simp add: distinct_map_mset [OF mset_sort_stable] distinct_map_filter)
  ultimately show ?thesis
    by (simp add: summ evidence_order.sorted_sort_stable)
qed

end

section \<open>The Postgres tables\<close>

text \<open>
  The rows of \<^verbatim>\<open>layer_b_atoms\<close> and \<^verbatim>\<open>layer_b_events\<close>; \<open>lb_down\<close> when statements fail, then
  all of them.
  \<^verbatim>\<open>INSERT ... ON CONFLICT (key) DO UPDATE\<close> updates the row with the same key or adds one.
\<close>

record lb_db =
  layer_b_atoms :: "lb_Atom list"
  layer_b_events :: "lb_Event list"
  lb_down :: bool

fun upsert :: "('r \<Rightarrow> 'k) \<Rightarrow> ('r \<Rightarrow> 'r) \<Rightarrow> 'r \<Rightarrow> 'r list \<Rightarrow> 'r list" where
  "upsert key update new [] = [new]"
| "upsert key update new (r # rs) =
     (if key r = key new then update r # rs else r # upsert key update new rs)"

definition pg_UpsertLayerBAtom :: "lb_Atom \<Rightarrow> lb_db \<Rightarrow> lb_db option" where
  "pg_UpsertLayerBAtom atom db =
     (if lb_down db then None
      else Some (db\<lparr>layer_b_atoms :=
        upsert (\<lambda>r. (a_Project r, a_MemoryID r, a_ProvenanceSpan r, a_NormalizedText r))
          (\<lambda>r. r\<lparr>a_SpanText := a_SpanText atom, a_Statement := a_Statement atom,
             a_EventTime := a_EventTime atom\<rparr>)
          atom (layer_b_atoms db)\<rparr>))"

definition pg_UpsertLayerBEvent :: "lb_Event \<Rightarrow> lb_db \<Rightarrow> lb_db option" where
  "pg_UpsertLayerBEvent event db =
     (if lb_down db then None
      else Some (db\<lparr>layer_b_events :=
        upsert event_key
          (\<lambda>r. r\<lparr>e_SpanText := e_SpanText event, e_NormalizedText := e_NormalizedText event,
             e_EventTime := e_EventTime event\<rparr>)
          event (layer_b_events db)\<rparr>))"

text \<open>
  \<^verbatim>\<open>ORDER BY event_time ASC NULLS LAST, provenance_span ASC\<close> is the order
  \<^const>\<open>evidence_before\<close> under the C collation of text.
\<close>

definition pg_ListLayerBEvents :: "string \<Rightarrow> string list \<Rightarrow> lb_db \<Rightarrow> lb_EventRecord list option" where
  "pg_ListLayerBEvents project memoryIDs db =
     (if memoryIDs = [] then Some []
      else if lb_down db then None
      else Some (sort_stable evidence_before (map record_of
        (filter (\<lambda>e. e_Project e = project \<and> e_MemoryID e \<in> set memoryIDs) (layer_b_events db)))))"

definition pg_store :: "lb_db lb_Store" where
  "pg_store = \<lparr>UpsertLayerBAtom = pg_UpsertLayerBAtom, UpsertLayerBEvent = pg_UpsertLayerBEvent,
     ListLayerBEvents = pg_ListLayerBEvents\<rparr>"

text \<open>The unique constraint on the event table.\<close>

definition lb_db_inv :: "lb_db \<Rightarrow> bool" where
  "lb_db_inv db \<longleftrightarrow> distinct (map event_key (layer_b_events db))"

definition pg_events :: "lb_db \<Rightarrow> event_id \<rightharpoonup> lb_EventRecord" where
  "pg_events db = map_of (map (\<lambda>e. (event_key e, record_of e)) (layer_b_events db))"

lemma keys_upsert:
  assumes "\<And>r. key (update r) = key r"
  shows "key ` set (upsert key update new rs) = insert (key new) (key ` set rs)"
  using assms by (induction rs) auto

lemma distinct_upsert:
  assumes "distinct (map key rs)" "\<And>r. key (update r) = key r"
  shows "distinct (map key (upsert key update new rs))"
  using assms keys_upsert [of key update new]
  by (induction rs) (auto simp: image_iff set_eq_iff)

lemma map_of_upsert:
  assumes "\<And>r. key (update r) = key r"
    "\<And>r. r \<in> set rs \<Longrightarrow> key r = key new \<Longrightarrow> f (update r) = f new"
  shows "map_of (map (\<lambda>r. (key r, f r)) (upsert key update new rs))
    = (map_of (map (\<lambda>r. (key r, f r)) rs))(key new \<mapsto> f new)"
  using assms by (induction rs) (auto simp: fun_upd_twist)

interpretation pg: layerb_store pg_store lb_db_inv pg_events
proof
  fix s a s'
  assume "lb_db_inv s" "UpsertLayerBAtom pg_store a s = Some s'"
  then show "lb_db_inv s' \<and> pg_events s' = pg_events s"
    by (auto simp: pg_store_def pg_UpsertLayerBAtom_def lb_db_inv_def pg_events_def split: if_splits)
next
  fix s e s'
  assume s: "lb_db_inv s" "UpsertLayerBEvent pg_store e s = Some s'"
  let ?update = "\<lambda>r. r\<lparr>e_SpanText := e_SpanText e, e_NormalizedText := e_NormalizedText e,
      e_EventTime := e_EventTime e\<rparr>"
  have k: "\<And>r. event_key (?update r) = event_key r" by (simp add: event_key_def)
  have r: "\<And>r. event_key r = event_key e \<Longrightarrow> record_of (?update r) = record_of e"
    by (simp add: event_key_def record_of_def)
  from s(2) have s': "s' = s\<lparr>layer_b_events := upsert event_key ?update e (layer_b_events s)\<rparr>"
    by (auto simp: pg_store_def pg_UpsertLayerBEvent_def split: if_splits)
  show "lb_db_inv s' \<and> pg_events s' = (pg_events s)(event_key e \<mapsto> record_of e)"
    using s(1) distinct_upsert [where key = event_key and update = ?update, OF _ k]
      map_of_upsert [where key = event_key and update = ?update and f = record_of, OF k r]
    by (simp add: s' lb_db_inv_def pg_events_def)
next
  fix s p ids rs
  assume s: "lb_db_inv s" "ListLayerBEvents pg_store p ids s = Some rs"
  let ?sel = "filter (\<lambda>e. e_Project e = p \<and> e_MemoryID e \<in> set ids) (layer_b_events s)"
  from s(2) have rs: "mset rs = mset (map record_of ?sel)"
    by (auto simp: pg_store_def pg_ListLayerBEvents_def split: if_splits)
  have "record_id (record_of e) = snd (event_key e)" for e
    by (simp add: record_id_def record_of_def event_key_def)
  moreover have "inj_on snd (event_key ` set ?sel)"
    by (auto simp: inj_on_def event_key_def)
  ultimately have "distinct (map (record_id \<circ> record_of) ?sel)"
    using s(1) distinct_map_filter [of event_key "layer_b_events s"]
    by (auto simp: lb_db_inv_def comp_def distinct_map inj_on_def)
  then have "distinct (map record_id rs)"
    using distinct_map_mset [OF rs, of record_id] by simp
  moreover have "set rs = record_of ` set ?sel"
    using mset_eq_setD [OF rs] by simp
  moreover have "pg_events s (q, m, sp, an) = Some r \<longleftrightarrow>
      (\<exists>e \<in> set (layer_b_events s). event_key e = (q, m, sp, an) \<and> record_of e = r)" for q m sp an r
    using s(1) unfolding pg_events_def lb_db_inv_def
    by (subst map_of_eq_Some_iff) (auto simp: comp_def intro: rev_image_eqI)
  ultimately show "set rs = {r. \<exists>m sp an. pg_events s (p, m, sp, an) = Some r \<and> m \<in> set ids}
      \<and> distinct (map record_id rs)"
    by (auto simp: event_key_def)
next
  fix s p m sp an r
  assume "lb_db_inv s" "pg_events s (p, m, sp, an) = Some r"
  then show "record_id r = (m, sp, an)"
    by (auto simp: pg_events_def dest!: map_of_SomeD
        simp: event_key_def record_of_def record_id_def)
qed

section \<open>What a summary says\<close>

text \<open>
  A summary counts its evidence; its evidence is about the question's anchor, comes from the
  contributing memories, names no span twice and is in the order of time; and every atom found
  in this run is represented by exactly one piece of evidence.
\<close>

definition summary_covers ::
  "string \<Rightarrow> (string \<times> memberContribution) list \<Rightarrow> lb_Atom \<Rightarrow> lb_Summary \<Rightarrow> bool" where
  "summary_covers project cs a summ \<longleftrightarrow>
     (a_Project a = project \<and> a_MemoryID a \<in> set (dedupe (map fst cs)) \<longrightarrow>
      length (filter (\<lambda>r. record_id r = (a_MemoryID a, a_ProvenanceSpan a, lb_Anchor summ))
        (lb_Evidence summ)) = 1)"

lemma filter_distinct_key:
  assumes "distinct (map f xs)" "x \<in> set xs"
  shows "length (filter (\<lambda>y. f y = f x) xs) = 1"
proof -
  have "distinct (filter (\<lambda>y. f y = f x) xs)" using assms(1) by (simp add: distinct_map)
  moreover have "set (filter (\<lambda>y. f y = f x) xs) = {x}"
    using assms by (auto simp: distinct_map dest: inj_onD)
  ultimately show ?thesis by (metis card.empty card_insert_disjoint distinct_card empty_iff finite.emptyI One_nat_def)
qed

lemma pg_covers:
  assumes "lb_db_inv db" "persist pg_store anchor (concat (map (fst \<circ> snd) cs)) db = Inr db'"
    "collect pg_store project anchor (map fst cs) db' = Inr (Some summ)"
    "a \<in> set (concat (map (fst \<circ> snd) cs))"
  shows "summary_covers project cs a summ"
proof (unfold summary_covers_def, intro impI)
  assume a: "a_Project a = project \<and> a_MemoryID a \<in> set (dedupe (map fst cs))"
  note inv = pg.persist_events [OF assms(1,2), THEN conjunct1]
  note ev = pg.collect_evidence [OF inv assms(3)]
  have key: "event_key (event_of anchor a) = (project, a_MemoryID a, a_ProvenanceSpan a, anchor)"
    using a by (simp add: event_key_def event_of_def)
  from pg.persist_complete [OF assms(1,2,4)] obtain r where
      r: "pg_events db' (project, a_MemoryID a, a_ProvenanceSpan a, anchor) = Some r"
    unfolding key by blast
  then have "r \<in> set (lb_Evidence summ)" using ev a by blast
  moreover have "record_id r = (a_MemoryID a, a_ProvenanceSpan a, lb_Anchor summ)"
    using pg.keyed [OF inv r] ev by simp
  ultimately show "length (filter (\<lambda>r. record_id r = (a_MemoryID a, a_ProvenanceSpan a, lb_Anchor summ))
      (lb_Evidence summ)) = 1"
    using filter_distinct_key [of record_id "lb_Evidence summ" r] ev by simp
qed

text \<open>
  C9: A summary built over the Postgres tables counts exactly its evidence; the evidence carries
  the summary's anchor and comes from contributing memories, no provenance span of a memory is
  counted twice, the evidence is ordered by event time (undated last) and then by span, and every
  atom extracted in this run for the summary's project is represented by exactly one piece of
  evidence.
\<close>

theorem summary_over_postgres:
  assumes "lb_db_inv db"
    and "persist_and_collect pg_store project anchor cs db = (Inr (Some summ), db')"
  shows "lb_Mode summ = ''count'' \<and> lb_Anchor summ = anchor
    \<and> lb_Count summ = length (lb_Evidence summ)
    \<and> list_all (\<lambda>r. er_Anchor r = anchor \<and> er_MemoryID r \<in> set (dedupe (map fst cs)))
        (lb_Evidence summ)
    \<and> distinct (map record_id (lb_Evidence summ))
    \<and> sorted_wrt (\<lambda>x y. \<not> evidence_before y x) (lb_Evidence summ)
    \<and> list_all (\<lambda>a. summary_covers project cs a summ) (concat (map (fst \<circ> snd) cs))
    \<and> lb_db_inv db'"
proof -
  from assms(2) have p: "persist pg_store anchor (concat (map (fst \<circ> snd) cs)) db = Inr db'"
      and c: "collect pg_store project anchor (map fst cs) db' = Inr (Some summ)"
    by (auto simp: persist_and_collect_def split: sum.splits)
  note inv = pg.persist_events [OF assms(1) p, THEN conjunct1]
  note ev = pg.collect_evidence [OF inv c]
  have "list_all (\<lambda>r. er_Anchor r = anchor \<and> er_MemoryID r \<in> set (dedupe (map fst cs)))
      (lb_Evidence summ)"
    using ev pg.keyed [OF inv] unfolding list_all_iff record_id_def by blast
  moreover have "list_all (\<lambda>a. summary_covers project cs a summ) (concat (map (fst \<circ> snd) cs))"
    unfolding list_all_iff using pg_covers [OF assms(1) p c] by blast
  ultimately show ?thesis using ev inv by blast
qed

text \<open>One memory with two mentions, one of them stored by an earlier run with an older date.\<close>

definition sample_atom :: "string \<Rightarrow> gotime option \<Rightarrow> lb_Atom" where
  "sample_atom prov t =
     \<lparr>a_Project = ''p'', a_MemoryID = ''m'', a_ProvenanceSpan = prov, a_SpanText = ''trip'',
      a_Statement = ''trip'', a_NormalizedText = ''trip'', a_EventTime = t\<rparr>"

definition sample_db :: lb_db where
  "sample_db = \<lparr>layer_b_atoms = [],
     layer_b_events = [event_of ''trip'' (sample_atom ''chars:9-13'' (Some 4))], lb_down = False\<rparr>"

definition sample_contributions :: "(string \<times> memberContribution) list" where
  "sample_contributions =
     [(''m'', [sample_atom ''chars:9-13'' None, sample_atom ''chars:0-4'' (Some 7)], [''trip''])]"

definition sample_result :: "(lb_error + lb_Summary option) \<times> lb_db" where
  "sample_result = persist_and_collect pg_store ''p'' ''trip'' sample_contributions sample_db"

lemma sample_dedupe: "dedupe [''m''] = [''m'']"
  by (rule dedupe_id) (simp_all add: TrimSpace_id space_len_0_iff space_len_end_0_iff space_runes_def suffix_to_prefix)

lemma sample_result_eval:
  "\<exists>summ db'. sample_result = (Inr (Some summ), db')
     \<and> map er_ProvenanceSpan (lb_Evidence summ) = [''chars:0-4'', ''chars:9-13'']"
  by (simp add: sample_result_def sample_contributions_def sample_db_def sample_atom_def
      persist_and_collect_def pg_store_def pg_UpsertLayerBAtom_def pg_UpsertLayerBEvent_def
      pg_ListLayerBEvents_def event_of_def event_key_def collect_def sample_dedupe record_of_def
      evidence_before_def)

theorem summary_over_postgres_witness:
  "\<exists>summ db'. lb_db_inv sample_db \<and> sample_result = (Inr (Some summ), db')
     \<and> map er_ProvenanceSpan (lb_Evidence summ) = [''chars:0-4'', ''chars:9-13'']
     \<and> lb_Count summ = 2
     \<and> list_all (\<lambda>a. summary_covers ''p'' sample_contributions a summ)
         (concat (map (fst \<circ> snd) sample_contributions))"
proof -
  obtain summ db' where r: "sample_result = (Inr (Some summ), db')"
      and e: "map er_ProvenanceSpan (lb_Evidence summ) = [''chars:0-4'', ''chars:9-13'']"
    using sample_result_eval by (elim exE conjE)
  have inv: "lb_db_inv sample_db" by (simp add: lb_db_inv_def sample_db_def)
  have "length (lb_Evidence summ) = 2" using arg_cong [OF e, of length] by simp
  with r e inv summary_over_postgres [OF inv r [unfolded sample_result_def]]
  show ?thesis by (intro exI [of _ summ] exI [of _ db']) simp
qed

end
