(* ===== verification/Ingest_Queue.thy ===== *)
theory Ingest_Queue
  imports Engram_Prelude
begin

text \<open>
  The ingestion queue (\<^verbatim>\<open>src/internal/ingestqueue/queue.go\<close>): a buffered channel of jobs, a
  map of results that callers poll, a pool of workers and an eviction loop, all running
  concurrently. Every access to the channel, the map and the counter that another goroutine can
  observe is a step of its own; \<^verbatim>\<open>Enqueue\<close> is two of them.
\<close>

section \<open>State\<close>

datatype JobStatus = StatusPending | StatusProcessing | StatusDone | StatusFailed

record Job =
  j_ID :: string
  j_Project :: string

record JobResult =
  jr_JobID :: string
  jr_Status :: JobStatus
  jr_Error :: string
  jr_StartedAt :: gotime
  jr_DoneAt :: gotime

record QueueConfig =
  qc_Depth :: int
  qc_Workers :: int

datatype queue_error = ErrQueueFull

record Queue =
  q_cap :: nat
  q_ch :: "Job list"
  q_results :: "string \<rightharpoonup> JobResult"
  q_inflight :: int

definition resultTTL :: duration where
  "resultTTL = 5 * minute"

definition newQueue :: "QueueConfig \<Rightarrow> Queue" where
  "newQueue cfg =
     \<lparr>q_cap = nat (if qc_Depth cfg \<le> 0 then 64 else qc_Depth cfg), q_ch = [], q_results = Map.empty,
      q_inflight = 0\<rparr>"

definition queueWorkers :: "QueueConfig \<Rightarrow> nat" where
  "queueWorkers cfg = nat (if qc_Workers cfg \<le> 0 then 4 else qc_Workers cfg)"

section \<open>Operations\<close>

definition pendingResult :: "string \<Rightarrow> JobResult" where
  "pendingResult jid =
     \<lparr>jr_JobID = jid, jr_Status = StatusPending, jr_Error = [], jr_StartedAt = 0, jr_DoneAt = 0\<rparr>"

definition Enqueue_store :: "Job \<Rightarrow> Queue \<Rightarrow> Queue" where
  "Enqueue_store job q = q\<lparr>q_results := (q_results q)(j_ID job \<mapsto> pendingResult (j_ID job))\<rparr>"

definition Enqueue_send :: "Job \<Rightarrow> Queue \<Rightarrow> queue_error option \<times> Queue" where
  "Enqueue_send job q =
     (if length (q_ch q) < q_cap q then (None, q\<lparr>q_ch := q_ch q @ [job]\<rparr>)
      else (Some ErrQueueFull, q\<lparr>q_results := (q_results q)(j_ID job := None)\<rparr>))"

definition Enqueue :: "Job \<Rightarrow> Queue \<Rightarrow> queue_error option \<times> Queue" where
  "Enqueue job q = Enqueue_send job (Enqueue_store job q)"

definition Status :: "string \<Rightarrow> Queue \<Rightarrow> JobResult option" where
  "Status jid q = q_results q jid"

definition Depth :: "Queue \<Rightarrow> nat" where
  "Depth q = length (q_ch q)"

definition finalResult :: "Job \<Rightarrow> gotime \<Rightarrow> string option \<Rightarrow> gotime \<Rightarrow> JobResult" where
  "finalResult job startedAt err doneAt =
     \<lparr>jr_JobID = j_ID job, jr_Status = (case err of None \<Rightarrow> StatusDone | Some _ \<Rightarrow> StatusFailed),
      jr_Error = (case err of None \<Rightarrow> [] | Some e \<Rightarrow> e), jr_StartedAt = startedAt,
      jr_DoneAt = doneAt\<rparr>"

definition run_finish :: "Job \<Rightarrow> gotime \<Rightarrow> string option \<Rightarrow> gotime \<Rightarrow> Queue \<Rightarrow> Queue" where
  "run_finish job startedAt err doneAt q =
     q\<lparr>q_results := (q_results q)(j_ID job \<mapsto> finalResult job startedAt err doneAt)\<rparr>"

text \<open>The callback of \<^verbatim>\<open>Range\<close> in the eviction: whether it goes on to delete the key.\<close>

definition evictable :: "gotime \<Rightarrow> JobResult \<Rightarrow> bool" where
  "evictable now r =
     (if jr_Status r \<noteq> StatusDone \<and> jr_Status r \<noteq> StatusFailed then False
      else if jr_DoneAt r = 0 \<or> now - jr_DoneAt r < resultTTL then False
      else True)"

text \<open>The eviction when nothing else touches the map meanwhile.\<close>

definition evictCompletedResults :: "gotime \<Rightarrow> Queue \<Rightarrow> Queue" where
  "evictCompletedResults now q =
     q\<lparr>q_results := (\<lambda>jid. case q_results q jid of None \<Rightarrow> None
        | Some r \<Rightarrow> if evictable now r then None else Some r)\<rparr>"

section \<open>The goroutines\<close>

text \<open>
  A worker between its steps: blocked in \<^verbatim>\<open>select\<close>; with a job received; with the job counted
  in \<^verbatim>\<open>inflight\<close>; inside \<^verbatim>\<open>job.Work\<close>; with the result stored;
  returned because the context is done. \<open>sending\<close> holds the jobs of the
  calls of \<^verbatim>\<open>Enqueue\<close> that have stored their pending result and not yet tried to send.
  \<open>evicting\<close> is the key the eviction loop has decided to delete, with the time of its tick.
  \<open>used_ids\<close> remembers the ids of all calls so far.
\<close>

datatype worker = Idle | Got Job | Counted Job | Working Job gotime | Finished | Exited

record qsys =
  queue :: Queue
  sending :: "Job list"
  workers :: "worker list"
  evicting :: "(string \<times> gotime) option"
  cancelled :: bool
  used_ids :: "string set"

datatype qlabel =
    BeginEnqueue Job
  | TrySend Job
  | Receive nat
  | CountUp nat
  | StartWork nat gotime
  | FinishWork nat "string option" gotime
  | CountDown nat
  | EvictVisit string gotime
  | EvictDelete
  | Cancel
  | WorkerExit nat

definition qsys_init :: "QueueConfig \<Rightarrow> qsys" where
  "qsys_init cfg = \<lparr>queue = newQueue cfg, sending = [], workers = replicate (queueWorkers cfg) Idle,
     evicting = None, cancelled = False, used_ids = {}\<rparr>"

inductive qstep :: "qsys \<Rightarrow> qlabel \<Rightarrow> qsys \<Rightarrow> bool" where
  begin_enqueue:
    "qstep s (BeginEnqueue job)
       (s\<lparr>queue := Enqueue_store job (queue s), sending := job # sending s,
          used_ids := insert (j_ID job) (used_ids s)\<rparr>)"
| try_send:
    "job \<in> set (sending s) \<Longrightarrow>
     qstep s (TrySend job)
       (s\<lparr>queue := snd (Enqueue_send job (queue s)), sending := remove1 job (sending s)\<rparr>)"
| receive:
    "i < length (workers s) \<Longrightarrow> workers s ! i = Idle \<Longrightarrow> q_ch (queue s) = job # rest \<Longrightarrow>
     qstep s (Receive i)
       (s\<lparr>queue := (queue s)\<lparr>q_ch := rest\<rparr>, workers := (workers s)[i := Got job]\<rparr>)"
| count_up:
    "i < length (workers s) \<Longrightarrow> workers s ! i = Got job \<Longrightarrow>
     qstep s (CountUp i)
       (s\<lparr>queue := (queue s)\<lparr>q_inflight := q_inflight (queue s) + 1\<rparr>,
          workers := (workers s)[i := Counted job]\<rparr>)"
| start_work:
    "i < length (workers s) \<Longrightarrow> workers s ! i = Counted job \<Longrightarrow>
     qstep s (StartWork i now) (s\<lparr>workers := (workers s)[i := Working job now]\<rparr>)"
| finish_work:
    "i < length (workers s) \<Longrightarrow> workers s ! i = Working job startedAt \<Longrightarrow>
     qstep s (FinishWork i err now)
       (s\<lparr>queue := run_finish job startedAt err now (queue s),
          workers := (workers s)[i := Finished]\<rparr>)"
| count_down:
    "i < length (workers s) \<Longrightarrow> workers s ! i = Finished \<Longrightarrow>
     qstep s (CountDown i)
       (s\<lparr>queue := (queue s)\<lparr>q_inflight := q_inflight (queue s) - 1\<rparr>,
          workers := (workers s)[i := Idle]\<rparr>)"
| evict_visit:
    "evicting s = None \<Longrightarrow> q_results (queue s) jid = Some r \<Longrightarrow> evictable now r \<Longrightarrow>
     qstep s (EvictVisit jid now) (s\<lparr>evicting := Some (jid, now)\<rparr>)"
| evict_delete:
    "evicting s = Some (jid, now) \<Longrightarrow>
     qstep s EvictDelete
       (s\<lparr>queue := (queue s)\<lparr>q_results := (q_results (queue s))(jid := None)\<rparr>, evicting := None\<rparr>)"
| cancel:
    "qstep s Cancel (s\<lparr>cancelled := True\<rparr>)"
| worker_exit:
    "i < length (workers s) \<Longrightarrow> workers s ! i = Idle \<Longrightarrow> cancelled s \<Longrightarrow>
     qstep s (WorkerExit i) (s\<lparr>workers := (workers s)[i := Exited]\<rparr>)"

text \<open>
  Reachable states. Every caller takes the job's id from \<^verbatim>\<open>uuid.New\<close>, so an id is new when
  \<^verbatim>\<open>Enqueue\<close> is called with it.
\<close>

definition fresh_call :: "qsys \<Rightarrow> qlabel \<Rightarrow> bool" where
  "fresh_call s l = (case l of BeginEnqueue job \<Rightarrow> j_ID job \<notin> used_ids s | _ \<Rightarrow> True)"

inductive qreach :: "QueueConfig \<Rightarrow> qsys \<Rightarrow> bool" for cfg where
  init: "qreach cfg (qsys_init cfg)"
| step: "qreach cfg s \<Longrightarrow> fresh_call s l \<Longrightarrow> qstep s l s' \<Longrightarrow> qreach cfg s'"

section \<open>The invariant\<close>

fun worker_ids :: "worker \<Rightarrow> string multiset" where
  "worker_ids (Got job) = {#j_ID job#}"
| "worker_ids (Counted job) = {#j_ID job#}"
| "worker_ids (Working job _) = {#j_ID job#}"
| "worker_ids _ = {#}"

fun counted :: "worker \<Rightarrow> bool" where
  "counted (Counted _) = True"
| "counted (Working _ _) = True"
| "counted Finished = True"
| "counted _ = False"

text \<open>The ids of the jobs between the call of \<^verbatim>\<open>Enqueue\<close> and the storing of their final result.\<close>

definition live_ids :: "qsys \<Rightarrow> string multiset" where
  "live_ids s = mset (map j_ID (sending s)) + mset (map j_ID (q_ch (queue s)))
     + \<Sum>\<^sub># (image_mset worker_ids (mset (workers s)))"

definition completed :: "JobResult \<Rightarrow> bool" where
  "completed r \<longleftrightarrow> jr_Status r = StatusDone \<or> jr_Status r = StatusFailed"

definition result_ok :: "qsys \<Rightarrow> string \<Rightarrow> bool" where
  "result_ok s jid \<longleftrightarrow>
     (case q_results (queue s) jid of
        None \<Rightarrow> jid \<notin># live_ids s
      | Some r \<Rightarrow> jid \<in> used_ids s \<and> jr_JobID r = jid
          \<and> (if jid \<in># live_ids s then r = pendingResult jid else completed r))"

definition evicting_ok :: "qsys \<Rightarrow> bool" where
  "evicting_ok s \<longleftrightarrow>
     (case evicting s of None \<Rightarrow> True
      | Some (jid, now) \<Rightarrow> (\<exists>r. q_results (queue s) jid = Some r \<and> evictable now r))"

definition queue_inv :: "nat \<Rightarrow> qsys \<Rightarrow> bool" where
  "queue_inv n s \<longleftrightarrow>
     length (q_ch (queue s)) \<le> q_cap (queue s) \<and> 0 < q_cap (queue s)
     \<and> length (workers s) = n
     \<and> q_inflight (queue s) = int (length (filter counted (workers s)))
     \<and> (\<forall>jid. count (live_ids s) jid \<le> 1)
     \<and> set_mset (live_ids s) \<subseteq> used_ids s
     \<and> (\<forall>jid. result_ok s jid)
     \<and> evicting_ok s"

lemma worker_ids_nth:
  assumes "i < length ws"
  shows "\<Sum>\<^sub># (image_mset worker_ids (mset ws))
    = worker_ids (ws ! i) + \<Sum>\<^sub># (image_mset worker_ids (mset ws - {#ws ! i#}))"
proof -
  have "mset ws = add_mset (ws ! i) (mset ws - {#ws ! i#})" using assms by simp
  then show ?thesis by (metis image_mset_add_mset sum_mset.insert)
qed

lemma worker_ids_update:
  assumes "i < length ws"
  shows "\<Sum>\<^sub># (image_mset worker_ids (mset (ws[i := w])))
    = worker_ids w + \<Sum>\<^sub># (image_mset worker_ids (mset ws - {#ws ! i#}))"
  using assms by (simp add: mset_update)

lemma counted_update:
  assumes "i < length ws"
  shows "int (length (filter counted (ws[i := w])))
    = int (length (filter counted ws)) - of_bool (counted (ws ! i)) + of_bool (counted w)"
  using assms
proof (induction ws arbitrary: i)
  case (Cons x ws)
  then show ?case by (cases i) auto
qed simp

text \<open>What each step does to the live ids.\<close>

lemma sending_remove1:
  "job \<in> set js \<Longrightarrow> mset (map j_ID js) = add_mset (j_ID job) (mset (map j_ID (remove1 job js)))"
  by (induction js) auto

lemma live_begin:
  "live_ids (s\<lparr>queue := Enqueue_store job (queue s), sending := job # sending s,
      used_ids := used\<rparr>) = add_mset (j_ID job) (live_ids s)"
  by (simp add: live_ids_def Enqueue_store_def)

lemma live_send:
  assumes "job \<in> set (sending s)"
  shows "live_ids s = (if length (q_ch (queue s)) < q_cap (queue s) then {#} else {#j_ID job#})
    + live_ids (s\<lparr>queue := snd (Enqueue_send job (queue s)), sending := remove1 job (sending s)\<rparr>)"
  using sending_remove1 [OF assms] by (simp add: live_ids_def Enqueue_send_def)

lemma live_worker:
  assumes "i < length (workers s)"
  shows "worker_ids w + live_ids s
    = worker_ids (workers s ! i) + live_ids (s\<lparr>workers := (workers s)[i := w]\<rparr>)"
  using assms worker_ids_nth [OF assms] by (simp add: live_ids_def worker_ids_update ac_simps)

lemma live_queue:
  "q_ch q = q_ch (queue s) \<Longrightarrow> live_ids (s\<lparr>queue := q\<rparr>) = live_ids s"
  by (simp add: live_ids_def)

lemma live_irrelevant [simp]:
  "live_ids (s\<lparr>evicting := e\<rparr>) = live_ids s" "live_ids (s\<lparr>cancelled := c\<rparr>) = live_ids s"
  by (simp_all add: live_ids_def)

text \<open>A step that leaves the results, the ids and the eviction alone.\<close>

lemma queue_inv_same:
  assumes "queue_inv n s"
    and "live_ids s' = live_ids s" "q_results (queue s') = q_results (queue s)"
    and "used_ids s' = used_ids s" "evicting s' = evicting s"
    and "q_cap (queue s') = q_cap (queue s)" "length (q_ch (queue s')) \<le> q_cap (queue s)"
    and "length (workers s') = length (workers s)"
    and "q_inflight (queue s') = int (length (filter counted (workers s')))"
  shows "queue_inv n s'"
proof -
  have "result_ok s' = result_ok s"
    by (rule ext) (simp add: result_ok_def assms(2-4) cong: option.case_cong if_cong)
  moreover have "evicting_ok s' = evicting_ok s" unfolding evicting_ok_def assms(3,5) ..
  ultimately show ?thesis using assms by (simp add: queue_inv_def)
qed

lemma pending_not_evictable: "\<not> evictable now (pendingResult jid)"
  by (simp add: evictable_def pendingResult_def)

lemma evicting_not_live:
  assumes "queue_inv n s" "evicting s = Some (jid, now)"
  shows "jid \<notin># live_ids s \<and> jid \<in> used_ids s"
proof -
  from assms obtain r where r: "q_results (queue s) jid = Some r" "evictable now r"
    by (auto simp: queue_inv_def evicting_ok_def)
  moreover have "result_ok s jid" using assms by (simp add: queue_inv_def)
  ultimately show ?thesis
    using pending_not_evictable by (auto simp: result_ok_def split: if_splits)
qed

lemma inv_begin:
  assumes "queue_inv n s" "j_ID job \<notin> used_ids s"
  shows "queue_inv n (s\<lparr>queue := Enqueue_store job (queue s), sending := job # sending s,
      used_ids := insert (j_ID job) (used_ids s)\<rparr>)" (is "queue_inv n ?s'")
proof -
  have nl: "j_ID job \<notin># live_ids s" using assms by (auto simp: queue_inv_def)
  have live: "live_ids ?s' = add_mset (j_ID job) (live_ids s)" by (rule live_begin)
  have res: "q_results (queue ?s') = (q_results (queue s))(j_ID job \<mapsto> pendingResult (j_ID job))"
    by (simp add: Enqueue_store_def)
  have rok: "\<And>jid. result_ok s jid" using assms by (simp add: queue_inv_def)
  have "result_ok ?s' jid" for jid
    using rok [of jid] nl unfolding result_ok_def live res
    by (auto simp: pendingResult_def split: option.splits if_splits)
  moreover have "evicting_ok ?s'"
  proof (cases "evicting s")
    case (Some e)
    obtain jid now where e: "e = (jid, now)" by (cases e)
    with evicting_not_live [OF assms(1)] Some assms(2) have "jid \<noteq> j_ID job" by auto
    with Some e assms(1) show ?thesis by (simp add: evicting_ok_def queue_inv_def Enqueue_store_def)
  qed (simp add: evicting_ok_def)
  moreover have "count (live_ids ?s') jid \<le> 1" for jid
    using nl assms unfolding live by (auto simp: queue_inv_def not_in_iff)
  moreover have "set_mset (live_ids ?s') \<subseteq> used_ids ?s'"
    using assms unfolding live by (auto simp: queue_inv_def)
  ultimately show ?thesis
    using assms by (simp add: queue_inv_def Enqueue_store_def)
qed

lemma inv_send:
  assumes "queue_inv n s" "job \<in> set (sending s)"
  shows "queue_inv n (s\<lparr>queue := snd (Enqueue_send job (queue s)), sending := remove1 job (sending s)\<rparr>)"
    (is "queue_inv n ?s'")
proof (cases "length (q_ch (queue s)) < q_cap (queue s)")
  case True
  have "live_ids ?s' = live_ids s" using live_send [OF assms(2)] True by simp
  then show ?thesis
    using assms True by (intro queue_inv_same [OF assms(1)]) (auto simp: Enqueue_send_def queue_inv_def)
next
  case False
  have live: "live_ids s = add_mset (j_ID job) (live_ids ?s')"
    using live_send [OF assms(2)] False by simp
  have res: "q_results (queue ?s') = (q_results (queue s))(j_ID job := None)"
    using False by (simp add: Enqueue_send_def)
  have one: "count (live_ids s) (j_ID job) \<le> 1" using assms(1) by (simp add: queue_inv_def)
  then have nl: "j_ID job \<notin># live_ids ?s'" unfolding live by (simp add: not_in_iff)
  have rok: "\<And>jid. result_ok s jid" using assms by (simp add: queue_inv_def)
  have "result_ok ?s' jid" for jid
  proof (cases "jid = j_ID job")
    case False
    then show ?thesis using rok [of jid] unfolding result_ok_def live res by (simp cong: option.case_cong)
  qed (use nl in \<open>simp only: result_ok_def res fun_upd_same option.case not_False_eq_True\<close>)
  moreover have "evicting_ok ?s'"
  proof (cases "evicting s")
    case (Some e)
    obtain jid now where e: "e = (jid, now)" by (cases e)
    with evicting_not_live [OF assms(1)] Some live have "jid \<noteq> j_ID job" by auto
    with Some e assms(1) False show ?thesis by (simp add: evicting_ok_def queue_inv_def Enqueue_send_def)
  qed (simp add: evicting_ok_def)
  moreover have "count (live_ids ?s') jid \<le> 1" for jid
  proof -
    have "count (live_ids s) jid \<le> 1" using assms(1) by (simp add: queue_inv_def)
    then show ?thesis unfolding live by (simp split: if_splits)
  qed
  moreover have "set_mset (live_ids ?s') \<subseteq> used_ids ?s'"
    using assms(1) unfolding queue_inv_def live by auto
  ultimately show ?thesis
    using assms False by (simp add: queue_inv_def Enqueue_send_def)
qed

lemma inv_finish:
  assumes "queue_inv n s" "i < length (workers s)" "workers s ! i = Working job startedAt"
  shows "queue_inv n (s\<lparr>queue := run_finish job startedAt err now (queue s),
      workers := (workers s)[i := Finished]\<rparr>)" (is "queue_inv n ?s'")
proof -
  have live: "live_ids s = add_mset (j_ID job) (live_ids ?s')"
    using live_worker [OF assms(2), of Finished] assms(3)
    by (simp add: live_ids_def run_finish_def)
  have res: "q_results (queue ?s') = (q_results (queue s))(j_ID job \<mapsto> finalResult job startedAt err now)"
    by (simp add: run_finish_def)
  have "count (live_ids s) (j_ID job) \<le> 1" using assms(1) by (simp add: queue_inv_def)
  then have nl: "j_ID job \<notin># live_ids ?s'" unfolding live by (simp add: not_in_iff)
  have rok: "\<And>jid. result_ok s jid" using assms by (simp add: queue_inv_def)
  have used: "set_mset (live_ids s) \<subseteq> used_ids s" using assms(1) by (simp add: queue_inv_def)
  have "result_ok ?s' jid" for jid
  proof (cases "jid = j_ID job")
    case True
    have "completed (finalResult job startedAt err now)"
      by (simp add: completed_def finalResult_def split: option.splits)
    with True nl used live show ?thesis
      unfolding result_ok_def res by (simp add: finalResult_def)
  next
    case False
    then show ?thesis using rok [of jid] unfolding result_ok_def live res by (simp cong: option.case_cong)
  qed
  moreover have "evicting_ok ?s'"
  proof (cases "evicting s")
    case (Some e)
    obtain jid t where e: "e = (jid, t)" by (cases e)
    with evicting_not_live [OF assms(1)] Some live have "jid \<noteq> j_ID job" by auto
    with Some e assms(1) show ?thesis by (simp add: evicting_ok_def queue_inv_def run_finish_def)
  qed (simp add: evicting_ok_def)
  moreover have "count (live_ids ?s') jid \<le> 1" for jid
  proof -
    have "count (live_ids s) jid \<le> 1" using assms(1) by (simp add: queue_inv_def)
    then show ?thesis unfolding live by (simp split: if_splits)
  qed
  moreover have "set_mset (live_ids ?s') \<subseteq> used_ids ?s'" using used live by auto
  ultimately show ?thesis
    using assms by (simp add: queue_inv_def run_finish_def counted_update)
qed

lemma inv_delete:
  assumes "queue_inv n s" "evicting s = Some (jid, now)"
  shows "queue_inv n (s\<lparr>queue := (queue s)\<lparr>q_results := (q_results (queue s))(jid := None)\<rparr>,
      evicting := None\<rparr>)" (is "queue_inv n ?s'")
proof -
  have live: "live_ids ?s' = live_ids s" by (simp add: live_ids_def)
  have rok: "\<And>k. result_ok s k" using assms by (simp add: queue_inv_def)
  have "result_ok ?s' k" for k
    using rok [of k] evicting_not_live [OF assms] unfolding result_ok_def live
    by (cases "k = jid") (simp_all cong: option.case_cong)
  then show ?thesis
    using assms live by (simp add: queue_inv_def evicting_ok_def)
qed

lemma inv_worker:
  assumes "queue_inv n s" "i < length (workers s)" "worker_ids w = worker_ids (workers s ! i)"
    and "inflight = q_inflight (queue s) - of_bool (counted (workers s ! i)) + of_bool (counted w)"
  shows "queue_inv n (s\<lparr>queue := (queue s)\<lparr>q_inflight := inflight\<rparr>, workers := (workers s)[i := w]\<rparr>)"
  using live_worker [OF assms(2), of w] assms
  by (intro queue_inv_same [OF assms(1)]) (auto simp: live_ids_def queue_inv_def counted_update)

lemma inv_qstep:
  assumes "qstep s l s'" "queue_inv n s" "fresh_call s l"
  shows "queue_inv n s'"
  using assms
proof (induction rule: qstep.induct)
  case (begin_enqueue s job)
  then show ?case by (intro inv_begin) (simp_all add: fresh_call_def)
next
  case (receive i s job rest)
  from live_worker [OF receive(1), of "Got job"] receive
  have "live_ids (s\<lparr>queue := (queue s)\<lparr>q_ch := rest\<rparr>, workers := (workers s)[i := Got job]\<rparr>) = live_ids s"
    by (simp add: live_ids_def)
  with receive show ?case
    by (intro queue_inv_same [OF receive(4)]) (auto simp: queue_inv_def counted_update)
next
  case (count_up i s job)
  then show ?case by (intro inv_worker) simp_all
next
  case (start_work i s job now)
  then show ?case using inv_worker [of n s i "Working job now" "q_inflight (queue s)"] by simp
next
  case (count_down i s)
  then show ?case by (intro inv_worker) simp_all
next
  case (evict_visit s jid r now)
  have "result_ok (s\<lparr>evicting := e\<rparr>) = result_ok s" for e
    by (rule ext) (simp add: result_ok_def cong: option.case_cong)
  with evict_visit show ?case by (simp add: queue_inv_def evicting_ok_def)
next
  case (cancel s)
  then show ?case by (intro queue_inv_same [OF cancel(1)]) (simp_all add: queue_inv_def)
next
  case (worker_exit i s)
  then show ?case using inv_worker [of n s i Exited "q_inflight (queue s)"] by simp
qed (simp_all add: inv_send inv_finish inv_delete)

lemma live_init: "live_ids (qsys_init cfg) = {#}"
proof -
  have "\<Sum>\<^sub># (replicate_mset k {#}) = ({#} :: string multiset)" for k by (induction k) auto
  then show ?thesis by (simp add: live_ids_def qsys_init_def newQueue_def)
qed

lemma inv_init: "queue_inv (queueWorkers cfg) (qsys_init cfg)"
  using live_init by (auto simp: queue_inv_def qsys_init_def newQueue_def result_ok_def evicting_ok_def)

lemma inv_qreach: "qreach cfg s \<Longrightarrow> queue_inv (queueWorkers cfg) s"
  by (induction rule: qreach.induct) (auto intro: inv_init inv_qstep)

lemma pendingResult_simps [simp]:
  "jr_JobID (pendingResult jid) = jid" "jr_Status (pendingResult jid) = StatusPending"
  "\<not> completed (pendingResult jid)"
  by (simp_all add: pendingResult_def completed_def)

lemma completed_not_pending: "completed r \<Longrightarrow> r = pendingResult jid \<Longrightarrow> P"
  by auto

lemma completed_Processing: "completed r \<Longrightarrow> jr_Status r \<noteq> StatusProcessing"
  by (auto simp: completed_def)

text \<open>
  C10: Polling tells the truth. In every reachable state a job id reads \<^verbatim>\<open>pending\<close> exactly while
  its job is on its way through the queue, and a result found for any other id is final; the
  status \<^verbatim>\<open>processing\<close> is never reported.
\<close>

theorem status_tracks_jobs:
  assumes "qreach cfg s"
  shows "(Status jid (queue s) = Some (pendingResult jid) \<longleftrightarrow> jid \<in># live_ids s)
    \<and> (case Status jid (queue s) of None \<Rightarrow> True
       | Some r \<Rightarrow> jr_JobID r = jid \<and> jr_Status r \<noteq> StatusProcessing
           \<and> (completed r \<longleftrightarrow> jid \<notin># live_ids s))"
proof -
  have "result_ok s jid" using inv_qreach [OF assms] by (simp add: queue_inv_def)
  then show ?thesis
    by (auto simp: Status_def result_ok_def completed_Processing elim: completed_not_pending
        split: option.splits if_splits)
qed

text \<open>
  bounds. In every reachable state the channel holds at most its capacity, and
  \<^verbatim>\<open>inflight\<close> counts the workers that have a job: it is between 0 and the number of workers.
\<close>

theorem queue_bounds:
  assumes "qreach cfg s"
  shows "Depth (queue s) \<le> q_cap (queue s) \<and> 0 \<le> q_inflight (queue s)
    \<and> q_inflight (queue s) = int (length (filter counted (workers s)))
    \<and> q_inflight (queue s) \<le> int (queueWorkers cfg)"
proof -
  have "length (filter counted (workers s)) \<le> length (workers s)" by simp
  with inv_qreach [OF assms] show ?thesis by (simp add: queue_inv_def Depth_def)
qed

text \<open>
  a final result stays until its time to live is over. A step from a reachable state keeps
  it, unless the step is a deletion decided at a tick at least five minutes after the job ended.
\<close>

theorem completed_result_kept:
  assumes "qreach cfg s" "fresh_call s l" "qstep s l s'"
    and "Status jid (queue s) = Some r" "completed r"
  shows "Status jid (queue s') = Some r
    \<or> (\<exists>now. evicting s = Some (jid, now) \<and> resultTTL \<le> now - jr_DoneAt r)"
proof -
  note inv = inv_qreach [OF assms(1)]
  have ok: "result_ok s jid" and ev: "evicting_ok s" using inv by (simp_all add: queue_inv_def)
  have jid: "jid \<in> used_ids s" "jid \<notin># live_ids s"
    using ok assms(4,5) by (auto simp: Status_def result_ok_def split: if_splits)
  have other: "k \<noteq> jid" if "k \<in># live_ids s" for k using that jid by blast
  from assms(3) show ?thesis
  proof cases
    case (begin_enqueue job)
    with assms jid show ?thesis by (auto simp: fresh_call_def Status_def Enqueue_store_def)
  next
    case (try_send job)
    then have "j_ID job \<in># live_ids s" by (auto simp: live_ids_def)
    with try_send assms other show ?thesis by (auto simp: Status_def Enqueue_send_def)
  next
    case (finish_work i job startedAt err now)
    then have "j_ID job \<in># live_ids s" using live_worker [of i s Finished] by simp
    with finish_work assms other show ?thesis by (auto simp: Status_def run_finish_def)
  next
    case (evict_delete k now)
    with ev assms(4) show ?thesis
      by (auto simp: evicting_ok_def Status_def evictable_def split: if_splits)
  qed (use assms(4) in \<open>simp_all add: Status_def\<close>)
qed

section \<open>The queue drains\<close>

text \<open>Steps of the senders and workers; each lowers the work left.\<close>

inductive work_step :: "qsys \<Rightarrow> qsys \<Rightarrow> bool" where
  work_step: "qstep s l s' \<Longrightarrow> l \<in> {TrySend job, Receive i, CountUp i, StartWork i t, FinishWork i err t, CountDown i}
    \<Longrightarrow> work_step s s'"

fun worker_work :: "worker \<Rightarrow> nat" where
  "worker_work (Got _) = 4"
| "worker_work (Counted _) = 3"
| "worker_work (Working _ _) = 2"
| "worker_work Finished = 1"
| "worker_work _ = 0"

definition work_left :: "qsys \<Rightarrow> nat" where
  "work_left s = 6 * length (sending s) + 5 * length (q_ch (queue s))
     + sum_list (map worker_work (workers s))"

definition no_exit :: "qsys \<Rightarrow> bool" where
  "no_exit s \<longleftrightarrow> workers s \<noteq> [] \<and> Exited \<notin> set (workers s)"

lemma worker_work_update:
  "i < length ws \<Longrightarrow> sum_list (map worker_work (ws[i := w])) + worker_work (ws ! i)
     = sum_list (map worker_work ws) + worker_work w"
  by (induction ws arbitrary: i) (auto split: nat.splits)

lemma work_step_facts:
  assumes "work_step s s'"
  shows "work_left s' < work_left s \<and> used_ids s' = used_ids s \<and> (no_exit s \<longrightarrow> no_exit s')
    \<and> (qreach cfg s \<longrightarrow> qreach cfg s')"
proof -
  from assms obtain l job i t err where l: "qstep s l s'"
      "l \<in> {TrySend job, Receive i, CountUp i, StartWork i t, FinishWork i err t, CountDown i}"
    by (auto elim: work_step.cases)
  then have "fresh_call s l" by (auto simp: fresh_call_def)
  then have reach: "qreach cfg s \<longrightarrow> qreach cfg s'" using l(1) qreach.step by blast
  have no: "Exited \<notin> set ((workers s)[i := w])" if "Exited \<notin> set (workers s)" "w \<noteq> Exited" for w
    using that set_update_subset_insert [of "workers s" i w] by auto
  have wk: "sum_list (map worker_work ((workers s)[i := w])) < sum_list (map worker_work (workers s)) + d"
    if "i < length (workers s)" "worker_work w < worker_work (workers s ! i) + d" for w d
    using worker_work_update [OF that(1), of w] that(2) by linarith
  from l(1) show ?thesis
  proof cases
    case (try_send job)
    then have "length (remove1 job (sending s)) < length (sending s)"
      by (simp add: length_remove1) (cases "sending s"; simp)
    with try_send reach show ?thesis by (auto simp: work_left_def no_exit_def Enqueue_send_def)
  next
    case (receive j job rest)
    with l reach no [of "Got job"] wk [of "Got job" 5] show ?thesis
      by (auto simp: work_left_def no_exit_def)
  next
    case (count_up j job)
    with l reach no [of "Counted job"] wk [of "Counted job" 0] show ?thesis
      by (auto simp: work_left_def no_exit_def)
  next
    case (start_work j job now)
    with l reach no [of "Working job now"] wk [of "Working job now" 0] show ?thesis
      by (auto simp: work_left_def no_exit_def)
  next
    case (finish_work j job st e now)
    with l reach no [of Finished] wk [of Finished 0] show ?thesis
      by (auto simp: work_left_def no_exit_def run_finish_def)
  next
    case (count_down j)
    with l reach no [of Idle] wk [of Idle 0] show ?thesis
      by (auto simp: work_left_def no_exit_def)
  qed (use l(2) in auto)
qed

text \<open>No deadlock: while a job is on its way or a worker has not gone back, a step is enabled.\<close>

lemma busy_enabled:
  assumes "i < length (workers s)" "workers s ! i \<noteq> Idle" "workers s ! i \<noteq> Exited"
  shows "\<exists>s'. work_step s s'"
proof (cases "workers s ! i")
  case (Got job)
  from work_step [OF count_up [OF assms(1) this]] show ?thesis by blast
next
  case (Counted job)
  from work_step [OF start_work [OF assms(1) this]] show ?thesis by blast
next
  case (Working job t)
  from work_step [OF finish_work [OF assms(1) this]] show ?thesis by blast
next
  case Finished
  from work_step [OF count_down [OF assms(1) this]] show ?thesis by blast
qed (use assms in auto)

lemma work_enabled:
  assumes "no_exit s" "work_left s \<noteq> 0"
  shows "\<exists>s'. work_step s s'"
proof (cases "\<exists>w \<in> set (workers s). w \<noteq> Idle")
  case True
  then obtain i where "i < length (workers s)" "workers s ! i \<noteq> Idle" by (metis in_set_conv_nth)
  with assms(1) show ?thesis
    by (intro busy_enabled) (auto simp: no_exit_def dest: nth_mem)
next
  case False
  then have idle: "sum_list (map worker_work (workers s)) = 0" by (auto simp: sum_list_eq_0_iff)
  have w: "0 < length (workers s)" "workers s ! 0 = Idle"
    using assms(1) False by (auto simp: no_exit_def)
  show ?thesis
  proof (cases "sending s")
    case Nil
    with assms(2) idle obtain job rest where "q_ch (queue s) = job # rest"
      by (auto simp: work_left_def neq_Nil_conv)
    from work_step [OF receive [OF w this]] show ?thesis by blast
  next
    case (Cons job jobs)
    from work_step [OF try_send [of job s]] Cons show ?thesis by auto
  qed
qed

lemma no_work_no_live: "work_left s = 0 \<Longrightarrow> live_ids s = {#}"
proof -
  assume w: "work_left s = 0"
  have "worker_ids x = {#}" if "worker_work x = 0" for x using that by (cases x) auto
  then have "\<Sum>\<^sub># (image_mset worker_ids (mset (workers s))) = {#}"
    using w by (intro sum_mset.neutral) (auto simp: work_left_def)
  with w show ?thesis by (simp add: work_left_def live_ids_def)
qed

lemma drains:
  assumes "qreach cfg s" "no_exit s"
  shows "\<exists>s'. work_step\<^sup>*\<^sup>* s s' \<and> qreach cfg s' \<and> work_left s' = 0 \<and> used_ids s' = used_ids s"
  using assms
proof (induction "work_left s" arbitrary: s rule: less_induct)
  case less
  show ?case
  proof (cases "work_left s = 0")
    case False
    from work_enabled [OF less.prems(2) this] obtain s1 where s1: "work_step s s1" by blast
    note f = work_step_facts [OF s1, of cfg]
    from less.hyps [of s1] f less.prems obtain s' where
        "work_step\<^sup>*\<^sup>* s1 s'" "qreach cfg s'" "work_left s' = 0" "used_ids s' = used_ids s"
      by auto
    with s1 show ?thesis by (meson converse_rtranclp_into_rtranclp)
  qed (use less.prems in blast)
qed

text \<open>
  the queue drains. From every reachable state in which no worker has left, the senders and
  workers never block before the work is done: every step they take lowers the work left, and
  some run of them ends with the channel empty, no worker busy, and every id either with a final
  result or (rejected or evicted) without one.
\<close>

theorem queue_drains:
  assumes "qreach cfg s" "no_exit s"
  shows "(\<forall>s'. work_step s s' \<longrightarrow> work_left s' < work_left s)
    \<and> (\<exists>s'. work_step\<^sup>*\<^sup>* s s' \<and> Depth (queue s') = 0 \<and> q_inflight (queue s') = 0
        \<and> (\<forall>jid. case Status jid (queue s') of None \<Rightarrow> True | Some r \<Rightarrow> completed r))"
proof -
  from drains [OF assms] obtain s' where s': "work_step\<^sup>*\<^sup>* s s'" "qreach cfg s'" "work_left s' = 0"
    by blast
  note inv = inv_qreach [OF s'(2)]
  have ok: "result_ok s' jid" for jid using inv by (simp add: queue_inv_def)
  have "case Status jid (queue s') of None \<Rightarrow> True | Some r \<Rightarrow> completed r" for jid
    using no_work_no_live [OF s'(3)] ok [of jid]
    by (auto simp: Status_def result_ok_def split: option.splits)
  moreover have "filter counted (workers s') = []"
    using s'(3) by (auto simp: work_left_def filter_empty_conv elim!: counted.elims)
  ultimately show ?thesis
    using s' inv work_step_facts by (auto simp: work_left_def queue_inv_def Depth_def intro!: exI [of _ s'])
qed

section \<open>Runs\<close>

text \<open>The steps as a function of the label, to run schedules.\<close>

definition qexec :: "qlabel \<Rightarrow> qsys \<Rightarrow> qsys option" where
  "qexec l s =
     (case l of
        BeginEnqueue job \<Rightarrow>
          Some (s\<lparr>queue := Enqueue_store job (queue s), sending := job # sending s,
            used_ids := insert (j_ID job) (used_ids s)\<rparr>)
      | TrySend job \<Rightarrow>
          if job \<in> set (sending s)
          then Some (s\<lparr>queue := snd (Enqueue_send job (queue s)), sending := remove1 job (sending s)\<rparr>)
          else None
      | Receive i \<Rightarrow>
          (case q_ch (queue s) of [] \<Rightarrow> None
           | job # rest \<Rightarrow>
               if i < length (workers s) \<and> workers s ! i = Idle
               then Some (s\<lparr>queue := (queue s)\<lparr>q_ch := rest\<rparr>, workers := (workers s)[i := Got job]\<rparr>)
               else None)
      | CountUp i \<Rightarrow>
          if i < length (workers s) then
            (case workers s ! i of Got job \<Rightarrow>
               Some (s\<lparr>queue := (queue s)\<lparr>q_inflight := q_inflight (queue s) + 1\<rparr>,
                 workers := (workers s)[i := Counted job]\<rparr>) | _ \<Rightarrow> None)
          else None
      | StartWork i now \<Rightarrow>
          if i < length (workers s) then
            (case workers s ! i of Counted job \<Rightarrow>
               Some (s\<lparr>workers := (workers s)[i := Working job now]\<rparr>) | _ \<Rightarrow> None)
          else None
      | FinishWork i err now \<Rightarrow>
          if i < length (workers s) then
            (case workers s ! i of Working job startedAt \<Rightarrow>
               Some (s\<lparr>queue := run_finish job startedAt err now (queue s),
                 workers := (workers s)[i := Finished]\<rparr>) | _ \<Rightarrow> None)
          else None
      | CountDown i \<Rightarrow>
          if i < length (workers s) \<and> workers s ! i = Finished
          then Some (s\<lparr>queue := (queue s)\<lparr>q_inflight := q_inflight (queue s) - 1\<rparr>,
            workers := (workers s)[i := Idle]\<rparr>)
          else None
      | EvictVisit jid now \<Rightarrow>
          (case (evicting s, q_results (queue s) jid) of
             (None, Some r) \<Rightarrow> if evictable now r then Some (s\<lparr>evicting := Some (jid, now)\<rparr>) else None
           | _ \<Rightarrow> None)
      | EvictDelete \<Rightarrow>
          (case evicting s of None \<Rightarrow> None
           | Some (jid, now) \<Rightarrow>
               Some (s\<lparr>queue := (queue s)\<lparr>q_results := (q_results (queue s))(jid := None)\<rparr>,
                 evicting := None\<rparr>))
      | Cancel \<Rightarrow> Some (s\<lparr>cancelled := True\<rparr>)
      | WorkerExit i \<Rightarrow>
          if i < length (workers s) \<and> workers s ! i = Idle \<and> cancelled s
          then Some (s\<lparr>workers := (workers s)[i := Exited]\<rparr>) else None)"

lemma qexec_step: "qexec l s = Some s' \<Longrightarrow> qstep s l s'"
  by (cases l) (auto simp: qexec_def split: if_splits list.splits worker.splits option.splits intro: qstep.intros)

lemma qstep_exec: "qstep s l s' \<Longrightarrow> qexec l s = Some s'"
  by (induction rule: qstep.induct) (auto simp: qexec_def)

fun qrun :: "qlabel list \<Rightarrow> qsys \<Rightarrow> qsys option" where
  "qrun [] s = Some s"
| "qrun (l # ls) s =
     (if fresh_call s l then (case qexec l s of None \<Rightarrow> None | Some s' \<Rightarrow> qrun ls s') else None)"

lemma qrun_reach: "qrun ls s = Some s' \<Longrightarrow> qreach cfg s \<Longrightarrow> qreach cfg s'"
  by (induction ls arbitrary: s)
    (auto split: if_splits option.splits intro: qreach.step qexec_step)

text \<open>A run of one job through a queue of one worker, stopped before the worker goes back.\<close>

definition sample_job :: Job where
  "sample_job = \<lparr>j_ID = ''a'', j_Project = ''p''\<rparr>"

definition sample_labels :: "qlabel list" where
  "sample_labels = [BeginEnqueue sample_job, TrySend sample_job, Receive 0, CountUp 0,
     StartWork 0 5, FinishWork 0 None 9]"

definition sample_sys :: "nat \<Rightarrow> qsys" where
  "sample_sys n = the (qrun (take n sample_labels) (qsys_init \<lparr>qc_Depth = 1, qc_Workers = 1\<rparr>))"

lemmas qrun_simps = sample_sys_def sample_labels_def sample_job_def qsys_init_def newQueue_def
  queueWorkers_def fresh_call_def qexec_def Enqueue_store_def Enqueue_send_def run_finish_def

lemma sample_reach: "n \<le> 6 \<Longrightarrow> qreach \<lparr>qc_Depth = 1, qc_Workers = 1\<rparr> (sample_sys n)"
proof -
  assume "n \<le> 6"
  then have "n \<in> {0, 1, 2, 3, 4, 5, 6}" by auto
  then have "\<exists>s. qrun (take n sample_labels) (qsys_init \<lparr>qc_Depth = 1, qc_Workers = 1\<rparr>) = Some s"
    by (auto simp: qrun_simps numeral_eq_Suc)
  then show ?thesis
    using qrun_reach [OF _ qreach.init] by (force simp: sample_sys_def)
qed

theorem status_tracks_jobs_witness:
  "Status ''a'' (queue (sample_sys 3)) = Some (pendingResult ''a'')
   \<and> live_ids (sample_sys 3) = {#''a''#} \<and> live_ids (sample_sys 6) = {#}
   \<and> Status ''a'' (queue (sample_sys 6)) \<noteq> Some (pendingResult ''a'')"
proof -
  have l: "live_ids (sample_sys 3) = {#''a''#}" "live_ids (sample_sys 6) = {#}"
    by (simp_all add: live_ids_def qrun_simps numeral_eq_Suc)
  with status_tracks_jobs [OF sample_reach, of 3 "''a''"] status_tracks_jobs [OF sample_reach, of 6 "''a''"]
  show ?thesis by simp
qed

theorem queue_bounds_witness:
  "Depth (queue (sample_sys 2)) \<le> 1 \<and> q_inflight (queue (sample_sys 5)) \<le> 1
   \<and> Depth (queue (sample_sys 2)) = 1 \<and> q_inflight (queue (sample_sys 5)) = 1"
  using queue_bounds [OF sample_reach, of 2] queue_bounds [OF sample_reach, of 5]
  by (simp add: Depth_def qrun_simps numeral_eq_Suc)

theorem completed_result_kept_witness:
  "\<exists>s' r. qstep (sample_sys 6) (CountDown 0) s' \<and> Status ''a'' (queue (sample_sys 6)) = Some r
     \<and> completed r \<and> Status ''a'' (queue s') = Some r"
proof -
  obtain s' where s': "qexec (CountDown 0) (sample_sys 6) = Some s'"
    by (simp add: qrun_simps numeral_eq_Suc)
  obtain r where r: "Status ''a'' (queue (sample_sys 6)) = Some r" "completed r"
    by (simp add: Status_def finalResult_def completed_def qrun_simps numeral_eq_Suc)
  have "evicting (sample_sys 6) = None" by (simp add: qrun_simps numeral_eq_Suc)
  moreover have "fresh_call (sample_sys 6) (CountDown 0)" by (simp add: fresh_call_def)
  ultimately show ?thesis
    using completed_result_kept [OF sample_reach _ qexec_step [OF s'] r] r qexec_step [OF s'] by auto
qed

theorem queue_drains_witness:
  "qreach \<lparr>qc_Depth = 1, qc_Workers = 1\<rparr> (sample_sys 2) \<and> no_exit (sample_sys 2)
   \<and> Depth (queue (sample_sys 2)) = 1
   \<and> (\<exists>s'. work_step\<^sup>*\<^sup>* (sample_sys 2) s' \<and> Depth (queue s') = 0)"
proof -
  have "no_exit (sample_sys 2)" by (simp add: no_exit_def qrun_simps numeral_eq_Suc)
  moreover have "Depth (queue (sample_sys 2)) = 1" by (simp add: Depth_def qrun_simps numeral_eq_Suc)
  ultimately show ?thesis
    using queue_drains [OF sample_reach, of 2] sample_reach [of 2] by auto
qed

end
