(* ===== verification/Engine_Pool.thy ===== *)
theory Engine_Pool
  imports Engram_Prelude
begin

text \<open>
  The pool of project engines (\<^verbatim>\<open>src/internal/mcp/pool.go\<close>): a map from normalised project
  names to engines with the instant of their last use, capped by evicting the least recently
  used one. Go ranges over a map in an arbitrary order: \<open>visit\<close> gives the order of a range over
  the entries, and all that is known of it is that it visits each entry once. The factory is a
  parameter too; an engine is a number. \<open>closed_engines\<close> records the engines closed, in order.
\<close>

section \<open>State\<close>

type_synonym engine = nat

record engineEntry =
  ent_handle :: engine
  lastAccess :: int

type_synonym entries = "(string \<times> engineEntry) list"

record EnginePool =
  engines :: entries
  pool_closed :: bool
  closed_engines :: "engine list"

definition maxPoolSize :: nat where
  "maxPoolSize = 50"

definition NewEnginePool :: EnginePool where
  "NewEnginePool = \<lparr>engines = [], pool_closed = False, closed_engines = []\<rparr>"

datatype pool_error = PoolClosed | ProjectNameTooLong nat | FactoryError

definition maxInt64 :: int where
  "maxInt64 = 2 ^ 63 - 1"

section \<open>Eviction\<close>

fun lru_scan :: "entries \<Rightarrow> string \<times> int \<Rightarrow> string \<times> int" where
  "lru_scan [] best = best"
| "lru_scan ((k, e) # es) (lruKey, lruNano) =
     (let nano = lastAccess e in
      if nano < lruNano \<or> (nano = lruNano \<and> k < lruKey) then lru_scan es (k, nano)
      else lru_scan es (lruKey, lruNano))"

definition delete_key :: "string \<Rightarrow> entries \<Rightarrow> entries" where
  "delete_key k es = filter (\<lambda>(k', _). k' \<noteq> k) es"

definition evictLRULocked :: "(entries \<Rightarrow> entries) \<Rightarrow> EnginePool \<Rightarrow> EnginePool" where
  "evictLRULocked visit p =
     (let lruKey = fst (lru_scan (visit (engines p)) ([], maxInt64)) in
      if lruKey = [] then p
      else case map_of (engines p) lruKey of
        None \<Rightarrow> p
      | Some e \<Rightarrow> p\<lparr>engines := delete_key lruKey (engines p),
          closed_engines := closed_engines p @ [ent_handle e]\<rparr>)"

text \<open>The loop \<^verbatim>\<open>for len(p.engines) >= maxPoolSize\<close>; \<open>None\<close> when it does not end.\<close>

partial_function (option) make_room :: "(entries \<Rightarrow> entries) \<Rightarrow> EnginePool \<Rightarrow> EnginePool option" where
  "make_room visit p =
     (if length (engines p) \<ge> maxPoolSize then make_room visit (evictLRULocked visit p) else Some p)"

section \<open>Lookup\<close>

definition normalize_project :: "(string \<Rightarrow> string) \<Rightarrow> string \<Rightarrow> string" where
  "normalize_project u project = ToLower u (TrimSpace project)"

definition touch :: "string \<Rightarrow> int \<Rightarrow> entries \<Rightarrow> entries" where
  "touch k now es = map (\<lambda>(k', e). if k' = k then (k', e\<lparr>lastAccess := now\<rparr>) else (k', e)) es"

text \<open>The guards of \<^verbatim>\<open>Get\<close> and its fast path under the read lock.\<close>

definition Get_fast ::
  "(string \<Rightarrow> string) \<Rightarrow> string \<Rightarrow> int \<Rightarrow> EnginePool \<Rightarrow> (pool_error + engine) option \<times> EnginePool" where
  "Get_fast u project now p =
     (if pool_closed p then (Some (Inl PoolClosed), p)
      else
        let project = normalize_project u project in
        if length project > 128 then (Some (Inl (ProjectNameTooLong (length project))), p)
        else case map_of (engines p) project of
          Some e \<Rightarrow> (Some (Inr (ent_handle e)), p\<lparr>engines := touch project now (engines p)\<rparr>)
        | None \<Rightarrow> (None, p))"

text \<open>
  The function handed to \<^verbatim>\<open>singleflight\<close>: the second look under the read lock, the factory
  outside every lock, and the installation under the write lock.
\<close>

definition init_recheck :: "string \<Rightarrow> EnginePool \<Rightarrow> engine option" where
  "init_recheck project p = map_option ent_handle (map_of (engines p) project)"

definition init_install ::
  "(entries \<Rightarrow> entries) \<Rightarrow> string \<Rightarrow> engine \<Rightarrow> int \<Rightarrow> EnginePool \<Rightarrow> (engine \<times> EnginePool) option" where
  "init_install visit project h now p =
     (case map_of (engines p) project of
        Some e \<Rightarrow>
          Some (ent_handle e, p\<lparr>engines := touch project now (engines p),
            closed_engines := closed_engines p @ [h]\<rparr>)
      | None \<Rightarrow>
          (case make_room visit p of
             None \<Rightarrow> None
           | Some p' \<Rightarrow>
               Some (h, p'\<lparr>engines := engines p' @ [(project, \<lparr>ent_handle = h, lastAccess = now\<rparr>)]\<rparr>)))"

text \<open>
  \<^verbatim>\<open>Get\<close> when no other goroutine touches the pool meanwhile. \<open>None\<close> when it does not return;
  the factory's error is \<open>None\<close> of its result.
\<close>

definition Get ::
  "(string \<Rightarrow> string) \<Rightarrow> (entries \<Rightarrow> entries) \<Rightarrow> (string \<Rightarrow> engine option) \<Rightarrow> string \<Rightarrow> int
    \<Rightarrow> EnginePool \<Rightarrow> ((pool_error + engine) \<times> EnginePool) option" where
  "Get u visit factory project now p =
     (case Get_fast u project now p of
        (Some r, p') \<Rightarrow> Some (r, p')
      | (None, p') \<Rightarrow>
          let project = normalize_project u project in
          (case init_recheck project p' of
             Some h \<Rightarrow> Some (Inr h, p')
           | None \<Rightarrow>
               (case factory project of
                  None \<Rightarrow> Some (Inl FactoryError, p')
                | Some h \<Rightarrow>
                    map_option (\<lambda>(h', p''). (Inr h', p'')) (init_install visit project h now p'))))"

definition Close_engines :: "EnginePool \<Rightarrow> EnginePool" where
  "Close_engines p = p\<lparr>closed_engines := closed_engines p @ map (ent_handle \<circ> snd) (engines p)\<rparr>"

definition Close :: "EnginePool \<Rightarrow> EnginePool" where
  "Close p = Close_engines (p\<lparr>pool_closed := True\<rparr>)"

section \<open>The scan finds the least recently used entry\<close>

text \<open>The order the scan minimises: last access first, then the name.\<close>

definition older :: "string \<times> int \<Rightarrow> string \<times> int \<Rightarrow> bool" where
  "older a b \<longleftrightarrow> snd a < snd b \<or> (snd a = snd b \<and> fst a < fst b)"

definition access :: "string \<times> engineEntry \<Rightarrow> string \<times> int" where
  "access x = (fst x, lastAccess (snd x))"

lemma Nil_less_string: "[] < (s :: string) \<longleftrightarrow> s \<noteq> []"
  by (cases s) auto

lemma lru_scan_Cons: "lru_scan (x # es) best = lru_scan es (if older (access x) best then access x else best)"
  by (cases x; cases best) (auto simp: older_def access_def Let_def)

lemma older_trans: "older a b \<Longrightarrow> older b c \<Longrightarrow> older a c"
  by (auto simp: older_def)

lemma older_not: "\<not> older a b \<longleftrightarrow> a = b \<or> older b a"
  by (cases a; cases b) (auto simp: older_def)

lemma lru_scan_min:
  "lru_scan es best \<in> insert best (access ` set es)
   \<and> (\<forall>x \<in> insert best (access ` set es). \<not> older x (lru_scan es best))"
proof (induction es arbitrary: best)
  case Nil
  then show ?case by (simp add: older_def)
next
  case (Cons y es)
  let ?b = "if older (access y) best then access y else best"
  have IH: "lru_scan (y # es) best \<in> insert ?b (access ` set es)"
      "\<And>x. x \<in> insert ?b (access ` set es) \<Longrightarrow> \<not> older x (lru_scan (y # es) best)"
    using Cons [of ?b] unfolding lru_scan_Cons by blast+
  then have b: "\<not> older ?b (lru_scan (y # es) best)" by blast
  then have "\<not> older best (lru_scan (y # es) best)" "\<not> older (access y) (lru_scan (y # es) best)"
    using older_trans older_not by (metis (full_types))+
  then show ?case using IH by auto
qed

text \<open>
  What a pool needs for eviction to work: distinct, non-empty names, and instants before the
  end of \<^verbatim>\<open>UnixNano\<close> in the year 2262.
\<close>

definition evictable_entries :: "entries \<Rightarrow> bool" where
  "evictable_entries es \<longleftrightarrow> distinct (map fst es) \<and> [] \<notin> fst ` set es
     \<and> list_all (\<lambda>(_, e). lastAccess e < maxInt64) es"

definition fair_range :: "(entries \<Rightarrow> entries) \<Rightarrow> bool" where
  "fair_range visit \<longleftrightarrow> (\<forall>es. set (visit es) = set es)"

lemma lru_scan_entry:
  assumes "evictable_entries es" "es \<noteq> []" "set es' = set es"
  obtains k e where "(k, e) \<in> set es" "lru_scan es' ([], maxInt64) = (k, lastAccess e)"
    "\<And>x. x \<in> set es \<Longrightarrow> x \<noteq> (k, e) \<Longrightarrow> older (k, lastAccess e) (access x)"
proof -
  let ?r = "lru_scan es' ([], maxInt64)"
  note m = lru_scan_min [of es' "([], maxInt64)", unfolded assms(3)]
  from assms(2) obtain y where y: "y \<in> set es" by (cases es) auto
  then have "older (access y) ([], maxInt64)"
    using assms(1) by (auto simp: evictable_entries_def list_all_iff older_def access_def)
  with m y have "?r \<noteq> ([], maxInt64)" by fastforce
  with m have "?r \<in> access ` set es" by blast
  then obtain k e where ke: "(k, e) \<in> set es" "?r = (k, lastAccess e)" by (auto simp: access_def)
  have "older (k, lastAccess e) (access x)" if "x \<in> set es" "x \<noteq> (k, e)" for x
  proof -
    have "fst x \<noteq> k"
    proof
      assume "fst x = k"
      with that(1) have "(k, snd x) \<in> set es" by (cases x) auto
      moreover have "distinct (map fst es)" using assms(1) by (simp add: evictable_entries_def)
      ultimately have "snd x = e" using ke(1) eq_key_imp_eq_value by metis
      with \<open>fst x = k\<close> that(2) show False by (cases x) auto
    qed
    moreover have "\<not> older (access x) (k, lastAccess e)" using m that ke(2) by auto
    ultimately show ?thesis using older_not by (auto simp: access_def)
  qed
  with ke that show ?thesis by blast
qed

lemma evict_entry:
  assumes "fair_range visit" "evictable_entries (engines p)" "engines p \<noteq> []"
  obtains k e where "(k, e) \<in> set (engines p)"
    "\<And>x. x \<in> set (engines p) \<Longrightarrow> x \<noteq> (k, e) \<Longrightarrow> older (k, lastAccess e) (access x)"
    "evictLRULocked visit p = p\<lparr>engines := delete_key k (engines p),
       closed_engines := closed_engines p @ [ent_handle e]\<rparr>"
proof -
  obtain k e where ke: "(k, e) \<in> set (engines p)"
      "lru_scan (visit (engines p)) ([], maxInt64) = (k, lastAccess e)"
      "\<And>x. x \<in> set (engines p) \<Longrightarrow> x \<noteq> (k, e) \<Longrightarrow> older (k, lastAccess e) (access x)"
    using lru_scan_entry [OF assms(2,3), of "visit (engines p)"] assms(1)
    unfolding fair_range_def by metis
  have "k \<noteq> []" "map_of (engines p) k = Some e"
    using assms(2) ke(1) by (force simp: evictable_entries_def)+
  with ke that show ?thesis by (simp add: evictLRULocked_def)
qed

lemma delete_key_facts:
  assumes "distinct (map fst es)" "(k, e) \<in> set es"
  shows "mset es = add_mset (k, e) (mset (delete_key k es))"
  using assms
proof (induction es)
  case (Cons x es)
  show ?case
  proof (cases "x = (k, e)")
    case True
    then have "k \<notin> fst ` set es" using Cons.prems by auto
    then have "delete_key k es = es" unfolding delete_key_def by (intro filter_True) force
    with True show ?thesis by (simp add: delete_key_def)
  next
    case False
    then have "fst x \<noteq> k" using Cons.prems by (cases x) (force simp: image_iff)
    with False Cons show ?thesis by (cases x) (simp add: delete_key_def)
  qed
qed simp

lemma evictable_delete: "evictable_entries es \<Longrightarrow> evictable_entries (delete_key k es)"
  by (auto simp: evictable_entries_def delete_key_def list_all_iff distinct_map_filter)

definition handles :: "entries \<Rightarrow> engine multiset" where
  "handles es = image_mset (\<lambda>x. ent_handle (snd x)) (mset es)"

text \<open>The loop ends, with room for one more, and closes exactly what it removes.\<close>

lemma make_room_ends:
  assumes "fair_range visit" "evictable_entries (engines p)"
  shows "\<exists>p'. make_room visit p = Some p' \<and> evictable_entries (engines p')
    \<and> length (engines p') < maxPoolSize \<and> set (engines p') \<subseteq> set (engines p)
    \<and> pool_closed p' = pool_closed p
    \<and> handles (engines p') + mset (closed_engines p') = handles (engines p) + mset (closed_engines p)
    \<and> (length (engines p) < maxPoolSize \<longrightarrow> p' = p)"
  using assms(2)
proof (induction "length (engines p)" arbitrary: p rule: less_induct)
  case less
  show ?case
  proof (cases "length (engines p) < maxPoolSize")
    case True
    with less.prems show ?thesis by (subst make_room.simps) simp
  next
    case False
    then have "engines p \<noteq> []" by (auto simp: maxPoolSize_def)
    from evict_entry [OF assms(1) less.prems this] obtain k e where ke: "(k, e) \<in> set (engines p)"
        and ev: "evictLRULocked visit p = p\<lparr>engines := delete_key k (engines p),
          closed_engines := closed_engines p @ [ent_handle e]\<rparr>" (is "_ = ?q")
      by metis
    have m: "mset (engines p) = add_mset (k, e) (mset (delete_key k (engines p)))"
      using delete_key_facts ke less.prems by (simp add: evictable_entries_def)
    then have "length (engines p) = Suc (length (delete_key k (engines p)))"
      by (metis size_add_mset size_mset)
    then have "length (engines ?q) < length (engines p)" by simp
    from less.hyps [OF this] evictable_delete [OF less.prems] obtain p' where
        "make_room visit ?q = Some p'" "evictable_entries (engines p')"
        "length (engines p') < maxPoolSize" "set (engines p') \<subseteq> set (delete_key k (engines p))"
        "pool_closed p' = pool_closed p"
        "handles (engines p') + mset (closed_engines p')
          = handles (delete_key k (engines p)) + mset (closed_engines p @ [ent_handle e])"
      by auto
    moreover have "handles (engines p) = add_mset (ent_handle e) (handles (delete_key k (engines p)))"
      by (simp add: handles_def m)
    moreover have "set (delete_key k (engines p)) \<subseteq> set (engines p)" by (auto simp: delete_key_def)
    ultimately show ?thesis
      using False by (subst make_room.simps) (auto simp: ev)
  qed
qed

section \<open>Claims on eviction\<close>

text \<open>
  eviction removes and closes exactly the least recently used engine, ties broken by the
  smaller name, whatever the order in which the map is ranged over.
\<close>

theorem evicts_least_recently_used:
  assumes "fair_range visit" "evictable_entries (engines p)" "engines p \<noteq> []"
  shows "\<exists>k e. (k, e) \<in> set (engines p)
    \<and> list_all (\<lambda>x. x = (k, e) \<or> older (k, lastAccess e) (access x)) (engines p)
    \<and> mset (engines p) = add_mset (k, e) (mset (engines (evictLRULocked visit p)))
    \<and> closed_engines (evictLRULocked visit p) = closed_engines p @ [ent_handle e]"
proof -
  from evict_entry [OF assms] obtain k e where ke: "(k, e) \<in> set (engines p)"
      "\<And>x. x \<in> set (engines p) \<Longrightarrow> x \<noteq> (k, e) \<Longrightarrow> older (k, lastAccess e) (access x)"
      "evictLRULocked visit p = p\<lparr>engines := delete_key k (engines p),
        closed_engines := closed_engines p @ [ent_handle e]\<rparr>"
    by metis
  moreover have "mset (engines p) = add_mset (k, e) (mset (delete_key k (engines p)))"
    using delete_key_facts ke(1) assms(2) by (simp add: evictable_entries_def)
  ultimately show ?thesis by (intro exI [of _ k] exI [of _ e]) (auto simp: list_all_iff)
qed

text \<open>Three engines, two of them last used at the same instant.\<close>

definition sample_entries :: entries where
  "sample_entries = [(''b'', \<lparr>ent_handle = 1, lastAccess = 5\<rparr>),
     (''c'', \<lparr>ent_handle = 2, lastAccess = 9\<rparr>), (''a'', \<lparr>ent_handle = 3, lastAccess = 5\<rparr>)]"

definition sample_pool :: EnginePool where
  "sample_pool = \<lparr>engines = sample_entries, pool_closed = False, closed_engines = []\<rparr>"

theorem evicts_least_recently_used_witness:
  "fair_range rev \<and> evictable_entries (engines sample_pool)
   \<and> closed_engines (evictLRULocked rev sample_pool) = [3]
   \<and> (\<exists>k e. (k, e) \<in> set (engines sample_pool)
       \<and> mset (engines sample_pool) = add_mset (k, e) (mset (engines (evictLRULocked rev sample_pool))))"
proof -
  have f: "fair_range rev" by (simp add: fair_range_def)
  have v: "evictable_entries (engines sample_pool)" "engines sample_pool \<noteq> []"
    by (simp_all add: evictable_entries_def sample_pool_def sample_entries_def maxInt64_def)
  have "closed_engines (evictLRULocked rev sample_pool) = [3]"
    by (simp add: evictLRULocked_def Let_def sample_pool_def sample_entries_def maxInt64_def)
  with f v evicts_least_recently_used [OF f v] show ?thesis by blast
qed

lemma make_room_blocked:
  assumes "make_room visit p = Some q"
  shows "evictLRULocked visit p = p \<longrightarrow> length (engines p) < maxPoolSize"
  by (rule make_room.raw_induct [OF _ assms]) (metis not_le option.inject)

text \<open>
  a pool in which the empty name is the least recently used one cannot make room. The scan
  returns the empty name, which \<^verbatim>\<open>evictLRULocked\<close> takes to mean that nothing was found, so that
  the loop of \<^verbatim>\<open>Get\<close> never ends (while it holds the lock). A caller reaches it with a project
  of white space only, which \<^verbatim>\<open>Get\<close> normalises to the empty name.
\<close>

theorem empty_name_blocks_eviction:
  assumes "fair_range visit" "([], e) \<in> set (engines p)"
    and "list_all (\<lambda>x. snd x = e \<or> lastAccess e < lastAccess (snd x)) (engines p)"
    and "lastAccess e < maxInt64"
  shows "evictLRULocked visit p = p \<and> (maxPoolSize \<le> length (engines p) \<longrightarrow> make_room visit p = None)"
proof
  let ?r = "lru_scan (visit (engines p)) ([], maxInt64)"
  have vis: "set (visit (engines p)) = set (engines p)" using assms(1) by (simp add: fair_range_def)
  note m = lru_scan_min [of "visit (engines p)" "([], maxInt64)", unfolded vis]
  have "\<not> older ([], lastAccess e) ?r" using m assms(2) by (force simp: access_def)
  moreover have "?r = ([], maxInt64) \<or> (\<exists>x \<in> set (engines p). ?r = access x)" using m by blast
  ultimately have "fst ?r = []"
    using assms(3) by (auto simp: older_def access_def list_all_iff Nil_less_string)
  then show ev: "evictLRULocked visit p = p" by (simp add: evictLRULocked_def)
  show "maxPoolSize \<le> length (engines p) \<longrightarrow> make_room visit p = None"
    using make_room_blocked [of visit p] ev by (cases "make_room visit p") auto
qed

text \<open>A full pool with the empty name used longest ago.\<close>

definition blocked_pool :: EnginePool where
  "blocked_pool = \<lparr>engines = ([], \<lparr>ent_handle = 0, lastAccess = 0\<rparr>)
       # map (\<lambda>i. (replicate i CHR ''p'', \<lparr>ent_handle = i, lastAccess = int i\<rparr>)) [1..<50],
     pool_closed = False, closed_engines = []\<rparr>"

theorem empty_name_blocks_eviction_witness:
  "length (engines blocked_pool) = 50 \<and> distinct (map fst (engines blocked_pool))
   \<and> make_room rev blocked_pool = None"
proof -
  have "fair_range rev" by (simp add: fair_range_def)
  from empty_name_blocks_eviction [OF this, of "\<lparr>ent_handle = 0, lastAccess = 0\<rparr>" blocked_pool]
  have "make_room rev blocked_pool = None"
    by (auto simp: blocked_pool_def list_all_iff maxInt64_def maxPoolSize_def)
  moreover have "distinct (map fst (engines blocked_pool))"
    by (auto simp: blocked_pool_def distinct_map comp_def inj_on_def)
  ultimately show ?thesis by (simp add: blocked_pool_def)
qed

section \<open>Concurrent callers\<close>

text \<open>
  Goroutines in \<^verbatim>\<open>Get\<close> interleave at the locks. \<^verbatim>\<open>singleflight\<close> runs the initialisation of a
  project at most once at a time: \<open>flights\<close> holds, for each project being initialised, the
  engine its factory has built, if any. A call that joins a running flight or gives up waiting
  leaves the pool alone. \<open>created\<close> lists the engines the factory has built; \<open>shut\<close> says that the
  body of \<^verbatim>\<open>Close\<close> has run.
\<close>

record pool_sys =
  pool :: EnginePool
  flights :: "(string \<times> engine option) list"
  created :: "engine list"
  shut :: bool

definition pool_sys_init :: pool_sys where
  "pool_sys_init = \<lparr>pool = NewEnginePool, flights = [], created = [], shut = False\<rparr>"

definition end_flight :: "string \<Rightarrow> (string \<times> engine option) list \<Rightarrow> (string \<times> engine option) list" where
  "end_flight k fs = filter (\<lambda>(k', _). k' \<noteq> k) fs"

inductive pool_step ::
  "(string \<Rightarrow> string) \<Rightarrow> (entries \<Rightarrow> entries) \<Rightarrow> pool_sys \<Rightarrow> pool_sys \<Rightarrow> bool"
  for u visit where
  fast: "Get_fast u project now (pool s) = (Some r, p') \<Longrightarrow> now < maxInt64 \<Longrightarrow>
    pool_step u visit s (s\<lparr>pool := p'\<rparr>)"
| fly: "Get_fast u project now (pool s) = (None, p') \<Longrightarrow> k = normalize_project u project \<Longrightarrow>
    k \<notin> fst ` set (flights s) \<Longrightarrow>
    pool_step u visit s (s\<lparr>flights := (k, None) # flights s\<rparr>)"
| recheck_hit: "(k, None) \<in> set (flights s) \<Longrightarrow> init_recheck k (pool s) = Some h \<Longrightarrow>
    pool_step u visit s (s\<lparr>flights := end_flight k (flights s)\<rparr>)"
| build_fails: "(k, None) \<in> set (flights s) \<Longrightarrow> init_recheck k (pool s) = None \<Longrightarrow>
    pool_step u visit s (s\<lparr>flights := end_flight k (flights s)\<rparr>)"
| build: "(k, None) \<in> set (flights s) \<Longrightarrow> init_recheck k (pool s) = None \<Longrightarrow> h \<notin> set (created s) \<Longrightarrow>
    pool_step u visit s
      (s\<lparr>flights := (k, Some h) # end_flight k (flights s), created := h # created s\<rparr>)"
| install: "(k, Some h) \<in> set (flights s) \<Longrightarrow> init_install visit k h now (pool s) = Some (h', p') \<Longrightarrow>
    now < maxInt64 \<Longrightarrow>
    pool_step u visit s (s\<lparr>pool := p', flights := end_flight k (flights s)\<rparr>)"
| close_flag: "pool_step u visit s (s\<lparr>pool := (pool s)\<lparr>pool_closed := True\<rparr>\<rparr>)"
| close_engines: "pool_step u visit s (s\<lparr>pool := Close_engines (pool s), shut := True\<rparr>)"

text \<open>States reached by callers whose project has something left after trimming.\<close>

definition named_flights :: "pool_sys \<Rightarrow> bool" where
  "named_flights s \<longleftrightarrow> [] \<notin> fst ` set (flights s)"

inductive pool_reach ::
  "(string \<Rightarrow> string) \<Rightarrow> (entries \<Rightarrow> entries) \<Rightarrow> pool_sys \<Rightarrow> bool" for u visit where
  start: "pool_reach u visit pool_sys_init"
| step: "pool_reach u visit s \<Longrightarrow> pool_step u visit s s' \<Longrightarrow> named_flights s' \<Longrightarrow> pool_reach u visit s'"

definition built :: "(string \<times> engine option) list \<Rightarrow> engine multiset" where
  "built fs = mset (List.map_filter snd fs)"

definition pool_inv :: "pool_sys \<Rightarrow> bool" where
  "pool_inv s \<longleftrightarrow> evictable_entries (engines (pool s)) \<and> length (engines (pool s)) \<le> maxPoolSize
     \<and> distinct (map fst (flights s)) \<and> distinct (created s)
     \<and> (shut s \<or> mset (created s)
          = handles (engines (pool s)) + mset (closed_engines (pool s)) + built (flights s))"

lemma touch_facts:
  "map fst (touch k now es) = map fst es" "length (touch k now es) = length es"
  "handles (touch k now es) = handles es"
  by (induction es) (auto simp: touch_def handles_def split: prod.splits)

lemma evictable_touch:
  assumes "evictable_entries es" "now < maxInt64"
  shows "evictable_entries (touch k now es)"
proof -
  have "fst ` set (touch k now es) = fst ` set es" by (metis list.set_map touch_facts(1))
  moreover have "list_all (\<lambda>(_, e). lastAccess e < maxInt64) (touch k now es)"
    using assms by (auto simp: evictable_entries_def touch_def list_all_iff split: if_splits)
  ultimately show ?thesis using assms by (simp add: evictable_entries_def touch_facts)
qed

lemma built_end_flight:
  assumes "distinct (map fst fs)" "(k, f) \<in> set fs"
  shows "built fs = built [(k, f)] + built (end_flight k fs)"
  using assms
proof (induction fs)
  case (Cons x fs)
  show ?case
  proof (cases "x = (k, f)")
    case True
    then have "k \<notin> fst ` set fs" using Cons.prems by auto
    then have "end_flight k fs = fs" unfolding end_flight_def by (intro filter_True) force
    with True show ?thesis by (auto simp: end_flight_def built_def map_filter_simps split: option.splits)
  next
    case False
    then have "fst x \<noteq> k" using Cons.prems by (cases x) (force simp: image_iff)
    with False Cons show ?thesis
      by (cases x) (auto simp: end_flight_def built_def map_filter_simps split: option.splits)
  qed
qed simp

lemma distinct_end_flight: "distinct (map fst fs) \<Longrightarrow> distinct (map fst (end_flight k fs))"
  by (simp add: end_flight_def distinct_map_filter)

lemma end_flight_notin: "k \<notin> fst ` set (end_flight k fs)"
  by (auto simp: end_flight_def)

lemma install_facts:
  assumes "fair_range visit" "evictable_entries (engines p)" "length (engines p) \<le> maxPoolSize"
    "k \<noteq> []" "now < maxInt64" "init_install visit k h now p = Some (h', p')"
  shows "evictable_entries (engines p') \<and> length (engines p') \<le> maxPoolSize
    \<and> handles (engines p') + mset (closed_engines p') = add_mset h (handles (engines p) + mset (closed_engines p))"
proof (cases "map_of (engines p) k")
  case (Some e)
  with assms show ?thesis by (auto simp: init_install_def evictable_touch touch_facts)
next
  case None
  from make_room_ends [OF assms(1,2)] obtain q where q: "make_room visit p = Some q"
      "evictable_entries (engines q)" "length (engines q) < maxPoolSize"
      "set (engines q) \<subseteq> set (engines p)"
      "handles (engines q) + mset (closed_engines q) = handles (engines p) + mset (closed_engines p)"
    by blast
  from None q(4) have "k \<notin> fst ` set (engines q)" by (auto simp: map_of_eq_None_iff)
  with q None assms show ?thesis
    by (auto simp: init_install_def evictable_entries_def handles_def)
qed

lemma pool_inv_step:
  assumes "pool_step u visit s s'" "fair_range visit" "pool_inv s" "named_flights s"
  shows "pool_inv s'"
  using assms
proof (induction rule: pool_step.induct)
  case (fast project now s r p')
  then show ?case
    by (auto simp: Get_fast_def pool_inv_def Let_def evictable_touch touch_facts split: if_splits option.splits)
next
  case (install k h s now h' p')
  then have "k \<noteq> []" by (force simp: named_flights_def)
  with install install_facts [of visit "pool s" k now h h' p'] built_end_flight [of "flights s" k "Some h"]
  show ?case by (auto simp: pool_inv_def distinct_end_flight built_def map_filter_simps)
next
  case (build k s h)
  with built_end_flight [of "flights s" k None] show ?case
    by (auto simp: pool_inv_def distinct_end_flight end_flight_notin built_def map_filter_simps)
next
  case (recheck_hit k s h)
  with built_end_flight [of "flights s" k None] show ?case
    by (auto simp: pool_inv_def distinct_end_flight built_def map_filter_simps)
next
  case (build_fails k s)
  with built_end_flight [of "flights s" k None] show ?case
    by (auto simp: pool_inv_def distinct_end_flight built_def map_filter_simps)
qed (auto simp: pool_inv_def Close_engines_def built_def map_filter_simps)

lemma pool_inv_reach: "pool_reach u visit s \<Longrightarrow> fair_range visit \<Longrightarrow> pool_inv s \<and> named_flights s"
proof (induction rule: pool_reach.induct)
  case start
  then show ?case
    by (simp add: pool_inv_def named_flights_def pool_sys_init_def NewEnginePool_def evictable_entries_def handles_def
        built_def map_filter_simps)
qed (use pool_inv_step in blast)

text \<open>
  C38: Whatever the interleaving of callers, evictions and initialisations, the pool holds at
  most \<^verbatim>\<open>maxPoolSize\<close> engines, one per project; and until \<^verbatim>\<open>Close\<close> every engine the factory
  built is in exactly one place: in the pool, closed, or in the hands of the initialisation that
  built it. Callers use names that are not blank. So no engine leaks, and none in the pool is closed.
\<close>

theorem pool_bounded_and_accounted:
  assumes "fair_range visit" "pool_reach u visit s"
  shows "length (engines (pool s)) \<le> maxPoolSize \<and> distinct (map fst (engines (pool s)))
    \<and> (shut s \<or> distinct (created s) \<and> mset (created s)
         = handles (engines (pool s)) + mset (closed_engines (pool s)) + built (flights s))"
  using pool_inv_reach [OF assms(2,1)] by (auto simp: pool_inv_def evictable_entries_def)

definition sample_flight :: pool_sys where
  "sample_flight = pool_sys_init\<lparr>flights := [(''a'', Some 7)], created := [7]\<rparr>"

lemma normalize_sample: "normalize_project u ''a'' = ''a''"
proof -
  have "TrimSpace ''a'' = ''a''"
    by (rule TrimSpace_id)
      (simp_all add: space_len_0_iff space_len_end_0_iff space_runes_def suffix_to_prefix)
  moreover have "ToLower u ''a'' = ''a''" by (simp add: ToLower_def is_ascii_def) code_simp
  ultimately show ?thesis by (simp add: normalize_project_def)
qed

lemma sample_flight_reach: "pool_reach u rev sample_flight"
proof -
  let ?s1 = "pool_sys_init\<lparr>flights := [(''a'', None)]\<rparr>"
  have "pool_step u rev pool_sys_init ?s1"
    using fly [of u "''a''" 0 pool_sys_init NewEnginePool "''a''" rev] normalize_sample [of u]
    by (simp add: Get_fast_def pool_sys_init_def NewEnginePool_def)
  then have r1: "pool_reach u rev ?s1"
    by (rule pool_reach.step [OF pool_reach.start]) (simp add: named_flights_def)
  have "pool_step u rev ?s1 sample_flight"
    using build [of "''a''" ?s1 7 u rev]
    by (simp add: init_recheck_def pool_sys_init_def NewEnginePool_def end_flight_def sample_flight_def)
  then show ?thesis
    by (rule pool_reach.step [OF r1]) (simp add: named_flights_def sample_flight_def)
qed

theorem pool_bounded_and_accounted_witness:
  "\<exists>s. pool_reach (\<lambda>x. x) rev s \<and> created s = [7] \<and> built (flights s) = {#7#}
     \<and> mset (created s) = handles (engines (pool s)) + mset (closed_engines (pool s)) + built (flights s)"
proof -
  have "fair_range rev" by (simp add: fair_range_def)
  from pool_bounded_and_accounted [OF this sample_flight_reach [of "\<lambda>x. x"]]
  have "mset (created sample_flight) = handles (engines (pool sample_flight))
      + mset (closed_engines (pool sample_flight)) + built (flights sample_flight)"
    by (simp add: sample_flight_def pool_sys_init_def)
  moreover have "built (flights sample_flight) = {#7#}" "created sample_flight = [7]"
    by (simp_all add: sample_flight_def built_def map_filter_simps)
  ultimately show ?thesis using sample_flight_reach by blast
qed

text \<open>What a call of \<^verbatim>\<open>Get\<close> on an open pool yields.\<close>

definition get_spec ::
  "(string \<Rightarrow> string) \<Rightarrow> (entries \<Rightarrow> entries) \<Rightarrow> (string \<Rightarrow> engine option) \<Rightarrow> string \<Rightarrow> EnginePool
    \<Rightarrow> (pool_error + engine) \<times> EnginePool \<Rightarrow> bool" where
  "get_spec u visit factory project p res \<longleftrightarrow>
     (case res of
        (Inl err, p') \<Rightarrow> p' = p \<and>
          (if 128 < length (normalize_project u project)
           then err = ProjectNameTooLong (length (normalize_project u project))
           else err = FactoryError \<and> factory (normalize_project u project) = None)
      | (Inr h, p') \<Rightarrow> length (engines p') \<le> max maxPoolSize (length (engines p))
          \<and> (\<forall>project' factory' t. normalize_project u project' = normalize_project u project
               \<longrightarrow> (\<exists>p''. Get u visit factory' project' t p' = Some (Inr h, p''))))"

lemma touch_lookup: "map_of (touch k now es) k = map_option (\<lambda>e. e\<lparr>lastAccess := now\<rparr>) (map_of es k)"
  by (induction es) (auto simp: touch_def split: prod.splits)

text \<open>
  \<^verbatim>\<open>Get\<close> on an open pool with non-empty names always returns. It fails only for a name of
  more than 128 bytes or when the factory fails, and then leaves the pool as it was; otherwise it
  returns an engine, and until something else changes the pool every later \<^verbatim>\<open>Get\<close> of a name
  that is the same up to case and surrounding white space returns that engine without a call of
  the factory.
\<close>

theorem get_returns:
  assumes "fair_range visit" "evictable_entries (engines p)" "\<not> pool_closed p"
  shows "\<exists>res. Get u visit factory project now p = Some res \<and> get_spec u visit factory project p res"
proof -
  let ?k = "normalize_project u project"
  have again: "\<exists>p''. Get u visit factory' project' t q = Some (Inr h, p'')"
    if "\<not> pool_closed q" "length ?k \<le> 128" "map_of (engines q) ?k = Some e" "ent_handle e = h"
      "normalize_project u project' = ?k" for q h e factory' project' t
    using that by (simp add: Get_def Get_fast_def)
  consider "128 < length ?k" | "length ?k \<le> 128" "map_of (engines p) ?k \<noteq> None"
    | "length ?k \<le> 128" "map_of (engines p) ?k = None" by linarith
  then show ?thesis
  proof cases
    case 1
    with assms(3) show ?thesis by (simp add: Get_def Get_fast_def get_spec_def)
  next
    case 2
    then obtain e where e: "map_of (engines p) ?k = Some e" by blast
    let ?q = "p\<lparr>engines := touch ?k now (engines p)\<rparr>"
    have "Get u visit factory project now p = Some (Inr (ent_handle e), ?q)"
      using 2(1) e assms(3) by (simp add: Get_def Get_fast_def)
    moreover have "get_spec u visit factory project p (Inr (ent_handle e), ?q)"
      using again [of ?q "e\<lparr>lastAccess := now\<rparr>"] 2(1) e assms(3)
      by (simp add: get_spec_def touch_lookup touch_facts)
    ultimately show ?thesis by blast
  next
    case 3
    show ?thesis
    proof (cases "factory ?k")
      case None
      with 3 assms(3) show ?thesis by (simp add: Get_def Get_fast_def init_recheck_def get_spec_def)
    next
      case (Some h)
      from make_room_ends [OF assms(1,2)] obtain q where q: "make_room visit p = Some q"
          "length (engines q) < maxPoolSize" "set (engines q) \<subseteq> set (engines p)"
          "pool_closed q = pool_closed p"
        by blast
      let ?q = "q\<lparr>engines := engines q @ [(?k, \<lparr>ent_handle = h, lastAccess = now\<rparr>)]\<rparr>"
      have "Get u visit factory project now p = Some (Inr h, ?q)"
        using 3 Some q(1) assms(3) by (simp add: Get_def Get_fast_def init_recheck_def init_install_def)
      moreover have "map_of (engines q) ?k = None"
        using q(3) 3(2) by (auto simp: map_of_eq_None_iff)
      then have "get_spec u visit factory project p (Inr h, ?q)"
        using again [of ?q "\<lparr>ent_handle = h, lastAccess = now\<rparr>"] q 3(1) assms(3)
        by (simp add: get_spec_def map_add_def)
      ultimately show ?thesis by blast
    qed
  qed
qed

theorem get_returns_witness:
  "\<exists>res. Get (\<lambda>x. x) rev (\<lambda>_. Some 4) ''a'' 12 sample_pool = Some res
     \<and> get_spec (\<lambda>x. x) rev (\<lambda>_. Some 4) ''a'' sample_pool res"
  using get_returns [of rev sample_pool "\<lambda>x. x" "\<lambda>_. Some 4" "''a''" 12]
  by (simp add: fair_range_def evictable_entries_def sample_pool_def sample_entries_def maxInt64_def)

end
