(* ===== verification/Minhash.thy ===== *)
theory Minhash
  imports Engram_Prelude
begin

text \<open>
  MinHash signatures and the LSH index that finds near-duplicate memories
  (\<^verbatim>\<open>src/internal/minhash/minhash.go\<close>, \<^verbatim>\<open>lsh.go\<close>). A \<^verbatim>\<open>uint64\<close> is a 64-bit word, so sums
  and products wrap as the code's do. The random source is a parameter, and so is the order in
  which Go ranges over a bucket map.
\<close>

section \<open>FNV-1a\<close>

definition fnv_offset :: uint64 where
  "fnv_offset = 14695981039346656037"

definition fnv_prime :: uint64 where
  "fnv_prime = 1099511628211"

definition fnv1a :: "byte list \<Rightarrow> uint64" where
  "fnv1a bs = foldl (\<lambda>h b. (h XOR ucast b) * fnv_prime) fnv_offset bs"

text \<open>The \<open>n\<close> low bytes of a word, least significant first.\<close>

definition le_bytes :: "nat \<Rightarrow> 'a :: len word \<Rightarrow> byte list" where
  "le_bytes n w = map (\<lambda>i. ucast (drop_bit (8 * i) w)) [0..<n]"

section \<open>Signatures\<close>

definition NumHashes :: nat where
  "NumHashes = 128"

definition mh_prime :: uint64 where
  "mh_prime = 2 ^ 61 - 1"

type_synonym signature = "uint64 list"

record Hasher =
  h_a :: "uint64 list"
  h_b :: "uint64 list"

text \<open>
  \<^verbatim>\<open>NewHasher\<close> reads eight random bytes twice per hash function; \<open>rnd i\<close> is the \<open>i\<close>-th read,
  \<open>None\<close> for an error.
\<close>

fun new_coefficients :: "(nat \<Rightarrow> uint64 option) \<Rightarrow> nat list \<Rightarrow> (uint64 \<times> uint64) list option" where
  "new_coefficients rnd [] = Some []"
| "new_coefficients rnd (i # is) =
     (case rnd (2 * i) of None \<Rightarrow> None
      | Some x \<Rightarrow>
          (case rnd (2 * i + 1) of None \<Rightarrow> None
           | Some y \<Rightarrow>
               map_option (Cons (x mod mh_prime + 1, y mod mh_prime)) (new_coefficients rnd is)))"

definition NewHasher :: "(nat \<Rightarrow> uint64 option) \<Rightarrow> Hasher option" where
  "NewHasher rnd =
     map_option (\<lambda>cs. \<lparr>h_a = map fst cs, h_b = map snd cs\<rparr>) (new_coefficients rnd [0..<NumHashes])"

definition bigramHash :: "rune \<Rightarrow> rune \<Rightarrow> uint64" where
  "bigramHash a b = fnv1a (le_bytes 4 a @ le_bytes 4 b)"

definition slot_hash :: "Hasher \<Rightarrow> nat \<Rightarrow> uint64 \<Rightarrow> uint64" where
  "slot_hash h j bg = (h_a h ! j * bg + h_b h ! j) mod mh_prime"

text \<open>One round of the outer loop: every slot takes the smaller value.\<close>

definition lower_slots :: "Hasher \<Rightarrow> uint64 \<Rightarrow> signature \<Rightarrow> signature" where
  "lower_slots h bg sig =
     map (\<lambda>j. if slot_hash h j bg < sig ! j then slot_hash h j bg else sig ! j) [0..<NumHashes]"

definition bigrams :: "string \<Rightarrow> uint64 list" where
  "bigrams content =
     (let rs = map word_of_nat (runes content) :: rune list in
      map (\<lambda>i. bigramHash (rs ! i) (rs ! (i + 1))) [0..<length rs - 1])"

definition Signature :: "Hasher \<Rightarrow> string \<Rightarrow> signature" where
  "Signature h content =
     (let sig = replicate NumHashes (- 1) in
      if length (runes content) < 2 then sig else fold (lower_slots h) (bigrams content) sig)"

definition EstimatedJaccard :: "signature \<Rightarrow> signature \<Rightarrow> float64" where
  "EstimatedJaccard a b =
     of_nat (length (filter (\<lambda>i. a ! i = b ! i) [0..<NumHashes])) / of_nat NumHashes"

section \<open>The LSH index\<close>

type_synonym bucket = "(uint64 \<times> string list) list"

record Index =
  idx_bands :: nat
  idx_rows :: nat
  buckets :: "bucket list"

text \<open>\<^verbatim>\<open>make\<close> with a negative length panics.\<close>

datatype index_error = BandsRowsMismatch int | MakeNegative

definition NewIndex :: "int \<Rightarrow> int \<Rightarrow> index_error + Index" where
  "NewIndex bands rowsPerBand =
     (if bands * rowsPerBand \<noteq> int NumHashes then Inl (BandsRowsMismatch (bands * rowsPerBand))
      else if bands < 0 then Inl MakeNegative
      else Inr \<lparr>idx_bands = nat bands, idx_rows = nat rowsPerBand,
        buckets = replicate (nat bands) []\<rparr>)"

definition bandHash :: "uint64 list \<Rightarrow> uint64" where
  "bandHash vals = fnv1a (concat (map (le_bytes 8) vals))"

fun bucket_append :: "uint64 \<Rightarrow> string \<Rightarrow> bucket \<Rightarrow> bucket" where
  "bucket_append k x [] = [(k, [x])]"
| "bucket_append k x ((k', xs) # b) =
     (if k' = k then (k', xs @ [x]) # b else (k', xs) # bucket_append k x b)"

definition band_key :: "nat \<Rightarrow> nat \<Rightarrow> signature \<Rightarrow> uint64" where
  "band_key rows band sig = bandHash (take rows (drop (band * rows) sig))"

definition Add :: "string \<Rightarrow> signature \<Rightarrow> Index \<Rightarrow> Index" where
  "Add x sig idx =
     idx\<lparr>buckets := map (\<lambda>band. bucket_append (band_key (idx_rows idx) band sig) x (buckets idx ! band))
       [0..<idx_bands idx]\<rparr>"

definition ordered_pair :: "string \<Rightarrow> string \<Rightarrow> string \<times> string" where
  "ordered_pair a b = (if a > b then (b, a) else (a, b))"

fun id_pairs :: "string list \<Rightarrow> (string \<times> string) list" where
  "id_pairs [] = []"
| "id_pairs (x # xs) = map (ordered_pair x) xs @ id_pairs xs"

definition Candidates :: "(bucket \<Rightarrow> bucket) \<Rightarrow> Index \<Rightarrow> (string \<times> string) list" where
  "Candidates visit idx =
     keep_first (\<lambda>p. p) [] (concat (map (\<lambda>b. concat (map (id_pairs \<circ> snd) (visit b))) (buckets idx)))"

section \<open>A signature is a set of minima\<close>

lemma length_lower_slots [simp]: "length (lower_slots h bg sig) = NumHashes"
  by (simp add: lower_slots_def)

lemma nth_lower_slots:
  "j < NumHashes \<Longrightarrow> lower_slots h bg sig ! j = min (slot_hash h j bg) (sig ! j)"
  by (auto simp: lower_slots_def min_def)

lemma fold_lower_slots:
  assumes "j < NumHashes"
  shows "fold (lower_slots h) bgs sig ! j = fold (\<lambda>bg m. min (slot_hash h j bg) m) bgs (sig ! j)"
  using assms by (induction bgs arbitrary: sig) (simp_all add: nth_lower_slots)

lemma fold_min_set:
  fixes f :: "'b \<Rightarrow> 'a :: linorder"
  shows "fold (\<lambda>x m. min (f x) m) xs m = Min (insert m (f ` set xs))"
proof (induction xs arbitrary: m)
  case (Cons x xs)
  have "Min (insert (min (f x) m) (f ` set xs)) = Min (insert m (insert (f x) (f ` set xs)))"
    by (cases "f ` set xs = {}") (auto simp: ac_simps)
  with Cons show ?case by simp
qed simp

lemma length_Signature [simp]: "length (Signature h c) = NumHashes"
proof -
  have "length (fold (lower_slots h) bgs sig) = NumHashes" if "length sig = NumHashes" for bgs sig
    using that by (induction bgs arbitrary: sig) simp_all
  then show ?thesis by (simp add: Signature_def Let_def)
qed

lemma Signature_nth:
  "j < NumHashes \<Longrightarrow> Signature h c ! j = Min (insert (- 1) (slot_hash h j ` set (bigrams c)))"
  by (auto simp: Signature_def Let_def fold_lower_slots fold_min_set bigrams_def)

lemma mh_prime_unat: "unat mh_prime = 2 ^ 61 - 1"
  by (simp add: mh_prime_def)

lemma slot_hash_less: "slot_hash h j bg < mh_prime"
  by (simp add: slot_hash_def mh_prime_def word_mod_less_divisor)

text \<open>What a signature is: for each hash function, the least hash of a set of bigrams.\<close>

definition min_signature :: "Hasher \<Rightarrow> uint64 set \<Rightarrow> signature" where
  "min_signature h bgs =
     map (\<lambda>j. if bgs = {} then - 1 else Min (slot_hash h j ` bgs)) [0..<NumHashes]"

text \<open>
  a signature depends on the set of the content's bigrams only: each slot is the least hash
  of them, whatever their order and however often they occur, or \<^verbatim>\<open>MaxUint64\<close> when there are
  none; and a slot is below \<open>2 ^ 61 - 1\<close> exactly when the content has at least two runes.
\<close>

theorem signature_is_minimum:
  "Signature h c = min_signature h (set (bigrams c))
   \<and> list_all (\<lambda>v. v < mh_prime \<longleftrightarrow> 2 \<le> length (runes c)) (Signature h c)"
proof
  have m: "Min (insert (- 1) (slot_hash h j ` set (bigrams c)))
      = (if bigrams c = [] then - 1 else Min (slot_hash h j ` set (bigrams c)))" for j
    by (cases "bigrams c") (auto simp: min_absorb2 word_order.extremum)
  show s: "Signature h c = min_signature h (set (bigrams c))"
    by (rule nth_equalityI) (simp_all add: min_signature_def Signature_nth m)
  have b: "bigrams c = [] \<longleftrightarrow> length (runes c) < 2" by (auto simp: bigrams_def Let_def)
  have "\<not> (- 1 :: uint64) < mh_prime" by (simp add: word_order.extremum_strict)
  moreover have "Min (slot_hash h j ` set (bigrams c)) < mh_prime" if "bigrams c \<noteq> []" for j
  proof -
    have "Min (slot_hash h j ` set (bigrams c)) \<in> slot_hash h j ` set (bigrams c)"
      using that by (intro Min_in) auto
    then show ?thesis using slot_hash_less by auto
  qed
  ultimately show "list_all (\<lambda>v. v < mh_prime \<longleftrightarrow> 2 \<le> length (runes c)) (Signature h c)"
    unfolding s min_signature_def using b by (auto simp: list_all_iff)
qed

section \<open>Banding\<close>

definition add_all :: "(string \<times> signature) list \<Rightarrow> Index \<Rightarrow> Index" where
  "add_all items idx = fold (\<lambda>(x, sig). Add x sig) items idx"

text \<open>A bucket map with one entry per key; \<open>bucket_ids\<close> looks a key up.\<close>

definition bucket_ids :: "bucket \<Rightarrow> uint64 \<Rightarrow> string list" where
  "bucket_ids b k = (case map_of b k of None \<Rightarrow> [] | Some xs \<Rightarrow> xs)"

lemma map_of_bucket_append:
  "map_of (bucket_append k x b) k'
    = (if k' = k then Some ((case map_of b k of None \<Rightarrow> [] | Some xs \<Rightarrow> xs) @ [x]) else map_of b k')"
  by (induction k x b rule: bucket_append.induct) auto

lemma bucket_append_ids:
  "bucket_ids (bucket_append k x b) k' = bucket_ids b k' @ (if k' = k then [x] else [])"
  by (simp add: bucket_ids_def map_of_bucket_append)

lemma bucket_append_keys: "fst ` set (bucket_append k x b) = insert k (fst ` set b)"
  by (induction k x b rule: bucket_append.induct) (simp_all add: insert_commute)

lemma distinct_bucket_append: "distinct (map fst b) \<Longrightarrow> distinct (map fst (bucket_append k x b))"
  by (induction k x b rule: bucket_append.induct) (auto simp: bucket_append_keys)

text \<open>After adding items, each bucket of a band lists, in order, the ids whose key it is.\<close>

definition index_holds :: "nat \<Rightarrow> nat \<Rightarrow> (string \<times> signature) list \<Rightarrow> Index \<Rightarrow> bool" where
  "index_holds bands rows items idx \<longleftrightarrow>
     idx_bands idx = bands \<and> idx_rows idx = rows \<and> length (buckets idx) = bands
     \<and> (\<forall>band < bands. distinct (map fst (buckets idx ! band))
          \<and> (\<forall>k. bucket_ids (buckets idx ! band) k
               = map fst (filter (\<lambda>(x, sig). band_key rows band sig = k) items)))"

lemma index_holds_Add:
  "index_holds bands rows items idx \<Longrightarrow> index_holds bands rows (items @ [(x, sig)]) (Add x sig idx)"
  by (auto simp: index_holds_def Add_def bucket_append_ids distinct_bucket_append)

lemma index_holds_add_all:
  "index_holds bands rows items idx \<Longrightarrow> index_holds bands rows (items @ later) (add_all later idx)"
proof (induction later arbitrary: items idx)
  case (Cons y later)
  obtain x sig where y: "y = (x, sig)" by (cases y)
  with Cons.IH [OF index_holds_Add [OF Cons.prems, of x sig]] show ?case
    by (simp add: add_all_def)
qed (simp add: add_all_def)

lemma index_holds_New:
  "NewIndex bands rows = Inr idx \<Longrightarrow> index_holds (nat bands) (nat rows) [] idx"
  by (auto simp: NewIndex_def index_holds_def bucket_ids_def split: if_splits)

text \<open>The pairs of two elements of a list at different positions, the earlier one first.\<close>

fun pairs_in :: "'a list \<Rightarrow> ('a \<times> 'a) set" where
  "pairs_in [] = {}"
| "pairs_in (x # xs) = Pair x ` set xs \<union> pairs_in xs"

lemma set_id_pairs: "set (id_pairs (map f xs)) = (\<lambda>(a, b). ordered_pair (f a) (f b)) ` pairs_in xs"
  by (induction xs) (auto simp: image_Un image_image)

lemma pairs_in_filter: "pairs_in (filter P xs) = {(a, b) \<in> pairs_in xs. P a \<and> P b}"
  by (induction xs) auto

text \<open>Two items share a band of \<open>rows\<close> slots.\<close>

definition shares_bucket :: "nat \<Rightarrow> nat \<Rightarrow> signature \<Rightarrow> signature \<Rightarrow> bool" where
  "shares_bucket bands rows s t \<longleftrightarrow> (\<exists>band < bands. band_key rows band s = band_key rows band t)"

definition fair_visit :: "(bucket \<Rightarrow> bucket) \<Rightarrow> bool" where
  "fair_visit visit \<longleftrightarrow> (\<forall>b. set (visit b) = set b)"

definition item_pair :: "(string \<times> signature) \<times> (string \<times> signature) \<Rightarrow> string \<times> string" where
  "item_pair p = ordered_pair (fst (fst p)) (fst (snd p))"

lemma bucket_pairs:
  assumes "distinct (map fst b)" "\<And>k. bucket_ids b k = map fst (filter (\<lambda>(x, sig). key sig = k) items)"
  shows "(\<Union>e \<in> set b. set (id_pairs (snd e)))
    = item_pair ` {p \<in> pairs_in items. key (snd (fst p)) = key (snd (snd p))}"
proof -
  have ids: "snd e = map fst (filter (\<lambda>x. key (snd x) = fst e) items)" if "e \<in> set b" for e
  proof -
    have "map_of b (fst e) = Some (snd e)" using that assms(1) by simp
    with assms(2) [of "fst e"] show ?thesis by (simp add: bucket_ids_def case_prod_unfold)
  qed
  have pairs: "set (id_pairs (snd e))
      = item_pair ` {p \<in> pairs_in items. key (snd (fst p)) = fst e \<and> key (snd (snd p)) = fst e}"
    if "e \<in> set b" for e
    unfolding ids [OF that] set_id_pairs pairs_in_filter
    by (intro image_cong) (auto simp: item_pair_def)
  have found: "\<exists>e \<in> set b. fst e = key (snd (fst p))" if "p \<in> pairs_in items" for p
  proof -
    have "fst p \<in> set items" using that by (induction items) auto
    then have "bucket_ids b (key (snd (fst p))) \<noteq> []" by (force simp: assms(2) filter_empty_conv case_prod_unfold)
    then show ?thesis by (force simp: bucket_ids_def split: option.splits dest: map_of_SomeD)
  qed
  have "(\<Union>e \<in> set b. set (id_pairs (snd e))) = item_pair `
      (\<Union>e \<in> set b. {p \<in> pairs_in items. key (snd (fst p)) = fst e \<and> key (snd (snd p)) = fst e})"
    using pairs by (simp add: image_UN)
  also have "(\<Union>e \<in> set b. {p \<in> pairs_in items. key (snd (fst p)) = fst e \<and> key (snd (snd p)) = fst e})
      = {p \<in> pairs_in items. key (snd (fst p)) = key (snd (snd p))}"
    using found by fastforce
  finally show ?thesis .
qed

lemma set_Candidates:
  assumes "fair_visit visit" "index_holds bands rows items idx"
  shows "set (Candidates visit idx)
    = item_pair ` {p \<in> pairs_in items. shares_bucket bands rows (snd (fst p)) (snd (snd p))}"
proof -
  have len: "length (buckets idx) = bands" using assms(2) by (simp add: index_holds_def)
  have b: "(\<Union>e \<in> set (buckets idx ! band). set (id_pairs (snd e)))
      = item_pair ` {p \<in> pairs_in items. band_key rows band (snd (fst p)) = band_key rows band (snd (snd p))}"
    if "band < bands" for band
    using assms(2) that by (intro bucket_pairs) (auto simp: index_holds_def)
  have nth: "set (buckets idx) = (\<lambda>band. buckets idx ! band) ` {..<bands}"
    by (auto simp: set_conv_nth len)
  have "set (Candidates visit idx) = (\<Union>band \<in> {..<bands}. \<Union>e \<in> set (buckets idx ! band). set (id_pairs (snd e)))"
    using assms(1) by (simp add: Candidates_def keep_first_set fair_visit_def nth)
  also have "\<dots> = (\<Union>band \<in> {..<bands}. item_pair `
      {p \<in> pairs_in items. band_key rows band (snd (fst p)) = band_key rows band (snd (snd p))})"
    by (rule SUP_cong) (simp_all add: b)
  also have "\<dots> = item_pair ` {p \<in> pairs_in items. shares_bucket bands rows (snd (fst p)) (snd (snd p))}"
    unfolding image_UN [symmetric] shares_bucket_def by (rule arg_cong [where f = "image item_pair"]) auto
  finally show ?thesis .
qed

text \<open>
  C39: The candidate pairs are exact. Over an index filled with a list of items,
  \<^verbatim>\<open>Candidates\<close> returns, each once and with the smaller id first, exactly the pairs of items
  whose signatures fall in the same bucket of some band, whatever the order in which the bucket
  maps are ranged over.
\<close>

theorem candidates_exact:
  assumes "fair_visit visit" "NewIndex bands rows = Inr idx"
  shows "set (Candidates visit (add_all items idx))
      = item_pair ` {p \<in> pairs_in items. shares_bucket (nat bands) (nat rows) (snd (fst p)) (snd (snd p))}
    \<and> distinct (Candidates visit (add_all items idx))
    \<and> list_all (\<lambda>(a, b). a \<le> b) (Candidates visit (add_all items idx))"
proof -
  note h = index_holds_add_all [OF index_holds_New [OF assms(2)], of items, simplified]
  note c = set_Candidates [OF assms(1) h]
  have "fst (item_pair p) \<le> snd (item_pair p)" for p by (auto simp: item_pair_def ordered_pair_def)
  then have "list_all (\<lambda>(a, b). a \<le> b) (Candidates visit (add_all items idx))"
    unfolding list_all_iff c by (auto simp: case_prod_unfold)
  moreover have "distinct (Candidates visit (add_all items idx))"
    using distinct_keep_first [of "\<lambda>p. p"] by (simp add: Candidates_def)
  ultimately show ?thesis using c by simp
qed

text \<open>
  Signatures that differ in fewer slots than there are bands agree on a whole band.
\<close>

lemma band_slots:
  assumes "length s = bands * rows" "length t = bands * rows" "band < bands"
    "\<And>i. band * rows \<le> i \<Longrightarrow> i < Suc band * rows \<Longrightarrow> s ! i = t ! i"
  shows "band_key rows band s = band_key rows band t"
proof -
  have "Suc band * rows \<le> bands * rows" using assms(3) by (intro mult_le_mono1) simp
  then have "take rows (drop (band * rows) s) = take rows (drop (band * rows) t)"
    using assms by (intro nth_equalityI) auto
  then show ?thesis by (simp add: band_key_def)
qed

lemma differing_bands:
  assumes "length s = bands * rows" "length t = bands * rows" "\<not> shares_bucket bands rows s t"
  shows "bands \<le> card {i. i < bands * rows \<and> s ! i \<noteq> t ! i}"
proof -
  have "\<exists>i. band * rows \<le> i \<and> i < Suc band * rows \<and> s ! i \<noteq> t ! i" if "band < bands" for band
    using band_slots [OF assms(1,2) that] assms(3) that unfolding shares_bucket_def by blast
  then obtain f where f: "\<And>band. band < bands \<Longrightarrow>
      band * rows \<le> f band \<and> f band < Suc band * rows \<and> s ! f band \<noteq> t ! f band"
    by metis
  have div: "f band div rows = band" if "band < bands" for band
    using f [OF that] by (intro div_nat_eqI) (auto simp: mult.commute)
  have "inj_on f {..<bands}" by (rule inj_onI) (metis div lessThan_iff)
  moreover have "f ` {..<bands} \<subseteq> {i. i < bands * rows \<and> s ! i \<noteq> t ! i}"
  proof (rule image_subsetI)
    fix band
    assume "band \<in> {..<bands}"
    then have b: "band < bands" by simp
    have "Suc band * rows \<le> bands * rows" using b by (intro mult_le_mono1) simp
    with f [OF b] show "f band \<in> {i. i < bands * rows \<and> s ! i \<noteq> t ! i}" by auto
  qed
  ultimately show ?thesis
    using card_mono [of "{i. i < bands * rows \<and> s ! i \<noteq> t ! i}" "f ` {..<bands}"]
    by (simp add: card_image)
qed

lemma EstimatedJaccard_differ:
  "EstimatedJaccard s t = 1 - of_nat (card {i. i < NumHashes \<and> s ! i \<noteq> t ! i}) / of_nat NumHashes"
proof -
  have "length (filter (\<lambda>i. s ! i = t ! i) [0..<NumHashes]) = card {i. i < NumHashes \<and> s ! i = t ! i}"
    by (simp add: length_filter_conv_card cong: conj_cong)
  moreover have "card {i. i < NumHashes \<and> s ! i = t ! i} + card {i. i < NumHashes \<and> s ! i \<noteq> t ! i} = NumHashes"
  proof -
    have "card {..<NumHashes} = card ({i. i < NumHashes \<and> s ! i = t ! i} \<union> {i. i < NumHashes \<and> s ! i \<noteq> t ! i})"
      by (rule arg_cong [where f = card]) auto
    then show ?thesis by (subst (asm) card_Un_disjoint) auto
  qed
  ultimately have "EstimatedJaccard s t
      = of_nat (NumHashes - card {i. i < NumHashes \<and> s ! i \<noteq> t ! i}) / of_nat NumHashes"
    and "card {i. i < NumHashes \<and> s ! i \<noteq> t ! i} \<le> NumHashes"
    by (simp_all add: EstimatedJaccard_def)
  then show ?thesis by (simp add: of_nat_diff diff_divide_distrib NumHashes_def)
qed

text \<open>
  no close pair is missed. Two items whose estimated similarity is above
  \<open>1 - bands / 128\<close> (0.875 for the 16 bands the engine uses) are always among the candidates.
\<close>

theorem near_duplicates_found:
  assumes "fair_visit visit" "NewIndex bands rows = Inr idx" "p \<in> pairs_in items"
    and "length (snd (fst p)) = NumHashes" "length (snd (snd p)) = NumHashes"
    and "EstimatedJaccard (snd (fst p)) (snd (snd p)) > 1 - of_int bands / of_nat NumHashes"
  shows "item_pair p \<in> set (Candidates visit (add_all items idx))"
proof -
  from assms(2) have br: "bands * rows = int NumHashes" "0 \<le> bands" "bands \<noteq> 0"
    by (auto simp: NewIndex_def NumHashes_def split: if_splits)
  then have "0 < bands * rows" "0 < bands" by (simp_all add: NumHashes_def)
  then have "0 < rows" by (simp add: zero_less_mult_iff)
  then have size: "NumHashes = nat bands * nat rows" using br by (simp flip: nat_mult_distrib)
  let ?d = "card {i. i < NumHashes \<and> snd (fst p) ! i \<noteq> snd (snd p) ! i}"
  have "of_nat ?d / of_nat NumHashes < (of_int bands / of_nat NumHashes :: float64)"
    using assms(6) by (simp add: EstimatedJaccard_differ)
  then have "(of_nat ?d :: float64) < of_int bands" by (simp add: NumHashes_def divide_less_cancel)
  then have "(of_int (int ?d) :: float64) < of_int bands" by simp
  then have "int ?d < bands" by (simp only: of_int_less_iff)
  then have "?d < nat bands" by linarith
  then have "shares_bucket (nat bands) (nat rows) (snd (fst p)) (snd (snd p))"
    using differing_bands [of "snd (fst p)" "nat bands" "nat rows" "snd (snd p)", folded size,
        OF assms(4,5)]
    by linarith
  with assms(3) set_Candidates [OF assms(1) index_holds_add_all [OF index_holds_New [OF assms(2)], of items, simplified]]
  show ?thesis by blast
qed

text \<open>
  the hash of a slot is not \<open>(a * bg + b) mod p\<close> over the integers: the product wraps at
  64 bits first. With the coefficients \<open>a = 2\<close>, \<open>b = 1\<close> and the bigram \<^verbatim>\<open>ab\<close> the two differ.
\<close>

theorem slot_hash_wraps:
  "\<exists>h. NewHasher (\<lambda>_. Some 1) = Some h
     \<and> unat (slot_hash h 0 (bigramHash 97 98))
       \<noteq> (unat (h_a h ! 0) * unat (bigramHash 97 98) + unat (h_b h ! 0)) mod (2 ^ 61 - 1)"
proof -
  have "new_coefficients (\<lambda>_. Some 1) is = Some (replicate (length is) (2, 1))" for "is"
    by (induction "is") (simp_all add: mh_prime_def)
  then have h: "NewHasher (\<lambda>_. Some 1) = Some \<lparr>h_a = replicate 128 2, h_b = replicate 128 1\<rparr>"
    by (simp add: NewHasher_def NumHashes_def)
  have bg: "bigramHash 97 98 = 12041479143316415302" by code_simp
  have "unat (slot_hash \<lparr>h_a = replicate 128 2, h_b = replicate 128 1\<rparr> 0 (bigramHash 97 98))
      \<noteq> (unat (2 :: uint64) * unat (bigramHash 97 98) + unat (1 :: uint64)) mod (2 ^ 61 - 1)"
    unfolding bg by (simp add: slot_hash_def mh_prime_def)
  with h show ?thesis by simp
qed

text \<open>Two memories with equal signatures and one with another.\<close>

definition sample_items :: "(string \<times> signature) list" where
  "sample_items = [(''b'', replicate 128 1), (''a'', replicate 128 1), (''c'', replicate 128 2)]"

definition sample_index :: Index where
  "sample_index = \<lparr>idx_bands = 16, idx_rows = 8, buckets = replicate 16 []\<rparr>"

lemma sample_index_New: "NewIndex 16 8 = Inr sample_index"
  by (simp add: NewIndex_def sample_index_def NumHashes_def)

theorem candidates_exact_witness:
  "fair_visit rev \<and> NewIndex 16 8 = Inr sample_index
   \<and> distinct (Candidates rev (add_all sample_items sample_index))
   \<and> set (Candidates rev (add_all sample_items sample_index))
      = item_pair ` {p \<in> pairs_in sample_items. shares_bucket 16 8 (snd (fst p)) (snd (snd p))}"
proof -
  have f: "fair_visit rev" by (simp add: fair_visit_def)
  from candidates_exact [OF f sample_index_New, of sample_items] f sample_index_New
  show ?thesis by simp
qed

theorem near_duplicates_found_witness:
  "(''a'', ''b'') \<in> set (Candidates rev (add_all sample_items sample_index))"
proof -
  have f: "fair_visit rev" by (simp add: fair_visit_def)
  let ?p = "((''b'', replicate 128 1 :: signature), (''a'', replicate 128 1 :: signature))"
  have "?p \<in> pairs_in sample_items" by (simp add: sample_items_def)
  moreover have "EstimatedJaccard (replicate 128 1) (replicate 128 1) = 1"
    by (simp add: EstimatedJaccard_differ)
  ultimately have "item_pair ?p \<in> set (Candidates rev (add_all sample_items sample_index))"
    using near_duplicates_found [OF f sample_index_New, of ?p sample_items] by (simp add: NumHashes_def)
  then show ?thesis by (simp add: item_pair_def ordered_pair_def)
qed

end
