(* ===== verification/Atom_Dedup.thy ===== *)
theory Atom_Dedup
  imports Engram_Prelude
begin

text \<open>
  Atoms and their deduplication (\<^verbatim>\<open>src/internal/atom/atom.go\<close>, \<^verbatim>\<open>dedup.go\<close>). A validity bound
  carries its instant and the calendar day it falls on in its own time zone, counted from 1
  January of year 1, because \<^verbatim>\<open>eventOccurrenceDate\<close> reads the day in the value's zone. \<open>u\<close> is the
  Unicode part of \<^verbatim>\<open>strings.ToLower\<close> and \<open>ef\<close> that of \<^verbatim>\<open>strings.EqualFold\<close>.
\<close>

section \<open>Data\<close>

record ztime =
  zt_instant :: gotime
  zt_day :: int

record Atom =
  at_ID :: string
  at_Project :: string
  at_Type :: string
  at_Subject :: string
  at_Predicate :: string
  at_Value :: string
  at_Statement :: string
  at_Scope :: string
  at_ValidFrom :: "ztime option"
  at_ValidTo :: "gotime option"
  at_ObservedAt :: "gotime option"
  at_Confidence :: float64
  at_ProvenanceMemoryID :: string
  at_ProvenanceSpan :: string
  at_Supersedes :: string
  at_CreatedAt :: gotime

definition TypeEvent :: string where
  "TypeEvent = ''event''"

definition TypeStatusChange :: string where
  "TypeStatusChange = ''status_change''"

definition atom_types :: "string list" where
  "atom_types = [''preference'', ''fact'', TypeEvent, ''attribute'', ''relationship'', ''profile'',
     TypeStatusChange]"

definition IsValid :: "Atom \<Rightarrow> bool" where
  "IsValid a =
     (if at_Type a = [] \<or> at_Subject a = [] \<or> at_Predicate a = [] \<or> at_Value a = [] \<or> at_Statement a = []
      then False
      else if at_Type a \<notin> set atom_types then False
      else if at_Confidence a < 0 \<or> at_Confidence a > 1 then False
      else True)"

section \<open>Keys and times\<close>

type_synonym SupersessionKey = "string \<times> string \<times> string \<times> string"

definition fold_case :: "(string \<Rightarrow> string) \<Rightarrow> string \<Rightarrow> string" where
  "fold_case u s = ToLower u (TrimSpace s)"

definition supersessionKey :: "(string \<Rightarrow> string) \<Rightarrow> Atom \<Rightarrow> SupersessionKey" where
  "supersessionKey u a =
     (at_Project a, at_Type a, fold_case u (at_Subject a), fold_case u (at_Predicate a))"

definition eventOccurrenceDate :: "ztime \<Rightarrow> int" where
  "eventOccurrenceDate t = zt_day t"

definition candidateBatchKey :: "(string \<Rightarrow> string) \<Rightarrow> Atom \<Rightarrow> SupersessionKey \<times> string \<times> int" where
  "candidateBatchKey u a =
     (supersessionKey u a, fold_case u (at_Value a),
      if at_Type a = TypeEvent then (case at_ValidFrom a of None \<Rightarrow> 0 | Some t \<Rightarrow> eventOccurrenceDate t)
      else 0)"

definition assertionTime :: "gotime \<Rightarrow> Atom \<Rightarrow> gotime" where
  "assertionTime fallback a = (case at_ObservedAt a of Some t \<Rightarrow> t | None \<Rightarrow> fallback)"

definition validityStart :: "gotime \<Rightarrow> Atom \<Rightarrow> gotime" where
  "validityStart fallback a =
     (case at_ValidFrom a of Some t \<Rightarrow> zt_instant t | None \<Rightarrow> assertionTime fallback a)"

definition atomIsLater :: "gotime \<Rightarrow> Atom \<Rightarrow> Atom \<Rightarrow> bool" where
  "atomIsLater fallback cand current =
     (let c = assertionTime fallback cand; d = assertionTime fallback current in
      if c \<noteq> d then c > d else at_CreatedAt cand > at_CreatedAt current)"

fun supersessionKeyLess :: "SupersessionKey \<Rightarrow> SupersessionKey \<Rightarrow> bool" where
  "supersessionKeyLess (p, t, s, r) (p', t', s', r') =
     (if p \<noteq> p' then p < p' else if t \<noteq> t' then t < t' else if s \<noteq> s' then s < s' else r < r')"

definition isDistinctDatedOccurrence :: "Atom \<Rightarrow> Atom \<Rightarrow> bool" where
  "isDistinctDatedOccurrence existing cand =
     (if at_Type cand \<noteq> TypeEvent then False
      else case (at_ValidFrom existing, at_ValidFrom cand) of
        (Some s, Some t) \<Rightarrow> eventOccurrenceDate s \<noteq> eventOccurrenceDate t
      | _ \<Rightarrow> False)"

definition EqualFold :: "(string \<Rightarrow> string \<Rightarrow> bool) \<Rightarrow> string \<Rightarrow> string \<Rightarrow> bool" where
  "EqualFold ef s t =
     (if is_ascii s \<and> is_ascii t then map ascii_lower s = map ascii_lower t else ef s t)"

section \<open>Deduplication\<close>

type_synonym atom_index = "SupersessionKey \<rightharpoonup> Atom"

record dedup_result =
  dr_Fresh :: "Atom list"
  dr_Superseded :: "(Atom \<times> Atom) list"

definition index_add :: "(string \<Rightarrow> string) \<Rightarrow> gotime \<Rightarrow> Atom \<Rightarrow> atom_index \<Rightarrow> atom_index" where
  "index_add u now a index =
     (let k = supersessionKey u a in
      case index k of
        None \<Rightarrow> index(k \<mapsto> a)
      | Some current \<Rightarrow> if atomIsLater now a current then index(k \<mapsto> a) else index)"

definition index_existing :: "(string \<Rightarrow> string) \<Rightarrow> gotime \<Rightarrow> Atom list \<Rightarrow> atom_index" where
  "index_existing u now existing = fold (index_add u now) existing Map.empty"

definition unique_candidates :: "(string \<Rightarrow> string) \<Rightarrow> Atom list \<Rightarrow> Atom list" where
  "unique_candidates u candidates = keep_first (candidateBatchKey u) [] candidates"

definition candidate_before :: "(string \<Rightarrow> string) \<Rightarrow> gotime \<Rightarrow> Atom \<Rightarrow> Atom \<Rightarrow> bool" where
  "candidate_before u now left right =
     (let leftStatus = at_Type left = TypeStatusChange; rightStatus = at_Type right = TypeStatusChange in
      if leftStatus \<noteq> rightStatus then \<not> leftStatus
      else if \<not> leftStatus then False
      else
        let leftKey = supersessionKey u left; rightKey = supersessionKey u right in
        if leftKey \<noteq> rightKey then supersessionKeyLess leftKey rightKey
        else assertionTime now left < assertionTime now right)"

definition confidenceSupersessionTolerance :: float64 where
  "confidenceSupersessionTolerance = 2 / 10"

definition confidenceComparisonEpsilon :: float64 where
  "confidenceComparisonEpsilon = 1 / 10 ^ 9"

datatype verdict = Fresh | Indexed | Reinforced | Supersedes Atom

text \<open>The cascade of conditions in the body of the loop: what becomes of candidate \<open>c\<close>.\<close>

definition judge ::
  "(string \<Rightarrow> string) \<Rightarrow> (string \<Rightarrow> string \<Rightarrow> bool) \<Rightarrow> gotime \<Rightarrow> atom_index \<Rightarrow> Atom \<Rightarrow> verdict" where
  "judge u ef now index c =
     (case index (supersessionKey u c) of
        None \<Rightarrow> if at_Type c \<noteq> TypeEvent then Indexed else Fresh
      | Some current \<Rightarrow>
          if EqualFold ef (TrimSpace (at_Value current)) (TrimSpace (at_Value c))
          then if isDistinctDatedOccurrence current c then Fresh else Reinforced
          else if at_Type c = TypeEvent then Fresh
          else if at_Confidence c + confidenceSupersessionTolerance + confidenceComparisonEpsilon
            < at_Confidence current then Fresh
          else if assertionTime now c < validityStart now current then Fresh
          else Supersedes current)"

definition retire :: "gotime \<Rightarrow> Atom \<Rightarrow> Atom" where
  "retire t a = a\<lparr>at_ValidTo := Some t\<rparr>"

definition dedup_step ::
  "(string \<Rightarrow> string) \<Rightarrow> (string \<Rightarrow> string \<Rightarrow> bool) \<Rightarrow> gotime \<Rightarrow> Atom \<Rightarrow> dedup_result \<times> atom_index
    \<Rightarrow> dedup_result \<times> atom_index" where
  "dedup_step u ef now c ri =
     (case ri of (r, index) \<Rightarrow>
        (case judge u ef now index c of
           Fresh \<Rightarrow> (r\<lparr>dr_Fresh := dr_Fresh r @ [c]\<rparr>, index)
         | Indexed \<Rightarrow> (r\<lparr>dr_Fresh := dr_Fresh r @ [c]\<rparr>, index(supersessionKey u c \<mapsto> c))
         | Reinforced \<Rightarrow> (r, index)
         | Supersedes current \<Rightarrow>
             let c' = c\<lparr>at_Supersedes := at_ID current\<rparr> in
             (r\<lparr>dr_Superseded := dr_Superseded r @ [(retire (assertionTime now c) current, c')]\<rparr>,
              index(supersessionKey u c \<mapsto> c'))))"

definition Deduplicate ::
  "(string \<Rightarrow> string) \<Rightarrow> (string \<Rightarrow> string \<Rightarrow> bool) \<Rightarrow> Atom list \<Rightarrow> Atom list \<Rightarrow> gotime \<Rightarrow> dedup_result" where
  "Deduplicate u ef existing candidates now =
     fst (fold (dedup_step u ef now)
       (sort_stable (candidate_before u now) (unique_candidates u candidates))
       (\<lparr>dr_Fresh = [], dr_Superseded = []\<rparr>, index_existing u now existing))"

section \<open>The order of the candidates\<close>

lemma key_less_linear: "supersessionKeyLess k l \<or> k = l \<or> supersessionKeyLess l k"
  by (cases k; cases l) auto

lemma key_less_asym: "supersessionKeyLess k l \<Longrightarrow> \<not> supersessionKeyLess l k"
  by (cases k; cases l) (auto split: if_splits)

lemma key_less_trans: "supersessionKeyLess k l \<Longrightarrow> supersessionKeyLess l m \<Longrightarrow> supersessionKeyLess k m"
  by (cases k; cases l; cases m) (auto split: if_splits)

lemma key_time_cotrans:
  fixes r s t :: int
  assumes "if k \<noteq> m then supersessionKeyLess k m else r < t"
  shows "(if k \<noteq> l then supersessionKeyLess k l else r < s) \<or> (if l \<noteq> m then supersessionKeyLess l m else s < t)"
proof (cases "k = l \<or> l = m")
  case True
  with assms show ?thesis by (auto split: if_splits)
next
  case False
  then show ?thesis
    using assms key_less_linear [of k l] key_less_trans [of l k m] by (auto split: if_splits)
qed

interpretation candidate_order: strict_weak_order "candidate_before u now" for u now
proof
  fix x y z
  show "candidate_before u now x y \<Longrightarrow> \<not> candidate_before u now y x"
    using key_less_asym by (auto simp: candidate_before_def Let_def split: if_splits)
  have "candidate_before u now x y \<or> candidate_before u now y z" if "candidate_before u now x z"
  proof (cases "at_Type x = TypeStatusChange \<and> at_Type y = TypeStatusChange \<and> at_Type z = TypeStatusChange")
    case True
    with that key_time_cotrans [of "supersessionKey u x" "supersessionKey u z" "assertionTime now x" "assertionTime now z"
        "supersessionKey u y" "assertionTime now y"]
    show ?thesis by (simp add: candidate_before_def Let_def split: if_splits)
  next
    case False
    with that show ?thesis by (auto simp: candidate_before_def Let_def split: if_splits)
  qed
  then show "\<not> candidate_before u now x y \<Longrightarrow> \<not> candidate_before u now y z \<Longrightarrow> \<not> candidate_before u now x z"
    by blast
qed

section \<open>What the loop keeps\<close>

text \<open>A retired atom and the atom that replaces it.\<close>

definition pair_ok ::
  "(string \<Rightarrow> string) \<Rightarrow> (string \<Rightarrow> string \<Rightarrow> bool) \<Rightarrow> gotime \<Rightarrow> Atom \<times> Atom \<Rightarrow> bool" where
  "pair_ok u ef now p \<longleftrightarrow>
     (case p of (old, new) \<Rightarrow>
        supersessionKey u old = supersessionKey u new
        \<and> at_Supersedes new = at_ID old
        \<and> at_Type new \<noteq> TypeEvent
        \<and> \<not> EqualFold ef (TrimSpace (at_Value old)) (TrimSpace (at_Value new))
        \<and> at_Confidence old \<le> at_Confidence new + confidenceSupersessionTolerance + confidenceComparisonEpsilon
        \<and> at_ValidTo old = Some (assertionTime now new)
        \<and> validityStart now old \<le> assertionTime now new)"

lemma retire_simps [simp]:
  "supersessionKey u (retire t a) = supersessionKey u a" "at_ID (retire t a) = at_ID a"
  "at_Value (retire t a) = at_Value a" "at_Confidence (retire t a) = at_Confidence a"
  "at_ValidTo (retire t a) = Some t" "validityStart now (retire t a) = validityStart now a"
  "at_Type (retire t a) = at_Type a"
  by (simp_all add: retire_def supersessionKey_def validityStart_def assertionTime_def split: option.splits)

lemma supersedes_simps [simp]:
  "supersessionKey u (a\<lparr>at_Supersedes := x\<rparr>) = supersessionKey u a"
  "assertionTime now (a\<lparr>at_Supersedes := x\<rparr>) = assertionTime now a"
  by (simp_all add: supersessionKey_def assertionTime_def)

lemma judge_supersedes:
  assumes "judge u ef now index c = Supersedes current" "\<And>k a. index k = Some a \<Longrightarrow> supersessionKey u a = k"
  shows "index (supersessionKey u c) = Some current
    \<and> pair_ok u ef now (retire (assertionTime now c) current, c\<lparr>at_Supersedes := at_ID current\<rparr>)"
  using assms by (auto simp: judge_def pair_ok_def split: option.splits if_splits)

text \<open>Consecutive pairs of one key: what one pair puts in place the next one retires.\<close>

fun pairs_linked :: "(Atom \<times> Atom) list \<Rightarrow> bool" where
  "pairs_linked ((old, new) # (old', new') # ps) =
     (old' = retire (the (at_ValidTo old')) new \<and> pairs_linked ((old', new') # ps))"
| "pairs_linked _ = True"

lemma pairs_linked_snoc:
  "pairs_linked (ps @ [(old, new)]) \<longleftrightarrow>
     pairs_linked ps \<and> (ps = [] \<or> old = retire (the (at_ValidTo old)) (snd (last ps)))"
  by (induction ps rule: pairs_linked.induct) auto

definition pairs_for :: "(string \<Rightarrow> string) \<Rightarrow> SupersessionKey \<Rightarrow> (Atom \<times> Atom) list \<Rightarrow> (Atom \<times> Atom) list" where
  "pairs_for u k ps = filter (\<lambda>p. supersessionKey u (snd p) = k) ps"

definition dedup_inv ::
  "(string \<Rightarrow> string) \<Rightarrow> (string \<Rightarrow> string \<Rightarrow> bool) \<Rightarrow> gotime \<Rightarrow> dedup_result \<times> atom_index \<Rightarrow> bool" where
  "dedup_inv u ef now ri \<longleftrightarrow>
     (case ri of (r, index) \<Rightarrow>
        (\<forall>k a. index k = Some a \<longrightarrow> supersessionKey u a = k)
        \<and> list_all (pair_ok u ef now) (dr_Superseded r)
        \<and> (\<forall>k. pairs_linked (pairs_for u k (dr_Superseded r))
             \<and> (pairs_for u k (dr_Superseded r) \<noteq> []
                \<longrightarrow> index k = Some (snd (last (pairs_for u k (dr_Superseded r)))))))"

lemma dedup_invD:
  assumes "dedup_inv u ef now (r, index)"
  shows "index k = Some a \<Longrightarrow> supersessionKey u a = k"
    and "pairs_linked (pairs_for u k (dr_Superseded r))"
    and "pairs_for u k (dr_Superseded r) \<noteq> [] \<Longrightarrow> index k = Some (snd (last (pairs_for u k (dr_Superseded r))))"
  using assms by (simp_all add: dedup_inv_def del: split_paired_All)

lemma dedup_inv_step:
  assumes "dedup_inv u ef now (r, index)"
  shows "dedup_inv u ef now (dedup_step u ef now c (r, index))"
proof (cases "judge u ef now index c")
  case Fresh
  with assms show ?thesis by (simp add: dedup_step_def dedup_inv_def)
next
  case Reinforced
  with assms show ?thesis by (simp add: dedup_step_def dedup_inv_def)
next
  case Indexed
  then have "index (supersessionKey u c) = None"
    by (auto simp: judge_def split: option.splits if_splits)
  then have "pairs_for u (supersessionKey u c) (dr_Superseded r) = []"
    using dedup_invD(3) [OF assms, of "supersessionKey u c"] by auto
  with assms Indexed show ?thesis
    by (auto simp: dedup_step_def dedup_inv_def simp del: split_paired_All)
next
  case (Supersedes current)
  let ?k = "supersessionKey u c" and ?new = "c\<lparr>at_Supersedes := at_ID current\<rparr>"
  let ?old = "retire (assertionTime now c) current"
  let ?ps = "dr_Superseded r"
  note keyed = dedup_invD(1) [OF assms] and linked = dedup_invD(2,3) [OF assms]
  note j = judge_supersedes [OF Supersedes keyed]
  have new: "pairs_for u k (?ps @ [(?old, ?new)])
      = (if k = ?k then pairs_for u k ?ps @ [(?old, ?new)] else pairs_for u k ?ps)" for k
    by (simp add: pairs_for_def)
  have "pairs_for u ?k ?ps = [] \<or> current = snd (last (pairs_for u ?k ?ps))"
    using linked(2) [of ?k] j by (cases "pairs_for u ?k ?ps = []") auto
  then have "?old = retire (the (at_ValidTo ?old)) (snd (last (pairs_for u ?k ?ps))) \<or> pairs_for u ?k ?ps = []"
    by auto
  then have "pairs_linked (pairs_for u k (?ps @ [(?old, ?new)]))" for k
    unfolding new using linked(1) by (simp add: pairs_linked_snoc) blast
  moreover have "dedup_step u ef now c (r, index)
      = (r\<lparr>dr_Superseded := ?ps @ [(?old, ?new)]\<rparr>, index(?k \<mapsto> ?new))"
    by (simp add: dedup_step_def Supersedes Let_def)
  moreover have "list_all (pair_ok u ef now) (?ps @ [(?old, ?new)])"
    using assms j by (simp add: dedup_inv_def)
  ultimately show ?thesis
    using keyed linked(2) by (auto simp: dedup_inv_def new simp del: split_paired_All)
qed

lemma index_existing_keyed:
  assumes "index_existing u now existing k = Some a"
  shows "supersessionKey u a = k \<and> a \<in> set existing"
proof -
  have "supersessionKey u a = k \<and> (a \<in> set xs \<or> m k = Some a)"
    if "fold (index_add u now) xs m k = Some a" "\<And>k a. m k = Some a \<Longrightarrow> supersessionKey u a = k" for xs m
    using that
  proof (induction xs arbitrary: m)
    case (Cons x xs)
    have "\<And>k a. index_add u now x m k = Some a \<Longrightarrow> supersessionKey u a = k"
      using Cons.prems(2) by (auto simp: index_add_def Let_def split: option.splits if_splits)
    from Cons.IH [OF _ this, of "index_add u now x m"] Cons.prems show ?case
      by (auto simp: index_add_def Let_def split: option.splits if_splits)
  qed auto
  from this [of existing Map.empty] assms show ?thesis by (simp add: index_existing_def)
qed

lemma dedup_inv_fold: "dedup_inv u ef now ri \<Longrightarrow> dedup_inv u ef now (fold (dedup_step u ef now) cs ri)"
proof (induction cs arbitrary: ri)
  case (Cons c cs)
  obtain r index where "ri = (r, index)" by (cases ri)
  with Cons.IH [OF dedup_inv_step [of u ef now r index c]] Cons.prems show ?case by simp
qed simp

lemma dedup_inv_Deduplicate:
  "\<exists>index. dedup_inv u ef now (Deduplicate u ef existing candidates now, index)"
proof -
  have "dedup_inv u ef now (\<lparr>dr_Fresh = [], dr_Superseded = []\<rparr>, index_existing u now existing)"
    using index_existing_keyed by (auto simp: dedup_inv_def pairs_for_def)
  from dedup_inv_fold [OF this] show ?thesis
    unfolding Deduplicate_def by (metis prod.collapse)
qed

text \<open>
  every supersession is justified. In each pair the two atoms are about the same property
  and say different things, the new one is not an event, links back to the old one and is not
  more than the tolerance less confident; the old one is retired at the instant the new one
  asserts, which is not before its own validity starts. For each property the pairs form one
  chain: what one pair puts in place is what the next one retires, so no atom is retired twice.
\<close>

theorem supersessions_justified:
  "list_all (pair_ok u ef now) (dr_Superseded (Deduplicate u ef existing candidates now))
   \<and> (\<forall>k. pairs_linked (pairs_for u k (dr_Superseded (Deduplicate u ef existing candidates now))))"
  using dedup_inv_Deduplicate [of u ef now existing candidates] by (auto simp: dedup_inv_def)

section \<open>No candidate is lost or repeated\<close>

definition unlinked :: "Atom \<Rightarrow> Atom" where
  "unlinked a = a\<lparr>at_Supersedes := []\<rparr>"

text \<open>What the result keeps: the fresh atoms and the new sides of the pairs, links aside.\<close>

definition kept :: "dedup_result \<Rightarrow> Atom multiset" where
  "kept r = image_mset unlinked (mset (dr_Fresh r) + mset (map snd (dr_Superseded r)))"

lemma step_kept:
  "kept (fst (dedup_step u ef now c (r, index)))
     + (if judge u ef now index c = Reinforced then {#unlinked c#} else {#})
     = add_mset (unlinked c) (kept r)"
  by (cases "judge u ef now index c") (auto simp: dedup_step_def kept_def Let_def unlinked_def)

lemma fold_kept:
  "kept (fst (fold (dedup_step u ef now) cs (r, index))) \<subseteq># kept r + image_mset unlinked (mset cs)"
proof (induction cs arbitrary: r index)
  case (Cons c cs)
  obtain r' index' where s: "dedup_step u ef now c (r, index) = (r', index')"
    by (cases "dedup_step u ef now c (r, index)")
  have "kept r' \<subseteq># add_mset (unlinked c) (kept r)"
    using step_kept [of u ef now c r index] s by (metis fst_conv mset_subset_eq_add_left)
  then have "kept r' + image_mset unlinked (mset cs) \<subseteq># kept r + image_mset unlinked (mset (c # cs))"
    by (simp add: subset_mset.add_mono flip: union_mset_add_mset_left)
  with Cons.IH [of r' index'] s show ?case
    using subset_mset.trans [of "kept (fst (fold (dedup_step u ef now) cs (r', index')))"] by simp
qed simp

definition fresh_for :: "(string \<Rightarrow> string) \<Rightarrow> dedup_result \<Rightarrow> SupersessionKey \<Rightarrow> bool" where
  "fresh_for u r k = list_ex (\<lambda>a. supersessionKey u a = k) (dr_Fresh r)"

lemma step_fresh:
  assumes "\<And>k. index k \<noteq> None \<Longrightarrow> index0 k \<noteq> None \<or> fresh_for u r k"
    "dedup_step u ef now c (r, index) = (r', index')"
  shows "(index' k \<noteq> None \<longrightarrow> index0 k \<noteq> None \<or> fresh_for u r' k)
    \<and> (fresh_for u r k \<longrightarrow> fresh_for u r' k)
    \<and> (index0 (supersessionKey u c) \<noteq> None \<or> fresh_for u r' (supersessionKey u c))"
proof -
  have none: "judge u ef now index c \<in> {Fresh, Indexed}" if "index (supersessionKey u c) = None"
    using that by (simp add: judge_def)
  have some: "index (supersessionKey u c) \<noteq> None" if "judge u ef now index c = Supersedes a" for a
    using that by (auto simp: judge_def split: option.splits if_splits)
  show ?thesis
    using assms(2) none some assms(1) [of k] assms(1) [of "supersessionKey u c"]
    by (cases "judge u ef now index c") (auto simp: dedup_step_def fresh_for_def Let_def split: if_splits)
qed

lemma fold_fresh:
  assumes "\<And>k. index k \<noteq> None \<Longrightarrow> index0 k \<noteq> None \<or> fresh_for u r k"
  shows "(\<forall>k. fresh_for u r k \<longrightarrow> fresh_for u (fst (fold (dedup_step u ef now) cs (r, index))) k)
    \<and> (\<forall>c \<in> set cs. index0 (supersessionKey u c) \<noteq> None
         \<or> fresh_for u (fst (fold (dedup_step u ef now) cs (r, index))) (supersessionKey u c))"
  using assms
proof (induction cs arbitrary: r index)
  case (Cons c cs)
  obtain r' index' where s: "dedup_step u ef now c (r, index) = (r', index')"
    by (cases "dedup_step u ef now c (r, index)")
  note step = step_fresh [OF Cons.prems s]
  have i: "\<And>k. index' k \<noteq> None \<Longrightarrow> index0 k \<noteq> None \<or> fresh_for u r' k"
    and mono: "\<And>k. fresh_for u r k \<Longrightarrow> fresh_for u r' k"
    and c: "index0 (supersessionKey u c) \<noteq> None \<or> fresh_for u r' (supersessionKey u c)"
    using step by blast+
  from Cons.IH [OF i] mono c show ?case
    unfolding fold_simps s list.set ball_simps by blast
qed simp

lemma set_unique_keys: "supersessionKey u ` set (unique_candidates u cs) = supersessionKey u ` set cs"
proof -
  have "fst ` candidateBatchKey u ` set (unique_candidates u cs) = fst ` candidateBatchKey u ` set cs"
    by (simp add: unique_candidates_def keys_keep_first)
  then show ?thesis by (simp add: image_image candidateBatchKey_def)
qed

text \<open>
  the result accounts for the candidates. What it inserts is made of candidates, each at most
  once and only the first of those that are the same property, value and event day; and for every
  property a candidate speaks of, some atom is already stored or one is inserted.
\<close>

theorem candidates_accounted:
  "kept (Deduplicate u ef existing candidates now) \<subseteq># image_mset unlinked (mset (unique_candidates u candidates))
   \<and> distinct (map (candidateBatchKey u) (unique_candidates u candidates))
   \<and> list_all (\<lambda>c. (\<exists>a \<in> set existing. supersessionKey u a = supersessionKey u c)
        \<or> fresh_for u (Deduplicate u ef existing candidates now) (supersessionKey u c)) candidates"
proof (intro conjI)
  let ?cs = "sort_stable (candidate_before u now) (unique_candidates u candidates)"
  let ?r0 = "\<lparr>dr_Fresh = [], dr_Superseded = []\<rparr>" and ?i0 = "index_existing u now existing"
  show "kept (Deduplicate u ef existing candidates now) \<subseteq># image_mset unlinked (mset (unique_candidates u candidates))"
    using fold_kept [of u ef now ?cs ?r0 ?i0] by (simp add: Deduplicate_def kept_def)
  show "distinct (map (candidateBatchKey u) (unique_candidates u candidates))"
    by (simp add: unique_candidates_def distinct_keep_first)
  have f: "?i0 (supersessionKey u c) \<noteq> None \<or> fresh_for u (Deduplicate u ef existing candidates now) (supersessionKey u c)"
    if "c \<in> set (unique_candidates u candidates)" for c
    using fold_fresh [of ?i0 ?i0 u ?r0 ef now ?cs] that by (simp add: Deduplicate_def)
  have "(\<exists>a \<in> set existing. supersessionKey u a = supersessionKey u c)
      \<or> fresh_for u (Deduplicate u ef existing candidates now) (supersessionKey u c)" if "c \<in> set candidates" for c
  proof -
    have "supersessionKey u c \<in> supersessionKey u ` set (unique_candidates u candidates)"
      using that by (simp add: set_unique_keys)
    then obtain c' where "c' \<in> set (unique_candidates u candidates)" "supersessionKey u c' = supersessionKey u c"
      by force
    with f [of c'] index_existing_keyed [of u now existing "supersessionKey u c"] show ?thesis by auto
  qed
  then show "list_all (\<lambda>c. (\<exists>a \<in> set existing. supersessionKey u a = supersessionKey u c)
      \<or> fresh_for u (Deduplicate u ef existing candidates now) (supersessionKey u c)) candidates"
    by (simp add: list_all_iff)
qed

end
