(* ===== verification/Weight_Tuner.thy ===== *)
theory Weight_Tuner
  imports Engram_Prelude
begin

text \<open>
  The adaptive tuning of the retrieval weights (\<^verbatim>\<open>src/internal/weight/tuner.go\<close>) over the tables
  it reads and writes. A weight is a rational number: the clamping and the distribution of the
  residual are exact here, so that the re-clamping the code does "for float precision" changes
  nothing. Where \<^verbatim>\<open>ORDER BY cnt DESC\<close> leaves the order of equal counts open, the argument \<open>rank\<close>
  gives the rows in some order of decreasing counts.
\<close>

section \<open>Weights and bounds\<close>

record Weights =
  w_Vector :: float64
  w_BM25 :: float64
  w_Recency :: float64
  w_Precision :: float64

definition DefaultWeights :: Weights where
  "DefaultWeights = \<lparr>w_Vector = 45 / 100, w_BM25 = 30 / 100, w_Recency = 10 / 100, w_Precision = 15 / 100\<rparr>"

definition wBoundsTable :: "(float64 \<times> float64) list" where
  "wBoundsTable = [(30 / 100, 65 / 100), (15 / 100, 45 / 100), (5 / 100, 20 / 100), (5 / 100, 25 / 100)]"

definition minEventsBeforeTuning :: nat where
  "minEventsBeforeTuning = 20"

definition dominantThreshold :: float64 where
  "dominantThreshold = 40 / 100"

definition dominantMargin :: float64 where
  "dominantMargin = 10 / 100"

definition tuningCooldown :: duration where
  "tuningCooldown = 3 * 24 * hour"

definition computeDelta :: "string \<Rightarrow> Weights option" where
  "computeDelta cls =
     (if cls = ''stale_ranking''
      then Some \<lparr>w_Vector = - 5 / 100, w_BM25 = 0, w_Recency = 5 / 100, w_Precision = 0\<rparr>
      else if cls = ''vocabulary_mismatch''
      then Some \<lparr>w_Vector = 5 / 100, w_BM25 = - 5 / 100, w_Recency = 0, w_Precision = 0\<rparr>
      else if cls = ''scope_mismatch''
      then Some \<lparr>w_Vector = 0, w_BM25 = - 3 / 100, w_Recency = 0, w_Precision = 3 / 100\<rparr>
      else None)"

definition applyDelta :: "Weights \<Rightarrow> Weights \<Rightarrow> Weights" where
  "applyDelta current delta =
     \<lparr>w_Vector = w_Vector current + w_Vector delta, w_BM25 = w_BM25 current + w_BM25 delta,
      w_Recency = w_Recency current + w_Recency delta,
      w_Precision = w_Precision current + w_Precision delta\<rparr>"

section \<open>Normalisation\<close>

definition weights_list :: "Weights \<Rightarrow> float64 list" where
  "weights_list w = [w_Vector w, w_BM25 w, w_Recency w, w_Precision w]"

definition weights_of :: "float64 list \<Rightarrow> Weights" where
  "weights_of vals =
     \<lparr>w_Vector = vals ! 0, w_BM25 = vals ! 1, w_Recency = vals ! 2, w_Precision = vals ! 3\<rparr>"

definition clamp :: "float64 \<times> float64 \<Rightarrow> float64 \<Rightarrow> float64" where
  "clamp b v =
     (let v = (if v < fst b then fst b else v) in if v > snd b then snd b else v)"

definition slack :: "float64 \<Rightarrow> float64 \<times> float64 \<Rightarrow> float64 \<Rightarrow> float64" where
  "slack residual b v =
     (let s = (if residual > 0 then snd b - v else v - fst b) in if s < 0 then 0 else s)"

definition normalizeWeights :: "Weights \<Rightarrow> Weights option" where
  "normalizeWeights w =
     (let vals = map2 clamp wBoundsTable (weights_list w);
          residual = 1 - sum_list vals in
      if \<bar>residual\<bar> < 1 / 10 ^ 9 then Some (weights_of vals)
      else
        let slacks = map2 (slack residual) wBoundsTable vals;
            totalSlack = sum_list slacks in
        if totalSlack < 1 / 10 ^ 9 then None
        else
          let vals = map2 clamp wBoundsTable (map2 (\<lambda>v s. v + residual * s / totalSlack) vals slacks) in
          if \<bar>sum_list vals - 1\<bar> > 1 / 10 ^ 9 then None else Some (weights_of vals))"

section \<open>Tables\<close>

record retrieval_event =
  re_project :: string
  re_failure_class :: "string option"
  re_created_at :: gotime

record weight_entry =
  wh_project :: string
  wh_applied_at :: gotime
  wh_weights :: Weights

record tuner_db =
  weight_config :: "string \<rightharpoonup> Weights"
  weight_history :: "weight_entry list"
  retrieval_events :: "retrieval_event list"
  tuner_down :: bool

datatype tuner_error = QueryFailed

definition LoadWeights :: "string \<Rightarrow> tuner_db \<Rightarrow> tuner_error + Weights" where
  "LoadWeights project db =
     (if tuner_down db then Inl QueryFailed
      else Inr (case weight_config db project of None \<Rightarrow> DefaultWeights | Some w \<Rightarrow> w))"

definition applied_before :: "weight_entry \<Rightarrow> weight_entry \<Rightarrow> bool" where
  "applied_before a b \<longleftrightarrow> wh_applied_at a > wh_applied_at b"

definition project_history :: "string \<Rightarrow> tuner_db \<Rightarrow> weight_entry list" where
  "project_history project db =
     sort_stable applied_before (filter (\<lambda>h. wh_project h = project) (weight_history db))"

definition GetHistory :: "string \<Rightarrow> int \<Rightarrow> tuner_db \<Rightarrow> tuner_error + weight_entry list" where
  "GetHistory project limit db =
     (let limit = (if limit \<le> 0 then 20 else limit) in
      if tuner_down db then Inl QueryFailed else Inr (take (nat limit) (project_history project db)))"

definition ResetToDefaults :: "string \<Rightarrow> tuner_db \<Rightarrow> tuner_error + tuner_db" where
  "ResetToDefaults project db =
     (if tuner_down db then Inl QueryFailed
      else Inr (db\<lparr>weight_config := (weight_config db)(project := None)\<rparr>))"

definition applyWeights :: "string \<Rightarrow> Weights \<Rightarrow> gotime \<Rightarrow> tuner_db \<Rightarrow> tuner_error + tuner_db" where
  "applyWeights project wt now db =
     (if tuner_down db then Inl QueryFailed
      else Inr (db\<lparr>weight_config := (weight_config db)(project \<mapsto> wt),
        weight_history := weight_history db
          @ [\<lparr>wh_project = project, wh_applied_at = now, wh_weights = wt\<rparr>]\<rparr>))"

text \<open>The failure classes of the last 30 days with their numbers of events, in order of first occurrence.\<close>

definition recent_classes :: "string \<Rightarrow> gotime \<Rightarrow> tuner_db \<Rightarrow> string list" where
  "recent_classes project now db =
     List.map_filter re_failure_class
       (filter (\<lambda>e. re_project e = project \<and> re_created_at e \<ge> now - 30 * 24 * hour)
         (retrieval_events db))"

definition class_counts :: "string list \<Rightarrow> (string \<times> nat) list" where
  "class_counts cs = map (\<lambda>c. (c, length (filter (\<lambda>d. d = c) cs))) (remdups cs)"

definition projectsWithRecentEvents :: "gotime \<Rightarrow> tuner_db \<Rightarrow> string list" where
  "projectsWithRecentEvents now db =
     remdups (map re_project (filter (\<lambda>e. re_failure_class e \<noteq> None \<and> re_created_at e \<ge> now - 30 * 24 * hour)
       (retrieval_events db)))"

section \<open>Adjustment\<close>

text \<open>The class that dominates, if one does, given the rows in order.\<close>

definition dominant_class :: "(string \<times> nat) list \<Rightarrow> string option" where
  "dominant_class counts =
     (let total = sum_list (map snd counts) in
      if total < minEventsBeforeTuning then None
      else case counts of [] \<Rightarrow> None
      | (cls, n) # rest \<Rightarrow>
          let domFrac = of_nat n / of_nat total :: float64;
              runnerUpFrac = (case rest of [] \<Rightarrow> 0 | (_, m) # _ \<Rightarrow> of_nat m / of_nat total) in
          if domFrac < dominantThreshold then None
          else if domFrac - runnerUpFrac < dominantMargin then None
          else Some cls)"

definition maybeAdjust ::
  "((string \<times> nat) list \<Rightarrow> (string \<times> nat) list) \<Rightarrow> string \<Rightarrow> gotime \<Rightarrow> tuner_db \<Rightarrow> tuner_error + tuner_db" where
  "maybeAdjust rank project now db =
     (if tuner_down db then Inl QueryFailed
      else
        let cooling = (case project_history project db of [] \<Rightarrow> False
              | h # _ \<Rightarrow> now - wh_applied_at h < tuningCooldown) in
        if cooling then Inr db
        else case dominant_class (rank (class_counts (recent_classes project now db))) of
          None \<Rightarrow> Inr db
        | Some cls \<Rightarrow>
            (case computeDelta cls of None \<Rightarrow> Inr db
             | Some delta \<Rightarrow>
                 (case LoadWeights project db of Inl e \<Rightarrow> Inl e
                  | Inr current \<Rightarrow>
                      (case normalizeWeights (applyDelta current delta) of
                         None \<Rightarrow> Inr db
                       | Some proposed \<Rightarrow> applyWeights project proposed now db))))"

text \<open>One pass: an error for one project is logged and the next project is tried.\<close>

definition RunPass ::
  "((string \<times> nat) list \<Rightarrow> (string \<times> nat) list) \<Rightarrow> gotime \<Rightarrow> bool \<Rightarrow> tuner_db \<Rightarrow> tuner_error + tuner_db" where
  "RunPass rank now locked db =
     (if tuner_down db then Inl QueryFailed
      else if \<not> locked then Inr db
      else Inr (fold (\<lambda>project db. case maybeAdjust rank project now db of Inl _ \<Rightarrow> db | Inr db' \<Rightarrow> db')
        (projectsWithRecentEvents now db) db))"

section \<open>Normalisation stays within the guardrails\<close>

definition within_bounds :: "Weights \<Rightarrow> bool" where
  "within_bounds w = list_all2 (\<lambda>b v. fst b \<le> v \<and> v \<le> snd b) wBoundsTable (weights_list w)"

definition weights_sum :: "Weights \<Rightarrow> float64" where
  "weights_sum w = sum_list (weights_list w)"

lemma clamp_in: "fst b \<le> snd b \<Longrightarrow> fst b \<le> clamp b v \<and> clamp b v \<le> snd b"
  by (auto simp: clamp_def)

lemma clamp_id: "fst b \<le> v \<Longrightarrow> v \<le> snd b \<Longrightarrow> clamp b v = v"
  by (auto simp: clamp_def)

text \<open>Moving a value towards a bound by a part of its slack stays within the bounds.\<close>

lemma moved_in:
  assumes "fst b \<le> v" "v \<le> snd b" "\<bar>residual\<bar> \<le> T" "0 < T"
  shows "fst b \<le> v + residual * slack residual b v / T
    \<and> v + residual * slack residual b v / T \<le> snd b"
proof (cases "residual > 0")
  case True
  then have s: "slack residual b v = snd b - v" using assms by (simp add: slack_def)
  have "residual / T * (snd b - v) \<le> 1 * (snd b - v)"
    using assms True by (intro mult_right_mono) auto
  moreover have "0 \<le> residual / T * (snd b - v)" using assms True by simp
  ultimately show ?thesis using assms s by simp
next
  case False
  then have s: "slack residual b v = v - fst b" using assms by (simp add: slack_def)
  have "- residual / T \<le> 1" 
    by (subst pos_divide_le_eq [OF assms(4)]) (use assms(3) False in simp)
  then have "- residual / T * (v - fst b) \<le> 1 * (v - fst b)"
    using assms by (intro mult_right_mono) auto
  moreover have "0 \<le> - residual / T * (v - fst b)"
    using assms False by (intro mult_nonneg_nonneg) (auto simp: divide_le_0_iff)
  ultimately show ?thesis using assms s by simp
qed

lemma slack_eq:
  "fst b \<le> v \<Longrightarrow> v \<le> snd b \<Longrightarrow> slack residual b v = (if residual > 0 then snd b - v else v - fst b)"
  by (simp add: slack_def)

lemma normalize_ok:
  "\<exists>w'. normalizeWeights w = Some w' \<and> within_bounds w' \<and> \<bar>weights_sum w' - 1\<bar> < 1 / 10 ^ 9"
proof -
  define v where "v = map2 clamp wBoundsTable (weights_list w)"
  obtain a b c d where v: "v = [a, b, c, d]"
    and a: "30 / 100 \<le> a" "a \<le> 65 / 100" and b: "15 / 100 \<le> b" "b \<le> 45 / 100"
    and c: "5 / 100 \<le> c" "c \<le> 20 / 100" and d: "5 / 100 \<le> d" "d \<le> 25 / 100"
    unfolding v_def wBoundsTable_def weights_list_def
    using clamp_in [of "(30 / 100, 65 / 100)" "w_Vector w"] clamp_in [of "(15 / 100, 45 / 100)" "w_BM25 w"]
      clamp_in [of "(5 / 100, 20 / 100)" "w_Recency w"] clamp_in [of "(5 / 100, 25 / 100)" "w_Precision w"]
    by simp
  define r where "r = 1 - sum_list v"
  have w: "weights_list (weights_of [x, y, z, t]) = [x, y, z, t]" for x y z t
    by (simp add: weights_list_def weights_of_def)
  show ?thesis
  proof (cases "\<bar>r\<bar> < 1 / 10 ^ 9")
    case True
    then have "normalizeWeights w = Some (weights_of v)"
      by (simp add: normalizeWeights_def Let_def flip: v_def r_def)
    moreover have "within_bounds (weights_of v)"
      using a b c d by (simp add: within_bounds_def v w wBoundsTable_def)
    moreover have "\<bar>weights_sum (weights_of v) - 1\<bar> < 1 / 10 ^ 9"
      using True by (simp add: weights_sum_def v w r_def abs_minus_commute)
    ultimately show ?thesis by blast
  next
    case False
    define sl where "sl = map2 (slack r) wBoundsTable v"
    define T where "T = sum_list sl"
    have sl: "sl = (if r > 0 then [65 / 100 - a, 45 / 100 - b, 20 / 100 - c, 25 / 100 - d]
        else [a - 30 / 100, b - 15 / 100, c - 5 / 100, d - 5 / 100])"
      using a b c d by (simp add: sl_def v wBoundsTable_def slack_eq)
    have T: "\<bar>r\<bar> \<le> T" "1 / 10 ^ 9 \<le> T"
      using False by (auto simp: T_def sl r_def v)
    have "0 < (1 / 10 ^ 9 :: float64)" by simp
    from this T(2) have pos: "0 < T" by (rule less_le_trans)
    define m where "m = map2 (\<lambda>v s. v + r * s / T) v sl"
    have m: "m = [a + r * (sl ! 0) / T, b + r * (sl ! 1) / T, c + r * (sl ! 2) / T, d + r * (sl ! 3) / T]"
      by (simp add: m_def v sl)
    have nth: "sl ! 0 = slack r (30 / 100, 65 / 100) a" "sl ! 1 = slack r (15 / 100, 45 / 100) b"
      "sl ! 2 = slack r (5 / 100, 20 / 100) c" "sl ! 3 = slack r (5 / 100, 25 / 100) d"
      by (simp_all add: sl_def v wBoundsTable_def)
    have inb: "list_all2 (\<lambda>b v. fst b \<le> v \<and> v \<le> snd b) wBoundsTable m"
      using moved_in [of "(30 / 100, 65 / 100)" a r T] moved_in [of "(15 / 100, 45 / 100)" b r T]
        moved_in [of "(5 / 100, 20 / 100)" c r T] moved_in [of "(5 / 100, 25 / 100)" d r T] a b c d T(1) pos
      unfolding m nth by (simp add: wBoundsTable_def)
    then have cl: "map2 clamp wBoundsTable m = m"
      by (simp add: m wBoundsTable_def clamp_id)
    have "sum_list m = sum_list v + r * T / T"
    proof -
      have "T = sl ! 0 + sl ! 1 + sl ! 2 + sl ! 3" by (simp add: T_def sl)
      then show ?thesis by (simp add: m v add_divide_distrib distrib_left)
    qed
    then have sum: "sum_list m = 1" using pos by (simp add: r_def)
    have "normalizeWeights w = Some (weights_of m)"
      using False T(2) sum
      by (simp add: normalizeWeights_def Let_def cl flip: v_def r_def sl_def T_def m_def)
    moreover have "within_bounds (weights_of m)" using inb by (simp add: within_bounds_def m w)
    moreover have "weights_sum (weights_of m) = 1" using sum by (simp add: weights_sum_def m w)
    ultimately show ?thesis by (intro exI [of _ "weights_of m"]) simp
  qed
qed

text \<open>
  normalisation never fails. For whatever weights it is given, it returns weights that are
  within the guardrails and sum to 1 up to \<open>10 ^ -9\<close>; when the clamped weights are not already
  that close, they sum to 1 exactly.
\<close>

theorem normalize_weights_total:
  "\<exists>w'. normalizeWeights w = Some w' \<and> within_bounds w' \<and> \<bar>weights_sum w' - 1\<bar> < 1 / 10 ^ 9"
  by (rule normalize_ok)

section \<open>Ties do not matter\<close>

definition valid_rank :: "((string \<times> nat) list \<Rightarrow> (string \<times> nat) list) \<Rightarrow> bool" where
  "valid_rank rank \<longleftrightarrow> (\<forall>xs. mset (rank xs) = mset xs \<and> sorted_wrt (\<lambda>a b. snd b \<le> snd a) (rank xs))"

lemma sorted_counts_eq:
  fixes xs ys :: "(string \<times> nat) list"
  assumes "mset xs = mset ys" "sorted_wrt (\<lambda>a b. snd b \<le> snd a) xs" "sorted_wrt (\<lambda>a b. snd b \<le> snd a) ys"
  shows "map snd xs = (map snd ys :: nat list)"
proof -
  have "sorted (rev (map snd zs))" if "sorted_wrt (\<lambda>a b. snd b \<le> snd a) zs" for zs :: "(string \<times> nat) list"
    using that by (simp add: sorted_wrt_rev sorted_wrt_map)
  from this [OF assms(2)] this [OF assms(3)]
  have "sorted (rev (map snd xs))" "sorted (rev (map snd ys))" by simp_all
  moreover have "mset (rev (map snd xs)) = mset (rev (map snd ys))" using assms(1) by simp
  ultimately have "sort (rev (map snd ys)) = rev (map snd xs)" "sort (rev (map snd ys)) = rev (map snd ys)"
    by (simp_all add: properties_for_sort)
  then show ?thesis by simp
qed

lemma dominant_class_tie:
  assumes "mset xs = mset ys" "sorted_wrt (\<lambda>a b. snd b \<le> snd a) xs" "sorted_wrt (\<lambda>a b. snd b \<le> snd a) ys"
    "dominant_class xs = Some cls"
  shows "dominant_class ys = Some cls"
proof -
  note counts = sorted_counts_eq [OF assms(1-3)]
  from assms(4) obtain n rest where xs: "xs = (cls, n) # rest"
    by (auto simp: dominant_class_def Let_def split: if_splits list.splits)
  with counts obtain c' rest' where ys: "ys = (c', n) # rest'" by (cases ys) auto
  have tail: "map snd rest = map snd rest'" using counts by (simp add: xs ys)
  have strict: "m < n" if "(c, m) \<in> set rest" for c m
  proof (cases rest)
    case (Cons r rs)
    obtain d k where r: "r = (d, k)" by (cases r)
    have "m \<le> k" using assms(2) that by (auto simp: xs Cons r)
    moreover have "k < n"
    proof (rule ccontr)
      assume "\<not> k < n"
      define t where "t = (of_nat (sum_list (map snd xs)) :: float64)"
      have "of_nat n / t - of_nat k / t \<le> (0 :: float64)"
        using \<open>\<not> k < n\<close> by (simp add: t_def divide_right_mono)
      moreover have "\<not> of_nat n / t - of_nat k / t < dominantMargin"
        using assms(4) unfolding t_def by (simp add: dominant_class_def Let_def xs Cons r split: if_splits)
      moreover have "0 < dominantMargin" by (simp add: dominantMargin_def)
      ultimately show False by linarith
    qed
    ultimately show ?thesis by simp
  qed (use that in simp)
  have "(c', n) \<in> set xs" using mset_eq_setD [OF assms(1)] by (simp add: ys)
  with strict have "c' = cls" by (auto simp: xs)
  moreover have "(case rest of [] \<Rightarrow> 0 | (_, m) # _ \<Rightarrow> of_nat m / t)
      = (case rest' of [] \<Rightarrow> 0 | (_, m) # _ \<Rightarrow> of_nat m / t)" for t :: float64
    using tail by (cases rest; cases rest') auto
  ultimately show ?thesis
    using assms(4) tail by (simp add: dominant_class_def xs ys Let_def split: if_splits)
qed

text \<open>
  the adjustment does not depend on how the database orders failure classes with equal
  counts.
\<close>

theorem adjustment_ignores_ties:
  assumes "valid_rank rank" "valid_rank rank'"
  shows "maybeAdjust rank project now db = maybeAdjust rank' project now db"
proof -
  have "dominant_class (rank xs) = dominant_class (rank' xs)" for xs
    using assms dominant_class_tie [of "rank xs" "rank' xs"] dominant_class_tie [of "rank' xs" "rank xs"]
    unfolding valid_rank_def by (metis option.exhaust)
  then show ?thesis by (simp add: maybeAdjust_def)
qed

definition sort_counts :: "(string \<times> nat) list \<Rightarrow> (string \<times> nat) list" where
  "sort_counts xs = sort_stable (\<lambda>a b. snd b < snd a) xs"

interpretation count_order: strict_weak_order "\<lambda>(a :: string \<times> nat) b. snd b < snd a"
  by unfold_locales auto

lemma valid_sort_counts: "valid_rank sort_counts" "valid_rank (sort_counts \<circ> rev)"
  using count_order.sorted_sort_stable by (auto simp: valid_rank_def sort_counts_def not_less)

definition sample_tuner_db :: tuner_db where
  "sample_tuner_db = \<lparr>weight_config = Map.empty, weight_history = [],
     retrieval_events = replicate 20 \<lparr>re_project = ''p'', re_failure_class = Some ''stale_ranking'',
       re_created_at = 0\<rparr>, tuner_down = False\<rparr>"

theorem adjustment_ignores_ties_witness:
  "valid_rank sort_counts \<and> valid_rank (sort_counts \<circ> rev)
   \<and> maybeAdjust sort_counts ''p'' 0 sample_tuner_db = maybeAdjust (sort_counts \<circ> rev) ''p'' 0 sample_tuner_db"
  using adjustment_ignores_ties [OF valid_sort_counts] valid_sort_counts by blast

section \<open>Every history respects the guardrails and the cooldown\<close>

definition weights_ok :: "Weights \<Rightarrow> bool" where
  "weights_ok w \<longleftrightarrow> within_bounds w \<and> \<bar>weights_sum w - 1\<bar> < 1 / 10 ^ 9"

definition spaced :: "weight_entry list \<Rightarrow> bool" where
  "spaced hs = sorted_wrt (\<lambda>a b. wh_applied_at a + tuningCooldown \<le> wh_applied_at b) hs"

definition tuner_inv :: "tuner_db \<Rightarrow> bool" where
  "tuner_inv db \<longleftrightarrow>
     (\<forall>project w. weight_config db project = Some w \<longrightarrow> weights_ok w)
     \<and> list_all (\<lambda>h. weights_ok (wh_weights h)) (weight_history db)
     \<and> (\<forall>project. spaced (filter (\<lambda>h. wh_project h = project) (weight_history db)))"

text \<open>What can happen to the tables: adjustments and passes at any instant, resets, new events, failures.\<close>

datatype tuner_op =
    Adjust string gotime
  | Pass gotime bool
  | Reset string
  | NewEvent retrieval_event
  | SetDown bool

definition settle :: "tuner_db \<Rightarrow> tuner_error + tuner_db \<Rightarrow> tuner_db" where
  "settle db res = (case res of Inl _ \<Rightarrow> db | Inr db' \<Rightarrow> db')"

definition tuner_step ::
  "((string \<times> nat) list \<Rightarrow> (string \<times> nat) list) \<Rightarrow> tuner_op \<Rightarrow> tuner_db \<Rightarrow> tuner_db" where
  "tuner_step rank op db =
     (case op of
        Adjust project now \<Rightarrow> settle db (maybeAdjust rank project now db)
      | Pass now locked \<Rightarrow> settle db (RunPass rank now locked db)
      | Reset project \<Rightarrow> settle db (ResetToDefaults project db)
      | NewEvent e \<Rightarrow> db\<lparr>retrieval_events := retrieval_events db @ [e]\<rparr>
      | SetDown b \<Rightarrow> db\<lparr>tuner_down := b\<rparr>)"

interpretation history_order: strict_weak_order applied_before
  by unfold_locales (auto simp: applied_before_def)

lemma set_project_history:
  "set (project_history project db) = {h \<in> set (weight_history db). wh_project h = project}"
  by (simp add: project_history_def)

lemma latest_applied:
  assumes "project_history project db = h # hs" "x \<in> set (weight_history db)" "wh_project x = project"
  shows "wh_applied_at x \<le> wh_applied_at h"
proof -
  have "x \<in> set (h # hs)" using assms(2,3) set_project_history [of project db] unfolding assms(1) by simp
  moreover have "sorted_wrt (\<lambda>x y. \<not> applied_before y x) (h # hs)"
    using history_order.sorted_sort_stable assms(1) by (metis project_history_def)
  ultimately show ?thesis by (auto simp: applied_before_def)
qed

lemma tuner_inv_apply:
  assumes "tuner_inv db" "weights_ok w"
    "\<And>x. x \<in> set (weight_history db) \<Longrightarrow> wh_project x = project \<Longrightarrow> wh_applied_at x + tuningCooldown \<le> now"
  shows "tuner_inv (settle db (applyWeights project w now db))"
  using assms by (auto simp: tuner_inv_def applyWeights_def settle_def spaced_def sorted_wrt_append)

lemma tuner_inv_adjust:
  assumes "tuner_inv db"
  shows "tuner_inv (settle db (maybeAdjust rank project now db))"
proof (cases "tuner_down db \<or> (case project_history project db of [] \<Rightarrow> False
    | h # _ \<Rightarrow> now - wh_applied_at h < tuningCooldown)")
  case True
  with assms show ?thesis by (auto simp: maybeAdjust_def settle_def)
next
  case False
  have late: "wh_applied_at x + tuningCooldown \<le> now"
    if "x \<in> set (weight_history db)" "wh_project x = project" for x
  proof (cases "project_history project db")
    case Nil
    with that set_project_history [of project db] show ?thesis by auto
  next
    case (Cons h hs)
    with latest_applied [OF Cons that] False show ?thesis by auto
  qed
  have ok: "weights_ok w'" if "normalizeWeights w = Some w'" for w w'
    using normalize_ok [of w] that by (auto simp: weights_ok_def)
  show ?thesis
    using False assms tuner_inv_apply [OF assms ok late]
    by (auto simp: maybeAdjust_def settle_def LoadWeights_def split: option.splits)
qed

lemma tuner_inv_pass:
  assumes "tuner_inv db"
  shows "tuner_inv (settle db (RunPass rank now locked db))"
proof -
  have "tuner_inv (fold (\<lambda>project db. case maybeAdjust rank project now db of Inl _ \<Rightarrow> db | Inr db' \<Rightarrow> db') ps d)"
    if "tuner_inv d" for ps d
    using that
  proof (induction ps arbitrary: d)
    case (Cons q ps)
    from Cons.IH [OF tuner_inv_adjust [OF Cons.prems, of rank q now]] show ?case
      by (simp add: settle_def)
  qed simp
  with assms show ?thesis by (simp add: RunPass_def settle_def)
qed

lemma tuner_inv_step:
  assumes "tuner_inv db"
  shows "tuner_inv (tuner_step rank op db)"
proof (cases op)
  case (Adjust project now)
  with assms show ?thesis by (simp add: tuner_step_def tuner_inv_adjust)
next
  case (Pass now locked)
  with assms show ?thesis by (simp add: tuner_step_def tuner_inv_pass)
next
  case (Reset project)
  with assms show ?thesis by (auto simp: tuner_step_def tuner_inv_def settle_def ResetToDefaults_def)
qed (use assms in \<open>simp_all add: tuner_step_def tuner_inv_def\<close>)

interpretation tuner: invariant_system
  "\<lambda>db. weight_config db = Map.empty \<and> weight_history db = []" "tuner_step rank" tuner_inv for rank
  by unfold_locales (auto simp: tuner_inv_step, simp add: tuner_inv_def spaced_def)

definition no_weights :: "retrieval_event list \<Rightarrow> tuner_db" where
  "no_weights es = \<lparr>weight_config = Map.empty, weight_history = [], retrieval_events = es, tuner_down = False\<rparr>"

text \<open>
  whatever the sequence of adjustments, passes, resets, new events and database failures,
  starting from empty tables: the stored weights of every project are within the guardrails and
  sum to 1 up to \<open>10 ^ -9\<close>, as does every entry of the history, and two adjustments of the same
  project are at least three days apart, even if the clock goes backwards.
\<close>

theorem tuner_guardrails: "tuner_inv (run_ops (tuner_step rank) ops (no_weights es))"
  by (rule tuner.inv_reached) (simp add: no_weights_def)

end
