(* ===== verification/Embed_Vector.thy ===== *)
theory Embed_Vector
  imports Engram_Prelude
begin

text \<open>
  Vector operations of \<^verbatim>\<open>src/internal/embed/vector.go\<close>. The byte encoding works on the 32 bits
  of each \<^verbatim>\<open>float32\<close>; cosine similarity and normalisation are over the real numbers the
  floats stand for, rounding left out.
\<close>

section \<open>Byte encoding\<close>

text \<open>\<^verbatim>\<open>binary.LittleEndian\<close>: \<^verbatim>\<open>PutUint32\<close> and \<^verbatim>\<open>Uint32\<close>.\<close>

definition PutUint32 :: "32 word \<Rightarrow> byte list" where
  "PutUint32 v = [ucast v, ucast (drop_bit 8 v), ucast (drop_bit 16 v), ucast (drop_bit 24 v)]"

definition Uint32 :: "byte list \<Rightarrow> 32 word" where
  "Uint32 b =
     ucast (b ! 0) OR push_bit 8 (ucast (b ! 1)) OR push_bit 16 (ucast (b ! 2))
       OR push_bit 24 (ucast (b ! 3))"

definition ToBlob :: "float32 list \<Rightarrow> byte list" where
  "ToBlob v = concat (map PutUint32 v)"

definition FromBlob :: "byte list \<Rightarrow> float32 list" where
  "FromBlob b =
     (if length b = 0 \<or> length b mod 4 \<noteq> 0 then []
      else map (\<lambda>i. Uint32 (drop (i * 4) b)) [0..<length b div 4])"

lemma Uint32_PutUint32: "Uint32 (PutUint32 v @ bs) = v"
proof (rule bit_word_eqI)
  fix n
  assume "n < LENGTH(32)"
  then consider "n < 8" | "8 \<le> n" "n < 16" | "16 \<le> n" "n < 24" | "24 \<le> n" "n < 32"
    by (simp add: not_less [symmetric]) linarith
  then show "bit (Uint32 (PutUint32 v @ bs)) n \<longleftrightarrow> bit v n"
    by cases (auto simp: Uint32_def PutUint32_def bit_simps)
qed

lemma PutUint32_Uint32: "length b \<ge> 4 \<Longrightarrow> PutUint32 (Uint32 b) = take 4 b"
proof -
  assume "length b \<ge> 4"
  then obtain b0 b1 b2 b3 bs where b: "b = b0 # b1 # b2 # b3 # bs"
    by (auto simp: numeral_eq_Suc Suc_le_length_iff)
  have "ucast (Uint32 b) = b0" "ucast (drop_bit 8 (Uint32 b)) = b1"
    "ucast (drop_bit 16 (Uint32 b)) = b2" "ucast (drop_bit 24 (Uint32 b)) = b3"
    by (rule bit_word_eqI; simp add: b Uint32_def bit_simps; auto dest: bit_imp_le_length)+
  then show ?thesis by (simp add: PutUint32_def b)
qed

lemma length_PutUint32 [simp]: "length (PutUint32 v) = 4"
  by (simp add: PutUint32_def)

lemma length_ToBlob [simp]: "length (ToBlob v) = 4 * length v"
  by (induction v) (simp_all add: ToBlob_def)

definition blob_words :: "byte list \<Rightarrow> float32 list" where
  "blob_words b = map (\<lambda>i. Uint32 (drop (i * 4) b)) [0..<length b div 4]"

lemma blob_words_Cons: "blob_words (PutUint32 v @ b) = v # blob_words b"
proof -
  have "[0..<length (PutUint32 v @ b) div 4] = 0 # map Suc [0..<length b div 4]"
    by (simp add: upt_conv_Cons map_Suc_upt del: upt_Suc)
  then show ?thesis
    by (simp add: blob_words_def Uint32_PutUint32 comp_def del: upt_Suc)
qed

lemma blob_words_ToBlob: "blob_words (ToBlob v) = v"
  by (induction v) (simp_all add: ToBlob_def blob_words_Cons, simp add: blob_words_def)

lemma FromBlob_eq: "length b mod 4 = 0 \<Longrightarrow> FromBlob b = blob_words b"
  by (simp add: FromBlob_def blob_words_def)

lemma ToBlob_blob_words: "length b = 4 * n \<Longrightarrow> ToBlob (blob_words b) = b"
proof (induction n arbitrary: b)
  case (Suc n)
  have "b = PutUint32 (Uint32 b) @ drop 4 b"
    using Suc.prems by (subst PutUint32_Uint32) simp_all
  then obtain v b' where b: "b = PutUint32 v @ b'" by blast
  with Suc show ?case by (simp add: blob_words_Cons) (simp add: ToBlob_def)
qed (simp add: blob_words_def ToBlob_def)

text \<open>
  C37: Encoding and decoding embeddings are inverse: \<^verbatim>\<open>FromBlob\<close> reads back every vector
  \<^verbatim>\<open>ToBlob\<close> wrote, bit for bit (NaN payloads and signed zeros included), and re-encoding a
  blob whose length is a multiple of four gives the blob; a blob of any other length
  decodes to no vector, so that re-encoding gives the empty blob. A blob has four bytes for each component.
\<close>

theorem blob_round_trip:
  "FromBlob (ToBlob v) = v \<and> length (ToBlob v) = 4 * length v
   \<and> ToBlob (FromBlob b) = (if length b mod 4 = 0 then b else [])"
proof (intro conjI)
  show "FromBlob (ToBlob v) = v" by (simp add: FromBlob_eq blob_words_ToBlob)
  show "ToBlob (FromBlob b) = (if length b mod 4 = 0 then b else [])"
    using ToBlob_blob_words [of b "length b div 4"]
    by (auto simp: FromBlob_eq) (simp_all add: FromBlob_def ToBlob_def)
qed simp

section \<open>Cosine similarity\<close>

fun dot_mags :: "real list \<Rightarrow> real list \<Rightarrow> real \<times> real \<times> real \<Rightarrow> real \<times> real \<times> real" where
  "dot_mags (a # as) (b # bs) (dot, magA, magB) =
     dot_mags as bs (dot + a * b, magA + a * a, magB + b * b)"
| "dot_mags _ _ acc = acc"

definition CosineSimilarity :: "real list \<Rightarrow> real list \<Rightarrow> real" where
  "CosineSimilarity a b =
     (if length a \<noteq> length b \<or> length a = 0 then 0
      else case dot_mags a b (0, 0, 0) of (dot, magA, magB) \<Rightarrow>
        if sqrt magA = 0 \<or> sqrt magB = 0 then 0 else dot / (sqrt magA * sqrt magB))"

definition L2Normalize :: "real list \<Rightarrow> real list" where
  "L2Normalize v =
     (let s = sum_list (map (\<lambda>x. x * x) v) in
      if s = 0 then v else map (\<lambda>x. x / sqrt s) v)"

definition inner :: "real list \<Rightarrow> real list \<Rightarrow> real" where
  "inner a b = sum_list (map2 (*) a b)"

lemma dot_mags_eq:
  "length a = length b \<Longrightarrow>
   dot_mags a b (d, x, y) = (d + inner a b, x + inner a a, y + inner b b)"
  by (induction a b arbitrary: d x y rule: list_induct2) (simp_all add: inner_def algebra_simps)

lemma inner_self: "inner a a = sum_list (map (\<lambda>x. x * x) a)"
  by (induction a) (simp_all add: inner_def)

lemma inner_self_nonneg: "0 \<le> inner a a"
  unfolding inner_self by (rule sum_list_nonneg) auto

lemma inner_commute: "length a = length b \<Longrightarrow> inner a b = inner b a"
  by (induction a b rule: list_induct2) (simp_all add: inner_def mult.commute)

lemma inner_expand:
  "length a = length b \<Longrightarrow>
   sum_list (map2 (\<lambda>x y. (p * x - q * y)\<^sup>2) a b)
     = p\<^sup>2 * inner a a - 2 * p * q * inner a b + q\<^sup>2 * inner b b"
  by (induction a b rule: list_induct2) (simp_all add: inner_def algebra_simps power2_eq_square)

lemma Cauchy_Schwarz_list:
  assumes "length a = length b"
  shows "(inner a b)\<^sup>2 \<le> inner a a * inner b b"
proof (cases "inner b b = 0")
  case True
  have "0 \<le> sum_list (map2 (\<lambda>x y. (1 * x - (- t) * y)\<^sup>2) a b)" for t
    by (rule sum_list_nonneg) (auto simp: set_zip)
  then have "0 \<le> inner a a + 2 * t * inner a b" for t
    unfolding inner_expand [OF assms] using True by simp
  note this [of "- (inner a a + 1) / (2 * inner a b)"]
  moreover have "inner a b \<noteq> 0 \<Longrightarrow> 2 * (- (inner a a + 1) / (2 * inner a b)) * inner a b = - (inner a a + 1)"
    by simp
  ultimately have "inner a b = 0" by fastforce
  with True show ?thesis by simp
next
  case False
  have "0 \<le> sum_list (map2 (\<lambda>x y. (inner b b * x - inner a b * y)\<^sup>2) a b)"
    by (rule sum_list_nonneg) (auto simp: set_zip)
  then have "0 \<le> inner b b * (inner a a * inner b b - (inner a b)\<^sup>2)"
    unfolding inner_expand [OF assms] by (simp add: algebra_simps power2_eq_square)
  with False inner_self_nonneg [of b] show ?thesis by (simp add: zero_le_mult_iff)
qed

lemma CosineSimilarity_eq:
  "length a = length b \<Longrightarrow> CosineSimilarity a b = inner a b / (sqrt (inner a a) * sqrt (inner b b))"
  by (auto simp: CosineSimilarity_def dot_mags_eq inner_def)

lemma inner_scale: "inner (map (\<lambda>x. x / c) a) b = inner a b / c"
  unfolding inner_def by (induction a b rule: list_induct2') (simp_all add: add_divide_distrib)

lemma inner_scale_self: "inner (map (\<lambda>x. x / c) a) (map (\<lambda>x. x / c) a) = inner a a / (c * c)"
  unfolding inner_self by (induction a) (simp_all add: add_divide_distrib)

lemma inner_self_0_iff: "inner a a = 0 \<longleftrightarrow> list_all (\<lambda>x. x = 0) a"
  unfolding inner_self by (subst sum_list_nonneg_eq_0_iff) (auto simp: list_all_iff)

lemma CosineSimilarity_L2Normalize: "CosineSimilarity (L2Normalize a) b = CosineSimilarity a b"
proof (cases "length a = length b \<and> inner a a \<noteq> 0")
  case True
  then have pos: "0 < inner a a" using inner_self_nonneg [of a] by simp
  have norm: "L2Normalize a = map (\<lambda>x. x / sqrt (inner a a)) a"
    using True by (simp add: L2Normalize_def inner_self Let_def)
  show ?thesis
    using True pos
    by (simp add: CosineSimilarity_eq norm inner_scale_self) (simp add: inner_scale)
next
  case False
  then have "length a \<noteq> length b \<or> L2Normalize a = a"
    by (auto simp: L2Normalize_def inner_self Let_def)
  moreover have "length (L2Normalize a) = length a" by (simp add: L2Normalize_def Let_def)
  ultimately show ?thesis by (auto simp: CosineSimilarity_def)
qed

lemma CosineSimilarity_bound: "\<bar>CosineSimilarity a b\<bar> \<le> 1"
proof (cases "length a = length b \<and> inner a a \<noteq> 0 \<and> inner b b \<noteq> 0")
  case True
  then have pos: "0 < inner a a" "0 < inner b b"
    using inner_self_nonneg [of a] inner_self_nonneg [of b] by simp_all
  have "\<bar>inner a b\<bar> \<le> sqrt (inner a a * inner b b)"
    using Cauchy_Schwarz_list [of a b] True by (simp add: real_le_rsqrt)
  then show ?thesis
    using True pos by (simp add: CosineSimilarity_eq abs_mult real_sqrt_mult)
next
  case False
  then have "CosineSimilarity a b = 0"
    by (cases "length a = length b") (auto simp: CosineSimilarity_eq, simp add: CosineSimilarity_def)
  then show ?thesis by simp
qed

text \<open>
  Cosine similarity is always in \<open>[-1, 1]\<close> and symmetric; it is 1 for a vector with itself
  unless the vector is zero, and normalising a vector to unit length does not change it.
\<close>

theorem cosine_similarity_range:
  "\<bar>CosineSimilarity a b\<bar> \<le> 1 \<and> CosineSimilarity a b = CosineSimilarity b a
   \<and> CosineSimilarity a a = (if list_all (\<lambda>x. x = 0) a then 0 else 1)
   \<and> CosineSimilarity (L2Normalize a) b = CosineSimilarity a b"
proof (intro conjI)
  show "CosineSimilarity a b = CosineSimilarity b a"
  proof (cases "length a = length b")
    case True
    then show ?thesis by (simp add: CosineSimilarity_eq inner_commute [of a b] mult.commute)
  qed (simp add: CosineSimilarity_def)
  show "CosineSimilarity a a = (if list_all (\<lambda>x. x = 0) a then 0 else 1)"
    using inner_self_nonneg [of a] by (simp add: CosineSimilarity_eq inner_self_0_iff [symmetric])
qed (simp_all add: CosineSimilarity_bound CosineSimilarity_L2Normalize)

end
