(* ===== verification/Memory_Tables.thy ===== *)
theory Memory_Tables
  imports Engram_Types
begin

text \<open>
  The Postgres backend's memories, their versions, chunks and documents
  (\<^verbatim>\<open>src/internal/db/postgres_memory.go\<close>, \<^verbatim>\<open>postgres_chunk.go\<close>, \<^verbatim>\<open>postgres_document.go\<close>,
  \<^verbatim>\<open>postgres_feedback.go\<close> and the metadata part of \<^verbatim>\<open>postgres.go\<close>).

  A table is a list of rows and a statement a function on the tables, with the constraints of
  \<^verbatim>\<open>src/internal/db/migrations\<close>: primary keys, and foreign keys that cascade on delete. What a
  call takes from outside is one record: the instant, the identifier \<^verbatim>\<open>types.NewMemoryID\<close>
  returns, and \<open>e_fault\<close>, which tells for each statement of the call, by name, whether the
  database fails it. A transaction that fails leaves the tables as they were; so does one whose
  commit fails. SHA-256 in hexadecimal is the argument \<open>sha\<close>, and \<open>parse\<close> reads the value of a
  date tag in either of the two layouts, truncated to the day.
\<close>

section \<open>Tables\<close>

record MemoryVersion =
  v_ID :: string
  v_MemoryID :: string
  v_Content :: string
  v_MemoryType :: string
  v_Tags :: "string list"
  v_Importance :: int
  v_SystemFrom :: gotime
  v_SystemTo :: "gotime option"
  v_ValidFrom :: "gotime option"
  v_ValidTo :: "gotime option"
  v_ChangeType :: string
  v_ChangeReason :: "string option"
  v_Project :: string

record RetrievalEvent =
  ev_ID :: string
  ev_Project :: string
  ev_Query :: string
  ev_ResultIDs :: "string list"
  ev_FeedbackIDs :: "string list"
  ev_CreatedAt :: gotime
  ev_FeedbackAt :: "gotime option"
  ev_FailureClass :: string

record Document =
  d_ID :: string
  d_Project :: string
  d_Content :: string
  d_Sha256 :: string
  d_SizeBytes :: nat

record database =
  db_memories :: "Memory list"
  db_versions :: "MemoryVersion list"
  db_chunks :: "Chunk list"
  db_relationships :: "Relationship list"
  db_documents :: "Document list"
  db_events :: "RetrievalEvent list"
  db_meta :: "((string \<times> string) \<times> string) list"
  db_leases :: "(string \<times> gotime) list"

record call_env =
  e_now :: gotime
  e_newid :: string
  e_fault :: "string \<Rightarrow> bool"

datatype db_error =
    DbFailed
  | DuplicateKey string
  | MissingReference string
  | ImmutableMemory string
  | NoSuchMemory string
  | NoSuchEvent string
  | EmptyProject
  | EmptyContent
  | BadPruneAge
  | BadPruneImportance

section \<open>Transactions\<close>

text \<open>
  How the body of a transaction ends: a return before the commit (the deferred rollback runs),
  an error, or reaching the commit.
\<close>

datatype 'r outcome = Return 'r | Fail db_error | Commit 'r database

definition in_tx ::
    "call_env \<Rightarrow> (database \<Rightarrow> 'r outcome) \<Rightarrow> database \<Rightarrow> database \<times> (db_error + 'r)" where
  "in_tx env body db =
     (if e_fault env ''begin'' then (db, Inl DbFailed)
      else case body db of
        Return r \<Rightarrow> (db, Inr r)
      | Fail e \<Rightarrow> (db, Inl e)
      | Commit r db' \<Rightarrow> if e_fault env ''commit'' then (db, Inl DbFailed) else (db', Inr r))"

text \<open>A single statement outside a transaction.\<close>

definition exec ::
    "call_env \<Rightarrow> string \<Rightarrow> (database \<Rightarrow> database) \<Rightarrow> database \<Rightarrow> database \<times> (db_error + unit)" where
  "exec env label f db = (if e_fault env label then (db, Inl DbFailed) else (f db, Inr ()))"

section \<open>Memories\<close>

definition ContentHash :: "(string \<Rightarrow> string) \<Rightarrow> string \<Rightarrow> string" where
  "ContentHash sha content = sha content"

definition active_row :: "string \<Rightarrow> string \<Rightarrow> Memory \<Rightarrow> bool" where
  "active_row project i m \<longleftrightarrow> m_ID m = i \<and> m_Project m = project \<and> m_ValidTo m = None"

definition update_rows :: "(Memory \<Rightarrow> bool) \<Rightarrow> (Memory \<Rightarrow> Memory) \<Rightarrow> database \<Rightarrow> database" where
  "update_rows p f db = db\<lparr>db_memories := map (\<lambda>m. if p m then f m else m) (db_memories db)\<rparr>"

text \<open>
  The fields \<^verbatim>\<open>storeMemoryExec\<close> sets on the caller's memory, and the row it inserts: the columns
  the statement does not name get their defaults.
\<close>

definition prepare_memory :: "string \<Rightarrow> (string \<Rightarrow> string) \<Rightarrow> gotime \<Rightarrow> Memory \<Rightarrow> Memory" where
  "prepare_memory bproj sha now m =
     m\<lparr>m_CreatedAt := now, m_UpdatedAt := now, m_LastAccessed := now, m_Project := bproj,
       m_ContentHash := Some (ContentHash sha (m_Content m)),
       m_DynamicImportance :=
         (case m_DynamicImportance m of
            None \<Rightarrow> Some (max (1 / 10) ((5 - of_int (m_Importance m)) / 3))
          | Some d \<Rightarrow> Some d)\<rparr>"

definition inserted_row :: "Memory \<Rightarrow> Memory" where
  "inserted_row m =
     m\<lparr>m_RawBody := [], m_Summary := None, m_ValidTo := None, m_InvalidationReason := None,
       m_RetrievalIntervalHrs := 168, m_NextReviewAt := None, m_TimesRetrieved := 0,
       m_TimesUseful := 0, m_RetrievalPrecision := None\<rparr>"

definition storeMemoryExec ::
    "string \<Rightarrow> (string \<Rightarrow> string) \<Rightarrow> call_env \<Rightarrow> Memory \<Rightarrow> database \<Rightarrow> db_error + database" where
  "storeMemoryExec bproj sha env m db =
     (let m' = prepare_memory bproj sha (e_now env) m in
      if e_fault env ''insert memory'' then Inl DbFailed
      else if m_ID m' \<in> m_ID ` set (db_memories db) then Inl (DuplicateKey (m_ID m'))
      else if m_DocumentID m' \<noteq> [] \<and> m_DocumentID m' \<notin> d_ID ` set (db_documents db)
      then Inl (MissingReference (m_DocumentID m'))
      else Inr (db\<lparr>db_memories := db_memories db @ [inserted_row m']\<rparr>))"

definition GetMemory :: "string \<Rightarrow> string \<Rightarrow> database \<Rightarrow> Memory option" where
  "GetMemory bproj i db = find (active_row bproj i) (db_memories db)"

definition GetMemoriesByIDs :: "string \<Rightarrow> string list \<Rightarrow> database \<Rightarrow> Memory list" where
  "GetMemoriesByIDs project ids db =
     filter (\<lambda>m. m_Project m = project \<and> m_ID m \<in> set ids \<and> m_ValidTo m = None) (db_memories db)"

definition close_version :: "string \<Rightarrow> gotime \<Rightarrow> MemoryVersion \<Rightarrow> MemoryVersion" where
  "close_version i now v =
     (if v_MemoryID v = i \<and> v_SystemTo v = None then v\<lparr>v_SystemTo := Some now\<rparr> else v)"

definition versionMemoryTx ::
    "call_env \<Rightarrow> Memory \<Rightarrow> string \<Rightarrow> string \<Rightarrow> database \<Rightarrow> database" where
  "versionMemoryTx env m changeType changeReason db =
     (let now = e_now env;
          closed = map (close_version (m_ID m) now) (db_versions db) in
      db\<lparr>db_versions := closed @
        [\<lparr>v_ID = e_newid env, v_MemoryID = m_ID m, v_Content = m_Content m,
          v_MemoryType = m_MemoryType m, v_Tags = m_Tags m, v_Importance = m_Importance m,
          v_SystemFrom = now, v_SystemTo = None, v_ValidFrom = m_ValidFrom m,
          v_ValidTo = m_ValidTo m, v_ChangeType = changeType,
          v_ChangeReason = (if changeReason = [] then None else Some changeReason),
          v_Project = m_Project m\<rparr>]\<rparr>)"

definition ParseDateTag :: "(string \<Rightarrow> gotime option) \<Rightarrow> string list \<Rightarrow> gotime option" where
  "ParseDateTag parse tags =
     (case filter (\<lambda>t. t \<noteq> None)
        (map (\<lambda>tag. if HasPrefix tag ''date:'' then parse (drop 5 tag) else None) tags) of
        [] \<Rightarrow> None | t # _ \<Rightarrow> t)"

definition updated_memory ::
    "(string \<Rightarrow> string) \<Rightarrow> (string \<Rightarrow> gotime option) \<Rightarrow> string option \<Rightarrow> string list option
     \<Rightarrow> int option \<Rightarrow> float64 option \<Rightarrow> Memory \<Rightarrow> Memory" where
  "updated_memory sha parse content tags importance patternConfidence m =
     (let m1 = (case content of None \<Rightarrow> m | Some c \<Rightarrow> m\<lparr>m_Content := c\<rparr>);
          m2 = (case tags of None \<Rightarrow> m1
                | Some ts \<Rightarrow> m1\<lparr>m_Tags := ts, m_ValidFrom := ParseDateTag parse ts\<rparr>);
          m3 = (case importance of None \<Rightarrow> m2 | Some n \<Rightarrow> m2\<lparr>m_Importance := n\<rparr>);
          m4 = (case patternConfidence of None \<Rightarrow> m3
                | Some p \<Rightarrow> m3\<lparr>m_PatternConfidence := Some p\<rparr>) in
      case content of None \<Rightarrow> m4
      | Some _ \<Rightarrow> m4\<lparr>m_ContentHash := Some (ContentHash sha (m_Content m4))\<rparr>)"

text \<open>The two \<^verbatim>\<open>UPDATE\<close> statements; the one for new content also clears the summary.\<close>

definition update_row :: "gotime \<Rightarrow> bool \<Rightarrow> Memory \<Rightarrow> Memory \<Rightarrow> Memory" where
  "update_row now withContent m r =
     (let r1 = r\<lparr>m_Content := m_Content m, m_Tags := m_Tags m, m_Importance := m_Importance m,
                 m_UpdatedAt := now, m_PatternConfidence := m_PatternConfidence m,
                 m_ValidFrom := m_ValidFrom m\<rparr> in
      if withContent then r1\<lparr>m_ContentHash := m_ContentHash m, m_Summary := None\<rparr> else r1)"

definition UpdateMemory ::
    "string \<Rightarrow> (string \<Rightarrow> string) \<Rightarrow> (string \<Rightarrow> gotime option) \<Rightarrow> call_env
     \<Rightarrow> string \<Rightarrow> string option \<Rightarrow> string list option \<Rightarrow> int option \<Rightarrow> float64 option
     \<Rightarrow> database \<Rightarrow> database \<times> (db_error + Memory option)" where
  "UpdateMemory bproj sha parse env i content tags importance patternConfidence =
     in_tx env (\<lambda>db.
       if e_fault env ''select'' then Fail DbFailed
       else case GetMemory bproj i db of
         None \<Rightarrow> Return None
       | Some m \<Rightarrow>
           if m_Immutable m then Fail (ImmutableMemory i)
           else if e_fault env ''version'' then Fail DbFailed
           else let m' = updated_memory sha parse content tags importance patternConfidence m in
             if e_fault env ''update'' then Fail DbFailed
             else Commit (Some (m'\<lparr>m_UpdatedAt := e_now env\<rparr>))
               (update_rows (\<lambda>r. m_ID r = i \<and> m_Project r = bproj)
                 (update_row (e_now env) (content \<noteq> None) m')
                 (versionMemoryTx env m ''update'' [] db)))"

text \<open>Deleting rows of \<^verbatim>\<open>memories\<close> takes their chunks and relationships along.\<close>

definition delete_memories :: "(Memory \<Rightarrow> bool) \<Rightarrow> database \<Rightarrow> database" where
  "delete_memories p db =
     (let gone = map m_ID (filter p (db_memories db)) in
      db\<lparr>db_memories := filter (\<lambda>m. \<not> p m) (db_memories db),
         db_chunks := filter (\<lambda>c. c_MemoryID c \<notin> set gone) (db_chunks db),
         db_relationships :=
           filter (\<lambda>r. r_SourceID r \<notin> set gone \<and> r_TargetID r \<notin> set gone) (db_relationships db)\<rparr>)"

definition DeleteOrphanedDocumentTx :: "string \<Rightarrow> database \<Rightarrow> database" where
  "DeleteOrphanedDocumentTx i db =
     db\<lparr>db_documents := filter (\<lambda>d. \<not> (d_ID d = i
         \<and> list_all (\<lambda>m. m_DocumentID m \<noteq> i) (db_memories db))) (db_documents db)\<rparr>"

definition delete_chunks_of :: "string \<Rightarrow> database \<Rightarrow> database" where
  "delete_chunks_of i db = db\<lparr>db_chunks := filter (\<lambda>c. c_MemoryID c \<noteq> i) (db_chunks db)\<rparr>"

definition delete_edges_of :: "string \<Rightarrow> database \<Rightarrow> database" where
  "delete_edges_of i db =
     db\<lparr>db_relationships :=
       filter (\<lambda>r. \<not> (r_SourceID r = i \<or> r_TargetID r = i)) (db_relationships db)\<rparr>"

definition DeleteMemoryAtomic ::
    "call_env \<Rightarrow> string \<Rightarrow> string \<Rightarrow> bool \<Rightarrow> database \<Rightarrow> database \<times> (db_error + bool)" where
  "DeleteMemoryAtomic env project i force =
     in_tx env (\<lambda>db.
       if e_fault env ''select'' then Fail DbFailed
       else case find (\<lambda>m. m_ID m = i \<and> m_Project m = project) (db_memories db) of
         None \<Rightarrow> Return False
       | Some m \<Rightarrow>
           if \<not> force \<and> m_Immutable m then Fail (ImmutableMemory i)
           else if e_fault env ''delete chunks'' then Fail DbFailed
           else if e_fault env ''delete relationships'' then Fail DbFailed
           else if e_fault env ''delete memory'' then Fail DbFailed
           else let
             db1 = delete_memories (\<lambda>r. m_ID r = i \<and> m_Project r = project)
                     (delete_edges_of i (delete_chunks_of i db))
           in if m_DocumentID m = [] then Commit True db1
              else if e_fault env ''delete document'' then Fail DbFailed
              else Commit True (DeleteOrphanedDocumentTx (m_DocumentID m) db1))"

definition rewrite_winner ::
    "(string \<Rightarrow> string) \<Rightarrow> call_env \<Rightarrow> string \<Rightarrow> string \<Rightarrow> string \<Rightarrow> database \<Rightarrow> database" where
  "rewrite_winner sha env project winnerID newContent db =
     (if newContent = [] then db
      else update_rows (\<lambda>r. m_ID r = winnerID \<and> m_Project r = project)
        (\<lambda>r. r\<lparr>m_Content := newContent,
            m_ContentHash := Some (ContentHash sha newContent),
            m_UpdatedAt := e_now env\<rparr>) db)"

definition delete_loser ::
    "call_env \<Rightarrow> string \<Rightarrow> string \<Rightarrow> database \<Rightarrow> unit outcome" where
  "delete_loser env project loserID db =
     (if e_fault env ''select loser'' then Fail DbFailed
      else case find (\<lambda>m. m_ID m = loserID \<and> m_Project m = project) (db_memories db) of
        None \<Rightarrow> Commit () db
      | Some loser \<Rightarrow>
          if m_Immutable loser then Fail (ImmutableMemory loserID)
          else if e_fault env ''delete chunks'' then Fail DbFailed
          else if e_fault env ''delete relationships'' then Fail DbFailed
          else if e_fault env ''delete memory'' then Fail DbFailed
          else Commit ()
            (delete_memories (\<lambda>r. m_ID r = loserID \<and> m_Project r = project)
              (delete_edges_of loserID (delete_chunks_of loserID db))))"

definition MergeMemoriesAtomic ::
    "(string \<Rightarrow> string) \<Rightarrow> call_env \<Rightarrow> string \<Rightarrow> string \<Rightarrow> string \<Rightarrow> string
     \<Rightarrow> database \<Rightarrow> database \<times> (db_error + unit)" where
  "MergeMemoriesAtomic sha env project winnerID loserID newContent =
     in_tx env (\<lambda>db.
       if e_fault env ''select winner'' then Fail DbFailed
       else case GetMemory project winnerID db of
         None \<Rightarrow> Fail (NoSuchMemory winnerID)
       | Some winner \<Rightarrow>
           if e_fault env ''version'' then Fail DbFailed
           else if newContent \<noteq> [] \<and> e_fault env ''update'' then Fail DbFailed
           else delete_loser env project loserID
             (rewrite_winner sha env project winnerID newContent
               (versionMemoryTx env winner ''update'' [] db)))"

definition softDeleteMemoryExec ::
    "call_env \<Rightarrow> string \<Rightarrow> string \<Rightarrow> string \<Rightarrow> database \<Rightarrow> bool outcome" where
  "softDeleteMemoryExec env project i reason db =
     (if e_fault env ''select'' then Fail DbFailed
      else case GetMemory project i db of
        None \<Rightarrow> Return False
      | Some m \<Rightarrow>
          if m_Immutable m then Fail (ImmutableMemory i)
          else if e_fault env ''version'' then Fail DbFailed
          else if e_fault env ''update'' then Fail DbFailed
          else Commit True
            (update_rows (\<lambda>r. m_ID r = i \<and> m_Project r = project)
              (\<lambda>r. r\<lparr>m_ValidTo := Some (e_now env),
                  m_InvalidationReason := (if reason = [] then None else Some reason)\<rparr>)
              (versionMemoryTx env m ''invalidate'' reason db)))"

definition SoftDeleteMemory ::
    "call_env \<Rightarrow> string \<Rightarrow> string \<Rightarrow> string \<Rightarrow> database \<Rightarrow> database \<times> (db_error + bool)" where
  "SoftDeleteMemory env project i reason = in_tx env (softDeleteMemoryExec env project i reason)"

section \<open>Reading and touching memories\<close>

text \<open>\<^verbatim>\<open>ORDER BY updated_at DESC\<close>, \<^verbatim>\<open>LIMIT\<close> and \<^verbatim>\<open>OFFSET\<close>.\<close>

definition by_updated :: "Memory list \<Rightarrow> Memory list" where
  "by_updated = sort_stable (\<lambda>a b. m_UpdatedAt b < m_UpdatedAt a)"

definition ListMemories ::
    "string \<Rightarrow> string option \<Rightarrow> string list \<Rightarrow> int option \<Rightarrow> int \<Rightarrow> int \<Rightarrow> database \<Rightarrow> Memory list" where
  "ListMemories project memType tags maxImp limit offset db =
     (let limit' = (if limit \<le> 0 then 20 else limit);
          keep = (\<lambda>m. m_Project m = project \<and> m_ValidTo m = None
            \<and> (case memType of None \<Rightarrow> True | Some t \<Rightarrow> m_MemoryType m = t)
            \<and> (case maxImp of None \<Rightarrow> True | Some n \<Rightarrow> m_Importance m \<le> n)
            \<and> list_all (\<lambda>t. t \<in> set (m_Tags m)) tags) in
      take (nat limit') (drop (nat offset) (by_updated (filter keep (db_memories db)))))"

definition GetMemoriesAsOf :: "string \<Rightarrow> gotime \<Rightarrow> int \<Rightarrow> database \<Rightarrow> Memory list" where
  "GetMemoriesAsOf project asOf limit db =
     take (nat limit) (by_updated (filter (\<lambda>m. m_Project m = project \<and> m_CreatedAt m \<le> asOf
       \<and> (case m_ValidTo m of None \<Rightarrow> True | Some t \<Rightarrow> t > asOf)) (db_memories db)))"

definition GetMemoryHistory :: "string \<Rightarrow> string \<Rightarrow> database \<Rightarrow> MemoryVersion list" where
  "GetMemoryHistory project i db =
     sort_stable (\<lambda>a b. v_SystemFrom b < v_SystemFrom a)
       (filter (\<lambda>v. v_Project v = project \<and> v_MemoryID v = i) (db_versions db))"

definition touched :: "gotime \<Rightarrow> Memory \<Rightarrow> Memory" where
  "touched now m = m\<lparr>m_AccessCount := m_AccessCount m + 1, m_LastAccessed := now\<rparr>"

definition TouchMemory :: "string \<Rightarrow> call_env \<Rightarrow> string \<Rightarrow> database \<Rightarrow> database \<times> (db_error + unit)" where
  "TouchMemory bproj env i =
     exec env ''touch'' (update_rows (\<lambda>m. m_ID m = i \<and> m_Project m = bproj) (touched (e_now env)))"

definition TouchMemories :: "call_env \<Rightarrow> string list \<Rightarrow> database \<Rightarrow> database \<times> (db_error + unit)" where
  "TouchMemories env ids db =
     (if ids = [] then (db, Inr ())
      else exec env ''touch'' (update_rows (\<lambda>m. m_ID m \<in> set ids) (touched (e_now env))) db)"

definition StoreSummary ::
    "string \<Rightarrow> call_env \<Rightarrow> string \<Rightarrow> string \<Rightarrow> database \<Rightarrow> database \<times> (db_error + unit)" where
  "StoreSummary bproj env i summary =
     exec env ''update'' (update_rows (\<lambda>m. m_ID m = i \<and> m_Project m = bproj)
       (\<lambda>m. m\<lparr>m_Summary := Some summary\<rparr>))"

definition ClearSummaries :: "call_env \<Rightarrow> string \<Rightarrow> database \<Rightarrow> database \<times> (db_error + unit)" where
  "ClearSummaries env project =
     exec env ''update'' (update_rows
       (\<lambda>m. m_Project m = project \<and> m_ValidTo m = None \<and> m_Summary m \<noteq> None)
       (\<lambda>m. m\<lparr>m_Summary := None\<rparr>))"

definition UpdateMemoryHash ::
    "string \<Rightarrow> call_env \<Rightarrow> string \<Rightarrow> string \<Rightarrow> database \<Rightarrow> database \<times> (db_error + unit)" where
  "UpdateMemoryHash bproj env i hash =
     exec env ''update'' (update_rows (\<lambda>m. m_ID m = i \<and> m_Project m = bproj)
       (\<lambda>m. m\<lparr>m_ContentHash := Some hash\<rparr>))"

definition ExistsWithContentHash :: "string \<Rightarrow> string \<Rightarrow> database \<Rightarrow> bool" where
  "ExistsWithContentHash project hash db =
     list_ex (\<lambda>m. m_Project m = project \<and> m_ValidTo m = None \<and> m_ContentHash m = Some hash)
       (db_memories db)"

section \<open>Documents and metadata\<close>

definition StoreDocument ::
    "(string \<Rightarrow> string) \<Rightarrow> call_env \<Rightarrow> string \<Rightarrow> string \<Rightarrow> database
     \<Rightarrow> database \<times> (db_error + string)" where
  "StoreDocument sha env project content db =
     (if content = [] then (db, Inl EmptyContent)
      else if e_fault env ''insert document'' then (db, Inl DbFailed)
      else (db\<lparr>db_documents := db_documents db @
              [\<lparr>d_ID = e_newid env, d_Project = project, d_Content = content,
                d_Sha256 = sha content, d_SizeBytes = length content\<rparr>]\<rparr>,
            Inr (e_newid env)))"

definition GetDocument :: "string \<Rightarrow> database \<Rightarrow> string" where
  "GetDocument i db =
     (case find (\<lambda>d. d_ID d = i) (db_documents db) of None \<Rightarrow> [] | Some d \<Rightarrow> d_Content d)"

definition SetMemoryDocumentID ::
    "call_env \<Rightarrow> string \<Rightarrow> string \<Rightarrow> database \<Rightarrow> database \<times> (db_error + unit)" where
  "SetMemoryDocumentID env i docID db =
     (if i \<in> m_ID ` set (db_memories db) \<and> docID \<notin> d_ID ` set (db_documents db)
      then (db, Inl (MissingReference docID))
      else exec env ''update'' (update_rows (\<lambda>m. m_ID m = i) (\<lambda>m. m\<lparr>m_DocumentID := docID\<rparr>)) db)"

definition GetMeta :: "string \<Rightarrow> string \<Rightarrow> database \<Rightarrow> string option" where
  "GetMeta project key db = map_of (db_meta db) (project, key)"

definition SetMeta ::
    "call_env \<Rightarrow> string \<Rightarrow> string \<Rightarrow> string \<Rightarrow> database \<Rightarrow> database \<times> (db_error + unit)" where
  "SetMeta env project key val =
     exec env (''set meta '' @ key)
       (\<lambda>db. db\<lparr>db_meta := ((project, key), val)
          # filter (\<lambda>(k, _). k \<noteq> (project, key)) (db_meta db)\<rparr>)"

section \<open>Chunks\<close>

definition insert_chunk :: "Chunk \<Rightarrow> database \<Rightarrow> db_error + database" where
  "insert_chunk c db =
     (if c_ID c \<in> c_ID ` set (db_chunks db) then Inr db
      else if c_MemoryID c \<notin> m_ID ` set (db_memories db) then Inl (MissingReference (c_MemoryID c))
      else Inr (db\<lparr>db_chunks := db_chunks db @ [c\<lparr>c_LastMatched := None\<rparr>]\<rparr>))"

text \<open>
  \<^verbatim>\<open>storeChunksExec\<close> runs one statement per chunk, \<^verbatim>\<open>storeChunksBatch\<close> the same statements in one
  round trip; both stop at the first error, which aborts the transaction.
\<close>

fun StoreChunksTx :: "call_env \<Rightarrow> Chunk list \<Rightarrow> database \<Rightarrow> db_error + database" where
  "StoreChunksTx env [] db = Inr db"
| "StoreChunksTx env (c # cs) db =
     (if e_fault env (''insert chunk '' @ c_ID c) then Inl DbFailed
      else case insert_chunk c db of Inl e \<Rightarrow> Inl e | Inr db' \<Rightarrow> StoreChunksTx env cs db')"

definition GetChunksForMemory :: "string \<Rightarrow> database \<Rightarrow> Chunk list" where
  "GetChunksForMemory i db =
     sort_stable (\<lambda>a b. c_ChunkIndex a < c_ChunkIndex b)
       (filter (\<lambda>c. c_MemoryID c = i) (db_chunks db))"

definition ChunkHashExists :: "string \<Rightarrow> string \<Rightarrow> database \<Rightarrow> bool" where
  "ChunkHashExists hash i db =
     list_ex (\<lambda>c. c_ChunkHash c = hash \<and> c_MemoryID c = i) (db_chunks db)"

definition update_chunks :: "(Chunk \<Rightarrow> bool) \<Rightarrow> (Chunk \<Rightarrow> Chunk) \<Rightarrow> database \<Rightarrow> database" where
  "update_chunks p f db = db\<lparr>db_chunks := map (\<lambda>c. if p c then f c else c) (db_chunks db)\<rparr>"

definition NullAllEmbeddings ::
    "call_env \<Rightarrow> string \<Rightarrow> database \<Rightarrow> database \<times> (db_error + int)" where
  "NullAllEmbeddings env project db =
     (let hit = (\<lambda>c. c_MemoryID c \<in> m_ID ` set (filter (\<lambda>m. m_Project m = project) (db_memories db))) in
      if project = [] then (db, Inl EmptyProject)
      else if e_fault env ''update'' then (db, Inl DbFailed)
      else (update_chunks hit (\<lambda>c. c\<lparr>c_Embedding := []\<rparr>) db,
            Inr (int (length (filter hit (db_chunks db))))))"

definition UpdateChunkEmbedding ::
    "call_env \<Rightarrow> string \<Rightarrow> float32 list \<Rightarrow> database \<Rightarrow> database \<times> (db_error + unit)" where
  "UpdateChunkEmbedding env i vec =
     exec env ''update'' (update_chunks (\<lambda>c. c_ID c = i \<and> c_Embedding c = [])
       (\<lambda>c. c\<lparr>c_Embedding := vec\<rparr>))"

definition UpdateChunkLastMatched ::
    "call_env \<Rightarrow> string \<Rightarrow> database \<Rightarrow> database \<times> (db_error + unit)" where
  "UpdateChunkLastMatched env i =
     exec env (''last matched '' @ i)
       (update_chunks (\<lambda>c. c_ID c = i) (\<lambda>c. c\<lparr>c_LastMatched := Some (e_now env)\<rparr>))"

definition EnqueueChunkLeases ::
    "call_env \<Rightarrow> string list \<Rightarrow> database \<Rightarrow> database \<times> (db_error + unit)" where
  "EnqueueChunkLeases env ids db =
     (let leased = map c_ID (filter (\<lambda>c. c_ID c \<in> set ids \<and> c_Embedding c = []) (db_chunks db)) in
      if ids = [] then (db, Inr ())
      else exec env ''lease'' (\<lambda>db. db\<lparr>db_leases := map (\<lambda>i. (i, e_now env + 5 * minute)) leased
              @ filter (\<lambda>(i, _). i \<notin> set leased) (db_leases db)\<rparr>) db)"

section \<open>Retrieval feedback\<close>

definition StoreRetrievalEvent ::
    "call_env \<Rightarrow> RetrievalEvent \<Rightarrow> database \<Rightarrow> database \<times> (db_error + unit)" where
  "StoreRetrievalEvent env ev db =
     (if e_fault env ''insert event'' then (db, Inl DbFailed)
      else if ev_ID ev \<in> ev_ID ` set (db_events db) then (db, Inl (DuplicateKey (ev_ID ev)))
      else (db\<lparr>db_events := db_events db @
              [ev\<lparr>ev_FeedbackIDs := [], ev_FeedbackAt := None, ev_FailureClass := []\<rparr>]\<rparr>, Inr ()))"

definition IncrementTimesRetrieved ::
    "call_env \<Rightarrow> string list \<Rightarrow> database \<Rightarrow> database \<times> (db_error + unit)" where
  "IncrementTimesRetrieved env ids db =
     (if ids = [] then (db, Inr ())
      else exec env ''increment'' (update_rows (\<lambda>m. m_ID m \<in> set ids)
        (\<lambda>m. m\<lparr>m_TimesRetrieved := m_TimesRetrieved m + 1\<rparr>)) db)"

text \<open>
  \<^verbatim>\<open>RecordFeedback\<close> and \<^verbatim>\<open>RecordFeedbackWithClass\<close>: the second also sets the class. The event is
  read before the transaction.
\<close>

definition record_feedback ::
    "call_env \<Rightarrow> string \<Rightarrow> string list \<Rightarrow> string option \<Rightarrow> database \<Rightarrow> database \<times> (db_error + unit)" where
  "record_feedback env eventID usefulIDs cls db =
     (if e_fault env ''get event'' then (db, Inl DbFailed)
      else case find (\<lambda>ev. ev_ID ev = eventID) (db_events db) of
        None \<Rightarrow> (db, Inl (NoSuchEvent eventID))
      | Some ev \<Rightarrow> in_tx env (\<lambda>db.
          if e_fault env ''update event'' then Fail DbFailed
          else if usefulIDs \<noteq> [] \<and> e_fault env ''increment'' then Fail DbFailed
          else if ev_ResultIDs ev \<noteq> [] \<and> e_fault env ''recompute'' then Fail DbFailed
          else let
            db1 = db\<lparr>db_events := map (\<lambda>e. if ev_ID e = eventID
                then e\<lparr>ev_FeedbackIDs := usefulIDs, ev_FeedbackAt := Some (e_now env),
                       ev_FailureClass := (case cls of None \<Rightarrow> ev_FailureClass e | Some c \<Rightarrow> c)\<rparr>
                else e) (db_events db)\<rparr>;
            db2 = update_rows (\<lambda>m. m_ID m \<in> set usefulIDs)
                    (\<lambda>m. m\<lparr>m_TimesUseful := m_TimesUseful m + 1\<rparr>) db1;
            db3 = update_rows (\<lambda>m. m_ID m \<in> set (ev_ResultIDs ev) \<and> m_TimesRetrieved m \<ge> 5)
                    (\<lambda>m. m\<lparr>m_RetrievalPrecision :=
                        Some (of_int (m_TimesUseful m) / of_int (m_TimesRetrieved m))\<rparr>) db2
          in Commit () db3) db)"

definition RecordFeedback ::
    "call_env \<Rightarrow> string \<Rightarrow> string list \<Rightarrow> database \<Rightarrow> database \<times> (db_error + unit)" where
  "RecordFeedback env eventID usefulIDs = record_feedback env eventID usefulIDs None"

definition RecordFeedbackWithClass ::
    "call_env \<Rightarrow> string \<Rightarrow> string list \<Rightarrow> string \<Rightarrow> database \<Rightarrow> database \<times> (db_error + unit)" where
  "RecordFeedbackWithClass env eventID usefulIDs cls = record_feedback env eventID usefulIDs (Some cls)"

definition UpdateDynamicImportance ::
    "call_env \<Rightarrow> string \<Rightarrow> float64 \<Rightarrow> float64 \<Rightarrow> database \<Rightarrow> database \<times> (db_error + unit)" where
  "UpdateDynamicImportance env i delta intervalFactor =
     exec env ''update'' (update_rows (\<lambda>m. m_ID m = i)
       (\<lambda>m. let m' = m\<lparr>m_DynamicImportance :=
                  Some (max (1 / 10) ((case m_DynamicImportance m of None \<Rightarrow> 1 | Some d \<Rightarrow> d) + delta))\<rparr>;
                hrs = max 1 (m_RetrievalIntervalHrs m * intervalFactor) in
            if intervalFactor > 0
            then m'\<lparr>m_RetrievalIntervalHrs := hrs,
                    m_NextReviewAt := Some (e_now env + \<lfloor>hrs * of_int hour\<rfloor>)\<rparr>
            else m'))"

definition DecayStaleImportance ::
    "call_env \<Rightarrow> string \<Rightarrow> float64 \<Rightarrow> database \<Rightarrow> database \<times> (db_error + unit)" where
  "DecayStaleImportance env project factor =
     exec env ''update'' (update_rows
       (\<lambda>m. m_Project m = project \<and> m_ValidTo m = None
          \<and> (case m_NextReviewAt m of None \<Rightarrow> False | Some t \<Rightarrow> t < e_now env))
       (\<lambda>m. m\<lparr>m_DynamicImportance :=
              (case m_DynamicImportance m of None \<Rightarrow> Some (1 / 10) | Some d \<Rightarrow> Some (max (1 / 10) (d * factor))),
            m_NextReviewAt := map_option (\<lambda>t. t + \<lfloor>m_RetrievalIntervalHrs m * of_int hour\<rfloor>)
              (m_NextReviewAt m)\<rparr>))"

section \<open>Pruning\<close>

definition minPruneAgeHours :: float64 where "minPruneAgeHours = 1 / 3600"

definition maxPruneAgeHours :: float64 where
  "maxPruneAgeHours = of_int (2 ^ 63 - 1) / of_int hour / 2"

definition pruneGuard :: "string \<Rightarrow> float_value \<Rightarrow> int \<Rightarrow> db_error + float64" where
  "pruneGuard project maxAgeHours maxImportance =
     (if project = [] then Inl EmptyProject
      else case maxAgeHours of
        NaN \<Rightarrow> Inl BadPruneAge
      | Inf _ \<Rightarrow> Inl BadPruneAge
      | Fin h \<Rightarrow>
          if h < minPruneAgeHours then Inl BadPruneAge
          else if h > maxPruneAgeHours then Inl BadPruneAge
          else if maxImportance < 0 \<or> maxImportance > 4 then Inl BadPruneImportance
          else Inr h)"

definition prune_cutoff :: "gotime \<Rightarrow> float64 \<Rightarrow> gotime" where
  "prune_cutoff now h = now - \<lfloor>h * of_int hour\<rfloor>"

definition delete_orphans :: "string list \<Rightarrow> database \<Rightarrow> database" where
  "delete_orphans docIDs = fold DeleteOrphanedDocumentTx docIDs"

definition stale_row :: "string \<Rightarrow> int \<Rightarrow> gotime \<Rightarrow> gotime \<Rightarrow> Memory \<Rightarrow> bool" where
  "stale_row project maxImportance cutoff now m \<longleftrightarrow>
     m_Project m = project \<and> \<not> m_Immutable m
     \<and> (m_Importance m \<ge> maxImportance \<and> m_LastAccessed m < cutoff \<and> m_AccessCount m = 0
        \<or> (case m_ExpiresAt m of None \<Rightarrow> False | Some t \<Rightarrow> t < now))"

text \<open>
  The loop over the deleted rows scans \<^verbatim>\<open>content_hash\<close> into a string, which fails on NULL, and
  collects the documents they referred to.
\<close>

definition PruneStaleMemories ::
    "call_env \<Rightarrow> string \<Rightarrow> float_value \<Rightarrow> int \<Rightarrow> database \<Rightarrow> database \<times> (db_error + int)" where
  "PruneStaleMemories env project maxAgeHours maxImportance db =
     (case pruneGuard project maxAgeHours maxImportance of
        Inl e \<Rightarrow> (db, Inl e)
      | Inr h \<Rightarrow>
          (let p = stale_row project maxImportance (prune_cutoff (e_now env) h) (e_now env) in
           in_tx env (\<lambda>db.
             let rows = filter p (db_memories db);
                 docIDs = remdups (filter (\<lambda>d. d \<noteq> []) (map m_DocumentID rows)) in
             if e_fault env ''delete'' then Fail DbFailed
             else if list_ex (\<lambda>m. m_ContentHash m = None) rows then Fail DbFailed
             else if docIDs \<noteq> [] \<and> e_fault env ''delete document'' then Fail DbFailed
             else Commit (int (length rows)) (delete_orphans docIDs (delete_memories p db))) db))"

definition cold_row :: "string \<Rightarrow> int \<Rightarrow> gotime \<Rightarrow> Chunk list \<Rightarrow> Memory \<Rightarrow> bool" where
  "cold_row project maxImportance cutoff chunks m \<longleftrightarrow>
     m_Project m = project \<and> m_StorageMode m = ''document'' \<and> \<not> m_Immutable m
     \<and> m_Importance m \<ge> maxImportance \<and> m_CreatedAt m < cutoff
     \<and> \<not> list_ex (\<lambda>c. c_MemoryID c = m_ID m \<and> c_LastMatched c \<noteq> None) chunks"

definition PruneColdDocuments ::
    "call_env \<Rightarrow> string \<Rightarrow> float_value \<Rightarrow> int \<Rightarrow> database \<Rightarrow> database \<times> (db_error + int)" where
  "PruneColdDocuments env project maxAgeHours maxImportance db =
     (case pruneGuard project maxAgeHours maxImportance of
        Inl e \<Rightarrow> (db, Inl e)
      | Inr h \<Rightarrow>
          in_tx env (\<lambda>db.
            let p = cold_row project maxImportance (prune_cutoff (e_now env) h) (db_chunks db);
                rows = filter p (db_memories db);
                docIDs = remdups (filter (\<lambda>d. d \<noteq> []) (map m_DocumentID rows)) in
            if e_fault env ''delete'' then Fail DbFailed
            else if docIDs \<noteq> [] \<and> e_fault env ''delete document'' then Fail DbFailed
            else Commit (int (length rows)) (delete_orphans docIDs (delete_memories p db))) db)"

definition DeleteProject :: "call_env \<Rightarrow> string \<Rightarrow> database \<Rightarrow> database \<times> (db_error + unit)" where
  "DeleteProject env project db =
     (if project = [] then (db, Inl EmptyProject)
      else in_tx env (\<lambda>db.
        if list_ex (\<lambda>t. e_fault env (''delete '' @ t))
             [''retrieval_events'', ''relationships'', ''chunks'', ''memory_versions'', ''memories'',
              ''documents'', ''episodes'', ''weight_config'', ''weight_history'', ''project_meta'',
              ''audit_snapshots'', ''audit_canonical_queries'', ''canonical_entities'']
        then Fail DbFailed
        else let
          db1 = db\<lparr>db_events := filter (\<lambda>e. ev_Project e \<noteq> project) (db_events db),
                   db_relationships := filter (\<lambda>r. r_Project r \<noteq> project) (db_relationships db),
                   db_chunks := filter (\<lambda>c. c_Project c \<noteq> project) (db_chunks db),
                   db_versions := filter (\<lambda>v. v_Project v \<noteq> project) (db_versions db)\<rparr>;
          db2 = delete_memories (\<lambda>m. m_Project m = project) db1;
          docs = map d_ID (filter (\<lambda>d. d_Project d = project) (db_documents db));
          db3 = update_rows (\<lambda>m. m_DocumentID m \<in> set docs) (\<lambda>m. m\<lparr>m_DocumentID := []\<rparr>) db2
        in Commit () (db3\<lparr>db_documents := filter (\<lambda>d. d_Project d \<noteq> project) (db_documents db),
             db_meta := filter (\<lambda>((p, _), _). p \<noteq> project) (db_meta db)\<rparr>)) db)"

end
