(* ===== verification/Memory_Graph.thy ===== *)
theory Memory_Graph
  imports Memory_Tables
begin

text \<open>
  The relationships between memories (\<^verbatim>\<open>src/internal/db/postgres_relationship.go\<close>): the upsert
  with its existence checks, the strength updates that feedback and consolidation make, and the
  batch lookup recall uses. \<^verbatim>\<open>GetConnected\<close>, a recursive query, is left out.
\<close>

definition active_exists :: "string \<Rightarrow> database \<Rightarrow> bool" where
  "active_exists i db = list_ex (\<lambda>m. m_ID m = i \<and> m_ValidTo m = None) (db_memories db)"

definition edge_key :: "Relationship \<Rightarrow> string \<times> string \<times> string" where
  "edge_key r = (r_SourceID r, r_TargetID r, r_RelType r)"

text \<open>\<^verbatim>\<open>ON CONFLICT (source_id, target_id, rel_type) DO UPDATE SET strength = EXCLUDED.strength\<close>.\<close>

definition upsert_edge :: "Relationship \<Rightarrow> Relationship list \<Rightarrow> Relationship list" where
  "upsert_edge rel rs =
     (if edge_key rel \<in> edge_key ` set rs
      then map (\<lambda>r. if edge_key r = edge_key rel then r\<lparr>r_Strength := r_Strength rel\<rparr> else r) rs
      else rs @ [rel])"

definition StoreRelationship ::
    "string \<Rightarrow> call_env \<Rightarrow> Relationship \<Rightarrow> database \<Rightarrow> database \<times> (db_error + unit)" where
  "StoreRelationship bproj env rel =
     in_tx env (\<lambda>db.
       if e_fault env ''check source'' then Fail DbFailed
       else if \<not> active_exists (r_SourceID rel) db then Fail (NoSuchMemory (r_SourceID rel))
       else if e_fault env ''check target'' then Fail DbFailed
       else if \<not> active_exists (r_TargetID rel) db then Fail (NoSuchMemory (r_TargetID rel))
       else if e_fault env ''upsert'' then Fail DbFailed
       else Commit () (db\<lparr>db_relationships :=
              upsert_edge (rel\<lparr>r_Project := bproj\<rparr>) (db_relationships db)\<rparr>))"

definition update_edges ::
    "(Relationship \<Rightarrow> bool) \<Rightarrow> (float64 \<Rightarrow> float64) \<Rightarrow> database \<Rightarrow> database" where
  "update_edges p f db =
     db\<lparr>db_relationships :=
       map (\<lambda>r. if p r then r\<lparr>r_Strength := f (r_Strength r)\<rparr> else r) (db_relationships db)\<rparr>"

definition touches_edge :: "string \<Rightarrow> Relationship \<Rightarrow> bool" where
  "touches_edge i r \<longleftrightarrow> r_SourceID r = i \<or> r_TargetID r = i"

definition BoostEdgesForMemory ::
    "call_env \<Rightarrow> string \<Rightarrow> float64 \<Rightarrow> database \<Rightarrow> database \<times> (db_error + unit)" where
  "BoostEdgesForMemory env i factor =
     exec env ''boost'' (update_edges (touches_edge i) (\<lambda>s. min 1 (s * factor)))"

definition DecayEdgesForMemory ::
    "call_env \<Rightarrow> string \<Rightarrow> float64 \<Rightarrow> database \<Rightarrow> database \<times> (db_error + unit)" where
  "DecayEdgesForMemory env i factor =
     exec env ''decay'' (update_edges (touches_edge i) (\<lambda>s. max 0 (s - factor)))"

definition DecayAllEdges ::
    "call_env \<Rightarrow> string \<Rightarrow> float64 \<Rightarrow> float64 \<Rightarrow> database \<Rightarrow> database \<times> (db_error + int \<times> int)" where
  "DecayAllEdges env project decayFactor minStrength =
     in_tx env (\<lambda>db.
       if e_fault env ''decay'' then Fail DbFailed
       else let db1 = update_edges (\<lambda>r. r_Project r = project) (\<lambda>s. max 0 (s - decayFactor)) db;
                weak = (\<lambda>r. r_Strength r < minStrength \<and> r_Project r = project) in
         if e_fault env ''prune'' then Fail DbFailed
         else Commit
           (int (length (filter (\<lambda>r. r_Project r = project) (db_relationships db))),
            int (length (filter weak (db_relationships db1))))
           (db1\<lparr>db_relationships := filter (\<lambda>r. \<not> weak r) (db_relationships db1)\<rparr>))"

definition GetConnectionCount :: "string \<Rightarrow> string \<Rightarrow> database \<Rightarrow> int" where
  "GetConnectionCount i project db =
     int (length (filter (\<lambda>r. touches_edge i r \<and> r_Project r = project) (db_relationships db)))"

definition GetRelationships :: "string \<Rightarrow> string \<Rightarrow> database \<Rightarrow> Relationship list" where
  "GetRelationships project i db =
     filter (\<lambda>r. r_Project r = project \<and> touches_edge i r) (db_relationships db)"

text \<open>
  The batch lookup: every requested id has an entry, and each fetched row is appended to the
  entries of its end points, once for a loop.
\<close>

definition batch_append ::
    "string list \<Rightarrow> Relationship \<Rightarrow> (string \<rightharpoonup> Relationship list) \<Rightarrow> (string \<rightharpoonup> Relationship list)" where
  "batch_append ids r m =
     (let m1 = (if r_SourceID r \<in> set ids
                then m(r_SourceID r \<mapsto> the (m (r_SourceID r)) @ [r]) else m) in
      if r_TargetID r \<in> set ids \<and> r_TargetID r \<noteq> r_SourceID r
      then m1(r_TargetID r \<mapsto> the (m1 (r_TargetID r)) @ [r]) else m1)"

definition GetRelationshipsBatch ::
    "string \<Rightarrow> string list \<Rightarrow> database \<Rightarrow> (string \<rightharpoonup> Relationship list)" where
  "GetRelationshipsBatch project ids db =
     fold (batch_append ids)
       (filter (\<lambda>r. r_Project r = project \<and> (r_SourceID r \<in> set ids \<or> r_TargetID r \<in> set ids))
          (db_relationships db))
       (\<lambda>i. if i \<in> set ids then Some [] else None)"

section \<open>The batch lookup agrees with single lookups\<close>

lemma batch_fold:
  assumes "\<And>i. i \<in> set ids \<Longrightarrow> \<exists>l. m i = Some l" "\<And>i. i \<notin> set ids \<Longrightarrow> m i = None"
  shows "fold (batch_append ids) rs m
     = (\<lambda>i. if i \<in> set ids then Some (the (m i) @ filter (touches_edge i) rs) else None)"
  using assms
proof (induction rs arbitrary: m)
  case Nil
  then show ?case by (auto simp: fun_eq_iff)
next
  case (Cons r rs)
  have step: "batch_append ids r m
      = (\<lambda>i. if i \<in> set ids then Some (the (m i) @ (if touches_edge i r then [r] else [])) else None)"
    using Cons.prems by (auto simp: batch_append_def touches_edge_def fun_eq_iff Let_def)
  show ?case unfolding fold.simps comp_def step by (subst Cons.IH) (auto simp: fun_eq_iff)
qed

text \<open>
  The batched lookup of relationships that recall uses returns, for every requested memory,
  exactly what the single lookup returns for it, in the same order, and nothing for others.
\<close>

theorem batch_agrees_with_single_lookup:
  "GetRelationshipsBatch project ids db i
     = (if i \<in> set ids then Some (GetRelationships project i db) else None)"
  unfolding GetRelationshipsBatch_def
  by (subst batch_fold) (auto simp: GetRelationships_def touches_edge_def filter_filter
      intro!: filter_cong)

section \<open>Strengths stay in range\<close>

definition edges_ok :: "Relationship list \<Rightarrow> bool" where
  "edges_ok rs \<longleftrightarrow> distinct (map edge_key rs) \<and> (\<forall>r \<in> set rs. 0 \<le> r_Strength r \<and> r_Strength r \<le> 1)"

lemma edge_key_simps [simp]:
  "edge_key (r\<lparr>r_Strength := s\<rparr>) = edge_key r" "edge_key (r\<lparr>r_Project := p\<rparr>) = edge_key r"
  by (simp_all add: edge_key_def)

lemma map_edge_key [simp]:
  "map edge_key (map (\<lambda>r. if p r then r\<lparr>r_Strength := f r\<rparr> else r) rs) = map edge_key rs"
  by simp

lemma edges_ok_upsert [inv_rules]:
  "edges_ok rs \<Longrightarrow> 0 \<le> r_Strength rel \<Longrightarrow> r_Strength rel \<le> 1 \<Longrightarrow> edges_ok (upsert_edge rel rs)"
  unfolding edges_ok_def upsert_edge_def by (auto simp del: map_map) (force simp del: map_map)?

lemma edges_ok_update [inv_rules]:
  "edges_ok (db_relationships db) \<Longrightarrow> (\<And>s. 0 \<le> s \<Longrightarrow> s \<le> 1 \<Longrightarrow> 0 \<le> f s \<and> f s \<le> 1)
     \<Longrightarrow> edges_ok (db_relationships (update_edges p f db))"
  unfolding edges_ok_def update_edges_def by (auto simp del: map_map)

lemma edges_ok_filter [inv_rules]: "edges_ok rs \<Longrightarrow> edges_ok (filter p rs)"
  unfolding edges_ok_def by (auto simp: distinct_map_filter)

end
