(* ===== verification/Memory_Ops.thy ===== *)
theory Memory_Ops
  imports Memory_Graph
begin

text \<open>
  What the statements of the Postgres backend keep, over every sequence of them and whatever the
  database fails: the tables stay consistent, no content of a memory is lost, a forgotten memory
  stays forgotten, and an immutable one keeps its content (except for one operation).
\<close>

section \<open>Operations\<close>

datatype (plugins only: code) db_op =
    DoStore Memory
  | DoUpdate string "string option" "string list option" "int option" "float64 option"
  | DoSoftDelete string string string
  | DoDelete string string bool
  | DoMerge string string string string
  | DoTouch string
  | DoTouchAll "string list"
  | DoSummary string string
  | DoClearSummaries string
  | DoHash string string
  | DoStoreDocument string string
  | DoLinkDocument string string
  | DoMeta string string string
  | DoChunks "Chunk list"
  | DoDropChunks string
  | DoNullEmbeddings string
  | DoEmbedding string "float32 list"
  | DoMatched string
  | DoLeases "string list"
  | DoEvent RetrievalEvent
  | DoRetrieved "string list"
  | DoFeedback string "string list" "string option"
  | DoImportance string float64 float64
  | DoDecayImportance string float64
  | DoRelate Relationship
  | DoBoost string float64
  | DoDecay string float64
  | DoDecayAll string float64 float64
  | DoPruneStale string float_value int
  | DoPruneCold string float_value int
  | DoDeleteProject string

definition or_keep :: "database \<Rightarrow> db_error + database \<Rightarrow> database" where
  "or_keep db r = (case r of Inl _ \<Rightarrow> db | Inr db' \<Rightarrow> db')"

fun apply_op ::
    "string \<Rightarrow> (string \<Rightarrow> string) \<Rightarrow> (string \<Rightarrow> gotime option) \<Rightarrow> call_env \<times> db_op
     \<Rightarrow> database \<Rightarrow> database" where
  "apply_op bp sha parse (env, DoStore m) db = or_keep db (storeMemoryExec bp sha env m db)"
| "apply_op bp sha parse (env, DoUpdate i c t n p) db = fst (UpdateMemory bp sha parse env i c t n p db)"
| "apply_op bp sha parse (env, DoSoftDelete p i r) db = fst (SoftDeleteMemory env p i r db)"
| "apply_op bp sha parse (env, DoDelete p i f) db = fst (DeleteMemoryAtomic env p i f db)"
| "apply_op bp sha parse (env, DoMerge p w l c) db = fst (MergeMemoriesAtomic sha env p w l c db)"
| "apply_op bp sha parse (env, DoTouch i) db = fst (TouchMemory bp env i db)"
| "apply_op bp sha parse (env, DoTouchAll ids) db = fst (TouchMemories env ids db)"
| "apply_op bp sha parse (env, DoSummary i s) db = fst (StoreSummary bp env i s db)"
| "apply_op bp sha parse (env, DoClearSummaries p) db = fst (ClearSummaries env p db)"
| "apply_op bp sha parse (env, DoHash i h) db = fst (UpdateMemoryHash bp env i h db)"
| "apply_op bp sha parse (env, DoStoreDocument p c) db = fst (StoreDocument sha env p c db)"
| "apply_op bp sha parse (env, DoLinkDocument i d) db = fst (SetMemoryDocumentID env i d db)"
| "apply_op bp sha parse (env, DoMeta p k v) db = fst (SetMeta env p k v db)"
| "apply_op bp sha parse (env, DoChunks cs) db = or_keep db (StoreChunksTx env cs db)"
| "apply_op bp sha parse (env, DoDropChunks i) db = fst (exec env ''delete chunks'' (delete_chunks_of i) db)"
| "apply_op bp sha parse (env, DoNullEmbeddings p) db = fst (NullAllEmbeddings env p db)"
| "apply_op bp sha parse (env, DoEmbedding i v) db = fst (UpdateChunkEmbedding env i v db)"
| "apply_op bp sha parse (env, DoMatched i) db = fst (UpdateChunkLastMatched env i db)"
| "apply_op bp sha parse (env, DoLeases ids) db = fst (EnqueueChunkLeases env ids db)"
| "apply_op bp sha parse (env, DoEvent ev) db = fst (StoreRetrievalEvent env ev db)"
| "apply_op bp sha parse (env, DoRetrieved ids) db = fst (IncrementTimesRetrieved env ids db)"
| "apply_op bp sha parse (env, DoFeedback e ids c) db = fst (record_feedback env e ids c db)"
| "apply_op bp sha parse (env, DoImportance i d f) db = fst (UpdateDynamicImportance env i d f db)"
| "apply_op bp sha parse (env, DoDecayImportance p f) db = fst (DecayStaleImportance env p f db)"
| "apply_op bp sha parse (env, DoRelate r) db = fst (StoreRelationship bp env r db)"
| "apply_op bp sha parse (env, DoBoost i f) db = fst (BoostEdgesForMemory env i f db)"
| "apply_op bp sha parse (env, DoDecay i f) db = fst (DecayEdgesForMemory env i f db)"
| "apply_op bp sha parse (env, DoDecayAll p d n) db = fst (DecayAllEdges env p d n db)"
| "apply_op bp sha parse (env, DoPruneStale p h n) db = fst (PruneStaleMemories env p h n db)"
| "apply_op bp sha parse (env, DoPruneCold p h n) db = fst (PruneColdDocuments env p h n db)"
| "apply_op bp sha parse (env, DoDeleteProject p) db = fst (DeleteProject env p db)"

definition empty_db :: database where
  "empty_db = \<lparr>db_memories = [], db_versions = [], db_chunks = [], db_relationships = [],
     db_documents = [], db_events = [], db_meta = [], db_leases = []\<rparr>"

section \<open>How the statements touch the tables\<close>

lemma in_tx_keeps:
  "P db \<Longrightarrow> (\<And>r db'. body db = Commit r db' \<Longrightarrow> P db') \<Longrightarrow> P (fst (in_tx env body db))"
  by (auto simp: in_tx_def split: outcome.splits)

lemma exec_keeps: "P db \<Longrightarrow> P (f db) \<Longrightarrow> P (fst (exec env l f db))"
  by (simp add: exec_def)

lemma update_rows_simps [simp]:
  "db_versions (update_rows p f db) = db_versions db"
  "db_chunks (update_rows p f db) = db_chunks db"
  "db_relationships (update_rows p f db) = db_relationships db"
  "db_documents (update_rows p f db) = db_documents db"
  by (simp_all add: update_rows_def)

lemma versionMemoryTx_simps [simp]:
  "db_memories (versionMemoryTx env m t r db) = db_memories db"
  "db_chunks (versionMemoryTx env m t r db) = db_chunks db"
  "db_relationships (versionMemoryTx env m t r db) = db_relationships db"
  "db_documents (versionMemoryTx env m t r db) = db_documents db"
  by (simp_all add: versionMemoryTx_def Let_def)

lemma DeleteOrphanedDocumentTx_simps [simp]:
  "db_memories (DeleteOrphanedDocumentTx i db) = db_memories db"
  "db_chunks (DeleteOrphanedDocumentTx i db) = db_chunks db"
  "db_relationships (DeleteOrphanedDocumentTx i db) = db_relationships db"
  "db_versions (DeleteOrphanedDocumentTx i db) = db_versions db"
  by (simp_all add: DeleteOrphanedDocumentTx_def)

lemma delete_orphans_simps [simp]:
  "db_memories (delete_orphans ds db) = db_memories db"
  "db_chunks (delete_orphans ds db) = db_chunks db"
  "db_relationships (delete_orphans ds db) = db_relationships db"
  "db_versions (delete_orphans ds db) = db_versions db"
  unfolding delete_orphans_def by (induction ds arbitrary: db) simp_all

lemma delete_memories_simps [simp]:
  "db_memories (delete_memories p db) = filter (\<lambda>m. \<not> p m) (db_memories db)"
  "db_versions (delete_memories p db) = db_versions db"
  "db_documents (delete_memories p db) = db_documents db"
  by (simp_all add: delete_memories_def Let_def)

lemma delete_parts_simps [simp]:
  "db_memories (delete_chunks_of i db) = db_memories db"
  "db_versions (delete_chunks_of i db) = db_versions db"
  "db_relationships (delete_chunks_of i db) = db_relationships db"
  "db_documents (delete_chunks_of i db) = db_documents db"
  "db_memories (delete_edges_of i db) = db_memories db"
  "db_versions (delete_edges_of i db) = db_versions db"
  "db_chunks (delete_edges_of i db) = db_chunks db"
  "db_documents (delete_edges_of i db) = db_documents db"
  by (simp_all add: delete_chunks_of_def delete_edges_of_def)

lemma update_chunks_simps [simp]:
  "db_memories (update_chunks p f db) = db_memories db"
  "db_versions (update_chunks p f db) = db_versions db"
  "db_relationships (update_chunks p f db) = db_relationships db"
  "db_documents (update_chunks p f db) = db_documents db"
  by (simp_all add: update_chunks_def)

lemma update_edges_simps [simp]:
  "db_memories (update_edges p f db) = db_memories db"
  "db_versions (update_edges p f db) = db_versions db"
  "db_chunks (update_edges p f db) = db_chunks db"
  "db_documents (update_edges p f db) = db_documents db"
  by (simp_all add: update_edges_def)

section \<open>Consistency of the tables\<close>

definition mem_ids :: "database \<Rightarrow> string set" where
  "mem_ids db = m_ID ` set (db_memories db)"

definition open_versions :: "string \<Rightarrow> MemoryVersion list \<Rightarrow> MemoryVersion list" where
  "open_versions i vs = filter (\<lambda>v. v_MemoryID v = i \<and> v_SystemTo v = None) vs"

definition docs_ok :: "Memory list \<Rightarrow> Document list \<Rightarrow> bool" where
  "docs_ok ms ds \<longleftrightarrow> m_DocumentID ` set ms \<subseteq> insert [] (d_ID ` set ds)"

definition db_ok :: "database \<Rightarrow> bool" where
  "db_ok db \<longleftrightarrow>
     distinct (map m_ID (db_memories db)) \<and> distinct (map c_ID (db_chunks db))
     \<and> c_MemoryID ` set (db_chunks db) \<subseteq> mem_ids db
     \<and> r_SourceID ` set (db_relationships db) \<subseteq> mem_ids db
     \<and> r_TargetID ` set (db_relationships db) \<subseteq> mem_ids db
     \<and> distinct (map edge_key (db_relationships db))
     \<and> (\<forall>i. length (open_versions i (db_versions db)) \<le> 1)
     \<and> docs_ok (db_memories db) (db_documents db)"

lemma mem_ids_versionMemoryTx [simp]: "mem_ids (versionMemoryTx env m t r db) = mem_ids db"
  by (simp add: mem_ids_def)

lemma kept_id:
  "i \<in> m_ID ` set ms \<Longrightarrow> i \<notin> m_ID ` set (filter p ms) \<Longrightarrow> i \<in> m_ID ` set (filter (\<lambda>m. \<not> p m) ms)"
  by auto

lemma db_ok_update_rows:
  assumes ok: "db_ok db" and f: "\<And>m. m_ID (f m) = m_ID m" "\<And>m. m_DocumentID (f m) = m_DocumentID m"
  shows "db_ok (update_rows p f db)"
proof -
  have "map m_ID (db_memories (update_rows p f db)) = map m_ID (db_memories db)"
    by (simp add: update_rows_def f(1))
  moreover from this have "mem_ids (update_rows p f db) = mem_ids db"
    unfolding mem_ids_def by (metis list.set_map)
  moreover have "docs_ok (db_memories (update_rows p f db)) (db_documents db)"
    using ok unfolding db_ok_def docs_ok_def by (auto simp: update_rows_def f)
  ultimately show ?thesis using ok unfolding db_ok_def by simp
qed

lemma close_version_simps [simp]:
  "v_MemoryID (close_version i t v) = v_MemoryID v" "v_Content (close_version i t v) = v_Content v"
  "v_SystemTo (close_version i t v) = None \<longleftrightarrow> v_SystemTo v = None \<and> v_MemoryID v \<noteq> i"
  by (auto simp: close_version_def)

lemma open_versions_close:
  "open_versions i (map (close_version j t) vs) = (if i = j then [] else open_versions i vs)"
proof (induction vs)
  case (Cons v vs)
  have "v_MemoryID v \<noteq> j \<Longrightarrow> close_version j t v = v" by (simp add: close_version_def)
  with Cons show ?case by (auto simp: open_versions_def)
qed (simp add: open_versions_def)

lemma length_open_versionMemoryTx:
  "length (open_versions i (db_versions (versionMemoryTx env m t r db)))
     = (if i = m_ID m then 1 else length (open_versions i (db_versions db)))"
proof -
  have "open_versions i (vs @ [v]) = open_versions i vs @ open_versions i [v]" for vs v
    by (simp add: open_versions_def)
  then show ?thesis
    by (simp add: versionMemoryTx_def Let_def open_versions_close) (simp add: open_versions_def)
qed

lemma db_ok_versionMemoryTx: "db_ok db \<Longrightarrow> db_ok (versionMemoryTx env m t r db)"
  unfolding db_ok_def by (simp add: length_open_versionMemoryTx)

lemma db_ok_delete_memories:
  assumes "db_ok db"
  shows "db_ok (delete_memories p db)"
proof -
  let ?ms = "db_memories db"
  have "c_MemoryID c \<in> m_ID ` set (filter (\<lambda>m. \<not> p m) ?ms)"
    if "c \<in> set (db_chunks db)" "c_MemoryID c \<notin> m_ID ` set (filter p ?ms)" for c
    using assms that by (intro kept_id) (auto simp: db_ok_def mem_ids_def simp del: set_filter)
  moreover have "r_SourceID r \<in> m_ID ` set (filter (\<lambda>m. \<not> p m) ?ms)"
    if "r \<in> set (db_relationships db)" "r_SourceID r \<notin> m_ID ` set (filter p ?ms)" for r
    using assms that by (intro kept_id) (auto simp: db_ok_def mem_ids_def simp del: set_filter)
  moreover have "r_TargetID r \<in> m_ID ` set (filter (\<lambda>m. \<not> p m) ?ms)"
    if "r \<in> set (db_relationships db)" "r_TargetID r \<notin> m_ID ` set (filter p ?ms)" for r
    using assms that by (intro kept_id) (auto simp: db_ok_def mem_ids_def simp del: set_filter)
  ultimately show ?thesis
    using assms unfolding db_ok_def docs_ok_def mem_ids_def delete_memories_def Let_def
    by (simp add: distinct_map_filter image_subset_iff)
qed

lemma db_ok_delete_parts: "db_ok db \<Longrightarrow> db_ok (delete_edges_of j (delete_chunks_of i db))"
  unfolding db_ok_def mem_ids_def
  by (auto simp: delete_edges_of_def delete_chunks_of_def distinct_map_filter)

lemma docs_ok_mono: "docs_ok ms ds \<Longrightarrow> set ds \<subseteq> set ds' \<Longrightarrow> docs_ok ms ds'"
  unfolding docs_ok_def by blast

lemma docs_ok_orphan:
  assumes "docs_ok ms ds"
  shows "docs_ok ms (filter (\<lambda>d. d_ID d = i \<longrightarrow> \<not> list_all (\<lambda>m. m_DocumentID m \<noteq> i) ms) ds)"
  unfolding docs_ok_def
proof
  fix x
  assume "x \<in> m_DocumentID ` set ms"
  then obtain m where m: "m \<in> set ms" "x = m_DocumentID m" by blast
  then have x: "x = [] \<or> x \<in> d_ID ` set ds" using assms by (auto simp: docs_ok_def)
  have "x = i \<Longrightarrow> \<not> list_all (\<lambda>m. m_DocumentID m \<noteq> i) ms" using m by (auto simp: list_all_iff)
  with x show "x \<in> insert [] (d_ID ` set (filter (\<lambda>d. d_ID d = i \<longrightarrow>
      \<not> list_all (\<lambda>m. m_DocumentID m \<noteq> i) ms) ds))"
    by auto
qed

lemma db_ok_orphan: "db_ok db \<Longrightarrow> db_ok (DeleteOrphanedDocumentTx i db)"
  unfolding db_ok_def mem_ids_def
  using docs_ok_orphan [of "db_memories db" "db_documents db" i]
  by (simp add: DeleteOrphanedDocumentTx_def)

lemma db_ok_delete_orphans: "db_ok db \<Longrightarrow> db_ok (delete_orphans ds db)"
  unfolding delete_orphans_def by (induction ds arbitrary: db) (simp_all add: db_ok_orphan)

lemma db_ok_cong:
  "db_ok db \<Longrightarrow> db_memories db' = db_memories db \<Longrightarrow> db_versions db' = db_versions db
     \<Longrightarrow> db_chunks db' = db_chunks db \<Longrightarrow> db_relationships db' = db_relationships db
     \<Longrightarrow> set (db_documents db) \<subseteq> set (db_documents db') \<Longrightarrow> db_ok db'"
  unfolding db_ok_def mem_ids_def using docs_ok_mono [of "db_memories db" "db_documents db" "db_documents db'"] by simp

lemma db_ok_chunks:
  "db_ok db \<Longrightarrow> distinct (map c_ID cs) \<Longrightarrow> c_MemoryID ` set cs \<subseteq> mem_ids db
     \<Longrightarrow> db_ok (db\<lparr>db_chunks := cs\<rparr>)"
  unfolding db_ok_def mem_ids_def by simp

lemma db_okD:
  assumes "db_ok db"
  shows "distinct (map m_ID (db_memories db))" "distinct (map c_ID (db_chunks db))"
    "c_MemoryID ` set (db_chunks db) \<subseteq> mem_ids db"
    "r_SourceID ` set (db_relationships db) \<subseteq> mem_ids db"
    "r_TargetID ` set (db_relationships db) \<subseteq> mem_ids db"
    "distinct (map edge_key (db_relationships db))"
    "docs_ok (db_memories db) (db_documents db)"
  using assms by (simp_all add: db_ok_def)

lemma db_ok_add_memory:
  assumes "db_ok db" "m_ID m \<notin> mem_ids db"
    "m_DocumentID m = [] \<or> m_DocumentID m \<in> d_ID ` set (db_documents db)"
  shows "db_ok (db\<lparr>db_memories := db_memories db @ [m]\<rparr>)"
proof -
  have "mem_ids db \<subseteq> mem_ids (db\<lparr>db_memories := db_memories db @ [m]\<rparr>)"
    by (auto simp: mem_ids_def)
  moreover have "docs_ok (db_memories db @ [m]) (db_documents db)"
    using db_okD(7) [OF assms(1)] assms(3) by (auto simp: docs_ok_def)
  ultimately show ?thesis
    using assms(1,2) unfolding db_ok_def by (simp add: mem_ids_def subset_insertI2)
qed

lemma db_ok_store: "db_ok db \<Longrightarrow> storeMemoryExec bp sha env m db = Inr db' \<Longrightarrow> db_ok db'"
  unfolding storeMemoryExec_def Let_def
  by (auto simp: mem_ids_def inserted_row_def prepare_memory_def split: if_splits
      intro!: db_ok_add_memory)

lemma db_ok_insert_chunk: "db_ok db \<Longrightarrow> insert_chunk c db = Inr db' \<Longrightarrow> db_ok db'"
  using db_okD(2,3) [of db]
  by (auto simp: insert_chunk_def mem_ids_def image_subset_iff split: if_splits intro!: db_ok_chunks)

lemma db_ok_StoreChunksTx: "db_ok db \<Longrightarrow> StoreChunksTx env cs db = Inr db' \<Longrightarrow> db_ok db'"
  by (induction env cs db rule: StoreChunksTx.induct)
    (auto split: if_splits sum.splits dest: db_ok_insert_chunk)

lemma db_ok_update_chunks:
  assumes "db_ok db" "\<And>c. c_ID (f c) = c_ID c" "\<And>c. c_MemoryID (f c) = c_MemoryID c"
  shows "db_ok (update_chunks p f db)"
proof -
  have "map c_ID (db_chunks (update_chunks p f db)) = map c_ID (db_chunks db)"
    "map c_MemoryID (db_chunks (update_chunks p f db)) = map c_MemoryID (db_chunks db)"
    by (simp_all add: update_chunks_def assms)
  moreover from this have "c_MemoryID ` set (db_chunks (update_chunks p f db)) = c_MemoryID ` set (db_chunks db)"
    by (metis list.set_map)
  moreover have "mem_ids (update_chunks p f db) = mem_ids db" by (simp add: mem_ids_def)
  ultimately show ?thesis using assms(1) unfolding db_ok_def by simp
qed

lemma db_ok_edges:
  assumes "db_ok db" "r_SourceID ` set rs \<union> r_TargetID ` set rs \<subseteq> mem_ids db" "distinct (map edge_key rs)"
  shows "db_ok (db\<lparr>db_relationships := rs\<rparr>)"
  using assms unfolding db_ok_def mem_ids_def by simp

lemma db_ok_update_edges: "db_ok db \<Longrightarrow> db_ok (update_edges p f db)"
  unfolding update_edges_def by (rule db_ok_edges) (auto simp: db_ok_def simp del: map_map)

lemma db_ok_filter_edges: "db_ok db \<Longrightarrow> db_ok (db\<lparr>db_relationships := filter p (db_relationships db)\<rparr>)"
  by (rule db_ok_edges) (auto simp: db_ok_def distinct_map_filter)

lemma active_exists_mem: "active_exists i db \<Longrightarrow> i \<in> mem_ids db"
  by (auto simp: active_exists_def mem_ids_def list_ex_iff)

lemma distinct_upsert_edge: "distinct (map edge_key rs) \<Longrightarrow> distinct (map edge_key (upsert_edge rel rs))"
  by (auto simp: upsert_edge_def simp del: map_map)

lemma db_ok_upsert:
  assumes "db_ok db" "r_SourceID rel \<in> mem_ids db" "r_TargetID rel \<in> mem_ids db"
  shows "db_ok (db\<lparr>db_relationships := upsert_edge rel (db_relationships db)\<rparr>)"
  using assms by (intro db_ok_edges distinct_upsert_edge) (auto simp: db_ok_def upsert_edge_def)

lemma db_ok_events: "db_ok db \<Longrightarrow> db_ok (db\<lparr>db_events := es\<rparr>)"
  by (erule db_ok_cong) simp_all

lemma open_versions_filter: "open_versions i (filter p vs) = filter p (open_versions i vs)"
  unfolding open_versions_def by (induction vs) simp_all

lemma db_ok_filter_versions:
  assumes "db_ok db"
  shows "db_ok (db\<lparr>db_versions := filter p (db_versions db)\<rparr>)"
proof -
  have "length (open_versions i (filter p (db_versions db))) \<le> 1" for i
    using assms length_filter_le [of p "open_versions i (db_versions db)"]
    unfolding db_ok_def open_versions_filter by (meson le_trans)
  with assms show ?thesis unfolding db_ok_def mem_ids_def by simp
qed

lemma db_ok_relink:
  assumes "db_ok db" and "\<And>m. m_ID (f m) = m_ID m" and "set ds \<subseteq> set (db_documents db)"
    and "\<And>m. m \<in> set (db_memories db) \<Longrightarrow>
        m_DocumentID (if p m then f m else m) \<in> insert [] (d_ID ` set ds)"
  shows "db_ok ((update_rows p f db)\<lparr>db_documents := ds\<rparr>)"
proof -
  have "map m_ID (db_memories (update_rows p f db)) = map m_ID (db_memories db)"
    by (simp add: update_rows_def assms(2))
  moreover from this have "mem_ids (update_rows p f db) = mem_ids db"
    unfolding mem_ids_def by (metis list.set_map)
  moreover have "docs_ok (db_memories (update_rows p f db)) ds"
    unfolding docs_ok_def update_rows_def using assms(4) by (fastforce simp del: insert_iff)
  ultimately show ?thesis
    using assms(1) unfolding db_ok_def mem_ids_def by simp
qed

lemma db_ok_DeleteProject:
  assumes "db_ok db"
  shows "db_ok (fst (DeleteProject env p db))"
proof -
  define db1 where "db1 = db\<lparr>db_events := filter (\<lambda>e. ev_Project e \<noteq> p) (db_events db),
                   db_relationships := filter (\<lambda>r. r_Project r \<noteq> p) (db_relationships db),
                   db_chunks := filter (\<lambda>c. c_Project c \<noteq> p) (db_chunks db),
                   db_versions := filter (\<lambda>v. v_Project v \<noteq> p) (db_versions db)\<rparr>"
  define docs where "docs = map d_ID (filter (\<lambda>d. d_Project d = p) (db_documents db))"
  define db2 where "db2 = delete_memories (\<lambda>m. m_Project m = p) db1"
  let ?ds = "filter (\<lambda>d. d_Project d \<noteq> p) (db_documents db)"
  have "db_ok (db\<lparr>db_chunks := filter (\<lambda>c. c_Project c \<noteq> p) (db_chunks db)\<rparr>)"
    using assms db_okD(2,3) [OF assms] by (intro db_ok_chunks) (auto simp: distinct_map_filter)
  from db_ok_filter_edges [OF db_ok_filter_versions [OF this, of "\<lambda>v. v_Project v \<noteq> p"],
      of "\<lambda>r. r_Project r \<noteq> p"]
  have "db_ok db1" by (rule db_ok_cong) (simp_all add: db1_def)
  then have db2: "db_ok db2" unfolding db2_def by (rule db_ok_delete_memories)
  have "db_ok ((update_rows (\<lambda>m. m_DocumentID m \<in> set docs) (\<lambda>m. m\<lparr>m_DocumentID := []\<rparr>) db2)
      \<lparr>db_documents := ?ds\<rparr>)"
  proof (rule db_ok_relink [OF db2])
    fix m
    assume "m \<in> set (db_memories db2)"
    then have "m_DocumentID m \<in> insert [] (d_ID ` set (db_documents db))"
      using db_okD(7) [OF db2] by (auto simp: docs_ok_def db2_def db1_def)
    then show "m_DocumentID (if m_DocumentID m \<in> set docs then m\<lparr>m_DocumentID := []\<rparr> else m)
        \<in> insert [] (d_ID ` set ?ds)"
      by (auto simp: docs_def)
  qed (auto simp: db2_def db1_def)
  then have "db_ok ((update_rows (\<lambda>m. m_DocumentID m \<in> set docs) (\<lambda>m. m\<lparr>m_DocumentID := []\<rparr>) db2)
      \<lparr>db_documents := ?ds, db_meta := filter (\<lambda>((q, _), _). q \<noteq> p) (db_meta db)\<rparr>)"
    by (rule db_ok_cong) simp_all
  with assms show ?thesis
    unfolding DeleteProject_def Let_def in_tx_def db2_def db1_def docs_def
    by (cases "p = []") simp_all
qed

lemmas db_ok_in_tx = in_tx_keeps [where P = db_ok]

lemma update_row_same [simp]:
  "m_ID (update_row now w m r) = m_ID r" "m_DocumentID (update_row now w m r) = m_DocumentID r"
  "m_Project (update_row now w m r) = m_Project r" "m_ValidTo (update_row now w m r) = m_ValidTo r"
  "m_Immutable (update_row now w m r) = m_Immutable r" "m_Content (update_row now w m r) = m_Content m"
  by (simp_all add: update_row_def Let_def)

lemma db_ok_tx:
  assumes "db_ok db"
  shows "db_ok (fst (UpdateMemory bp sha parse env i c t n q db))"
    and "db_ok (fst (SoftDeleteMemory env p i r db))"
    and "db_ok (fst (DeleteMemoryAtomic env p i f db))"
    and "db_ok (fst (MergeMemoriesAtomic sha env p w l c' db))"
    and "db_ok (fst (record_feedback env e ids k db))"
    and "db_ok (fst (StoreRelationship bp env rel db))"
    and "db_ok (fst (DecayAllEdges env p d x db))"
    and "db_ok (fst (PruneStaleMemories env p h y db))"
    and "db_ok (fst (PruneColdDocuments env p h y db))"
proof -
  show "db_ok (fst (UpdateMemory bp sha parse env i c t n q db))"
    unfolding UpdateMemory_def using assms
    by - (rule db_ok_in_tx, assumption, auto simp: Let_def split: if_splits option.splits
        intro!: db_ok_update_rows db_ok_versionMemoryTx)
  show "db_ok (fst (SoftDeleteMemory env p i r db))"
    unfolding SoftDeleteMemory_def softDeleteMemoryExec_def using assms
    by (auto split: if_splits option.splits
        intro!: db_ok_in_tx db_ok_update_rows db_ok_versionMemoryTx)
  show "db_ok (fst (DeleteMemoryAtomic env p i f db))"
    unfolding DeleteMemoryAtomic_def using assms
    by (auto simp: Let_def split: if_splits option.splits
        intro!: db_ok_in_tx db_ok_delete_memories db_ok_delete_parts db_ok_orphan)
  show "db_ok (fst (MergeMemoriesAtomic sha env p w l c' db))"
    unfolding MergeMemoriesAtomic_def delete_loser_def rewrite_winner_def using assms
    by (auto simp: Let_def split: if_splits option.splits
        intro!: db_ok_in_tx db_ok_delete_memories db_ok_delete_parts db_ok_update_rows db_ok_versionMemoryTx)
  show "db_ok (fst (record_feedback env e ids k db))"
    unfolding record_feedback_def using assms
    by (auto simp: Let_def split: if_splits option.splits
        intro!: db_ok_in_tx db_ok_update_rows db_ok_events)
  show "db_ok (fst (StoreRelationship bp env rel db))"
    unfolding StoreRelationship_def using assms
    by (auto split: if_splits intro!: db_ok_in_tx db_ok_upsert active_exists_mem)
  show "db_ok (fst (DecayAllEdges env p d x db))"
    unfolding DecayAllEdges_def using assms
    by (auto simp: Let_def split: if_splits
        intro!: db_ok_in_tx db_ok_filter_edges db_ok_update_edges)
  show "db_ok (fst (PruneStaleMemories env p h y db))"
    unfolding PruneStaleMemories_def using assms
    by (auto simp: Let_def split: if_splits sum.splits
        intro!: db_ok_in_tx db_ok_delete_orphans db_ok_delete_memories)
  show "db_ok (fst (PruneColdDocuments env p h y db))"
    unfolding PruneColdDocuments_def using assms
    by (auto simp: Let_def split: if_splits sum.splits
        intro!: db_ok_in_tx db_ok_delete_orphans db_ok_delete_memories)
qed

lemma db_ok_link:
  assumes "db_ok db"
  shows "db_ok (fst (SetMemoryDocumentID env i d db))"
proof -
  have "db_ok (update_rows (\<lambda>m. m_ID m = i) (\<lambda>m. m\<lparr>m_DocumentID := d\<rparr>) db)"
    if "i \<in> m_ID ` set (db_memories db) \<longrightarrow> d \<in> d_ID ` set (db_documents db)"
  proof -
    have "db_ok ((update_rows (\<lambda>m. m_ID m = i) (\<lambda>m. m\<lparr>m_DocumentID := d\<rparr>) db)
        \<lparr>db_documents := db_documents db\<rparr>)"
      using that db_okD(7) [OF assms] by (intro db_ok_relink [OF assms]) (auto simp: docs_ok_def)
    then show ?thesis by (rule db_ok_cong) simp_all
  qed
  with assms show ?thesis by (auto simp: SetMemoryDocumentID_def exec_def)
qed

lemma db_ok_exec_rows:
  assumes "db_ok db" "\<And>m. m_ID (f m) = m_ID m" "\<And>m. m_DocumentID (f m) = m_DocumentID m"
  shows "db_ok (fst (exec env l (update_rows p f) db))"
  using assms by (simp add: exec_def db_ok_update_rows)

lemma db_ok_exec_chunks:
  assumes "db_ok db" "\<And>c. c_ID (f c) = c_ID c" "\<And>c. c_MemoryID (f c) = c_MemoryID c"
  shows "db_ok (fst (exec env l (update_chunks p f) db))"
  using assms by (simp add: exec_def db_ok_update_chunks)

lemma db_ok_delete_chunks: "db_ok db \<Longrightarrow> db_ok (delete_chunks_of i db)"
  using db_okD(2,3) [of db] unfolding delete_chunks_of_def
  by (intro db_ok_chunks) (auto simp: distinct_map_filter)

lemma db_ok_apply_op [inv_rules]:
  assumes ok: "db_ok db"
  shows "db_ok (apply_op bp sha parse eop db)"
proof -
  obtain env op where eop: "eop = (env, op)" by fastforce
  note db_ok_rules = db_ok_tx [OF ok] db_ok_DeleteProject [OF ok] db_ok_link [OF ok]
    db_ok_exec_rows [OF ok] db_ok_exec_chunks [OF ok]
  show ?thesis unfolding eop
  proof (cases op)
    case (DoStore m)
    with ok show "db_ok (apply_op bp sha parse (env, op) db)"
      by (auto simp: or_keep_def split: sum.splits intro: db_ok_store)
  next
    case (DoChunks cs)
    with ok show "db_ok (apply_op bp sha parse (env, op) db)"
      by (auto simp: or_keep_def split: sum.splits intro: db_ok_StoreChunksTx)
  next
    case (DoStoreDocument p c)
    have "db_ok (db\<lparr>db_documents := db_documents db @ [d]\<rparr>)" for d
      using ok by (rule db_ok_cong) auto
    with ok DoStoreDocument show "db_ok (apply_op bp sha parse (env, op) db)"
      by (simp add: StoreDocument_def)
  next
    case (DoMeta p k v)
    have "db_ok (db\<lparr>db_meta := ms\<rparr>)" for ms using ok by (rule db_ok_cong) auto
    with ok DoMeta show "db_ok (apply_op bp sha parse (env, op) db)"
      by (simp add: SetMeta_def exec_def)
  next
    case (DoLeases ids)
    have "db_ok (db\<lparr>db_leases := ls\<rparr>)" for ls using ok by (rule db_ok_cong) auto
    with ok DoLeases show "db_ok (apply_op bp sha parse (env, op) db)"
      by (simp add: EnqueueChunkLeases_def exec_def Let_def)
  next
    case (DoImportance i d f)
    then show "db_ok (apply_op bp sha parse (env, op) db)"
      by (simp add: UpdateDynamicImportance_def Let_def db_ok_rules)
  qed (simp_all add: ok db_ok_rules TouchMemory_def TouchMemories_def touched_def StoreSummary_def
      ClearSummaries_def UpdateMemoryHash_def NullAllEmbeddings_def Let_def UpdateChunkEmbedding_def
      UpdateChunkLastMatched_def StoreRetrievalEvent_def IncrementTimesRetrieved_def
      DecayStaleImportance_def BoostEdgesForMemory_def DecayEdgesForMemory_def exec_def
      db_ok_delete_chunks db_ok_update_chunks db_ok_update_edges db_ok_events db_ok_update_rows)
qed

interpretation tables: invariant_system db_ok "apply_op bp sha parse" db_ok for bp sha parse
  by unfold_locales (auto intro: inv_rules)

lemma empty_db_ok: "db_ok empty_db"
  by (simp add: db_ok_def docs_ok_def empty_db_def open_versions_def mem_ids_def)

text \<open>
  C1: Over every sequence of the backend's operations from empty tables, whatever calls the
  database fails, the tables stay consistent: memory and chunk ids are unique, every chunk and
  relationship refers to memories that exist, a pair of memories has at most one edge of each
  type, a memory has at most one open version, and every document a memory names exists.
\<close>

theorem tables_consistent: "db_ok (run_ops (apply_op bp sha parse) es empty_db)"
  using empty_db_ok by (rule tables.inv_reached)

section \<open>What happens to a row\<close>

definition snapshot :: "string \<Rightarrow> string \<Rightarrow> database \<Rightarrow> bool" where
  "snapshot i c db \<longleftrightarrow> (\<exists>v \<in> set (db_versions db). v_MemoryID v = i \<and> v_Content v = c)"

definition frozen :: "Memory \<Rightarrow> Memory \<Rightarrow> bool" where
  "frozen m m' \<longleftrightarrow> m_Content m' = m_Content m \<and> m_MemoryType m' = m_MemoryType m
     \<and> m_Tags m' = m_Tags m \<and> m_Importance m' = m_Importance m
     \<and> m_ValidFrom m' = m_ValidFrom m \<and> m_ValidTo m' = m_ValidTo m"

definition row_kept :: "database \<Rightarrow> Memory \<Rightarrow> Memory \<Rightarrow> bool" where
  "row_kept db' m m' \<longleftrightarrow> m_ID m' = m_ID m \<and> m_Immutable m' = m_Immutable m
     \<and> (m_ValidTo m \<noteq> None \<longrightarrow> m_ValidTo m' = m_ValidTo m)
     \<and> (m_Content m' = m_Content m \<or> snapshot (m_ID m) (m_Content m) db')"

definition forced_delete :: "db_op \<Rightarrow> bool" where
  "forced_delete op \<longleftrightarrow> (case op of DoDelete _ _ f \<Rightarrow> f | DoDeleteProject _ \<Rightarrow> True | _ \<Rightarrow> False)"

definition is_merge :: "db_op \<Rightarrow> bool" where
  "is_merge op \<longleftrightarrow> (case op of DoMerge _ _ _ _ \<Rightarrow> True | _ \<Rightarrow> False)"

definition drops_history :: "db_op \<Rightarrow> bool" where
  "drops_history op \<longleftrightarrow> (case op of DoDeleteProject _ \<Rightarrow> True | _ \<Rightarrow> False)"

text \<open>
  The memories after an operation are the ones before, some rewritten by \<open>f\<close> and some deleted,
  and new ones with new ids.
\<close>

definition evolves :: "db_op \<Rightarrow> database \<Rightarrow> database \<Rightarrow> bool" where
  "evolves op db db' \<longleftrightarrow> (\<exists>f p new. db_memories db' = map f (filter p (db_memories db)) @ new
     \<and> (\<forall>m \<in> set (db_memories db). row_kept db' m (f m)
          \<and> (m_Immutable m \<and> \<not> is_merge op \<longrightarrow> frozen m (f m))
          \<and> (m_Immutable m \<and> \<not> forced_delete op \<longrightarrow> p m))
     \<and> (\<forall>n \<in> set new. m_ID n \<notin> mem_ids db)
     \<and> (drops_history op \<or> (\<forall>i c. snapshot i c db \<longrightarrow> snapshot i c db')))"

lemma evolvesI:
  assumes "db_memories db' = map f (filter p (db_memories db))"
    and "\<And>m. m \<in> set (db_memories db) \<Longrightarrow> row_kept db' m (f m)"
    and "\<And>m. m \<in> set (db_memories db) \<Longrightarrow> m_Immutable m \<Longrightarrow> \<not> is_merge op \<Longrightarrow> frozen m (f m)"
    and "\<And>m. m \<in> set (db_memories db) \<Longrightarrow> m_Immutable m \<Longrightarrow> \<not> forced_delete op \<Longrightarrow> p m"
    and "drops_history op \<or> (\<forall>i c. snapshot i c db \<longrightarrow> snapshot i c db')"
  shows "evolves op db db'"
  unfolding evolves_def using assms by (intro exI [of _ f] exI [of _ p] exI [of _ "[]"]) auto

lemma frozen_refl [simp]: "frozen m m" by (simp add: frozen_def)

lemma row_kept_refl [simp]: "row_kept db m m" by (simp add: row_kept_def)

lemma evolves_same:
  "db_memories db' = db_memories db \<Longrightarrow> db_versions db' = db_versions db \<Longrightarrow> evolves op db db'"
  by (rule evolvesI [where f = "\<lambda>m. m" and p = "\<lambda>_. True"]) (simp_all add: snapshot_def)

lemma evolves_refl [simp]: "evolves op db db"
  by (simp add: evolves_same)

lemma evolves_update_rows:
  assumes "db_memories db' = db_memories (update_rows p f db)" "db_versions db' = db_versions db"
    and "\<And>m. m_ID (f m) = m_ID m \<and> m_Immutable (f m) = m_Immutable m \<and> frozen m (f m)"
  shows "evolves op db db'"
  by (rule evolvesI [where f = "\<lambda>m. if p m then f m else m" and p = "\<lambda>_. True"])
    (use assms in \<open>auto simp: update_rows_def row_kept_def frozen_def snapshot_def\<close>)

lemma evolves_exec_rows:
  assumes "\<And>m. m_ID (f m) = m_ID m \<and> m_Immutable (f m) = m_Immutable m \<and> frozen m (f m)"
  shows "evolves op db (fst (exec env l (update_rows p f) db))"
proof (cases "e_fault env l")
  case False
  have "evolves op db (update_rows p f db)" by (rule evolves_update_rows [OF refl]) (simp_all add: assms)
  with False show ?thesis by (simp add: exec_def)
qed (simp add: exec_def)

lemma evolves_filter:
  assumes "db_memories db' = filter p (db_memories db)" "db_versions db' = db_versions db"
    and "\<And>m. m \<in> set (db_memories db) \<Longrightarrow> m_Immutable m \<Longrightarrow> \<not> forced_delete op \<Longrightarrow> p m"
  shows "evolves op db db'"
  by (rule evolvesI [where f = "\<lambda>m. m" and p = p]) (use assms in \<open>simp_all add: snapshot_def row_kept_def\<close>)

lemma snapshot_versionMemoryTx:
  "snapshot i c (versionMemoryTx env m t r db)
     \<longleftrightarrow> snapshot i c db \<or> (i = m_ID m \<and> c = m_Content m)"
  by (auto simp: snapshot_def versionMemoryTx_def Let_def)

lemma snapshot_cong: "db_versions db' = db_versions db \<Longrightarrow> snapshot i c db' = snapshot i c db"
  by (simp add: snapshot_def)

lemma GetMemory_unique:
  assumes "db_ok db" "GetMemory p i db = Some m0"
  shows "m0 \<in> set (db_memories db)" "m_ID m0 = i" "m_ValidTo m0 = None"
    and "\<And>m. m \<in> set (db_memories db) \<Longrightarrow> m_ID m = i \<Longrightarrow> m = m0"
proof -
  show m0: "m0 \<in> set (db_memories db)" "m_ID m0 = i" "m_ValidTo m0 = None"
    using assms(2) by (auto simp: GetMemory_def find_Some_iff active_row_def)
  show "m \<in> set (db_memories db) \<Longrightarrow> m_ID m = i \<Longrightarrow> m = m0" for m
    using db_okD(1) [OF assms(1)] m0 by (metis distinct_map inj_onD)
qed

text \<open>Rewriting the active row of a memory after a snapshot of it was taken.\<close>

lemma evolves_rewrite:
  assumes "db_ok db" "GetMemory q i db = Some m0" "is_merge op \<or> \<not> m_Immutable m0"
    and "\<And>m. m_ID (f m) = m_ID m \<and> m_Immutable (f m) = m_Immutable m"
    and "db_memories db' = filter p (map (\<lambda>m. if m_ID m = i \<and> m_Project m = q then f m else m) (db_memories db))"
    and "\<And>m. p (if m_ID m = i \<and> m_Project m = q then f m else m) \<longleftrightarrow> p m"
    and "\<And>m. m \<in> set (db_memories db) \<Longrightarrow> m_Immutable m \<Longrightarrow> p m"
    and "db_versions db' = db_versions (versionMemoryTx env m0 t r db)"
  shows "evolves op db db'"
proof (rule evolvesI [where f = "\<lambda>m. if m_ID m = i \<and> m_Project m = q then f m else m" and p = p])
  note own = GetMemory_unique [OF assms(1,2)]
  show "db_memories db' = map (\<lambda>m. if m_ID m = i \<and> m_Project m = q then f m else m) (filter p (db_memories db))"
    using assms(5,6) by (simp add: filter_map comp_def)
  have snap: "snapshot j c db' \<longleftrightarrow> snapshot j c db \<or> (j = m_ID m0 \<and> c = m_Content m0)" for j c
    using snapshot_cong [OF assms(8)] by (simp add: snapshot_versionMemoryTx)
  show "row_kept db' m (if m_ID m = i \<and> m_Project m = q then f m else m)" if "m \<in> set (db_memories db)" for m
    using that assms(4) own(3) own(4) [OF that] snap by (auto simp: row_kept_def)
  show "frozen m (if m_ID m = i \<and> m_Project m = q then f m else m)"
    if "m \<in> set (db_memories db)" "m_Immutable m" "\<not> is_merge op" for m
    using that assms(3) own(4) [OF that(1)] by auto
  show "drops_history op \<or> (\<forall>i c. snapshot i c db \<longrightarrow> snapshot i c db')" by (simp add: snap)
qed (use assms(7) in auto)

lemma evolves_tx:
  "(\<And>r db'. body db = Commit r db' \<Longrightarrow> evolves op db db') \<Longrightarrow> evolves op db (fst (in_tx env body db))"
  by (rule in_tx_keeps [where P = "evolves op db"]) simp_all

lemma evolves_store:
  assumes "storeMemoryExec bp sha env m db = Inr db'"
  shows "evolves op db db'"
proof -
  obtain n where "db_memories db' = db_memories db @ [n]" "m_ID n \<notin> mem_ids db" "db_versions db' = db_versions db"
    using assms
    by (auto simp: storeMemoryExec_def Let_def mem_ids_def inserted_row_def prepare_memory_def split: if_splits)
  then show ?thesis
    unfolding evolves_def
    by (intro exI [of _ "\<lambda>m. m"] exI [of _ "\<lambda>_. True"] exI [of _ "[n]"])
      (auto simp: snapshot_def row_kept_def)
qed

lemma StoreChunksTx_simps:
  "StoreChunksTx env cs db = Inr db' \<Longrightarrow> db_memories db' = db_memories db \<and> db_versions db' = db_versions db"
  by (induction env cs db rule: StoreChunksTx.induct)
    (auto simp: insert_chunk_def split: if_splits sum.splits)

lemma evolves_rewrite_row:
  assumes "db_ok db" "GetMemory q i db = Some m0" "is_merge op \<or> \<not> m_Immutable m0"
    and "\<And>m. m_ID (f m) = m_ID m \<and> m_Immutable (f m) = m_Immutable m"
  shows "evolves op db (update_rows (\<lambda>r. m_ID r = i \<and> m_Project r = q) f (versionMemoryTx env m0 t r db))"
  by (rule evolves_rewrite [OF assms, where p = "\<lambda>_. True"]) (simp_all add: update_rows_def)

lemma evolves_update:
  assumes "db_ok db"
  shows "evolves op db (fst (UpdateMemory bp sha parse env i c t n q db))"
  unfolding UpdateMemory_def
  by (rule evolves_tx)
    (auto simp: Let_def split: if_splits option.splits intro!: evolves_rewrite_row [OF assms])

lemma evolves_soft_delete:
  assumes "db_ok db"
  shows "evolves op db (fst (SoftDeleteMemory env p i r db))"
  unfolding SoftDeleteMemory_def softDeleteMemoryExec_def
  by (rule evolves_tx)
    (auto split: if_splits option.splits intro!: evolves_rewrite_row [OF assms])

lemma find_SomeD: "find P xs = Some x \<Longrightarrow> x \<in> set xs \<and> P x"
  by (auto simp: find_Some_iff)

lemma evolves_delete:
  assumes "db_ok db"
  shows "evolves (DoDelete p i f) db (fst (DeleteMemoryAtomic env p i f db))"
  unfolding DeleteMemoryAtomic_def
proof (rule evolves_tx)
  fix r db'
  assume C: "(if e_fault env ''select'' then Fail DbFailed
       else case find (\<lambda>m. m_ID m = i \<and> m_Project m = p) (db_memories db) of
         None \<Rightarrow> Return False
       | Some m \<Rightarrow>
           if \<not> f \<and> m_Immutable m then Fail (ImmutableMemory i)
           else if e_fault env ''delete chunks'' then Fail DbFailed
           else if e_fault env ''delete relationships'' then Fail DbFailed
           else if e_fault env ''delete memory'' then Fail DbFailed
           else let
             db1 = delete_memories (\<lambda>r. m_ID r = i \<and> m_Project r = p)
                     (delete_edges_of i (delete_chunks_of i db))
           in if m_DocumentID m = [] then Commit True db1
              else if e_fault env ''delete document'' then Fail DbFailed
              else Commit True (DeleteOrphanedDocumentTx (m_DocumentID m) db1)) = Commit r db'"
  then obtain m0 where m0: "m0 \<in> set (db_memories db)" "m_ID m0 = i" "f \<or> \<not> m_Immutable m0"
    by (auto split: if_splits option.splits dest: find_SomeD)
  have "m \<in> set (db_memories db) \<Longrightarrow> m_ID m = i \<Longrightarrow> m = m0" for m
    using db_okD(1) [OF assms] m0 by (metis distinct_map inj_onD)
  moreover have "db_memories db' = filter (\<lambda>m. \<not> (m_ID m = i \<and> m_Project m = p)) (db_memories db)"
    "db_versions db' = db_versions db"
    using C by (auto simp: Let_def split: if_splits option.splits)
  ultimately show "evolves (DoDelete p i f) db db'"
    using m0(3) by (intro evolves_filter) (fastforce simp: forced_delete_def)+
qed

text \<open>Merging rewrites the winner, then deletes the loser or nothing.\<close>

definition merged_row :: "(string \<Rightarrow> string) \<Rightarrow> call_env \<Rightarrow> string \<Rightarrow> Memory \<Rightarrow> Memory" where
  "merged_row sha env c r = (if c = [] then r
     else r\<lparr>m_Content := c, m_ContentHash := Some (ContentHash sha c), m_UpdatedAt := e_now env\<rparr>)"

lemma merged_row_simps [simp]:
  "m_ID (merged_row sha env c r) = m_ID r" "m_Project (merged_row sha env c r) = m_Project r"
  "m_Immutable (merged_row sha env c r) = m_Immutable r"
  by (simp_all add: merged_row_def)

lemma rewrite_winner_simps [simp]:
  "db_memories (rewrite_winner sha env p w c db)
     = map (\<lambda>m. if m_ID m = w \<and> m_Project m = p then merged_row sha env c m else m) (db_memories db)"
  "db_versions (rewrite_winner sha env p w c db) = db_versions db"
  by (simp_all add: rewrite_winner_def merged_row_def update_rows_def map_idI)

lemma delete_loser_commit:
  assumes "delete_loser env p l db = Commit u db'" "db_ok db"
  obtains del where "db_memories db' = filter (\<lambda>m. \<not> (del \<and> m_ID m = l \<and> m_Project m = p)) (db_memories db)"
    and "db_versions db' = db_versions db"
    and "\<And>m. m \<in> set (db_memories db) \<Longrightarrow> del \<Longrightarrow> m_ID m = l \<Longrightarrow> \<not> m_Immutable m"
proof (cases "find (\<lambda>m. m_ID m = l \<and> m_Project m = p) (db_memories db)")
  case None
  then show thesis using assms(1) by (intro that [of False]) (auto simp: delete_loser_def split: if_splits)
next
  case (Some m0)
  note m0 = find_SomeD [OF Some]
  have "m \<in> set (db_memories db) \<Longrightarrow> m_ID m = l \<Longrightarrow> m = m0" for m
    using db_okD(1) [OF assms(2)] m0 by (metis distinct_map inj_onD)
  then show thesis
    using assms(1) Some by (intro that [of True]) (auto simp: delete_loser_def split: if_splits)
qed

lemma evolves_merge:
  assumes ok: "db_ok db"
  shows "evolves (DoMerge p w l c) db (fst (MergeMemoriesAtomic sha env p w l c db))"
  unfolding MergeMemoriesAtomic_def
proof (rule evolves_tx, goal_cases)
  case (1 u db')
  then obtain m0 where m0: "GetMemory p w db = Some m0"
    and del: "delete_loser env p l (rewrite_winner sha env p w c (versionMemoryTx env m0 ''update'' [] db))
      = Commit u db'"
    by (auto split: if_splits option.splits)
  have "db_ok (rewrite_winner sha env p w c (versionMemoryTx env m0 ''update'' [] db))"
    unfolding rewrite_winner_def using db_ok_versionMemoryTx [OF ok] by (auto intro!: db_ok_update_rows)
  then show ?case
  proof (rule delete_loser_commit [OF del])
    fix gone
    assume mems: "db_memories db' = filter (\<lambda>m. \<not> (gone \<and> m_ID m = l \<and> m_Project m = p))
        (db_memories (rewrite_winner sha env p w c (versionMemoryTx env m0 ''update'' [] db)))"
      and vers: "db_versions db'
        = db_versions (rewrite_winner sha env p w c (versionMemoryTx env m0 ''update'' [] db))"
      and loser: "\<And>m. m \<in> set (db_memories (rewrite_winner sha env p w c
            (versionMemoryTx env m0 ''update'' [] db)))
          \<Longrightarrow> gone \<Longrightarrow> m_ID m = l \<Longrightarrow> \<not> m_Immutable m"
    have "\<not> (gone \<and> m_ID m = l \<and> m_Project m = p)" if "m \<in> set (db_memories db)" "m_Immutable m" for m
      using loser [of "if m_ID m = w \<and> m_Project m = p then merged_row sha env c m else m"] that
      by (cases "m_ID m = w \<and> m_Project m = p") auto
    then show ?thesis
      by (intro evolves_rewrite [OF ok m0 _ _ mems [unfolded rewrite_winner_simps versionMemoryTx_simps] _ _
            vers [unfolded rewrite_winner_simps]]) (auto simp: is_merge_def)
  qed
qed

lemma evolves_feedback: "evolves op db (fst (record_feedback env e ids k db))"
proof -
  have "evolves op db (update_rows p2 f2 (update_rows p1 f1 (db\<lparr>db_events := es\<rparr>)))"
    if "\<And>m. m_ID (f1 m) = m_ID m \<and> m_Immutable (f1 m) = m_Immutable m \<and> frozen m (f1 m)"
      "\<And>m. m_ID (f2 m) = m_ID m \<and> m_Immutable (f2 m) = m_Immutable m \<and> frozen m (f2 m)" for p1 f1 p2 f2 es
    by (rule evolvesI [where f = "(\<lambda>m. if p2 m then f2 m else m) \<circ> (\<lambda>m. if p1 m then f1 m else m)"
          and p = "\<lambda>_. True"])
      (use that in \<open>simp_all add: update_rows_def snapshot_def row_kept_def frozen_def\<close>)
  then show ?thesis
    unfolding record_feedback_def
    by (auto simp: Let_def frozen_def split: if_splits option.splits intro!: evolves_tx)
qed

lemma evolves_prune:
  "evolves op db (fst (PruneStaleMemories env p h y db))"
  "evolves op db (fst (PruneColdDocuments env p h y db))"
  unfolding PruneStaleMemories_def PruneColdDocuments_def
  by (auto simp: Let_def stale_row_def cold_row_def split: if_splits sum.splits
      intro!: evolves_tx evolves_filter)

lemma evolves_project: "evolves (DoDeleteProject p) db (fst (DeleteProject env p db))"
proof (cases "p = []")
  case False
  show ?thesis
    unfolding DeleteProject_def if_not_P [OF False]
  proof (rule evolves_tx, goal_cases)
    case (1 r db')
    define docs where "docs = map d_ID (filter (\<lambda>d. d_Project d = p) (db_documents db))"
    from 1 have "db_memories db' = map (\<lambda>m. if m_DocumentID m \<in> set docs then m\<lparr>m_DocumentID := []\<rparr> else m)
        (filter (\<lambda>m. m_Project m \<noteq> p) (db_memories db))"
      unfolding docs_def Let_def by (auto simp: update_rows_def split: if_splits)
    then show ?case
      by (rule evolvesI) (simp_all add: row_kept_def frozen_def forced_delete_def drops_history_def)
  qed
qed (simp add: DeleteProject_def)

text \<open>Operations that set other columns, or leave memories and versions alone.\<close>

lemma evolves_columns [simp]:
  "evolves op db (fst (TouchMemory bp env i db))" "evolves op db (fst (TouchMemories env ids db))"
  "evolves op db (fst (StoreSummary bp env i s db))" "evolves op db (fst (ClearSummaries env p db))"
  "evolves op db (fst (UpdateMemoryHash bp env i h db))"
  "evolves op db (fst (SetMemoryDocumentID env i d db))"
  "evolves op db (fst (IncrementTimesRetrieved env ids db))"
  "evolves op db (fst (UpdateDynamicImportance env i x y db))"
  "evolves op db (fst (DecayStaleImportance env p y db))"
  by (simp_all add: TouchMemory_def TouchMemories_def touched_def StoreSummary_def ClearSummaries_def
      UpdateMemoryHash_def SetMemoryDocumentID_def IncrementTimesRetrieved_def
      UpdateDynamicImportance_def DecayStaleImportance_def Let_def frozen_def evolves_exec_rows)

lemma evolves_exec:
  "db_memories (f db) = db_memories db \<Longrightarrow> db_versions (f db) = db_versions db
     \<Longrightarrow> evolves op db (fst (exec env l f db))"
  by (simp add: exec_def evolves_same)

lemma evolves_others [simp]:
  "evolves op db (fst (StoreDocument sha env p c db))" "evolves op db (fst (SetMeta env p k v db))"
  "evolves op db (fst (exec env l (delete_chunks_of i) db))"
  "evolves op db (fst (NullAllEmbeddings env p db))"
  "evolves op db (fst (UpdateChunkEmbedding env i w db))"
  "evolves op db (fst (UpdateChunkLastMatched env i db))"
  "evolves op db (fst (EnqueueChunkLeases env ids db))"
  "evolves op db (fst (StoreRetrievalEvent env ev db))"
  "evolves op db (fst (BoostEdgesForMemory env i x db))"
  "evolves op db (fst (DecayEdgesForMemory env i x db))"
  by (simp_all add: StoreDocument_def SetMeta_def NullAllEmbeddings_def UpdateChunkEmbedding_def
      UpdateChunkLastMatched_def EnqueueChunkLeases_def StoreRetrievalEvent_def
      BoostEdgesForMemory_def DecayEdgesForMemory_def Let_def update_chunks_def update_edges_def
      evolves_exec evolves_same)

lemma evolves_edges [simp]:
  "evolves op db (fst (DecayAllEdges env p x y db))" "evolves op db (fst (StoreRelationship bp env rel db))"
  unfolding DecayAllEdges_def StoreRelationship_def
  by (rule evolves_tx, fastforce simp: Let_def update_edges_def split: if_splits intro!: evolves_same)+

text \<open>Every operation on consistent tables.\<close>

lemma evolves_apply_op:
  assumes "db_ok db"
  shows "evolves op db (apply_op bp sha parse (env, op) db)"
proof (cases op)
  case (DoStore m)
  then show ?thesis by (auto simp: or_keep_def evolves_store split: sum.splits)
next
  case (DoChunks cs)
  then show ?thesis
    by (auto simp: or_keep_def dest: StoreChunksTx_simps intro!: evolves_same split: sum.splits)
qed (auto simp: evolves_update evolves_soft_delete evolves_delete evolves_merge evolves_feedback
    evolves_prune evolves_project assms)

section \<open>History and immutability over a run\<close>

lemma evolves_present:
  assumes "db_ok db" "evolves op db db'" "m \<in> set (db_memories db)" "m_ID m \<in> mem_ids db'"
  obtains m' where "m' \<in> set (db_memories db')" "row_kept db' m m'"
proof -
  obtain f p new where ev: "db_memories db' = map f (filter p (db_memories db)) @ new"
    "\<And>n. n \<in> set (db_memories db) \<Longrightarrow> row_kept db' n (f n)" "\<And>n. n \<in> set new \<Longrightarrow> m_ID n \<notin> mem_ids db"
    using assms(2) by (auto simp: evolves_def)
  from assms(4) obtain m' where m': "m' \<in> set (db_memories db')" "m_ID m' = m_ID m"
    by (auto simp: mem_ids_def)
  have "m' \<notin> set new" using ev(3) assms(3) m'(2) by (auto simp: mem_ids_def)
  with m' ev(1) obtain n where n: "n \<in> set (db_memories db)" "m' = f n" by auto
  with ev(2) m'(2) have "m_ID n = m_ID m" by (auto simp: row_kept_def)
  with n(1) assms(3) db_okD(1) [OF assms(1)] have "n = m" by (metis distinct_map inj_onD)
  with n ev(2) m'(1) show thesis by (intro that [of "f m"]) auto
qed

definition recorded :: "database \<Rightarrow> Memory \<Rightarrow> bool" where
  "recorded db m \<longleftrightarrow> (\<exists>m' \<in> set (db_memories db). m_ID m' = m_ID m
     \<and> (m_ValidTo m \<noteq> None \<longrightarrow> m_ValidTo m' = m_ValidTo m)
     \<and> (m_Content m' = m_Content m \<or> snapshot (m_ID m) (m_Content m) db))"

lemma recorded_step:
  assumes ok: "db_ok db" and ev: "evolves op db db'" "\<not> drops_history op"
    and "recorded db m" "m_ID m \<in> mem_ids db'"
  shows "recorded db' m"
proof -
  obtain m1 where m1: "m1 \<in> set (db_memories db)" "m_ID m1 = m_ID m"
    "m_ValidTo m \<noteq> None \<longrightarrow> m_ValidTo m1 = m_ValidTo m"
    "m_Content m1 = m_Content m \<or> snapshot (m_ID m) (m_Content m) db"
    using assms(4) by (auto simp: recorded_def)
  then obtain m2 where m2: "m2 \<in> set (db_memories db')" "row_kept db' m1 m2"
    using evolves_present [OF ok ev(1) m1(1)] assms(5) by metis
  have "snapshot i c db \<Longrightarrow> snapshot i c db'" for i c using ev by (auto simp: evolves_def)
  with m1 m2 show ?thesis unfolding recorded_def row_kept_def by (intro bexI [of _ m2]) auto
qed

lemma frozen_trans: "frozen a b \<Longrightarrow> frozen b c \<Longrightarrow> frozen a c"
  by (simp add: frozen_def)

definition held :: "database \<Rightarrow> Memory \<Rightarrow> bool" where
  "held db m \<longleftrightarrow> (\<exists>m' \<in> set (db_memories db). m_ID m' = m_ID m \<and> m_Immutable m' \<and> frozen m m')"

lemma held_step:
  assumes "evolves op db db'" "\<not> is_merge op" "\<not> forced_delete op" "held db m"
  shows "held db' m"
proof -
  obtain m1 where m1: "m1 \<in> set (db_memories db)" "m_ID m1 = m_ID m" "m_Immutable m1" "frozen m m1"
    using assms(4) by (auto simp: held_def)
  obtain f p new where ev: "db_memories db' = map f (filter p (db_memories db)) @ new"
    "row_kept db' m1 (f m1)" "frozen m1 (f m1)" "p m1"
    using assms(1-3) m1 unfolding evolves_def by blast
  with m1 show ?thesis
    unfolding held_def by (intro bexI [of _ "f m1"]) (auto simp: row_kept_def frozen_def)
qed

text \<open>
  C4: No content is lost. Take any memory of the tables after any run of operations. After any
  further operations other than deleting a project, as long as the memory's row is not deleted,
  the content the memory had is still its content or is that of one of its recorded versions, and
  a memory that was forgotten is still forgotten, at the same time.
\<close>

theorem content_never_lost:
  assumes "m \<in> set (db_memories (run_ops (apply_op bp sha parse) es empty_db))"
    and "\<forall>(env, op) \<in> set fs. \<not> drops_history op"
    and "\<forall>k \<le> length fs. m_ID m \<in> mem_ids (run_ops (apply_op bp sha parse) (es @ take k fs) empty_db)"
  shows "recorded (run_ops (apply_op bp sha parse) (es @ fs) empty_db) m"
  using assms(2,3)
proof (induction fs rule: rev_induct)
  case Nil
  with assms(1) show ?case by (auto simp: recorded_def)
next
  case (snoc e fs)
  obtain env op where e: "e = (env, op)" by force
  let ?db = "run_ops (apply_op bp sha parse) (es @ fs) empty_db"
  have ok: "db_ok ?db" using empty_db_ok by (rule tables.inv_reached)
  have "recorded ?db m"
  proof (rule snoc.IH)
    show "\<forall>k \<le> length fs. m_ID m \<in> mem_ids (run_ops (apply_op bp sha parse) (es @ take k fs) empty_db)"
      using snoc.prems(2) by (auto dest: le_SucI)
  qed (use snoc.prems(1) in auto)
  moreover have "m_ID m \<in> mem_ids (apply_op bp sha parse e ?db)"
    using snoc.prems(2) [rule_format, of "Suc (length fs)"] by (simp add: run_ops_append)
  ultimately show ?case
    using recorded_step [OF ok evolves_apply_op [OF ok]] snoc.prems(1) by (auto simp: e run_ops_append)
qed

text \<open>
  C6: Immutability. A memory stored as immutable keeps its row, its content, type, tags,
  importance and validity through every sequence of operations, as long as none of them is a
  merge, a forced delete or the deletion of a project.
\<close>

theorem immutable_kept:
  assumes "m \<in> set (db_memories (run_ops (apply_op bp sha parse) es empty_db))" "m_Immutable m"
    and "\<forall>(env, op) \<in> set fs. \<not> is_merge op \<and> \<not> forced_delete op"
  shows "held (run_ops (apply_op bp sha parse) (es @ fs) empty_db) m"
  using assms(3)
proof (induction fs rule: rev_induct)
  case Nil
  with assms(1,2) show ?case by (auto simp: held_def)
next
  case (snoc e fs)
  obtain env op where e: "e = (env, op)" by force
  let ?db = "run_ops (apply_op bp sha parse) (es @ fs) empty_db"
  have ok: "db_ok ?db" using empty_db_ok by (rule tables.inv_reached)
  show ?case
    using held_step [OF evolves_apply_op [OF ok]] snoc by (auto simp: e run_ops_append)
qed

lemma find_active_map:
  "find (active_row p w) ms = Some m \<Longrightarrow> find (active_row p w)
     (map (\<lambda>m. if m_ID m = w \<and> m_Project m = p then merged_row sha env c m else m) ms)
   = Some (merged_row sha env c m)"
  by (induction ms) (auto simp: active_row_def merged_row_def split: if_splits)

lemma find_active_filter:
  "w \<noteq> l \<Longrightarrow> find (active_row p w) (filter (\<lambda>m. \<not> (m_ID m = l \<and> m_Project m = p)) ms) = find (active_row p w) ms"
  by (induction ms) (auto simp: active_row_def)

lemma delete_loser_mutable:
  assumes "\<And>l. \<not> e_fault env l" "w \<noteq> l" "\<forall>r \<in> set (db_memories db). m_ID r = l \<longrightarrow> \<not> m_Immutable r"
  obtains db' where "delete_loser env p l db = Commit () db'" "GetMemory p w db' = GetMemory p w db"
    "GetChunksForMemory w db' = GetChunksForMemory w db"
proof (cases "find (\<lambda>m. m_ID m = l \<and> m_Project m = p) (db_memories db)")
  case None
  then show thesis using assms by (intro that [of db]) (simp_all add: delete_loser_def)
next
  case (Some m0)
  then have "\<not> m_Immutable m0" using find_SomeD [OF Some] assms(3) by blast
  with Some have "delete_loser env p l db = Commit ()
      (delete_memories (\<lambda>r. m_ID r = l \<and> m_Project r = p) (delete_edges_of l (delete_chunks_of l db)))"
    using assms(1) by (simp add: delete_loser_def)
  then show thesis
  proof (rule that)
    show "GetMemory p w (delete_memories (\<lambda>r. m_ID r = l \<and> m_Project r = p)
        (delete_edges_of l (delete_chunks_of l db))) = GetMemory p w db"
      unfolding GetMemory_def by (simp add: find_active_filter [OF assms(2), simplified])
    have "filter (\<lambda>c. c_MemoryID c = w) (db_chunks (delete_memories (\<lambda>r. m_ID r = l \<and> m_Project r = p)
        (delete_edges_of l (delete_chunks_of l db)))) = filter (\<lambda>c. c_MemoryID c = w) (db_chunks db)"
      using assms(2) by (auto simp: delete_memories_def delete_chunks_of_def delete_edges_of_def Let_def
          intro!: filter_cong)
    then show "GetChunksForMemory w (delete_memories (\<lambda>r. m_ID r = l \<and> m_Project r = p)
        (delete_edges_of l (delete_chunks_of l db))) = GetChunksForMemory w db"
      by (simp add: GetChunksForMemory_def)
  qed
qed

text \<open>
  A merge with new content rewrites an immutable winner. The loser's immutability is checked,
  the winner's is not: after the merge the memory, still marked immutable, has the new content,
  and its chunks and its summary are those of the old one.
\<close>

theorem merge_rewrites_immutable:
  assumes "GetMemory p w db = Some m" "m_Immutable m" "c \<noteq> []" "\<And>l. \<not> e_fault env l" "w \<noteq> l"
    and "\<forall>r \<in> set (db_memories db). m_ID r = l \<longrightarrow> \<not> m_Immutable r"
  shows "\<exists>db' m'. MergeMemoriesAtomic sha env p w l c db = (db', Inr ()) \<and> GetMemory p w db' = Some m'
    \<and> m_Content m' = c \<and> m_Immutable m' \<and> m_Summary m' = m_Summary m
    \<and> GetChunksForMemory w db' = GetChunksForMemory w db"
proof -
  let ?db2 = "rewrite_winner sha env p w c (versionMemoryTx env m ''update'' [] db)"
  have mutable: "\<forall>r \<in> set (db_memories ?db2). m_ID r = l \<longrightarrow> \<not> m_Immutable r"
    using assms(5,6) by fastforce
  obtain db' where db': "delete_loser env p l ?db2 = Commit () db'"
    "GetMemory p w db' = GetMemory p w ?db2" "GetChunksForMemory w db' = GetChunksForMemory w ?db2"
    by (rule delete_loser_mutable [OF assms(4,5) mutable, of p])
  have "MergeMemoriesAtomic sha env p w l c db = (db', Inr ())"
    using assms(1,4) db'(1) by (simp add: MergeMemoriesAtomic_def in_tx_def)
  moreover have "GetMemory p w ?db2 = Some (merged_row sha env c m)"
    using find_active_map assms(1) by (simp add: GetMemory_def)
  moreover have "GetChunksForMemory w ?db2 = GetChunksForMemory w db"
    by (simp add: GetChunksForMemory_def rewrite_winner_def)
  ultimately show ?thesis using assms(2,3) db'(2,3) by (simp add: merged_row_def)
qed

section \<open>Instances\<close>

definition calm :: call_env where
  "calm = \<lparr>e_now = 5, e_newid = ''n'', e_fault = (\<lambda>_. False)\<rparr>"

definition note_memory :: "string \<Rightarrow> bool \<Rightarrow> Memory" where
  "note_memory i imm = \<lparr>m_ID = i, m_Content = ''old'', m_RawBody = [], m_MemoryType = ''context'',
     m_Project = ''p'', m_Tags = [], m_Importance = 2, m_AccessCount = 0, m_LastAccessed = 0,
     m_CreatedAt = 0, m_UpdatedAt = 0, m_Immutable = imm, m_ExpiresAt = None, m_Summary = Some ''s'',
     m_ContentHash = None, m_StorageMode = ''focused'', m_ValidFrom = None, m_ValidTo = None,
     m_InvalidationReason = None, m_PatternConfidence = None, m_DynamicImportance = None,
     m_RetrievalIntervalHrs = 24, m_NextReviewAt = None, m_TimesRetrieved = 0, m_TimesUseful = 0,
     m_RetrievalPrecision = None, m_EpisodeID = [], m_DocumentID = []\<rparr>"

definition stored_note :: "string \<Rightarrow> bool \<Rightarrow> Memory" where
  "stored_note i imm = inserted_row (prepare_memory ''p'' (\<lambda>s. s) 5 (note_memory i imm))"

lemma stored_note_simps [simp]:
  "m_ID (stored_note i imm) = i" "m_Project (stored_note i imm) = ''p''" "m_ValidTo (stored_note i imm) = None"
  "m_Immutable (stored_note i imm) = imm" "m_Content (stored_note i imm) = ''old''"
  by (simp_all add: stored_note_def inserted_row_def prepare_memory_def note_memory_def)

lemma store_note:
  "apply_op ''p'' (\<lambda>s. s) (\<lambda>_. None) (calm, DoStore (note_memory i imm)) empty_db
     = empty_db\<lparr>db_memories := [stored_note i imm]\<rparr>"
  by (simp add: or_keep_def storeMemoryExec_def calm_def empty_db_def stored_note_def)
    (simp add: prepare_memory_def note_memory_def)

lemma update_note:
  "db_memories (apply_op ''p'' (\<lambda>s. s) (\<lambda>_. None) (calm, DoUpdate i (Some c) None None None)
      (empty_db\<lparr>db_memories := [stored_note i False]\<rparr>))
    = [update_row 5 True (updated_memory (\<lambda>s. s) (\<lambda>_. None) (Some c) None None None (stored_note i False))
        (stored_note i False)]"
  by (simp add: UpdateMemory_def in_tx_def calm_def GetMemory_def active_row_def update_rows_def Let_def)

theorem content_never_lost_witness:
  "recorded (run_ops (apply_op ''p'' (\<lambda>s. s) (\<lambda>_. None))
     [(calm, DoStore (note_memory ''a'' False)), (calm, DoUpdate ''a'' (Some ''new'') None None None)]
     empty_db) (stored_note ''a'' False)"
proof -
  have "k \<le> 1 \<Longrightarrow> ''a'' \<in> mem_ids (run_ops (apply_op ''p'' (\<lambda>s. s) (\<lambda>_. None))
      ([(calm, DoStore (note_memory ''a'' False))]
        @ take k [(calm, DoUpdate ''a'' (Some ''new'') None None None)]) empty_db)" for k :: nat
    unfolding le_Suc_eq One_nat_def
    by (auto simp: store_note update_note mem_ids_def update_row_def simp del: apply_op.simps)
  then show ?thesis
    using content_never_lost [of "stored_note ''a'' False" "''p''" "\<lambda>s. s" "\<lambda>_. None"
        "[(calm, DoStore (note_memory ''a'' False))]" "[(calm, DoUpdate ''a'' (Some ''new'') None None None)]"]
    by (simp add: store_note drops_history_def del: apply_op.simps)
qed

theorem immutable_kept_witness:
  "held (run_ops (apply_op ''p'' (\<lambda>s. s) (\<lambda>_. None))
     [(calm, DoStore (note_memory ''a'' True)), (calm, DoSoftDelete ''p'' ''a'' ''r'')] empty_db)
     (stored_note ''a'' True)"
  using immutable_kept [of "stored_note ''a'' True" "''p''" "\<lambda>s. s" "\<lambda>_. None"
      "[(calm, DoStore (note_memory ''a'' True))]" "[(calm, DoSoftDelete ''p'' ''a'' ''r'')]"]
  by (simp add: store_note is_merge_def forced_delete_def del: apply_op.simps)

theorem merge_rewrites_immutable_witness:
  "\<exists>db' m'. MergeMemoriesAtomic (\<lambda>s. s) calm ''p'' ''a'' ''b'' ''new''
      (empty_db\<lparr>db_memories := [stored_note ''a'' True, stored_note ''b'' False]\<rparr>) = (db', Inr ())
    \<and> GetMemory ''p'' ''a'' db' = Some m' \<and> m_Content m' = ''new'' \<and> m_Immutable m'"
  using merge_rewrites_immutable [of "''p''" "''a''"
      "empty_db\<lparr>db_memories := [stored_note ''a'' True, stored_note ''b'' False]\<rparr>"
      "stored_note ''a'' True" "''new''" calm "''b''" "\<lambda>s. s"]
  by (simp add: GetMemory_def active_row_def calm_def) blast

end
