(* ===== verification/Chunker.thy ===== *)
theory Chunker
  imports Go_Regexp
begin

text \<open>
  Chunking (\<^verbatim>\<open>src/internal/chunk/chunker.go\<close>): sentences, overlapping sentence windows,
  paragraphs and headings, and the word-level similarity that decides about duplicates. SHA-256
  is the argument \<open>sha\<close>, the Unicode part of \<^verbatim>\<open>strings.ToLower\<close> the argument \<open>u\<close>, and the parsed
  value of \<^verbatim>\<open>ENGRAM_DEDUP_THRESHOLD\<close> the argument \<open>env\<close>, \<open>None\<close> when it is unset or not a
  number.
\<close>

section \<open>Patterns\<close>

definition heading_prefix :: regex where
  "heading_prefix = seqs [LineStart, lit ''#'', Opt (lit ''#''), Plus (Rune space_class)]"

definition heading_title :: regex where
  "heading_title = Seq (Plus (Rune any_char)) LineEnd"

definition headingRE :: regex where
  "headingRE = Seq heading_prefix heading_title"

definition whitespaceRE :: regex where
  "whitespaceRE = Plus (Rune space_class)"

definition sentenceSplitRE :: regex where
  "sentenceSplitRE = Seq (Rune (one_of ''.!?'')) (Plus (Rune space_class))"

definition abbreviationProtectRE :: regex where
  "abbreviationProtectRE = seqs [WordB,
     alts (map ilit [''mr'', ''mrs'', ''dr'', ''prof'', ''sr'', ''jr'', ''vs'', ''etc'', ''u.s'', ''u.k'',
       ''inc'', ''ltd'', ''corp'', ''co'', ''ave'', ''blvd'', ''dept'', ''est'']),
     lit ''.'']"

definition paragraphSplitRE :: regex where
  "paragraphSplitRE = Seq (lit [CHR 0x0A]) (Plus (lit [CHR 0x0A]))"

record ChunkCandidate =
  cc_Text :: string
  cc_SectionHeading :: string
  cc_HasHeading :: bool
  cc_ChunkType :: string

definition DefaultTargetChunkChars :: int where
  "DefaultTargetChunkChars = 2000"

section \<open>Hash and similarity\<close>

definition hex_digit :: "nat \<Rightarrow> char" where
  "hex_digit n = ''0123456789abcdef'' ! n"

definition hex :: "byte list \<Rightarrow> string" where
  "hex bs = concat (map (\<lambda>b. [hex_digit (unat b div 16), hex_digit (unat b mod 16)]) bs)"

definition normalize_ws :: "(string \<Rightarrow> string) \<Rightarrow> string \<Rightarrow> string" where
  "normalize_ws u s = ReplaceAllString whitespaceRE '' '' (TrimSpace (ToLower u s))"

definition ChunkHash :: "(string \<Rightarrow> string) \<Rightarrow> (string \<Rightarrow> byte list) \<Rightarrow> string \<Rightarrow> string" where
  "ChunkHash u sha s = take 32 (hex (sha (normalize_ws u s)))"

text \<open>\<^verbatim>\<open>strings.Split(s, sep)\<close> for a separator of one byte.\<close>

fun split_char :: "char \<Rightarrow> string \<Rightarrow> string list" where
  "split_char sep [] = [[]]"
| "split_char sep (c # s) =
     (if c = sep then [] # split_char sep s
      else case split_char sep s of [] \<Rightarrow> [[c]] | w # ws \<Rightarrow> (c # w) # ws)"

definition wordSet :: "(string \<Rightarrow> string) \<Rightarrow> string \<Rightarrow> string list" where
  "wordSet u s = remdups (filter (\<lambda>w. w \<noteq> []) (split_char CHR '' '' (normalize_ws u s)))"

definition JaccardSimilarity :: "(string \<Rightarrow> string) \<Rightarrow> string \<Rightarrow> string \<Rightarrow> float64" where
  "JaccardSimilarity u a b =
     (let wordsA = wordSet u a; wordsB = wordSet u b in
      if length wordsA = 0 \<or> length wordsB = 0 then 0
      else
        let intersection = length (filter (\<lambda>w. w \<in> set wordsB) wordsA);
            unions = length wordsA + length wordsB - intersection in
        of_nat intersection / of_nat unions)"

definition defaultDedupThreshold :: "float64 option \<Rightarrow> float64" where
  "defaultDedupThreshold env =
     (case env of None \<Rightarrow> 3 / 4 | Some f \<Rightarrow> if f \<ge> 0 \<and> f \<le> 1 then f else 3 / 4)"

definition IsDuplicate ::
  "(string \<Rightarrow> string) \<Rightarrow> float64 option \<Rightarrow> string \<Rightarrow> string list \<Rightarrow> float64 \<Rightarrow> bool" where
  "IsDuplicate u env newText existingTexts threshold =
     (let threshold = (if threshold < 0 then defaultDedupThreshold env else threshold) in
      list_ex (\<lambda>existing. JaccardSimilarity u newText existing \<ge> threshold) existingTexts)"

section \<open>Sentences\<close>

definition NUL :: char where
  "NUL = CHR 0x00"

definition protectAbbreviations :: "string \<Rightarrow> string" where
  "protectAbbreviations s =
     ReplaceAllStringFunc abbreviationProtectRE (map (\<lambda>c. if c = CHR ''.'' then NUL else c)) s"

definition restoreAbbreviations :: "string \<Rightarrow> string" where
  "restoreAbbreviations s = map (\<lambda>c. if c = NUL then CHR ''.'' else c) s"

definition nonempty :: "string \<Rightarrow> string list" where
  "nonempty s = (if s = [] then [] else [s])"

fun sentence_parts :: "string \<Rightarrow> nat \<Rightarrow> (nat \<times> nat) list \<Rightarrow> string list" where
  "sentence_parts s prev [] = nonempty (restoreAbbreviations (TrimSpace (drop prev s)))"
| "sentence_parts s prev ((b, e) # locs) =
     nonempty (restoreAbbreviations (TrimSpace (slice s prev e))) @ sentence_parts s e locs"

definition splitSentences :: "string \<Rightarrow> string list" where
  "splitSentences s =
     (let s = TrimSpace s in
      if s = [] then []
      else
        let s = protectAbbreviations s;
            locs = find_all sentenceSplitRE s 0 in
        if locs = [] then [restoreAbbreviations s] else sentence_parts s 0 locs)"

definition lastSentence :: "string \<Rightarrow> string" where
  "lastSentence s = (let sentences = splitSentences s in if sentences = [] then [] else last sentences)"

section \<open>Sentence windows\<close>

text \<open>
  The loop that \<^verbatim>\<open>ChunkText\<close> and \<^verbatim>\<open>sentenceWindow\<close> share: they differ in what of the finished
  chunk is carried over, which \<open>carry\<close> gives with its length.
\<close>

abbreviation len :: "string \<Rightarrow> int" where "len s \<equiv> int (length s)"

definition sep_len :: "'a list \<Rightarrow> int" where
  "sep_len xs = (if xs = [] then 0 else 1)"

fun window_loop ::
  "int \<Rightarrow> (string list \<Rightarrow> string list \<times> int) \<Rightarrow> string list \<Rightarrow> string list \<Rightarrow> int \<Rightarrow> string list" where
  "window_loop maxChars carry [] current currentLen =
     (if current = [] then [] else [Join current '' ''])"
| "window_loop maxChars carry (sentence # sentences) current currentLen =
     (if currentLen + (len sentence + sep_len current) > maxChars \<and> current \<noteq> []
      then
        let (overlap, overlapLen) = carry current in
        Join current '' '' # window_loop maxChars carry sentences (overlap @ [sentence])
          (overlapLen + (len sentence + sep_len overlap))
      else window_loop maxChars carry sentences (current @ [sentence])
        (currentLen + (len sentence + sep_len current)))"

text \<open>The tail of the current chunk that fits the overlap, read from its end.\<close>

fun tail_overlap :: "int \<Rightarrow> string list \<Rightarrow> string list \<Rightarrow> int \<Rightarrow> string list \<times> int" where
  "tail_overlap overlapChars [] overlap overlapLen = (overlap, overlapLen)"
| "tail_overlap overlapChars (s # rest) overlap overlapLen =
     (if overlapLen + len s + sep_len overlap > overlapChars then (overlap, overlapLen)
      else tail_overlap overlapChars rest (s # overlap) (overlapLen + (len s + sep_len overlap)))"

definition carry_tail :: "int \<Rightarrow> string list \<Rightarrow> string list \<times> int" where
  "carry_tail overlapChars current = tail_overlap overlapChars (rev current) [] 0"

definition ChunkText :: "string \<Rightarrow> int \<Rightarrow> int \<Rightarrow> string list" where
  "ChunkText s maxTokens overlapTokens =
     (if TrimSpace s = [] then []
      else if len s \<le> maxTokens * 4 then [s]
      else
        let sentences = splitSentences s in
        if sentences = [] then [s]
        else
          let chunks = window_loop (maxTokens * 4) (carry_tail (overlapTokens * 4)) sentences [] 0 in
          if chunks = [] then [s] else chunks)"

definition carry_last :: "string list \<Rightarrow> string list \<times> int" where
  "carry_last current = (if current = [] then ([], 0) else ([last current], len (last current)))"

definition sentenceWindow :: "string \<Rightarrow> int \<Rightarrow> string list" where
  "sentenceWindow s target =
     (let sentences = splitSentences s in
      if sentences = [] then [s]
      else
        let chunks = window_loop target carry_last sentences [] 0 in
        if chunks = [] then [s] else chunks)"

section \<open>Sections and documents\<close>

definition with_overlap :: "string \<Rightarrow> string \<Rightarrow> string" where
  "with_overlap prevLast s =
     (if prevLast \<noteq> [] \<and> \<not> Contains s prevLast then prevLast @ '' '' @ s else s)"

definition candidate :: "string \<Rightarrow> bool \<Rightarrow> string \<Rightarrow> string \<Rightarrow> ChunkCandidate" where
  "candidate heading hasHeading ctype s =
     \<lparr>cc_Text = s, cc_SectionHeading = heading, cc_HasHeading = hasHeading, cc_ChunkType = ctype\<rparr>"

text \<open>The variables \<^verbatim>\<open>chunks\<close>, \<^verbatim>\<open>currentTexts\<close>, \<^verbatim>\<open>currentLen\<close> and \<^verbatim>\<open>prevLast\<close> of \<^verbatim>\<open>chunkSection\<close>.\<close>

record section_state =
  ss_chunks :: "ChunkCandidate list"
  ss_current :: "string list"
  ss_len :: int
  ss_prevLast :: string

definition para_sep :: string where
  "para_sep = [CHR 0x0A, CHR 0x0A]"

definition section_flush :: "string \<Rightarrow> bool \<Rightarrow> section_state \<Rightarrow> section_state" where
  "section_flush heading hasHeading st =
     (if ss_current st = [] then st
      else st\<lparr>ss_chunks := ss_chunks st @ [candidate heading hasHeading ''paragraph''
            (with_overlap (ss_prevLast st) (Join (ss_current st) para_sep))],
          ss_current := [], ss_len := 0\<rparr>)"

definition note_last :: "section_state \<Rightarrow> section_state" where
  "note_last st =
     (if ss_chunks st = [] then st
      else st\<lparr>ss_prevLast := lastSentence (cc_Text (last (ss_chunks st)))\<rparr>)"

definition window_candidates :: "string \<Rightarrow> bool \<Rightarrow> string \<Rightarrow> string list \<Rightarrow> ChunkCandidate list" where
  "window_candidates heading hasHeading prevLast sw =
     (case sw of [] \<Rightarrow> []
      | t # ts \<Rightarrow> map (candidate heading hasHeading ''sentence_window'') (with_overlap prevLast t # ts))"

definition section_para :: "string \<Rightarrow> bool \<Rightarrow> int \<Rightarrow> string \<Rightarrow> section_state \<Rightarrow> section_state" where
  "section_para heading hasHeading target para st =
     (if len para > target
      then
        let st = section_flush heading hasHeading st in
        note_last (st\<lparr>ss_chunks := ss_chunks st
          @ window_candidates heading hasHeading (ss_prevLast st) (sentenceWindow para target)\<rparr>)
      else
        let st = (if ss_len st + len para + (if ss_current st = [] then 0 else 2) > target
                    \<and> ss_current st \<noteq> []
                  then note_last (section_flush heading hasHeading st) else st) in
        st\<lparr>ss_current := ss_current st @ [para],
           ss_len := ss_len st + len para + (if ss_current st = [] then 0 else 2)\<rparr>)"

definition section_paras :: "string \<Rightarrow> string list" where
  "section_paras s = filter (\<lambda>p. p \<noteq> []) (map TrimSpace (Split paragraphSplitRE (TrimSpace s)))"

definition chunkSection :: "string \<Rightarrow> string \<Rightarrow> bool \<Rightarrow> int \<Rightarrow> ChunkCandidate list" where
  "chunkSection s heading hasHeading target =
     (if TrimSpace s = [] then []
      else if section_paras s = [] then []
      else ss_chunks (section_flush heading hasHeading
        (fold (section_para heading hasHeading target) (section_paras s)
          \<lparr>ss_chunks = [], ss_current = [], ss_len = 0, ss_prevLast = []\<rparr>)))"

text \<open>
  \<^verbatim>\<open>FindAllStringSubmatchIndex\<close> of \<^verbatim>\<open>headingRE\<close>: the start of the match and its group, which
  begins at the first end of the prefix from which the title matches.
\<close>

definition heading_at :: "string \<Rightarrow> nat \<times> nat \<Rightarrow> nat \<times> string" where
  "heading_at s be =
     (case be of (b, e) \<Rightarrow>
        (case find (\<lambda>g. ends heading_title s g \<noteq> []) (ends heading_prefix s b) of
           Some g \<Rightarrow> (b, TrimSpace (slice s g e)) | None \<Rightarrow> (b, [])))"

definition index_newline :: "string \<Rightarrow> nat \<Rightarrow> nat option" where
  "index_newline s i = find (\<lambda>k. s ! (i + k) = CHR 0x0A) [0..<length s - i]"

definition body_start :: "string \<Rightarrow> nat \<Rightarrow> nat" where
  "body_start s pos = (case index_newline s pos of None \<Rightarrow> length s | Some k \<Rightarrow> pos + k + 1)"

fun doc_sections :: "string \<Rightarrow> (nat \<times> string) list \<Rightarrow> (string \<times> string) list" where
  "doc_sections s [] = []"
| "doc_sections s ((pos, heading) # hs) =
     (let bodyStart = body_start s pos;
          bodyEnd = (case hs of [] \<Rightarrow> length s | (next, _) # _ \<Rightarrow> next) in
      (heading, if bodyStart < bodyEnd then TrimSpace (slice s bodyStart bodyEnd) else [])
      # doc_sections s hs)"

definition overlap_first :: "string \<Rightarrow> ChunkCandidate list \<Rightarrow> ChunkCandidate list" where
  "overlap_first prevLast cs =
     (case cs of [] \<Rightarrow> [] | c # cs' \<Rightarrow> c\<lparr>cc_Text := with_overlap prevLast (cc_Text c)\<rparr> # cs')"

fun doc_chunks :: "int \<Rightarrow> (string \<times> string) list \<Rightarrow> string \<Rightarrow> ChunkCandidate list" where
  "doc_chunks target [] prevLast = []"
| "doc_chunks target ((heading, body) # secs) prevLast =
     (let cs = overlap_first prevLast (chunkSection body heading True target) in
      cs @ doc_chunks target secs (if cs = [] then prevLast else lastSentence (cc_Text (last cs))))"

definition ChunkDocument :: "string \<Rightarrow> int \<Rightarrow> ChunkCandidate list" where
  "ChunkDocument s targetChunkChars =
     (if TrimSpace s = [] then []
      else
        let target = (if targetChunkChars \<le> 0 then DefaultTargetChunkChars else targetChunkChars);
            headings = map (heading_at s) (find_all headingRE s 0) in
        if headings = [] then chunkSection (TrimSpace s) [] False target
        else doc_chunks target (doc_sections s headings) [])"

section \<open>Windows cover the sentences in order\<close>

text \<open>
  Groups of sentences that cover a list of sentences in order: each group is a suffix of the
  group before it, followed by new sentences, of which there is at least one.
\<close>

inductive chained :: "string list \<Rightarrow> string list list \<Rightarrow> string list \<Rightarrow> bool" where
  chained_Nil: "chained prev [] []"
| chained_Cons: "suffix overlap prev \<Longrightarrow> new \<noteq> [] \<Longrightarrow> chained (overlap @ new) gs rest \<Longrightarrow>
    chained prev ((overlap @ new) # gs) (new @ rest)"

text \<open>
  What a window loop needs of the part it carries over: it is a tail of the finished chunk, its
  length is reported correctly, and it is bounded by \<open>room L\<close> when no sentence is longer than
  \<open>L\<close>.
\<close>

locale carry_over =
  fixes carry :: "string list \<Rightarrow> string list \<times> int"
    and room :: "int \<Rightarrow> int"
  assumes carry_suffix: "suffix (fst (carry current)) current"
    and carry_length: "snd (carry current) = len (Join (fst (carry current)) '' '')"
    and carry_room: "0 \<le> L \<Longrightarrow> list_all (\<lambda>s. len s \<le> L) current \<Longrightarrow> snd (carry current) \<le> room L"
begin

lemma loop_chained:
  assumes "suffix overlap prev" "new \<noteq> []"
  shows "\<exists>gs. window_loop maxChars carry sentences (overlap @ new) l = map (\<lambda>g. Join g '' '') gs
    \<and> chained prev gs (new @ sentences)"
  using assms
proof (induction sentences arbitrary: prev overlap new l)
  case Nil
  then show ?case
    using chained_Cons [OF Nil.prems chained_Nil] by (intro exI [of _ "[overlap @ new]"]) simp
next
  case (Cons s sentences)
  show ?case
  proof (cases "l + (len s + sep_len (overlap @ new)) > maxChars")
    case True
    obtain ov ol where c: "carry (overlap @ new) = (ov, ol)" by (cases "carry (overlap @ new)")
    then have "suffix ov (overlap @ new)" using carry_suffix [of "overlap @ new"] by simp
    from Cons.IH [OF this, of "[s]" "ol + (len s + sep_len ov)"] obtain gs where
        gs: "window_loop maxChars carry sentences (ov @ [s]) (ol + (len s + sep_len ov))
          = map (\<lambda>g. Join g '' '') gs" "chained (overlap @ new) gs ([s] @ sentences)"
      by blast
    from chained_Cons [OF Cons.prems gs(2)] gs(1) c True Cons.prems(2) show ?thesis
      by (intro exI [of _ "(overlap @ new) # gs"]) simp
  next
    case False
    with Cons.IH [OF Cons.prems(1), of "new @ [s]" "l + (len s + sep_len (overlap @ new))"]
    show ?thesis by simp
  qed
qed

lemma loop_covers:
  "\<exists>gs. window_loop maxChars carry sentences [] 0 = map (\<lambda>g. Join g '' '') gs \<and> chained [] gs sentences"
proof (cases sentences)
  case Nil
  then show ?thesis by (intro exI [of _ "[]"]) (simp add: chained_Nil)
next
  case (Cons s ss)
  with loop_chained [of "[]" "[]" "[s]" maxChars ss "len s"] show ?thesis by (simp add: sep_len_def)
qed

text \<open>The running length is the length of the chunk being built.\<close>

lemma length_add: "len (Join (xs @ [s]) '' '') = len (Join xs '' '') + (len s + sep_len xs)"
  by (cases "xs = []") (simp_all add: Join_snoc sep_len_def)

lemma loop_bound:
  assumes "list_all (\<lambda>s. len s \<le> L) (current @ sentences)" "l = len (Join current '' '')"
    "0 \<le> L" "0 \<le> room L" "l \<le> max maxChars (room L + 1 + L)"
  shows "list_all (\<lambda>c. len c \<le> max maxChars (room L + 1 + L)) (window_loop maxChars carry sentences current l)"
  using assms
proof (induction sentences arbitrary: current l)
  case (Cons s sentences)
  have s: "len s \<le> L" using Cons.prems(1) by simp
  show ?case
  proof (cases "l + (len s + sep_len current) > maxChars \<and> current \<noteq> []")
    case True
    obtain ov ol where c: "carry current = (ov, ol)" by (cases "carry current")
    have ol: "ol = len (Join ov '' '')" "ol \<le> room L" "suffix ov current"
      using carry_length [of current] carry_room [of L current] carry_suffix [of current] c
        Cons.prems(1,3) by auto
    have ovL: "list_all (\<lambda>s. len s \<le> L) ((ov @ [s]) @ sentences)"
      using Cons.prems(1) set_mono_suffix [OF ol(3)] by (auto simp: list_all_iff)
    have "ol + (len s + sep_len ov) \<le> max maxChars (room L + 1 + L)"
      using ol(2) s by (simp add: sep_len_def) linarith
    with Cons.IH [OF ovL _ Cons.prems(3,4), of "ol + (len s + sep_len ov)"] ol(1)
    show ?thesis using True c Cons.prems(2,5) by (simp add: length_add)
  next
    case False
    have "l + (len s + sep_len current) \<le> max maxChars (room L + 1 + L)"
    proof (cases "current = []")
      case True
      with Cons.prems(2) have "l + (len s + sep_len current) = len s" by (simp add: sep_len_def)
      with s Cons.prems(4) show ?thesis by linarith
    next
      case ne: False
      with False have "l + (len s + sep_len current) \<le> maxChars" by simp
      then show ?thesis by linarith
    qed
    with Cons.IH [of "current @ [s]" "l + (len s + sep_len current)"] Cons.prems
    show ?thesis unfolding window_loop.simps if_not_P [OF False] by (simp add: length_add)
  qed
qed simp

end

lemma tail_overlap_facts:
  assumes "suffix overlap (rev rest @ overlap)" "l = len (Join overlap '' '')" "l \<le> max 0 room"
  shows "suffix (fst (tail_overlap room rest overlap l)) (rev rest @ overlap)
    \<and> snd (tail_overlap room rest overlap l) = len (Join (fst (tail_overlap room rest overlap l)) '' '')
    \<and> snd (tail_overlap room rest overlap l) \<le> max 0 room"
  using assms
proof (induction rest arbitrary: overlap l)
  case (Cons s rest)
  have "len (Join (s # overlap) '' '') = l + (len s + sep_len overlap)"
    using Cons.prems(2) by (cases overlap) (simp_all add: sep_len_def)
  with Cons.IH [of "s # overlap" "l + (len s + sep_len overlap)"] Cons.prems show ?case
    by (auto simp: suffix_def)
qed simp

interpretation tail_carry: carry_over "carry_tail overlapChars" "\<lambda>_. max 0 overlapChars" for overlapChars
proof
  fix current :: "string list" and L :: int
  have "suffix [] (rev (rev current) @ ([] :: string list))" "(0 :: int) = len (Join [] '' '')" by simp_all
  note f = tail_overlap_facts [OF this, of overlapChars]
  show "suffix (fst (carry_tail overlapChars current)) current"
    "snd (carry_tail overlapChars current) = len (Join (fst (carry_tail overlapChars current)) '' '')"
    using f by (simp_all add: carry_tail_def)
  show "snd (carry_tail overlapChars current) \<le> max 0 overlapChars" using f by (simp add: carry_tail_def)
qed

interpretation last_carry: carry_over carry_last "\<lambda>L. L"
proof
  fix current :: "string list" and L :: int
  show "suffix (fst (carry_last current)) current"
    by (cases current rule: rev_cases) (auto simp: carry_last_def)
  show "snd (carry_last current) = len (Join (fst (carry_last current)) '' '')"
    by (simp add: carry_last_def)
  show "snd (carry_last current) \<le> L" if "0 \<le> L" "list_all (\<lambda>s. len s \<le> L) current"
    using that last_in_set [of current] by (auto simp: carry_last_def list_all_iff)
qed

section \<open>Splitting into sentences loses white space only\<close>

inductive blank :: "string \<Rightarrow> bool" where
  blank_Nil: "blank []"
| blank_Cons: "r \<in> set space_runes \<Longrightarrow> blank s \<Longrightarrow> blank (r @ s)"

lemma blank_append: "blank s \<Longrightarrow> blank t \<Longrightarrow> blank (s @ t)"
  by (induction rule: blank.induct) (auto intro: blank.intros)

lemma blank_snoc: "blank s \<Longrightarrow> r \<in> set space_runes \<Longrightarrow> blank (s @ r)"
  using blank_append [of s r] blank_Cons [OF _ blank_Nil, of r] by simp

lemma space_len_rune:
  assumes "space_len s \<noteq> 0"
  shows "take (space_len s) s \<in> set space_runes"
proof -
  obtain p where p: "find (\<lambda>p. prefix p s) space_runes = Some p"
    using assms by (auto simp: space_len_def match_len_def split: option.splits)
  then have "p \<in> set space_runes" "prefix p s"
    by (auto simp: find_Some_iff)
  moreover have "space_len s = length p" using p by (simp add: space_len_def match_len_def)
  ultimately show ?thesis by (auto simp: prefix_def)
qed

lemma space_len_end_rune:
  assumes "space_len_end s \<noteq> 0"
  shows "drop (length s - space_len_end s) s \<in> set space_runes"
proof -
  obtain p where p: "find (\<lambda>p. prefix p (rev s)) (map rev space_runes) = Some p"
    using assms by (auto simp: space_len_end_def match_len_def split: option.splits)
  then have "p \<in> set (map rev space_runes)" "prefix p (rev s)" by (auto simp: find_Some_iff)
  moreover have "space_len_end s = length p" using p by (simp add: space_len_end_def match_len_def)
  ultimately show ?thesis by (auto simp: prefix_def) (metis append_eq_conv_conj length_rev rev_append rev_rev_ident rev_take take_rev)?
qed

lemma trim_left_blank: "\<exists>a. s = a @ trim_left s \<and> blank a"
proof (induction s rule: trim_left.induct)
  case (1 s)
  show ?case
  proof (cases "s = [] \<or> space_len s = 0")
    case True
    then show ?thesis using blank_Nil by (subst trim_left.simps) auto
  next
    case False
    with 1 obtain a where "drop (space_len s) s = a @ trim_left (drop (space_len s) s)" "blank a" by blast
    moreover have "trim_left s = trim_left (drop (space_len s) s)"
      using False by (subst trim_left.simps) simp
    ultimately have "s = (take (space_len s) s @ a) @ trim_left s"
      by (metis append.assoc append_take_drop_id)
    with blank_Cons [OF space_len_rune] False \<open>blank a\<close> show ?thesis by blast
  qed
qed

lemma trim_right_blank: "\<exists>b. s = trim_right s @ b \<and> blank b"
proof (induction s rule: trim_right.induct)
  case (1 s)
  let ?n = "length s - space_len_end s"
  show ?case
  proof (cases "s = [] \<or> space_len_end s = 0")
    case True
    then show ?thesis using blank_Nil by (subst trim_right.simps) auto
  next
    case False
    with 1 obtain b where "take ?n s = trim_right (take ?n s) @ b" "blank b" by blast
    moreover have "trim_right s = trim_right (take ?n s)"
      using False by (subst trim_right.simps) simp
    ultimately have "s = trim_right s @ (b @ drop ?n s)"
      by (metis append.assoc append_take_drop_id)
    with blank_snoc [OF \<open>blank b\<close> space_len_end_rune] False show ?thesis by blast
  qed
qed

lemma TrimSpace_split: "\<exists>a b. s = a @ TrimSpace s @ b \<and> blank a \<and> blank b"
proof -
  obtain a where a: "s = a @ trim_left s" "blank a" using trim_left_blank by blast
  obtain b where "trim_left s = TrimSpace s @ b" "blank b"
    using trim_right_blank [of "trim_left s"] by (auto simp: TrimSpace_def)
  with a show ?thesis by metis
qed

text \<open>The parts occur in the text in order, with nothing but white space before, between and after.\<close>

inductive interleaved :: "string list \<Rightarrow> string \<Rightarrow> bool" where
  interleaved_Nil: "blank w \<Longrightarrow> interleaved [] w"
| interleaved_Cons: "blank w \<Longrightarrow> interleaved ps rest \<Longrightarrow> interleaved (p # ps) (w @ p @ rest)"

lemma interleaved_blank: "interleaved ps s \<Longrightarrow> blank w \<Longrightarrow> interleaved ps (w @ s)"
proof (induction rule: interleaved.induct)
  case (interleaved_Cons w' ps rest p)
  with interleaved.interleaved_Cons [OF blank_append [OF interleaved_Cons.prems interleaved_Cons.hyps(1)]]
  show ?case by simp
qed (simp add: interleaved.interleaved_Nil blank_append)

lemma interleaved_end: "interleaved ps s \<Longrightarrow> blank w \<Longrightarrow> interleaved ps (s @ w)"
  by (induction rule: interleaved.induct) (auto intro: interleaved.intros blank_append)

lemma restore_append: "restoreAbbreviations (s @ t) = restoreAbbreviations s @ restoreAbbreviations t"
  by (simp add: restoreAbbreviations_def)

lemma restore_blank: "blank w \<Longrightarrow> restoreAbbreviations w = w"
proof (induction rule: blank.induct)
  case (blank_Cons r s)
  have "\<forall>r \<in> set space_runes. restoreAbbreviations r = r"
    by (simp add: space_runes_def restoreAbbreviations_def NUL_def)
  with blank_Cons show ?case by (simp add: restore_append)
qed (simp add: restoreAbbreviations_def)

lemma restore_protect: "restoreAbbreviations (protectAbbreviations s) = restoreAbbreviations s"
proof -
  let ?f = "map (\<lambda>c. if c = CHR ''.'' then NUL else c)"
  have "restoreAbbreviations (replace_at ?f s i ms) = restoreAbbreviations (drop i s)"
    if "spans_from s i ms" for i ms
    using that
  proof (induction s i ms rule: spans_from.induct)
    case (2 s i b e ms)
    have "restoreAbbreviations (?f x) = restoreAbbreviations x" for x
      by (simp add: restoreAbbreviations_def NUL_def)
    with 2 have "restoreAbbreviations (replace_at ?f s i ((b, e) # ms))
        = restoreAbbreviations (slice s i b @ slice s b e @ drop e s)"
      by (simp add: restore_append)
    with 2 slice_append [of b e s] slice_append [of i b s] show ?case by simp
  qed simp
  with find_all_spans [of 0 s abbreviationProtectRE] show ?thesis
    by (simp add: protectAbbreviations_def ReplaceAllStringFunc_def)
qed

lemma restore_id: "NUL \<notin> set s \<Longrightarrow> restoreAbbreviations s = s"
  by (auto simp: restoreAbbreviations_def intro!: map_idI)

lemma nonempty_interleaved:
  assumes "interleaved ps rest"
  shows "interleaved (nonempty (restoreAbbreviations (TrimSpace s)) @ ps) (restoreAbbreviations s @ rest)"
proof -
  obtain a b where ab: "s = a @ TrimSpace s @ b" "blank a" "blank b" using TrimSpace_split by blast
  then have "restoreAbbreviations s = a @ restoreAbbreviations (TrimSpace s) @ b"
    by (metis restore_append restore_blank)
  then show ?thesis
    using ab interleaved_blank [OF assms ab(3)] interleaved_Cons [OF ab(2)]
      interleaved_blank [OF interleaved_blank [OF assms ab(3)] ab(2)]
    by (simp add: nonempty_def)
qed

lemma sentence_parts_interleaved:
  "spans_from s prev locs \<Longrightarrow> interleaved (sentence_parts s prev locs) (restoreAbbreviations (drop prev s))"
proof (induction s prev locs rule: spans_from.induct)
  case (1 s i)
  show ?case using nonempty_interleaved [OF interleaved_Nil [OF blank_Nil], of "drop i s"] by simp
next
  case (2 s i b e ms)
  then have "slice s i e @ drop e s = drop i s" by (intro slice_append) auto
  with 2 nonempty_interleaved [of "sentence_parts s e ms" _ "slice s i e"] show ?case
    by (metis restore_append sentence_parts.simps(2) spans_from.simps(2))
qed

lemma splitSentences_interleaved:
  assumes "NUL \<notin> set s"
  shows "interleaved (splitSentences s) s"
proof -
  obtain a b where ab: "s = a @ TrimSpace s @ b" "blank a" "blank b" using TrimSpace_split by blast
  let ?t = "protectAbbreviations (TrimSpace s)"
  have "NUL \<notin> set (TrimSpace s)" using assms ab(1) by (metis Un_iff set_append)
  then have r: "restoreAbbreviations ?t = TrimSpace s" by (simp add: restore_protect restore_id)
  have "interleaved (splitSentences s) (TrimSpace s)"
  proof (cases "TrimSpace s = []")
    case True
    then show ?thesis by (simp add: splitSentences_def interleaved_Nil blank_Nil)
  next
    case False
    show ?thesis
    proof (cases "find_all sentenceSplitRE ?t 0 = []")
      case True
      have "interleaved [TrimSpace s] ([] @ TrimSpace s @ [])"
        by (rule interleaved_Cons [OF blank_Nil interleaved_Nil [OF blank_Nil]])
      with True False r show ?thesis by (simp add: splitSentences_def)
    next
      case locs: False
      with False r sentence_parts_interleaved [OF find_all_spans [of 0 ?t sentenceSplitRE]]
      show ?thesis by (simp add: splitSentences_def Let_def)
    qed
  qed
  with ab show ?thesis using interleaved_end interleaved_blank by (metis append.assoc)
qed

inductive_cases interleaved_NilE: "interleaved [] s"

lemma restore_prefix: "prefix r (restoreAbbreviations t) \<Longrightarrow> CHR ''.'' \<notin> set r \<Longrightarrow> prefix r t"
proof (induction r arbitrary: t)
  case (Cons c r)
  then show ?case by (cases t) (auto simp: restoreAbbreviations_def split: if_splits)
qed simp

lemma splitSentences_nonempty: "TrimSpace s \<noteq> [] \<Longrightarrow> splitSentences s \<noteq> []"
proof
  assume ne: "TrimSpace s \<noteq> []" and none: "splitSentences s = []"
  let ?t = "protectAbbreviations (TrimSpace s)"
  have "interleaved [] (restoreAbbreviations ?t)"
    using sentence_parts_interleaved [OF find_all_spans [of 0 ?t sentenceSplitRE]] ne none
    by (simp add: splitSentences_def Let_def split: if_splits)
  then have "blank (restoreAbbreviations (TrimSpace s))"
    by (auto simp: restore_protect elim: interleaved_NilE)
  then show False
  proof cases
    case blank_Nil
    with ne show False by (simp add: restoreAbbreviations_def)
  next
    case (blank_Cons r t)
    have "\<forall>r \<in> set space_runes. CHR ''.'' \<notin> set r" by (simp add: space_runes_def)
    with blank_Cons restore_prefix [of r "TrimSpace s"] have "prefix r (TrimSpace s)" by auto
    with blank_Cons TrimSpace_trimmed [of s] show False by (auto simp: space_len_0_iff)
  qed
qed

section \<open>Claims\<close>

text \<open>
  splitting a text into sentences loses nothing but white space. For a text without NUL
  bytes (which stand for protected full stops meanwhile) the sentences occur in the text in
  order and untouched, abbreviations included, with only white space before, between and after
  them; and a text that is not blank has a sentence.
\<close>

theorem sentences_lossless:
  assumes "NUL \<notin> set s"
  shows "interleaved (splitSentences s) s \<and> (TrimSpace s = [] \<or> splitSentences s \<noteq> [])"
  using splitSentences_interleaved [OF assms] splitSentences_nonempty by blast

theorem sentences_lossless_witness:
  "NUL \<notin> set ''Dr. Who left. Why?''
   \<and> interleaved (splitSentences ''Dr. Who left. Why?'') ''Dr. Who left. Why?''"
  using sentences_lossless [of "''Dr. Who left. Why?''"] by (simp add: NUL_def)

text \<open>The length of the longest of some strings.\<close>

definition longest :: "string list \<Rightarrow> int" where
  "longest xs = foldr (\<lambda>s m. max (len s) m) xs 0"

lemma longest_ge: "0 \<le> longest xs" "list_all (\<lambda>s. len s \<le> longest xs) xs"
  by (induction xs) (auto simp: longest_def list_all_iff le_max_iff_disj)

text \<open>
  the chunks of a text are its sentences in order: each chunk is a run of consecutive
  sentences that repeats a tail of the chunk before it and then adds at least one new sentence,
  and no sentence is skipped. A text within the window is one chunk, a blank one has none.
\<close>

theorem chunk_text_covers:
  "\<exists>gs. chained [] gs (splitSentences s) \<and>
     ChunkText s maxTokens overlapTokens =
       (if TrimSpace s = [] then []
        else if len s \<le> maxTokens * 4 then [s]
        else map (\<lambda>g. Join g '' '') gs)"
proof -
  from tail_carry.loop_covers obtain gs where
      gs: "window_loop (maxTokens * 4) (carry_tail (overlapTokens * 4)) (splitSentences s) [] 0
        = map (\<lambda>g. Join g '' '') gs" "chained [] gs (splitSentences s)"
    by blast
  moreover have "TrimSpace s = [] \<or> gs \<noteq> []"
    using gs(2) splitSentences_nonempty [of s] by (auto elim: chained.cases)
  ultimately show ?thesis
    using splitSentences_nonempty [of s] by (intro exI [of _ gs]) (auto simp: ChunkText_def Let_def)
qed

text \<open>
  the length of a chunk is at most the window or, where that is more, the overlap, a space
  and the longest sentence. (The text itself is returned whole only when it fits.)
\<close>

theorem chunk_text_bound:
  "list_all (\<lambda>c. len c \<le> max (maxTokens * 4) (max 0 (overlapTokens * 4) + 1 + longest (splitSentences s)))
     (ChunkText s maxTokens overlapTokens)"
proof (cases "TrimSpace s = [] \<or> len s \<le> maxTokens * 4")
  case True
  then show ?thesis by (auto simp: ChunkText_def)
next
  case False
  then have ne: "splitSentences s \<noteq> []" using splitSentences_nonempty by blast
  let ?w = "window_loop (maxTokens * 4) (carry_tail (overlapTokens * 4)) (splitSentences s) [] 0"
  have "list_all (\<lambda>c. len c \<le> max (maxTokens * 4) (max 0 (overlapTokens * 4) + 1 + longest (splitSentences s))) ?w"
    using longest_ge [of "splitSentences s"]
    by (intro tail_carry.loop_bound) (simp_all add: le_max_iff_disj)
  moreover have "?w \<noteq> []"
  proof -
    obtain gs where "?w = map (\<lambda>g. Join g '' '') gs" "chained [] gs (splitSentences s)"
      using tail_carry.loop_covers by blast
    with ne show ?thesis by (auto elim: chained.cases)
  qed
  ultimately show ?thesis using False ne by (simp add: ChunkText_def)
qed

text \<open>Three sentences of 10, 8 and 18 bytes.\<close>

definition sample_text :: string where
  "sample_text = ''It rained. We stay. Nobody went out x.''"

lemma sample_sentences:
  "splitSentences sample_text = [''It rained.'', ''We stay.'', ''Nobody went out x.'']"
  by code_simp

text \<open>
  the window is not a bound. With a window of 20 bytes (five tokens) and an overlap of three
  tokens, a text whose sentences have at most 18 bytes gives a chunk of 27 bytes, because the
  overlap carried over is not counted against the sentence that follows it.
\<close>

theorem chunk_exceeds_window:
  "longest (splitSentences sample_text) = 18
   \<and> map len (ChunkText sample_text 5 3) = [19, 27]"
proof -
  have "TrimSpace sample_text \<noteq> []"
    using sample_sentences by (auto simp: splitSentences_def)
  moreover have "len sample_text = 38" by (simp add: sample_text_def)
  ultimately show ?thesis
    by (simp add: ChunkText_def sample_sentences longest_def carry_tail_def sep_len_def)
qed

lemma wordSet_distinct: "distinct (wordSet u s)"
  by (simp add: wordSet_def)

lemma Jaccard_sets:
  "JaccardSimilarity u a b =
     (let A = set (wordSet u a); B = set (wordSet u b) in
      if A = {} \<or> B = {} then 0 else of_nat (card (A \<inter> B)) / of_nat (card (A \<union> B)))"
proof -
  let ?A = "wordSet u a" and ?B = "wordSet u b"
  have i: "length (filter (\<lambda>w. w \<in> set ?B) ?A) = card (set ?A \<inter> set ?B)"
    using distinct_card [of "filter (\<lambda>w. w \<in> set ?B) ?A"] wordSet_distinct [of u a]
    by (simp add: Int_def)
  have n: "card (set (wordSet u s)) = length (wordSet u s)" for s
    by (rule distinct_card [OF wordSet_distinct])
  have "length ?A + length ?B - card (set ?A \<inter> set ?B) = card (set ?A \<union> set ?B)"
    using card_Un_Int [of "set ?A" "set ?B"] by (simp add: n)
  then show ?thesis by (simp add: JaccardSimilarity_def i Let_def)
qed

text \<open>
  word-level similarity is the Jaccard index of the two word sets. It is symmetric, lies
  between 0 and 1, is 1 exactly when the texts have the same words and at least one, and is 0
  exactly when they share none; so a text with words is a duplicate of any collection that holds
  it, at every threshold.
\<close>

theorem jaccard_index:
  "JaccardSimilarity u a b = JaccardSimilarity u b a
   \<and> 0 \<le> JaccardSimilarity u a b \<and> JaccardSimilarity u a b \<le> 1
   \<and> (JaccardSimilarity u a b = 1 \<longleftrightarrow> set (wordSet u a) = set (wordSet u b) \<and> wordSet u a \<noteq> [])
   \<and> (JaccardSimilarity u a b = 0 \<longleftrightarrow> set (wordSet u a) \<inter> set (wordSet u b) = {})
   \<and> (wordSet u a = [] \<or> IsDuplicate u env a (pre @ a # post) (- 1))"
proof -
  let ?A = "set (wordSet u a)" and ?B = "set (wordSet u b)"
  have le: "card (?A \<inter> ?B) \<le> card (?A \<union> ?B)" by (rule card_mono) auto
  have eq: "card (?A \<inter> ?B) = card (?A \<union> ?B) \<longleftrightarrow> ?A = ?B"
  proof
    assume "card (?A \<inter> ?B) = card (?A \<union> ?B)"
    then have "?A \<inter> ?B = ?A \<union> ?B" by (intro card_subset_eq) auto
    then show "?A = ?B" by blast
  qed simp
  have self: "JaccardSimilarity u a a = 1" if "wordSet u a \<noteq> []"
    using that by (simp add: Jaccard_sets)
  have t: "defaultDedupThreshold env \<le> 1" by (simp add: defaultDedupThreshold_def split: option.splits)
  have "JaccardSimilarity u a b = JaccardSimilarity u b a"
    by (simp add: Jaccard_sets Let_def Int_commute Un_commute)
  moreover have "0 \<le> JaccardSimilarity u a b" by (simp add: Jaccard_sets Let_def)
  moreover have "JaccardSimilarity u a b \<le> 1"
    using le by (auto simp: Jaccard_sets Let_def divide_le_eq_1 card_gt_0_iff)
  moreover have "JaccardSimilarity u a b = 1 \<longleftrightarrow> ?A = ?B \<and> wordSet u a \<noteq> []"
  proof (cases "?A = {} \<or> ?B = {}")
    case False
    then have "card (?A \<union> ?B) \<noteq> 0" by auto
    with False eq show ?thesis by (auto simp: Jaccard_sets Let_def divide_eq_1_iff)
  qed (auto simp: Jaccard_sets)
  moreover have "JaccardSimilarity u a b = 0 \<longleftrightarrow> ?A \<inter> ?B = {}"
    by (auto simp: Jaccard_sets Let_def)
  moreover have "wordSet u a = [] \<or> IsDuplicate u env a (pre @ a # post) (- 1)"
    using self t by (auto simp: IsDuplicate_def Let_def)
  ultimately show ?thesis by blast
qed

section \<open>Sections lose no paragraph\<close>

definition holds_text :: "ChunkCandidate list \<Rightarrow> string \<Rightarrow> bool" where
  "holds_text cs t = list_ex (\<lambda>c. Contains (cc_Text c) t) cs"

text \<open>A paragraph, or each of its windows where it is too long, is in a chunk.\<close>

definition holds_para :: "int \<Rightarrow> ChunkCandidate list \<Rightarrow> string \<Rightarrow> bool" where
  "holds_para target cs para =
     (if len para > target then list_all (holds_text cs) (sentenceWindow para target)
      else holds_text cs para)"

definition from_section :: "string \<Rightarrow> bool \<Rightarrow> ChunkCandidate \<Rightarrow> bool" where
  "from_section heading hasHeading c \<longleftrightarrow> cc_SectionHeading c = heading \<and> cc_HasHeading c = hasHeading
     \<and> cc_ChunkType c \<in> {''paragraph'', ''sentence_window''}"

lemma holds_text_append: "holds_text (cs @ ds) t \<longleftrightarrow> holds_text cs t \<or> holds_text ds t"
  by (simp add: holds_text_def)

lemma holds_para_append: "holds_para target cs para \<Longrightarrow> holds_para target (cs @ ds) para"
  by (auto simp: holds_para_def holds_text_append list_all_iff)

lemma Contains_overlap: "Contains s t \<Longrightarrow> Contains (with_overlap p s) t"
  by (auto simp: Contains_iff with_overlap_def sublist_append sublist_Cons_right)

lemma Contains_Join: "p \<in> set ps \<Longrightarrow> Contains (Join ps sep) p"
  by (induction ps sep rule: Join.induct) (auto simp: Contains_iff sublist_append)

definition section_inv :: "string \<Rightarrow> bool \<Rightarrow> int \<Rightarrow> string list \<Rightarrow> section_state \<Rightarrow> bool" where
  "section_inv heading hasHeading target paras st \<longleftrightarrow>
     list_all (from_section heading hasHeading) (ss_chunks st)
     \<and> list_all (\<lambda>p. p \<in> set (ss_current st) \<and> len p \<le> target \<or> holds_para target (ss_chunks st) p) paras
     \<and> list_all (\<lambda>p. len p \<le> target) (ss_current st)
     \<and> ss_len st = len (Join (ss_current st) para_sep)"

lemma section_inv_flush:
  assumes "section_inv heading hasHeading target paras st"
  shows "section_inv heading hasHeading target paras (section_flush heading hasHeading st)
    \<and> list_all (holds_para target (ss_chunks (section_flush heading hasHeading st))) paras"
proof (cases "ss_current st = []")
  case True
  with assms show ?thesis by (auto simp: section_inv_def section_flush_def list_all_iff)
next
  case False
  let ?c = "candidate heading hasHeading ''paragraph''
    (with_overlap (ss_prevLast st) (Join (ss_current st) para_sep))"
  have c: "from_section heading hasHeading ?c" by (simp add: from_section_def candidate_def)
  have "holds_text [?c] p" if "p \<in> set (ss_current st)" for p
    using Contains_overlap [OF Contains_Join [OF that]] by (simp add: holds_text_def candidate_def)
  then have "holds_para target (ss_chunks st @ [?c]) p"
    if "p \<in> set (ss_current st) \<and> len p \<le> target \<or> holds_para target (ss_chunks st) p" for p
    using that holds_para_append by (auto simp: holds_para_def holds_text_append)
  with assms False c show ?thesis
    by (auto simp: section_inv_def section_flush_def list_all_iff)
qed

lemma section_inv_note: "section_inv heading hasHeading target paras st
    \<Longrightarrow> section_inv heading hasHeading target paras (note_last st)"
  by (auto simp: section_inv_def note_last_def)

lemma window_candidates_hold:
  "list_all (from_section heading hasHeading) (window_candidates heading hasHeading prevLast sw)
   \<and> list_all (holds_text (window_candidates heading hasHeading prevLast sw)) sw"
  by (cases sw) (auto simp: window_candidates_def from_section_def candidate_def holds_text_def
      list_all_iff list_ex_iff Contains_iff intro: Contains_overlap [unfolded Contains_iff])

lemma section_inv_para:
  assumes "section_inv heading hasHeading target paras st"
  shows "section_inv heading hasHeading target (paras @ [para]) (section_para heading hasHeading target para st)"
proof (cases "len para > target")
  case True
  let ?f = "section_flush heading hasHeading st"
  let ?w = "window_candidates heading hasHeading (ss_prevLast ?f) (sentenceWindow para target)"
  note f = section_inv_flush [OF assms]
  have "ss_current ?f = []" by (auto simp: section_flush_def)
  moreover have "holds_para target (ss_chunks ?f @ ?w) para"
    using window_candidates_hold [of heading hasHeading "ss_prevLast ?f" "sentenceWindow para target"] True
    by (auto simp: holds_para_def holds_text_append list_all_iff)
  ultimately have "section_inv heading hasHeading target (paras @ [para]) (?f\<lparr>ss_chunks := ss_chunks ?f @ ?w\<rparr>)"
    using f window_candidates_hold [of heading hasHeading "ss_prevLast ?f" "sentenceWindow para target"]
    by (auto simp: section_inv_def list_all_iff holds_para_append)
  with True show ?thesis by (simp add: section_para_def Let_def section_inv_note)
next
  case False
  define st' where "st' = (if ss_len st + len para + (if ss_current st = [] then 0 else 2) > target
      \<and> ss_current st \<noteq> [] then note_last (section_flush heading hasHeading st) else st)"
  have st': "section_inv heading hasHeading target paras st'"
    unfolding st'_def using assms section_inv_flush [OF assms] section_inv_note by auto
  have "section_para heading hasHeading target para st = st'\<lparr>ss_current := ss_current st' @ [para],
      ss_len := ss_len st' + len para + (if ss_current st' = [] then 0 else 2)\<rparr>"
    using False by (simp add: section_para_def st'_def Let_def)
  with st' False show ?thesis
    by (auto simp: section_inv_def list_all_iff Join_snoc para_sep_def)
qed

lemma section_inv_fold:
  "section_inv heading hasHeading target done st \<Longrightarrow>
   section_inv heading hasHeading target (done @ paras) (fold (section_para heading hasHeading target) paras st)"
proof (induction paras arbitrary: st "done")
  case (Cons p paras)
  from Cons.IH [OF section_inv_para [OF Cons.prems]] show ?case by simp
qed simp

text \<open>
  chunking a section loses no paragraph. Every paragraph that fits the target is contained
  in a chunk of the section, every longer one has each of its sentence windows contained in one,
  and every chunk carries the section's heading and is a paragraph or a sentence-window chunk.
\<close>

theorem section_chunks_complete:
  "list_all (holds_para target (chunkSection s heading hasHeading target)) (section_paras s)
   \<and> list_all (from_section heading hasHeading) (chunkSection s heading hasHeading target)"
proof -
  let ?st = "\<lparr>ss_chunks = [], ss_current = [], ss_len = 0, ss_prevLast = []\<rparr>"
  have "section_inv heading hasHeading target [] ?st" by (simp add: section_inv_def)
  from section_inv_flush [OF section_inv_fold [OF this, of "section_paras s"]]
  have f: "list_all (holds_para target (chunkSection s heading hasHeading target)) (section_paras s)
      \<and> list_all (from_section heading hasHeading) (chunkSection s heading hasHeading target)"
    if "TrimSpace s \<noteq> []" "section_paras s \<noteq> []"
    using that by (simp add: chunkSection_def section_inv_def)
  have "section_paras s = []" if "TrimSpace s = []"
  proof -
    have "find_all paragraphSplitRE [] 0 = []" by code_simp
    with that have "section_paras s = filter (\<lambda>p. p \<noteq> []) [TrimSpace []]"
      by (simp add: section_paras_def Split_def)
    also have "TrimSpace [] = []" by code_simp
    finally show ?thesis by simp
  qed
  with f show ?thesis by (cases "TrimSpace s = [] \<or> section_paras s = []") (auto simp: chunkSection_def)
qed

end
