(* ===== verification/Embed_Gateway.thy ===== *)
theory Embed_Gateway
  imports Engram_Types
begin

text \<open>
  The gateway that fills in missing embeddings in the background: the adaptive throttle
  (\<^verbatim>\<open>src/internal/embedgateway/throttle.go\<close>), the validation of a response
  (\<^verbatim>\<open>validate.go\<close>, \<^verbatim>\<open>src/internal/embedmodel/model.go\<close>), the drain of one batch
  (\<^verbatim>\<open>drain.go\<close>) and the loop around it (\<^verbatim>\<open>gateway.go\<close>).

  The chunk table is a list of rows; an empty \<^const>\<open>c_Embedding\<close> is the value NULL. The
  embedding service is the argument \<open>emb\<close>, which may answer each request differently, so it
  gets the whole row; \<open>locked\<close> tells which rows another transaction holds, and \<open>fault\<close> which
  database calls fail. The goroutines of a batch touch different rows and share only the
  rejection counter and the hold, which each updates in one step; \<open>visit\<close> is the order of those
  steps and \<open>clock\<close> their instants.
\<close>

section \<open>Throttle\<close>

record AdaptiveThrottle =
  concurrency :: int
  minConcurrency :: int
  maxConcurrency :: int

record ThrottleStats =
  AcquiredConns :: int
  MaxConns :: int

definition NewAdaptiveThrottle :: "int \<Rightarrow> AdaptiveThrottle" where
  "NewAdaptiveThrottle m =
     (let m = (if m < 1 then 1 else m) in
      \<lparr>concurrency = m, minConcurrency = 1, maxConcurrency = m\<rparr>)"

definition Throttle_Update :: "ThrottleStats \<Rightarrow> AdaptiveThrottle \<Rightarrow> AdaptiveThrottle" where
  "Throttle_Update stat t =
     (if MaxConns stat \<le> 0 then t
      else let utilisation = of_int (AcquiredConns stat) / (of_int (MaxConns stat) :: float64) in
        if utilisation > 80 / 100 then t\<lparr>concurrency := minConcurrency t\<rparr>
        else if utilisation > 60 / 100
        then t\<lparr>concurrency := max (concurrency t - 1) (minConcurrency t)\<rparr>
        else if utilisation < 30 / 100
        then t\<lparr>concurrency := min (concurrency t + 1) (maxConcurrency t)\<rparr>
        else t)"

section \<open>Models and responses\<close>

definition CanonicalBGEM3 :: string where
  "CanonicalBGEM3 = ''BAAI/bge-m3''"

definition RequiredDims :: nat where
  "RequiredDims = 1024"

definition aliasToCanonical :: "(string \<times> string) list" where
  "aliasToCanonical =
     [(''BAAI/bge-m3'', CanonicalBGEM3), (''bge-m3'', CanonicalBGEM3),
      (''bge-m3-Q8_0.gguf'', CanonicalBGEM3), (''bge-m3-Q4_K_M.gguf'', CanonicalBGEM3),
      (''bge-m3-live'', CanonicalBGEM3), (''bge-m3-reembed'', CanonicalBGEM3)]"

definition CanonicalName :: "string \<Rightarrow> string" where
  "CanonicalName modelID = (case map_of aliasToCanonical modelID of Some c \<Rightarrow> c | None \<Rightarrow> [])"

datatype embed_rejection = WrongModel string | WrongDims nat string

definition ValidateEmbedResponse :: "float32 list \<Rightarrow> string \<Rightarrow> embed_rejection option" where
  "ValidateEmbedResponse vec reportedModelID =
     (if CanonicalName reportedModelID \<noteq> CanonicalBGEM3 then Some (WrongModel reportedModelID)
      else if length vec \<noteq> RequiredDims then Some (WrongDims (length vec) reportedModelID)
      else None)"

definition rejectionClass :: "float32 list \<Rightarrow> string \<Rightarrow> string" where
  "rejectionClass vec modelID =
     (if CanonicalName modelID \<noteq> CanonicalBGEM3 then ''wrong_model''
      else if length vec \<noteq> RequiredDims then ''wrong_dims''
      else ''none'')"

section \<open>State\<close>

record EmbedGateway =
  batchSize :: int
  minIdle :: duration
  maxIdle :: duration
  holdFor :: duration
  throttle :: AdaptiveThrottle
  holdUntil :: gotime
  consecutiveValidationErr :: int

definition DefaultBatchSize :: int where "DefaultBatchSize = 100"

definition DefaultMaxConcurrency :: int where "DefaultMaxConcurrency = 8"

definition consecutiveValidationThreshold :: int where "consecutiveValidationThreshold = 5"

definition NewEmbedGateway :: "int \<Rightarrow> EmbedGateway" where
  "NewEmbedGateway n =
     \<lparr>batchSize = (if n \<le> 0 then DefaultBatchSize else n),
      minIdle = 5 * second, maxIdle = 300 * second, holdFor = 2 * minute,
      throttle = NewAdaptiveThrottle DefaultMaxConcurrency,
      holdUntil = 0, consecutiveValidationErr = 0\<rparr>"

definition inDegradedHold :: "gotime \<Rightarrow> EmbedGateway \<Rightarrow> bool" where
  "inDegradedHold now g = (\<not> (holdUntil g = 0 \<or> \<not> now < holdUntil g))"

definition noteValidationRejected :: "gotime \<Rightarrow> EmbedGateway \<Rightarrow> EmbedGateway" where
  "noteValidationRejected now g =
     (let c = consecutiveValidationErr g + 1; g' = g\<lparr>consecutiveValidationErr := c\<rparr> in
      if c < consecutiveValidationThreshold then g' else g'\<lparr>holdUntil := now + holdFor g\<rparr>)"

definition noteEmbedAccepted :: "EmbedGateway \<Rightarrow> EmbedGateway" where
  "noteEmbedAccepted g = g\<lparr>consecutiveValidationErr := 0\<rparr>"

section \<open>Draining one batch\<close>

datatype gw_call = BeginClaim | QueryPending | CommitClaim | UpdateRow string

type_synonym embedder = "Chunk \<Rightarrow> (float32 list \<times> string) option"

definition pending_chunk :: "Chunk \<Rightarrow> bool" where
  "pending_chunk c = (c_Embedding c = [])"

text \<open>\<^verbatim>\<open>WHERE embedding IS NULL ORDER BY id DESC LIMIT n FOR UPDATE SKIP LOCKED\<close>.\<close>

definition claim_pending :: "(string \<Rightarrow> bool) \<Rightarrow> int \<Rightarrow> Chunk list \<Rightarrow> Chunk list" where
  "claim_pending locked n rows =
     take (nat n) (sort_stable (\<lambda>a b. c_ID b < c_ID a)
       (filter (\<lambda>c. pending_chunk c \<and> \<not> locked (c_ID c)) rows))"

definition embedAndValidate ::
    "embedder \<Rightarrow> gotime \<Rightarrow> Chunk \<Rightarrow> EmbedGateway \<Rightarrow> EmbedGateway \<times> float32 list option" where
  "embedAndValidate emb now c g =
     (case emb c of
        None \<Rightarrow> (g, None)
      | Some (vec, modelID) \<Rightarrow>
          (case ValidateEmbedResponse vec modelID of
             Some _ \<Rightarrow> (noteValidationRejected now g, None)
           | None \<Rightarrow> (noteEmbedAccepted g, Some vec)))"

text \<open>\<^verbatim>\<open>UPDATE chunks SET embedding=$1 WHERE id=$2 AND embedding IS NULL\<close>.\<close>

definition set_embedding :: "string \<Rightarrow> float32 list \<Rightarrow> Chunk list \<Rightarrow> Chunk list" where
  "set_embedding i vec rows =
     map (\<lambda>c. if c_ID c = i \<and> pending_chunk c then c\<lparr>c_Embedding := vec\<rparr> else c) rows"

definition drain_one ::
    "embedder \<Rightarrow> (string \<Rightarrow> gotime) \<Rightarrow> (gw_call \<Rightarrow> bool) \<Rightarrow> Chunk
     \<Rightarrow> EmbedGateway \<times> Chunk list \<Rightarrow> EmbedGateway \<times> Chunk list" where
  "drain_one emb clock fault c s =
     (case embedAndValidate emb (clock (c_ID c)) c (fst s) of
        (g, None) \<Rightarrow> (g, snd s)
      | (g, Some vec) \<Rightarrow>
          (g, if fault (UpdateRow (c_ID c)) then snd s else set_embedding (c_ID c) vec (snd s)))"

definition drainBatch ::
    "embedder \<Rightarrow> (string \<Rightarrow> gotime) \<Rightarrow> (string \<Rightarrow> bool) \<Rightarrow> (gw_call \<Rightarrow> bool)
     \<Rightarrow> (Chunk list \<Rightarrow> Chunk list) \<Rightarrow> gotime \<Rightarrow> EmbedGateway \<times> Chunk list
     \<Rightarrow> (EmbedGateway \<times> Chunk list) \<times> (gw_call + int)" where
  "drainBatch emb clock locked fault visit now s =
     (if inDegradedHold now (fst s) then (s, Inr 0)
      else if fault BeginClaim then (s, Inl BeginClaim)
      else if fault QueryPending then (s, Inl QueryPending)
      else if fault CommitClaim then (s, Inl CommitClaim)
      else let chunks = claim_pending locked (batchSize (fst s)) (snd s) in
        (fold (drain_one emb clock fault) (visit chunks) s, Inr (int (length chunks))))"

section \<open>The loop\<close>

text \<open>
  What one turn of \<^verbatim>\<open>run\<close> decides after a drain: to go round again at once, or to wait for the
  given time. \<open>wake_backoff\<close> is the backoff the next turn starts with: a notification resets it,
  a wait that expires leaves it.
\<close>

datatype turn = Continue | Wait duration

definition run_turn :: "EmbedGateway \<Rightarrow> duration \<Rightarrow> gw_call + int \<Rightarrow> duration \<times> turn" where
  "run_turn g backoff r =
     (let n = (case r of Inl _ \<Rightarrow> 0 | Inr n \<Rightarrow> n) in
      if n > 0
      then (if n = batchSize g then (minIdle g, Continue) else (minIdle g, Wait (minIdle g)))
      else let b = (if backoff < maxIdle g then min (backoff * 2) (maxIdle g) else backoff) in
        (b, Wait b))"

definition wake_backoff :: "EmbedGateway \<Rightarrow> bool \<Rightarrow> duration \<Rightarrow> duration" where
  "wake_backoff g woke backoff = (if woke then minIdle g else backoff)"

section \<open>The throttle stays in its range\<close>

definition throttle_ok :: "AdaptiveThrottle \<Rightarrow> bool" where
  "throttle_ok t \<longleftrightarrow> minConcurrency t = 1 \<and> 1 \<le> concurrency t \<and> concurrency t \<le> maxConcurrency t"

lemma throttle_ok_New [inv_rules]: "throttle_ok (NewAdaptiveThrottle m)"
  by (simp add: throttle_ok_def NewAdaptiveThrottle_def Let_def)

lemma throttle_ok_Update [inv_rules]: "throttle_ok t \<Longrightarrow> throttle_ok (Throttle_Update stat t)"
  by (auto simp: throttle_ok_def Throttle_Update_def Let_def)

interpretation throttling: invariant_system
    "\<lambda>t. \<exists>m. t = NewAdaptiveThrottle m" Throttle_Update throttle_ok
  by unfold_locales (auto intro: inv_rules)

lemma maxConcurrency_Update [simp]: "maxConcurrency (Throttle_Update stat t) = maxConcurrency t"
  by (simp add: Throttle_Update_def Let_def)

lemma maxConcurrency_run: "maxConcurrency (run_ops Throttle_Update es t) = maxConcurrency t"
  by (induction es arbitrary: t) simp_all

section \<open>What a drain writes\<close>

lemma ValidateEmbedResponse_ok:
  "ValidateEmbedResponse vec m = None
     \<longleftrightarrow> m \<in> fst ` set aliasToCanonical \<and> length vec = RequiredDims"
proof -
  have "CanonicalName m = CanonicalBGEM3 \<longleftrightarrow> m \<in> fst ` set aliasToCanonical"
    by (auto simp: CanonicalName_def aliasToCanonical_def CanonicalBGEM3_def)
  then show ?thesis by (auto simp: ValidateEmbedResponse_def)
qed

text \<open>The vector the gateway stores for a chunk, if any.\<close>

definition written :: "embedder \<Rightarrow> (gw_call \<Rightarrow> bool) \<Rightarrow> Chunk \<Rightarrow> float32 list option" where
  "written emb fault c =
     (case emb c of
        None \<Rightarrow> None
      | Some (vec, m) \<Rightarrow>
          if ValidateEmbedResponse vec m = None \<and> \<not> fault (UpdateRow (c_ID c)) then Some vec
          else None)"

lemma written_Some:
  "written emb fault c = Some vec \<longleftrightarrow>
     (\<exists>m. emb c = Some (vec, m) \<and> ValidateEmbedResponse vec m = None)
     \<and> \<not> fault (UpdateRow (c_ID c))"
  by (auto simp: written_def split: option.splits)

lemma written_not_Nil: "written emb fault c = Some vec \<Longrightarrow> vec \<noteq> []"
  by (auto simp: written_Some ValidateEmbedResponse_ok RequiredDims_def)

definition fill :: "embedder \<Rightarrow> (gw_call \<Rightarrow> bool) \<Rightarrow> Chunk \<Rightarrow> Chunk" where
  "fill emb fault c =
     (case written emb fault c of None \<Rightarrow> c | Some vec \<Rightarrow> c\<lparr>c_Embedding := vec\<rparr>)"

lemma c_ID_fill [simp]: "c_ID (fill emb fault c) = c_ID c"
  by (simp add: fill_def split: option.splits)

lemma snd_drain_one:
  "snd (drain_one emb clock fault c s)
     = (case written emb fault c of
          None \<Rightarrow> snd s | Some vec \<Rightarrow> set_embedding (c_ID c) vec (snd s))"
  by (auto simp: drain_one_def embedAndValidate_def written_def split: option.splits)

lemma snd_fold_drain_one:
  "snd (fold (drain_one emb clock fault) cs s)
     = map (\<lambda>r. if pending_chunk r
         then case find (\<lambda>c. c_ID c = c_ID r \<and> written emb fault c \<noteq> None) cs of
             None \<Rightarrow> r | Some c \<Rightarrow> r\<lparr>c_Embedding := the (written emb fault c)\<rparr>
         else r) (snd s)"
proof (induction cs arbitrary: s)
  case (Cons c cs)
  show ?case
  proof (cases "written emb fault c")
    case None
    then show ?thesis by (simp add: Cons.IH snd_drain_one cong: if_cong)
  next
    case (Some vec)
    with written_not_Nil [OF Some] show ?thesis
      by (auto simp: Cons.IH snd_drain_one set_embedding_def pending_chunk_def)
  qed
qed (simp add: map_idI)

lemma find_own_row:
  assumes "distinct (map c_ID rows)" "r \<in> set rows" "set cs \<subseteq> set rows"
  shows "find (\<lambda>c. c_ID c = c_ID r \<and> P c) cs = (if r \<in> set cs \<and> P r then Some r else None)"
proof -
  have "c \<in> set cs \<Longrightarrow> c_ID c = c_ID r \<Longrightarrow> c = r" for c
    using assms inj_onD [of c_ID "set rows" c r] by (auto simp: distinct_map)
  then show ?thesis
    by (induction cs) auto
qed

lemma claim_subset: "set (claim_pending locked n rows) \<subseteq> {c \<in> set rows. pending_chunk c \<and> \<not> locked (c_ID c)}"
  unfolding claim_pending_def by (rule subset_trans [OF set_take_subset]) auto

lemma length_claim:
  "length (claim_pending locked n rows)
     = min (length (filter (\<lambda>c. pending_chunk c \<and> \<not> locked (c_ID c)) rows)) (nat n)"
  by (simp add: claim_pending_def)

text \<open>Neither in hold nor failed by the database, a drain fills the rows it claims, in any order.\<close>

lemma drainBatch_rows:
  assumes ids: "distinct (map c_ID (snd s))" and visit: "\<And>xs. set (visit xs) = set xs"
    and go: "\<not> inDegradedHold now (fst s)"
      "\<not> fault BeginClaim" "\<not> fault QueryPending" "\<not> fault CommitClaim"
  shows "snd (fst (drainBatch emb clock locked fault visit now s))
     = map (\<lambda>r. if r \<in> set (claim_pending locked (batchSize (fst s)) (snd s))
         then fill emb fault r else r) (snd s)"
proof -
  let ?cs = "claim_pending locked (batchSize (fst s)) (snd s)"
  have sub: "set (visit ?cs) \<subseteq> set (snd s)" using claim_subset visit by fastforce
  have "snd (fst (drainBatch emb clock locked fault visit now s))
      = snd (fold (drain_one emb clock fault) (visit ?cs) s)"
    using go by (simp add: drainBatch_def Let_def)
  also have "\<dots> = map (\<lambda>r. if r \<in> set ?cs then fill emb fault r else r) (snd s)"
    unfolding snd_fold_drain_one
  proof (rule map_cong [OF refl])
    fix r
    assume r: "r \<in> set (snd s)"
    have "r \<in> set ?cs \<Longrightarrow> pending_chunk r" using claim_subset by fastforce
    then show "(if pending_chunk r
         then case find (\<lambda>c. c_ID c = c_ID r \<and> written emb fault c \<noteq> None) (visit ?cs) of
             None \<Rightarrow> r | Some c \<Rightarrow> r\<lparr>c_Embedding := the (written emb fault c)\<rparr>
         else r) = (if r \<in> set ?cs then fill emb fault r else r)"
      by (auto simp: find_own_row [OF ids r sub] visit fill_def split: option.splits)
  qed
  finally show ?thesis .
qed

lemma drainBatch_idle:
  "inDegradedHold now (fst s) \<or> fault BeginClaim \<or> fault QueryPending \<or> fault CommitClaim
     \<Longrightarrow> fst (drainBatch emb clock locked fault visit now s) = s"
  by (auto simp: drainBatch_def)

lemma fill_cases:
  "fill emb fault c = c \<or>
     (\<exists>vec m. emb c = Some (vec, m) \<and> m \<in> fst ` set aliasToCanonical \<and> length vec = RequiredDims
        \<and> fill emb fault c = c\<lparr>c_Embedding := vec\<rparr>)"
proof (cases "written emb fault c")
  case (Some vec)
  then obtain m where "emb c = Some (vec, m)" "ValidateEmbedResponse vec m = None"
    by (auto simp: written_Some)
  with Some show ?thesis unfolding ValidateEmbedResponse_ok by (auto simp: fill_def)
qed (simp add: fill_def)

text \<open>
  A drain of the gateway keeps every row of the chunk table and fills in only missing
  embeddings: a row that has a vector, or that another transaction holds, is left as it is, and
  a vector it writes is the embedder's answer for that very chunk, from an accepted model and
  of 1024 dimensions. In a degraded hold nothing is claimed and nothing changes. Hypotheses:
  chunk ids are a primary key, and \<open>visit\<close> runs the claimed chunks in some order.
\<close>

theorem drain_fills_only_missing:
  assumes "distinct (map c_ID (snd s))" and "\<And>xs. set (visit xs) = set xs"
  shows "list_all2
      (\<lambda>c c'. c' = c \<or> pending_chunk c \<and> \<not> locked (c_ID c)
        \<and> (\<exists>vec m. emb c = Some (vec, m) \<and> m \<in> fst ` set aliasToCanonical \<and> length vec = 1024
             \<and> c' = c\<lparr>c_Embedding := vec\<rparr>))
      (snd s) (snd (fst (drainBatch emb clock locked fault visit now s)))
    \<and> (inDegradedHold now (fst s)
        \<longrightarrow> drainBatch emb clock locked fault visit now s = (s, Inr 0))"
proof (intro conjI impI)
  let ?R = "\<lambda>c c'. c' = c \<or> pending_chunk c \<and> \<not> locked (c_ID c)
        \<and> (\<exists>vec m. emb c = Some (vec, m) \<and> m \<in> fst ` set aliasToCanonical \<and> length vec = 1024
             \<and> c' = c\<lparr>c_Embedding := vec\<rparr>)"
  show "list_all2 ?R (snd s) (snd (fst (drainBatch emb clock locked fault visit now s)))"
  proof (cases "inDegradedHold now (fst s) \<or> fault BeginClaim \<or> fault QueryPending \<or> fault CommitClaim")
    case True
    then show ?thesis by (simp add: drainBatch_idle list_all2_same)
  next
    case False
    have "r \<in> set (claim_pending locked n rows) \<Longrightarrow> ?R r (fill emb fault r)" for r n rows
      using fill_cases [of emb fault r] claim_subset [of locked n rows]
      by (auto simp: RequiredDims_def)
    with False show ?thesis
      by (auto simp: drainBatch_rows [OF assms] list_all2_map2 list_all2_same)
  qed
qed (simp add: drainBatch_def)

text \<open>A gateway that writes one chunk and leaves the embedded one alone.\<close>

definition test_chunk :: "string \<Rightarrow> float32 list \<Rightarrow> Chunk" where
  "test_chunk i v =
     \<lparr>c_ID = i, c_MemoryID = ''m'', c_ChunkText = ''t'', c_ChunkIndex = 0, c_ChunkHash = ''h'',
      c_Embedding = v, c_SectionHeading = None, c_ChunkType = ''sentence_window'',
      c_LastMatched = None, c_Project = ''p''\<rparr>"

theorem drain_fills_only_missing_witness:
  "list_all2
      (\<lambda>c c'. c' = c \<or> pending_chunk c \<and> \<not> False
        \<and> (\<exists>vec m. Some (replicate 1024 0, ''bge-m3'') = Some (vec, m)
             \<and> m \<in> fst ` set aliasToCanonical \<and> length vec = 1024
             \<and> c' = c\<lparr>c_Embedding := vec\<rparr>))
      [test_chunk ''a'' [], test_chunk ''b'' [1]]
      (snd (fst (drainBatch (\<lambda>_. Some (replicate 1024 0, ''bge-m3'')) (\<lambda>_. 0) (\<lambda>_. False) (\<lambda>_. False)
        id 0 (NewEmbedGateway 1, [test_chunk ''a'' [], test_chunk ''b'' [1]]))))"
  using drain_fills_only_missing [of "(NewEmbedGateway 1, [test_chunk ''a'' [], test_chunk ''b'' [1]])" id
      "\<lambda>_. False" "\<lambda>_. Some (replicate 1024 0, ''bge-m3'')" "\<lambda>_. 0" "\<lambda>_. False" 0]
  by (simp add: test_chunk_def del: list_all2_Cons)

section \<open>Progress\<close>

text \<open>The gateway after a series of drains at the instants \<open>nows\<close>.\<close>

definition drains ::
    "embedder \<Rightarrow> (string \<Rightarrow> gotime) \<Rightarrow> (string \<Rightarrow> bool) \<Rightarrow> (gw_call \<Rightarrow> bool)
     \<Rightarrow> (Chunk list \<Rightarrow> Chunk list) \<Rightarrow> gotime list \<Rightarrow> EmbedGateway \<times> Chunk list
     \<Rightarrow> EmbedGateway \<times> Chunk list" where
  "drains emb clock locked fault visit =
     run_ops (\<lambda>now s. fst (drainBatch emb clock locked fault visit now s))"

definition accepts :: "embedder \<Rightarrow> Chunk \<Rightarrow> bool" where
  "accepts emb c \<longleftrightarrow> (\<exists>vec m. emb c = Some (vec, m) \<and> ValidateEmbedResponse vec m = None)"

lemma fst_drain_one_accepted:
  "accepts emb c \<Longrightarrow> fst (drain_one emb clock fault c s) = noteEmbedAccepted (fst s)"
  by (auto simp: accepts_def drain_one_def embedAndValidate_def)

lemma fst_fold_accepted:
  "\<forall>c \<in> set cs. accepts emb c \<Longrightarrow>
   batchSize (fst (fold (drain_one emb clock fault) cs s)) = batchSize (fst s)
   \<and> holdUntil (fst (fold (drain_one emb clock fault) cs s)) = holdUntil (fst s)"
  by (induction cs arbitrary: s) (simp_all add: fst_drain_one_accepted noteEmbedAccepted_def)

lemma fill_accepted: "accepts emb c \<Longrightarrow> \<not> pending_chunk (fill emb (\<lambda>_. False) c)"
proof -
  assume "accepts emb c"
  then obtain vec where "written emb (\<lambda>_. False) c = Some vec"
    by (auto simp: accepts_def written_def)
  then show ?thesis using written_not_Nil by (simp add: fill_def pending_chunk_def)
qed

lemma filter_pending_map:
  assumes "distinct rows" "C \<subseteq> {c \<in> set rows. pending_chunk c}" "\<And>c. c \<in> C \<Longrightarrow> \<not> pending_chunk (f c)"
  shows "filter pending_chunk (map (\<lambda>r. if r \<in> C then f r else r) rows)
      = filter (\<lambda>r. pending_chunk r \<and> r \<notin> C) rows"
  using assms(3) by (induction rows) auto

lemma drainBatch_progress:
  fixes emb clock visit now s
  defines "s' \<equiv> fst (drainBatch emb clock (\<lambda>_. False) (\<lambda>_. False) visit now s)"
  assumes ids: "distinct (map c_ID (snd s))" and visit: "\<And>xs. set (visit xs) = set xs"
    and go: "\<not> inDegradedHold now (fst s)"
    and acc: "\<forall>c \<in> set (snd s). pending_chunk c \<longrightarrow> accepts emb c"
  shows "map c_ID (snd s') = map c_ID (snd s) \<and> batchSize (fst s') = batchSize (fst s)
    \<and> holdUntil (fst s') = holdUntil (fst s)
    \<and> (\<forall>c \<in> set (snd s'). pending_chunk c \<longrightarrow> accepts emb c)
    \<and> length (filter pending_chunk (snd s')) =
        length (filter pending_chunk (snd s)) - nat (batchSize (fst s))"
proof -
  let ?cs = "claim_pending (\<lambda>_. False) (batchSize (fst s)) (snd s)"
  let ?f = "\<lambda>r. if r \<in> set ?cs then fill emb (\<lambda>_. False) r else r"
  have rows: "snd s' = map ?f (snd s)"
    unfolding s'_def using drainBatch_rows [OF ids visit go] by simp
  have cs: "set ?cs \<subseteq> {c \<in> set (snd s). pending_chunk c}"
    using claim_subset [of "\<lambda>_. False"] by simp
  have filled: "c \<in> set ?cs \<Longrightarrow> \<not> pending_chunk (fill emb (\<lambda>_. False) c)" for c
    using cs acc fill_accepted by blast
  have dist: "distinct (snd s)" using ids by (simp add: distinct_map)
  have dcs: "distinct ?cs"
    unfolding claim_pending_def using dist
    by (intro distinct_take) (metis distinct_filter mset_eq_imp_distinct_iff mset_sort_stable)
  have fst_s': "fst s' = fst (fold (drain_one emb clock (\<lambda>_. False)) (visit ?cs) s)"
    unfolding s'_def using go by (simp add: drainBatch_def Let_def)
  have "\<forall>c \<in> set (visit ?cs). accepts emb c" using cs acc visit by blast
  note fst_fold_accepted [OF this, of clock "\<lambda>_. False" s, folded fst_s']
  moreover have "map c_ID (snd s') = map c_ID (snd s)"
    unfolding rows by simp
  moreover have "\<forall>c \<in> set (snd s'). pending_chunk c \<longrightarrow> accepts emb c"
    unfolding rows using acc filled by auto
  moreover have "length (filter pending_chunk (snd s')) =
        length (filter pending_chunk (snd s)) - nat (batchSize (fst s))"
  proof -
    have "length (filter pending_chunk (snd s'))
        = length (filter (\<lambda>r. pending_chunk r \<and> r \<notin> set ?cs) (snd s))"
      unfolding rows by (subst filter_pending_map [OF dist cs filled]) simp_all
    also have "\<dots> = card ({c \<in> set (snd s). pending_chunk c} - set ?cs)"
      using dist by (simp add: distinct_length_filter Int_def set_diff_eq conj_ac)
    also have "\<dots> = card {c \<in> set (snd s). pending_chunk c} - length ?cs"
      using cs dcs by (simp add: card_Diff_subset distinct_card)
    also have "card {c \<in> set (snd s). pending_chunk c} = length (filter pending_chunk (snd s))"
      using dist by (simp add: distinct_length_filter Int_def conj_ac)
    finally show ?thesis by (simp add: length_claim)
  qed
  ultimately show ?thesis by blast
qed

text \<open>
  The gateway catches up. When the database answers, no other transaction holds rows, the
  embedder returns an acceptable vector for every chunk that lacks one, and no hold is in force,
  each drain fills a whole batch: after as many drains as there are batches of pending chunks,
  no chunk lacks its embedding, whatever the order in which the goroutines run.
\<close>

theorem gateway_catches_up:
  assumes "distinct (map c_ID (snd s))" and "\<And>xs. set (visit xs) = set xs"
    and "\<forall>now \<in> set nows. \<not> inDegradedHold now (fst s)"
    and "\<forall>c \<in> set (snd s). pending_chunk c \<longrightarrow> accepts emb c"
    and "int (length (filter pending_chunk (snd s))) \<le> int (length nows) * batchSize (fst s)"
  shows "\<forall>c \<in> set (snd (drains emb clock (\<lambda>_. False) (\<lambda>_. False) visit nows s)). \<not> pending_chunk c"
  using assms(1,3,4,5) unfolding drains_def
proof (induction nows arbitrary: s)
  case Nil
  then show ?case by (simp add: filter_empty_conv)
next
  case (Cons now nows)
  define s' where "s' = fst (drainBatch emb clock (\<lambda>_. False) (\<lambda>_. False) visit now s)"
  have "\<not> inDegradedHold now (fst s)" using Cons.prems(2) by simp
  note P = drainBatch_progress [OF Cons.prems(1) assms(2) this Cons.prems(3), of clock, folded s'_def]
  have "int (length (filter pending_chunk (snd s'))) \<le> int (length nows) * batchSize (fst s')"
    using P Cons.prems(4)
    by (cases "batchSize (fst s) \<le> 0") (auto simp: algebra_simps of_nat_diff_if mult_le_0_iff)
  with P Cons.prems(1,2) show ?case
    unfolding run_ops_Cons s'_def [symmetric]
    by (intro Cons.IH) (auto simp add: inDegradedHold_def)
qed

theorem gateway_catches_up_witness:
  "list_all (\<lambda>c. \<not> pending_chunk c)
     (snd (drains (\<lambda>_. Some (replicate 1024 0, ''bge-m3'')) (\<lambda>_. 0) (\<lambda>_. False) (\<lambda>_. False) rev
      [0, 1] (NewEmbedGateway 2, [test_chunk ''a'' [], test_chunk ''b'' [], test_chunk ''c'' []])))"
  unfolding list_all_iff
  by (rule gateway_catches_up)
    (auto simp: test_chunk_def inDegradedHold_def NewEmbedGateway_def accepts_def pending_chunk_def
      ValidateEmbedResponse_ok aliasToCanonical_def RequiredDims_def)

lemma fold_drain_one_failing:
  "\<forall>c \<in> set cs. emb c = None \<Longrightarrow> fold (drain_one emb clock fault) cs s = s"
  by (induction cs) (simp_all add: drain_one_def embedAndValidate_def)

text \<open>
  A full batch that cannot be embedded keeps the gateway busy for nothing. When the embedder
  fails on each of the newest pending chunks and they fill a batch, a drain reports a whole batch
  of work while it changes neither the table nor the gateway; the loop goes round again at once,
  so no number of turns waits or reaches the older chunks, even those the embedder would accept.
  Only rejected responses count towards the degraded hold, failed requests do not.
\<close>

theorem failing_batch_spins:
  assumes "\<And>xs. set (visit xs) = set xs" and "\<forall>now \<in> set nows. \<not> inDegradedHold now (fst s)"
    and "\<not> fault BeginClaim" and "\<not> fault QueryPending" and "\<not> fault CommitClaim"
    and "0 < batchSize (fst s)"
    and "int (length (claim_pending locked (batchSize (fst s)) (snd s))) = batchSize (fst s)"
    and "\<forall>c \<in> set (claim_pending locked (batchSize (fst s)) (snd s)). emb c = None"
  shows "drains emb clock locked fault visit nows s = s
    \<and> (\<forall>now \<in> set nows. run_turn (fst s) backoff (snd (drainBatch emb clock locked fault visit now s))
         = (minIdle (fst s), Continue))"
proof -
  have "drainBatch emb clock locked fault visit now s = (s, Inr (batchSize (fst s)))"
    if "now \<in> set nows" for now
    using assms that by (simp add: drainBatch_def Let_def fold_drain_one_failing)
  then show ?thesis
    using assms(2,6) unfolding drains_def by (induction nows) (auto simp: run_turn_def)
qed

theorem failing_batch_spins_witness:
  "drains (\<lambda>c. if c_ID c = ''b'' then None else Some (replicate 1024 0, ''bge-m3''))
      (\<lambda>_. 0) (\<lambda>_. False) (\<lambda>_. False) id [0, 1, 2]
      (NewEmbedGateway 1, [test_chunk ''a'' [], test_chunk ''b'' []])
    = (NewEmbedGateway 1, [test_chunk ''a'' [], test_chunk ''b'' []])"
  using failing_batch_spins [of id "[0, 1, 2]" "(NewEmbedGateway 1, [test_chunk ''a'' [], test_chunk ''b'' []])"
      "\<lambda>_. False" "\<lambda>_. False" "\<lambda>c. if c_ID c = ''b'' then None else Some (replicate 1024 0, ''bge-m3'')" "\<lambda>_. 0"]
  by (simp add: test_chunk_def NewEmbedGateway_def inDegradedHold_def claim_pending_def
      pending_chunk_def)

section \<open>Waiting\<close>

lemma run_turn_backoff:
  "minIdle g \<le> b \<Longrightarrow> b \<le> maxIdle g \<Longrightarrow> 0 \<le> minIdle g
     \<Longrightarrow> minIdle g \<le> fst (run_turn g b r) \<and> fst (run_turn g b r) \<le> maxIdle g"
  by (auto simp: run_turn_def Let_def)

text \<open>\<open>k\<close> empty drains in a row double the wait each time, up to the cap.\<close>

lemma idle_backoff:
  assumes "0 < minIdle g" "minIdle g \<le> maxIdle g"
  shows "((\<lambda>b. fst (run_turn g b (Inr 0))) ^^ k) (minIdle g) = min (minIdle g * 2 ^ k) (maxIdle g)"
  using assms by (induction k) (auto simp: run_turn_def Let_def min_def)

end
