(* ===== verification/Search_Store.thy ===== *)
theory Search_Store
  imports Memory_Ops Chunker Embed_Gateway
begin

text \<open>
  The writing half of the search engine (\<^verbatim>\<open>src/internal/search/engine.go\<close>): chunking a memory,
  storing one or many, correcting one, feedback, consolidation, the guard on the project's
  embedder and the migration to another embedder. The tables are those of the Postgres backend.

  \<open>u\<close> is the case mapping of non-ASCII text, \<open>dig\<close> the digest behind chunk hashes and \<open>sha\<close> the
  one behind content hashes; \<open>ids\<close> are the ids drawn for chunks. An operation that runs several
  transactions has an environment for each. HyDE indexing (off by default) is left out.
\<close>

section \<open>Models\<close>

record ModelSpec =
  ms_Name :: string
  ms_Dimensions :: int
  ms_MaxTokens :: int
  ms_Recommended :: bool

definition SuggestedModels :: "ModelSpec list" where
  "SuggestedModels =
     [\<lparr>ms_Name = ''BAAI/bge-m3'', ms_Dimensions = 1024, ms_MaxTokens = 8192, ms_Recommended = True\<rparr>,
      \<lparr>ms_Name = ''qwen3-embedding:8b'', ms_Dimensions = 1536, ms_MaxTokens = 8192, ms_Recommended = False\<rparr>,
      \<lparr>ms_Name = ''mxbai-embed-large'', ms_Dimensions = 1024, ms_MaxTokens = 512, ms_Recommended = False\<rparr>,
      \<lparr>ms_Name = ''nomic-embed-text'', ms_Dimensions = 768, ms_MaxTokens = 512, ms_Recommended = False\<rparr>]"

definition defaultModelMaxTokens :: int where
  "defaultModelMaxTokens = 8192"

definition ModelMaxTokens :: "string \<Rightarrow> int" where
  "ModelMaxTokens name =
     (case find (\<lambda>m. ms_Name m = name \<and> ms_MaxTokens m > 0) SuggestedModels of
        None \<Rightarrow> defaultModelMaxTokens | Some m \<Rightarrow> ms_MaxTokens m)"

definition DefaultRecommendedModel :: "ModelSpec option" where
  "DefaultRecommendedModel = find ms_Recommended SuggestedModels"

definition embedderAliases :: "(string \<times> string) list" where
  "embedderAliases =
     [(''bge-m3-Q8_0.gguf'', ''BAAI/bge-m3''), (''bge-m3-Q4_K_M.gguf'', ''BAAI/bge-m3''),
      (''bge-m3'', ''BAAI/bge-m3''), (''BAAI/bge-m3'', ''BAAI/bge-m3''),
      (''bge-m3:latest'', ''BAAI/bge-m3''), (''BAAI/bge-m3:latest'', ''BAAI/bge-m3'')]"

definition canonicalEmbedderName :: "string \<Rightarrow> string" where
  "canonicalEmbedderName s =
     (let c = CanonicalName s in
      if c \<noteq> [] then c
      else case map_of embedderAliases s of Some c \<Rightarrow> c | None \<Rightarrow> s)"

section \<open>The engine\<close>

text \<open>
  An embedding client is its model name and dimensions. \<open>se_worker\<close> is the client of the running
  re-embedding worker, absent once it is stopped.
\<close>

type_synonym client = "string \<times> int"

record SearchEngine =
  se_project :: string
  se_embedder :: client
  se_reembedderOverride :: "client option"
  se_worker :: "client option"
  se_embedGateway :: bool
  se_globalReembedder :: bool
  se_embedderMetaCacheValid :: bool
  se_cachedEmbedderName :: string
  se_cachedEmbedderDims :: int
  se_cachedMigrationInProgress :: bool

datatype engine_error =
    Backend db_error
  | EmbedderMismatch string string
  | CorruptDimensions string
  | NilMemory
  | NoClient string
  | BadRelation string
  | BadStrength
  | NoMemoryIDs

datatype wake = WakeGateway | WakeReembedder | WakeGlobal

definition wakes :: "SearchEngine \<Rightarrow> wake list" where
  "wakes e =
     (if se_embedGateway e then [WakeGateway] else [WakeReembedder])
     @ (if se_globalReembedder e \<and> \<not> se_embedGateway e then [WakeGlobal] else [])"

section \<open>The embedder of a project\<close>

definition get_meta :: "call_env \<Rightarrow> string \<Rightarrow> string \<Rightarrow> database \<Rightarrow> engine_error + string option" where
  "get_meta env project key db =
     (if e_fault env (''get meta '' @ key) then Inl (Backend DbFailed) else Inr (GetMeta project key db))"

definition cache_meta :: "string \<Rightarrow> int \<Rightarrow> SearchEngine \<Rightarrow> SearchEngine" where
  "cache_meta name dims e =
     e\<lparr>se_cachedEmbedderName := name, se_cachedEmbedderDims := dims,
       se_cachedMigrationInProgress := False, se_embedderMetaCacheValid := True\<rparr>"

definition dim_name :: "int \<Rightarrow> string" where
  "dim_name d = show_int d @ ''-dim''"

definition check_cached :: "SearchEngine \<Rightarrow> engine_error + unit" where
  "check_cached e =
     (if canonicalEmbedderName (se_cachedEmbedderName e) \<noteq> canonicalEmbedderName (fst (se_embedder e))
      then Inl (EmbedderMismatch (se_cachedEmbedderName e) (fst (se_embedder e)))
      else if se_cachedEmbedderDims e \<noteq> 0 \<and> se_cachedEmbedderDims e \<noteq> snd (se_embedder e)
      then Inl (EmbedderMismatch (dim_name (se_cachedEmbedderDims e)) (dim_name (snd (se_embedder e))))
      else Inr ())"

definition register_embedder ::
    "call_env \<Rightarrow> SearchEngine \<Rightarrow> database \<Rightarrow> (SearchEngine \<times> database) \<times> (engine_error + unit)" where
  "register_embedder env e db =
     (let name = canonicalEmbedderName (fst (se_embedder e)); dims = snd (se_embedder e) in
      case SetMeta env (se_project e) ''embedder_name'' name db of
        (db1, Inl x) \<Rightarrow> ((e, db1), Inl (Backend x))
      | (db1, Inr _) \<Rightarrow>
          (case SetMeta env (se_project e) ''embedder_dimensions'' (show_int dims) db1 of
             (db2, Inl x) \<Rightarrow> ((e, db2), Inl (Backend x))
           | (db2, Inr _) \<Rightarrow> ((cache_meta name dims e, db2), Inr ())))"

definition check_stored_dims ::
    "call_env \<Rightarrow> string \<Rightarrow> SearchEngine \<Rightarrow> database \<Rightarrow> SearchEngine \<times> (engine_error + unit)" where
  "check_stored_dims env storedName e db =
     (case get_meta env (se_project e) ''embedder_dimensions'' db of
        Inl x \<Rightarrow> (e, Inl x)
      | Inr None \<Rightarrow> (cache_meta (canonicalEmbedderName storedName) 0 e, Inr ())
      | Inr (Some s) \<Rightarrow>
          (case Atoi s of
             None \<Rightarrow> (e, Inl (CorruptDimensions s))
           | Some d \<Rightarrow>
               if d \<noteq> snd (se_embedder e)
               then (e, Inl (EmbedderMismatch (dim_name d) (dim_name (snd (se_embedder e)))))
               else (cache_meta (canonicalEmbedderName storedName) d e, Inr ())))"

definition migrating :: "call_env \<Rightarrow> string \<Rightarrow> database \<Rightarrow> bool" where
  "migrating env project db =
     (get_meta env project ''embedding_migration_in_progress'' db = Inr (Some ''true''))"

definition checkEmbedderMeta ::
    "call_env \<Rightarrow> SearchEngine \<Rightarrow> database \<Rightarrow> (SearchEngine \<times> database) \<times> (engine_error + unit)" where
  "checkEmbedderMeta env e db =
     (if se_embedderMetaCacheValid e \<and> \<not> se_cachedMigrationInProgress e then ((e, db), check_cached e)
      else case get_meta env (se_project e) ''embedder_name'' db of
        Inl x \<Rightarrow> ((e, db), Inl x)
      | Inr None \<Rightarrow> register_embedder env e db
      | Inr (Some storedName) \<Rightarrow>
          if canonicalEmbedderName storedName \<noteq> canonicalEmbedderName (fst (se_embedder e))
          then ((e, db), Inl (EmbedderMismatch storedName (fst (se_embedder e))))
          else if migrating env (se_project e) db
          then ((e\<lparr>se_cachedMigrationInProgress := True, se_embedderMetaCacheValid := False\<rparr>, db), Inr ())
          else case check_stored_dims env storedName e db of (e', r) \<Rightarrow> ((e', db), r))"

section \<open>Chunking a memory\<close>

definition chunk_candidates :: "SearchEngine \<Rightarrow> Memory \<Rightarrow> string \<Rightarrow> ChunkCandidate list" where
  "chunk_candidates e m rawBody =
     (let chunkSource = (if rawBody \<noteq> [] then rawBody else m_Content m);
          plain = (\<lambda>t. \<lparr>cc_Text = t, cc_SectionHeading = [], cc_HasHeading = False,
                       cc_ChunkType = ''sentence_window''\<rparr>);
          candidates =
            (if m_StorageMode m = ''document'' then ChunkDocument chunkSource 0
             else map plain (ChunkText chunkSource (ModelMaxTokens (fst (se_embedder e))) 50))
      in if candidates = [] then [plain chunkSource] else candidates)"

definition new_chunk ::
    "string \<Rightarrow> string \<Rightarrow> string \<Rightarrow> nat \<times> ChunkCandidate \<times> string \<Rightarrow> Chunk" where
  "new_chunk project memoryID i = (\<lambda>(idx, c, hash).
     \<lparr>c_ID = i, c_MemoryID = memoryID, c_ChunkText = cc_Text c, c_ChunkIndex = int idx,
      c_ChunkHash = hash, c_Embedding = [],
      c_SectionHeading = (if cc_HasHeading c then Some (cc_SectionHeading c) else None),
      c_ChunkType = cc_ChunkType c, c_LastMatched = None, c_Project = project\<rparr>)"

definition storeChunksForMemory ::
    "(string \<Rightarrow> string) \<Rightarrow> (string \<Rightarrow> byte list) \<Rightarrow> call_env \<Rightarrow> (nat \<Rightarrow> string) \<Rightarrow> SearchEngine
     \<Rightarrow> Memory \<Rightarrow> string \<Rightarrow> database \<Rightarrow> engine_error + Chunk list" where
  "storeChunksForMemory u dig env ids e m rawBody db =
     (let hashed = map (\<lambda>(i, c). (i, c, ChunkHash u dig (cc_Text c)))
            (enumerate 0 (chunk_candidates e m rawBody)) in
      if list_ex (\<lambda>(i, c, h). e_fault env (''hash exists '' @ h)) hashed then Inl (Backend DbFailed)
      else let pending = filter (\<lambda>(i, c, h). \<not> ChunkHashExists h (m_ID m) db) hashed in
        Inr (map (\<lambda>(j, p). new_chunk (se_project e) (m_ID m) (ids j) p) (enumerate 0 pending)))"

section \<open>Storing\<close>

definition store_defaults :: "call_env \<Rightarrow> SearchEngine \<Rightarrow> Memory \<Rightarrow> string \<Rightarrow> string \<Rightarrow> Memory" where
  "store_defaults env e m rawBody newid =
     (let effectiveSize = (if rawBody \<noteq> [] then length rawBody else length (m_Content m)) in
      m\<lparr>m_ID := (if m_ID m = [] then newid else m_ID m), m_Project := se_project e,
        m_StorageMode := (if m_StorageMode m \<noteq> [] then m_StorageMode m
                          else if effectiveSize > 10000 then ''document'' else ''focused'')\<rparr>)"

definition store_tx ::
    "(string \<Rightarrow> string) \<Rightarrow> call_env \<Rightarrow> string \<Rightarrow> Memory \<times> Chunk list \<Rightarrow> database \<Rightarrow> db_error + database" where
  "store_tx sha env project mc db =
     (case storeMemoryExec project sha env (fst mc) db of
        Inl x \<Rightarrow> Inl x
      | Inr db1 \<Rightarrow> if snd mc = [] then Inr db1 else StoreChunksTx env (snd mc) db1)"

definition commit_result :: "db_error + database \<Rightarrow> unit outcome" where
  "commit_result r = (case r of Inl x \<Rightarrow> Fail x | Inr db \<Rightarrow> Commit () db)"

definition after_store :: "call_env \<Rightarrow> SearchEngine \<Rightarrow> Chunk list \<Rightarrow> database \<Rightarrow> database \<times> wake list" where
  "after_store env e chunks db =
     (if chunks = [] then (db, [])
      else (fst (EnqueueChunkLeases env (map c_ID chunks) db), wakes e))"

definition StoreWithRawBody ::
    "(string \<Rightarrow> string) \<Rightarrow> (string \<Rightarrow> byte list) \<Rightarrow> (string \<Rightarrow> string) \<Rightarrow> call_env \<Rightarrow> (nat \<Rightarrow> string)
     \<Rightarrow> Memory \<Rightarrow> string \<Rightarrow> SearchEngine \<times> database
     \<Rightarrow> (SearchEngine \<times> database) \<times> (engine_error + Memory \<times> wake list)" where
  "StoreWithRawBody u dig sha env ids m rawBody s =
     (let m1 = store_defaults env (fst s) m rawBody (e_newid env) in
      case checkEmbedderMeta env (fst s) (snd s) of
        (s1, Inl x) \<Rightarrow> (s1, Inl x)
      | ((e, db), Inr _) \<Rightarrow>
          (case storeChunksForMemory u dig env ids e m1 rawBody db of
             Inl x \<Rightarrow> ((e, db), Inl x)
           | Inr chunks \<Rightarrow>
               (case in_tx env (\<lambda>db. commit_result (store_tx sha env (se_project e) (m1, chunks) db)) db of
                  (db1, Inl x) \<Rightarrow> ((e, db1), Inl (Backend x))
                | (db1, Inr _) \<Rightarrow>
                    (case after_store env e chunks db1 of (db2, ws) \<Rightarrow> ((e, db2), Inr (m1, ws))))))"

definition Store ::
    "(string \<Rightarrow> string) \<Rightarrow> (string \<Rightarrow> byte list) \<Rightarrow> (string \<Rightarrow> string) \<Rightarrow> call_env \<Rightarrow> (nat \<Rightarrow> string)
     \<Rightarrow> Memory \<Rightarrow> SearchEngine \<times> database
     \<Rightarrow> (SearchEngine \<times> database) \<times> (engine_error + Memory \<times> wake list)" where
  "Store u dig sha env ids m = StoreWithRawBody u dig sha env ids m (m_RawBody m)"

text \<open>A batch: every memory is chunked first, each with its own ids, then one transaction writes all.\<close>

fun prepare_batch ::
    "(string \<Rightarrow> string) \<Rightarrow> (string \<Rightarrow> byte list) \<Rightarrow> call_env \<Rightarrow> (nat \<Rightarrow> string) \<Rightarrow> (nat \<Rightarrow> nat \<Rightarrow> string)
     \<Rightarrow> SearchEngine \<Rightarrow> database \<Rightarrow> nat \<Rightarrow> Memory list \<Rightarrow> engine_error + (Memory \<times> Chunk list) list" where
  "prepare_batch u dig env mids ids e db n [] = Inr []"
| "prepare_batch u dig env mids ids e db n (m # ms) =
     (let m1 = store_defaults env e m [] (mids n) in
      case storeChunksForMemory u dig env (ids n) e m1 [] db of
        Inl x \<Rightarrow> Inl x
      | Inr chunks \<Rightarrow>
          (case prepare_batch u dig env mids ids e db (Suc n) ms of
             Inl x \<Rightarrow> Inl x | Inr ps \<Rightarrow> Inr ((m1, chunks) # ps)))"

fun batch_tx ::
    "(string \<Rightarrow> string) \<Rightarrow> call_env \<Rightarrow> string \<Rightarrow> (Memory \<times> Chunk list) list \<Rightarrow> database
     \<Rightarrow> db_error + database" where
  "batch_tx sha env project [] db = Inr db"
| "batch_tx sha env project (mc # mcs) db =
     (case store_tx sha env project mc db of Inl x \<Rightarrow> Inl x | Inr db1 \<Rightarrow> batch_tx sha env project mcs db1)"

definition StoreBatch ::
    "(string \<Rightarrow> string) \<Rightarrow> (string \<Rightarrow> byte list) \<Rightarrow> (string \<Rightarrow> string) \<Rightarrow> call_env \<Rightarrow> (nat \<Rightarrow> string)
     \<Rightarrow> (nat \<Rightarrow> nat \<Rightarrow> string) \<Rightarrow> Memory list \<Rightarrow> SearchEngine \<times> database
     \<Rightarrow> (SearchEngine \<times> database) \<times> (engine_error + wake list)" where
  "StoreBatch u dig sha env mids ids memories s =
     (if memories = [] then (s, Inr [])
      else case checkEmbedderMeta env (fst s) (snd s) of
        (s1, Inl x) \<Rightarrow> (s1, Inl x)
      | ((e, db), Inr _) \<Rightarrow>
          (case prepare_batch u dig env mids ids e db 0 memories of
             Inl x \<Rightarrow> ((e, db), Inl x)
           | Inr prepared \<Rightarrow>
               (case in_tx env (\<lambda>db. commit_result (batch_tx sha env (se_project e) prepared db)) db of
                  (db1, Inl x) \<Rightarrow> ((e, db1), Inl (Backend x))
                | (db1, Inr _) \<Rightarrow>
                    (case after_store env e (concat (map snd prepared)) db1 of
                       (db2, ws) \<Rightarrow> ((e, db2), Inr ws)))))"

section \<open>Correcting\<close>

definition swap_tx :: "call_env \<Rightarrow> string \<Rightarrow> Chunk list \<Rightarrow> database \<Rightarrow> db_error + database" where
  "swap_tx env i chunks db =
     (if e_fault env ''delete chunks'' then Inl DbFailed
      else let db1 = delete_chunks_of i db in
        if chunks = [] then Inr db1 else StoreChunksTx env chunks db1)"

definition Correct ::
    "(string \<Rightarrow> string) \<Rightarrow> (string \<Rightarrow> byte list) \<Rightarrow> (string \<Rightarrow> string) \<Rightarrow> (string \<Rightarrow> gotime option)
     \<Rightarrow> call_env \<Rightarrow> call_env \<Rightarrow> (nat \<Rightarrow> string) \<Rightarrow> string \<Rightarrow> string option \<Rightarrow> string list option
     \<Rightarrow> int option \<Rightarrow> float64 option \<Rightarrow> SearchEngine \<Rightarrow> database
     \<Rightarrow> database \<times> (engine_error + Memory option \<times> wake list)" where
  "Correct u dig sha parse env env2 ids i content tags importance patternConfidence e db =
     (case UpdateMemory (se_project e) sha parse env i content tags importance patternConfidence db of
        (db1, Inl x) \<Rightarrow> (db1, Inl (Backend x))
      | (db1, Inr mem) \<Rightarrow>
          if content = None then (db1, Inr (mem, []))
          else case mem of
            None \<Rightarrow> (db1, Inl NilMemory)
          | Some m \<Rightarrow>
              (case storeChunksForMemory u dig env2 ids e m [] db1 of
                 Inl x \<Rightarrow> (db1, Inl x)
               | Inr chunks \<Rightarrow>
                   (case in_tx env2 (\<lambda>db. commit_result (swap_tx env2 (m_ID m) chunks db)) db1 of
                      (db2, Inl x) \<Rightarrow> (db2, Inl (Backend x))
                    | (db2, Inr _) \<Rightarrow>
                        (case after_store env2 e chunks db2 of (db3, ws) \<Rightarrow> (db3, Inr (mem, ws))))))"

section \<open>Graph, feedback, forgetting, consolidation\<close>

definition Connect ::
    "call_env \<Rightarrow> string \<Rightarrow> string \<Rightarrow> string \<Rightarrow> float_value \<Rightarrow> SearchEngine \<Rightarrow> database
     \<Rightarrow> database \<times> (engine_error + unit)" where
  "Connect env srcID dstID relType strength e db =
     (if \<not> ValidateRelationType relType then (db, Inl (BadRelation relType))
      else case strength of
        NaN \<Rightarrow> (db, Inl BadStrength)
      | Inf _ \<Rightarrow> (db, Inl BadStrength)
      | Fin s \<Rightarrow>
          if s < 0 \<or> s > 1 then (db, Inl BadStrength)
          else case StoreRelationship (se_project e) env
              \<lparr>r_ID = e_newid env, r_SourceID = srcID, r_TargetID = dstID, r_RelType = relType,
               r_Strength = s, r_Project = se_project e, r_CreatedAt = 0\<rparr> db of
            (db1, Inl x) \<Rightarrow> (db1, Inl (Backend x))
          | (db1, Inr _) \<Rightarrow> (db1, Inr ()))"

definition Forget ::
    "call_env \<Rightarrow> string \<Rightarrow> string \<Rightarrow> SearchEngine \<Rightarrow> database \<Rightarrow> database \<times> (db_error + bool)" where
  "Forget env i reason e = SoftDeleteMemory env (se_project e) i reason"

definition MemoryHistory :: "string \<Rightarrow> SearchEngine \<Rightarrow> database \<Rightarrow> MemoryVersion list" where
  "MemoryHistory i e = GetMemoryHistory (se_project e) i"

definition MemoryAsOf :: "gotime \<Rightarrow> int \<Rightarrow> SearchEngine \<Rightarrow> database \<Rightarrow> Memory list" where
  "MemoryAsOf asOf limit e = GetMemoriesAsOf (se_project e) asOf limit"

text \<open>Feedback runs its calls id by id and stops at the first error; each id comes with its environment.\<close>

definition feedback_one :: "SearchEngine \<Rightarrow> call_env \<times> string \<Rightarrow> database \<Rightarrow> database \<times> (db_error + unit)" where
  "feedback_one e ci db =
     (case BoostEdgesForMemory (fst ci) (snd ci) (105 / 100) db of
        (db1, Inl x) \<Rightarrow> (db1, Inl x)
      | (db1, Inr _) \<Rightarrow>
          (case TouchMemory (se_project e) (fst ci) (snd ci) db1 of
             (db2, Inl x) \<Rightarrow> (db2, Inl x)
           | (db2, Inr _) \<Rightarrow> UpdateDynamicImportance (fst ci) (snd ci) (1 / 10) (3 / 2) db2))"

fun each_id ::
    "('a \<Rightarrow> database \<Rightarrow> database \<times> (db_error + unit)) \<Rightarrow> 'a list \<Rightarrow> database
     \<Rightarrow> database \<times> (engine_error + unit)" where
  "each_id f [] db = (db, Inr ())"
| "each_id f (i # is') db =
     (case f i db of (db1, Inl x) \<Rightarrow> (db1, Inl (Backend x)) | (db1, Inr _) \<Rightarrow> each_id f is' db1)"

definition Feedback ::
    "(call_env \<times> string) list \<Rightarrow> SearchEngine \<Rightarrow> database \<Rightarrow> database \<times> (engine_error + unit)" where
  "Feedback ids e db = (if ids = [] then (db, Inl NoMemoryIDs) else each_id (feedback_one e) ids db)"

definition FeedbackNegative ::
    "(call_env \<times> string) list \<Rightarrow> SearchEngine \<Rightarrow> database \<Rightarrow> database \<times> (engine_error + unit)" where
  "FeedbackNegative ids e db =
     (if ids = [] then (db, Inl NoMemoryIDs)
      else each_id (\<lambda>ci. UpdateDynamicImportance (fst ci) (snd ci) (- 5 / 100) 0) ids db)"

definition Consolidate ::
    "call_env \<Rightarrow> call_env \<Rightarrow> call_env \<Rightarrow> SearchEngine \<Rightarrow> database
     \<Rightarrow> database \<times> (db_error + int \<times> int \<times> int \<times> int)" where
  "Consolidate env1 env2 env3 e db =
     (case PruneStaleMemories env1 (se_project e) (Fin (90 * 24)) 3 db of
        (db1, Inl x) \<Rightarrow> (db1, Inl x)
      | (db1, Inr pruned) \<Rightarrow>
          (case PruneColdDocuments env2 (se_project e) (Fin (60 * 24)) 3 db1 of
             (db2, Inl x) \<Rightarrow> (db2, Inl x)
           | (db2, Inr cold) \<Rightarrow>
               (case DecayAllEdges env3 (se_project e) (2 / 100) (1 / 10) db2 of
                  (db3, Inl x) \<Rightarrow> (db3, Inl x)
                | (db3, Inr (decayed, edgePruned)) \<Rightarrow> (db3, Inr (pruned, cold, decayed, edgePruned)))))"

section \<open>Migrating to another embedder\<close>

record MigrateParams =
  mp_NewModel :: string
  mp_NewDims :: int
  mp_Force :: bool
  mp_DryRun :: bool
  mp_Confirm :: bool

datatype migration =
    IdentityUnchanged
  | SameDimensions int
  | DryRun int
  | TooManyChunks int
  | Queued int
  | Started int

definition migrateConfirmThreshold :: int where
  "migrateConfirmThreshold = 1000"

definition CountProjectChunks :: "string \<Rightarrow> database \<Rightarrow> int" where
  "CountProjectChunks project db =
     int (length (filter (\<lambda>c. c_MemoryID c \<in> m_ID ` set (filter (\<lambda>m. m_Project m = project) (db_memories db)))
       (db_chunks db)))"

text \<open>\<^verbatim>\<open>fmt.Sscanf(s, "%d")\<close>: leading space but no newline, a sign, and the digits that follow.\<close>

definition scan_int :: "string \<Rightarrow> int option" where
  "scan_int s =
     (let r = trim_left s; neg = (case r of c # _ \<Rightarrow> c = CHR ''-'' | [] \<Rightarrow> False);
          signed = (case r of c # _ \<Rightarrow> c = CHR ''-'' \<or> c = CHR ''+'' | [] \<Rightarrow> False) in
      if CHR 0x0A \<in> set (take (length s - length r) s) then None
      else digits_int neg (takeWhile is_digit (if signed then tl r else r)))"

definition same_dims :: "call_env \<Rightarrow> MigrateParams \<Rightarrow> SearchEngine \<Rightarrow> database \<Rightarrow> bool" where
  "same_dims env p e db \<longleftrightarrow> mp_NewDims p > 0 \<and> \<not> mp_Force p
     \<and> (case get_meta env (se_project e) ''embedder_dimensions'' db of
          Inr (Some s) \<Rightarrow> s \<noteq> [] \<and> (case scan_int s of Some d \<Rightarrow> d > 0 \<and> mp_NewDims p = d | None \<Rightarrow> False)
        | _ \<Rightarrow> False)"

definition migrate_tx :: "call_env \<Rightarrow> string \<Rightarrow> string \<Rightarrow> database \<Rightarrow> int outcome" where
  "migrate_tx env project model db =
     (case NullAllEmbeddings env project db of
        (_, Inl x) \<Rightarrow> Fail x
      | (db1, Inr nulled) \<Rightarrow>
          (case SetMeta env project ''embedding_migration_in_progress'' ''true'' db1 of
             (_, Inl x) \<Rightarrow> Fail x
           | (db2, Inr _) \<Rightarrow>
               (case SetMeta env project ''embedder_name'' model db2 of
                  (_, Inl x) \<Rightarrow> Fail x
                | (db3, Inr _) \<Rightarrow> Commit nulled db3)))"

text \<open>\<open>newClient\<close> is the constructor of an embedding client, which probes the service and may fail.\<close>

definition switch_client ::
    "(string \<Rightarrow> int option) \<Rightarrow> string \<Rightarrow> int \<Rightarrow> SearchEngine \<Rightarrow> SearchEngine \<times> (engine_error + migration)" where
  "switch_client newClient model nulled e =
     (case newClient model of
        None \<Rightarrow> (e\<lparr>se_worker := None\<rparr>, Inl (NoClient model))
      | Some dims \<Rightarrow>
          (e\<lparr>se_embedder := (model, dims),
             se_worker := Some (case se_reembedderOverride e of Some c \<Rightarrow> c | None \<Rightarrow> (model, dims))\<rparr>,
           Inr (Started nulled)))"

definition MigrateEmbedder ::
    "(string \<Rightarrow> int option) \<Rightarrow> call_env \<Rightarrow> MigrateParams \<Rightarrow> SearchEngine \<times> database
     \<Rightarrow> (SearchEngine \<times> database) \<times> (engine_error + migration)" where
  "MigrateEmbedder newClient env p s =
     (let e = fst s; db = snd s; model = canonicalEmbedderName (mp_NewModel p);
          storedName = (case get_meta env (se_project e) ''embedder_name'' db of Inr (Some n) \<Rightarrow> n | _ \<Rightarrow> []);
          chunkCount = CountProjectChunks (se_project e) db in
      if storedName \<noteq> [] \<and> model = canonicalEmbedderName storedName then (s, Inr IdentityUnchanged)
      else if same_dims env p e db then (s, Inr (SameDimensions (mp_NewDims p)))
      else if e_fault env ''count chunks'' then (s, Inl (Backend DbFailed))
      else if mp_DryRun p then (s, Inr (DryRun chunkCount))
      else if chunkCount \<ge> migrateConfirmThreshold \<and> \<not> mp_Confirm p then (s, Inr (TooManyChunks chunkCount))
      else case in_tx env (migrate_tx env (se_project e) model) db of
        (db1, Inl x) \<Rightarrow> ((e, db1), Inl (Backend x))
      | (db1, Inr nulled) \<Rightarrow>
          let e1 = e\<lparr>se_embedderMetaCacheValid := False\<rparr> in
          if se_embedGateway e1 then ((e1, db1), Inr (Queued nulled))
          else case switch_client newClient model nulled e1 of (e2, r) \<Rightarrow> ((e2, db1), r))"

section \<open>What a store writes\<close>

lemma checkEmbedderMeta_frame:
  assumes "checkEmbedderMeta env e db = ((e', db'), r)"
  shows "db' = db\<lparr>db_meta := db_meta db'\<rparr> \<and> se_project e' = se_project e \<and> se_embedder e' = se_embedder e
    \<and> se_embedGateway e' = se_embedGateway e"
  using assms
  by (auto simp: checkEmbedderMeta_def register_embedder_def check_stored_dims_def SetMeta_def exec_def
      cache_meta_def Let_def split: if_splits sum.splits option.splits prod.splits)

lemma StoreChunksTx_inserts:
  assumes "StoreChunksTx env cs db = Inr db'" "distinct (map c_ID cs)" "c_ID ` set cs \<inter> c_ID ` set (db_chunks db) = {}"
    "\<forall>c \<in> set cs. c_LastMatched c = None"
  shows "db' = db\<lparr>db_chunks := db_chunks db @ cs\<rparr>"
  using assms
proof (induction env cs db rule: StoreChunksTx.induct)
  case (2 env c cs db)
  from 2(2) obtain db1 where ins: "insert_chunk c db = Inr db1" "StoreChunksTx env cs db1 = Inr db'"
    "\<not> e_fault env (''insert chunk '' @ c_ID c)"
    by (auto split: if_splits sum.splits)
  have db1: "db1 = db\<lparr>db_chunks := db_chunks db @ [c]\<rparr>"
    using ins(1) 2(4,5) by (auto simp: insert_chunk_def split: if_splits)
  have "db' = db1\<lparr>db_chunks := db_chunks db1 @ cs\<rparr>"
    using 2(3-5) by (intro 2(1) [OF ins(3,1,2)]) (auto simp: db1)
  then show ?case by (simp add: db1)
qed simp

lemma new_chunk_simps [simp]:
  "c_ID (new_chunk p i k x) = k" "c_MemoryID (new_chunk p i k x) = i" "c_LastMatched (new_chunk p i k x) = None"
  "c_Embedding (new_chunk p i k x) = []" "c_ChunkIndex (new_chunk p i k x) = int (fst x)"
  "c_ChunkText (new_chunk p i k x) = cc_Text (fst (snd x))" "c_ChunkHash (new_chunk p i k x) = snd (snd x)"
  "c_Project (new_chunk p i k x) = p"
  by (cases x, simp add: new_chunk_def)+

definition chunks_of ::
    "(string \<Rightarrow> string) \<Rightarrow> (string \<Rightarrow> byte list) \<Rightarrow> (nat \<Rightarrow> string) \<Rightarrow> SearchEngine \<Rightarrow> string
     \<Rightarrow> (string \<Rightarrow> bool) \<Rightarrow> ChunkCandidate list \<Rightarrow> Chunk list" where
  "chunks_of u dig ids e i old cs =
     map (\<lambda>(j, p). new_chunk (se_project e) i (ids j) p)
       (enumerate 0 (filter (\<lambda>(k, c, h). \<not> old h)
          (map (\<lambda>(k, c). (k, c, ChunkHash u dig (cc_Text c))) (enumerate 0 cs))))"

lemma storeChunksForMemory_Inr:
  "storeChunksForMemory u dig env ids e m rawBody db = Inr chunks
     \<Longrightarrow> chunks = chunks_of u dig ids e (m_ID m) (\<lambda>h. ChunkHashExists h (m_ID m) db)
           (chunk_candidates e m rawBody)"
  by (simp add: storeChunksForMemory_def chunks_of_def Let_def split: if_splits)

lemma chunks_of_simps:
  assumes "inj ids"
  shows "distinct (map c_ID (chunks_of u dig ids e i old cs))"
    and "\<forall>c \<in> set (chunks_of u dig ids e i old cs). c_LastMatched c = None \<and> c_MemoryID c = i
      \<and> c_Embedding c = [] \<and> c_ID c \<in> range ids \<and> \<not> old (c_ChunkHash c)
      \<and> c_ChunkHash c = ChunkHash u dig (c_ChunkText c) \<and> c_Project c = se_project e"
proof -
  have "distinct (map (\<lambda>(j, p). ids j) (enumerate 0 xs))" for xs :: "'z list"
    using assms distinct_enumerate [of 0 xs]
    by (auto simp: distinct_map inj_on_def in_set_enumerate_eq dest: injD) metis
  from this show "distinct (map c_ID (chunks_of u dig ids e i old cs))"
    unfolding chunks_of_def by (simp add: comp_def case_prod_unfold)
  show "\<forall>c \<in> set (chunks_of u dig ids e i old cs). c_LastMatched c = None \<and> c_MemoryID c = i
      \<and> c_Embedding c = [] \<and> c_ID c \<in> range ids \<and> \<not> old (c_ChunkHash c)
      \<and> c_ChunkHash c = ChunkHash u dig (c_ChunkText c) \<and> c_Project c = se_project e"
  proof
    fix c
    assume "c \<in> set (chunks_of u dig ids e i old cs)"
    then obtain j p where p: "c = new_chunk (se_project e) i (ids j) p"
      "p \<in> set (filter (\<lambda>(k, c, h). \<not> old h) (map (\<lambda>(k, c). (k, c, ChunkHash u dig (cc_Text c))) (enumerate 0 cs)))"
      unfolding chunks_of_def by (auto simp: enumerate_eq_zip dest: set_zip_rightD)
    from p(2) have "\<not> old (snd (snd p)) \<and> snd (snd p) = ChunkHash u dig (cc_Text (fst (snd p)))"
      by auto
    with p(1) show "c_LastMatched c = None \<and> c_MemoryID c = i \<and> c_Embedding c = [] \<and> c_ID c \<in> range ids
      \<and> \<not> old (c_ChunkHash c) \<and> c_ChunkHash c = ChunkHash u dig (c_ChunkText c) \<and> c_Project c = se_project e"
      by auto
  qed
qed

lemma chunks_of_all:
  "(\<And>h. \<not> old h) \<Longrightarrow> map (\<lambda>c. (c_ChunkText c, c_ChunkType c, c_ChunkIndex c)) (chunks_of u dig ids e i old cs)
     = map (\<lambda>(k, c). (cc_Text c, cc_ChunkType c, int k)) (enumerate 0 cs)"
  by (rule nth_equalityI) (simp_all add: chunks_of_def nth_enumerate_eq new_chunk_def case_prod_unfold)

text \<open>The rows a successful store adds: the memory's and one per chunk.\<close>

definition stored_rows :: "(string \<Rightarrow> string) \<Rightarrow> call_env \<Rightarrow> string \<Rightarrow> Memory \<times> Chunk list \<Rightarrow> database \<Rightarrow> database" where
  "stored_rows sha env project mc db =
     db\<lparr>db_memories := db_memories db @ [inserted_row (prepare_memory project sha (e_now env) (fst mc))],
        db_chunks := db_chunks db @ snd mc\<rparr>"

lemma store_tx_Inr:
  assumes "store_tx sha env project (m, cs) db = Inr db'" "distinct (map c_ID cs)"
    "c_ID ` set cs \<inter> c_ID ` set (db_chunks db) = {}" "\<forall>c \<in> set cs. c_LastMatched c = None"
  shows "db' = stored_rows sha env project (m, cs) db \<and> m_ID m \<notin> mem_ids db"
proof -
  obtain db1 where st: "storeMemoryExec project sha env m db = Inr db1"
    "(if cs = [] then Inr db1 else StoreChunksTx env cs db1) = Inr db'"
    using assms(1) by (cases "storeMemoryExec project sha env m db") (auto simp: store_tx_def split: if_splits)
  have db1: "db1 = db\<lparr>db_memories := db_memories db @ [inserted_row (prepare_memory project sha (e_now env) m)]\<rparr>"
    "m_ID m \<notin> mem_ids db"
    using st(1) by (auto simp: storeMemoryExec_def Let_def mem_ids_def prepare_memory_def split: if_splits)
  have "db' = db1\<lparr>db_chunks := db_chunks db1 @ cs\<rparr>"
  proof (cases "cs = []")
    case False
    then have "StoreChunksTx env cs db1 = Inr db'" using st(2) by simp
    from StoreChunksTx_inserts [OF this assms(2) _ assms(4)] assms(3) show ?thesis by (simp add: db1)
  qed (use st(2) in simp)
  with db1 show ?thesis by (simp add: stored_rows_def)
qed


lemma after_store_frame: "fst (after_store env e cs db) = db\<lparr>db_leases := db_leases (fst (after_store env e cs db))\<rparr>"
  by (simp add: after_store_def EnqueueChunkLeases_def exec_def Let_def)

lemma tx_result:
  assumes "in_tx env (\<lambda>db. commit_result (f db)) db = (db', r)"
  shows "case r of Inl _ \<Rightarrow> db' = db | Inr _ \<Rightarrow> f db = Inr db'"
  using assms by (auto simp: in_tx_def commit_result_def split: if_splits sum.splits outcome.splits)

text \<open>A memory id no row has, has no chunks either.\<close>

lemma no_chunks_of_new_id: "db_ok db \<Longrightarrow> i \<notin> mem_ids db \<Longrightarrow> \<not> ChunkHashExists h i db"
  using db_okD(3) [of db] by (auto simp: ChunkHashExists_def list_ex_iff)

definition only_meta :: "database \<Rightarrow> database \<Rightarrow> bool" where
  "only_meta db db' \<longleftrightarrow> db' = db\<lparr>db_meta := db_meta db'\<rparr>"

lemma StoreWithRawBody_error:
  assumes "StoreWithRawBody u dig sha env ids m rawBody (e, db) = ((e', db'), Inl x)"
  shows "only_meta db db'"
proof (cases "checkEmbedderMeta env e db")
  case (Pair s1 r)
  obtain e1 db1 where s1: "s1 = (e1, db1)" by force
  have meta: "only_meta db db1" using checkEmbedderMeta_frame Pair s1 by (auto simp: only_meta_def)
  show ?thesis
  proof (cases r)
    case Inl
    with assms Pair s1 meta show ?thesis by (simp add: StoreWithRawBody_def Let_def)
  next
    case (Inr q)
    have "db' = db1"
      using assms Inr Pair s1 unfolding StoreWithRawBody_def
      by (auto simp: Let_def split: sum.splits prod.splits dest!: tx_result)
    with meta show ?thesis by simp
  qed
qed

lemma StoreWithRawBody_ok:
  assumes "StoreWithRawBody u dig sha env ids m rawBody (e, db) = ((e', db'), Inr (m', ws))"
  obtains db1 cs where "only_meta db db1" "m' = store_defaults env e m rawBody (e_newid env)"
    "se_project e' = se_project e" "se_embedder e' = se_embedder e"
    "storeChunksForMemory u dig env ids e' m' rawBody db1 = Inr cs"
    "\<exists>db2. store_tx sha env (se_project e) (m', cs) db1 = Inr db2 \<and> db' = db2\<lparr>db_leases := db_leases db'\<rparr>"
proof (cases "checkEmbedderMeta env e db")
  case (Pair s1 r)
  obtain e1 db1 where s1: "s1 = (e1, db1)" by force
  note fr = checkEmbedderMeta_frame [OF Pair [unfolded s1]]
  from assms Pair s1 obtain q where r: "r = Inr q" by (cases r) (auto simp: StoreWithRawBody_def Let_def)
  let ?m = "store_defaults env e m rawBody (e_newid env)"
  from assms Pair s1 r obtain cs where cs: "storeChunksForMemory u dig env ids e1 ?m rawBody db1 = Inr cs"
    by (cases "storeChunksForMemory u dig env ids e1 ?m rawBody db1") (auto simp: StoreWithRawBody_def Let_def)
  obtain db2 t where tx: "in_tx env (\<lambda>db. commit_result (store_tx sha env (se_project e1) (?m, cs) db)) db1 = (db2, t)"
    by force
  from assms Pair s1 r cs tx obtain q' where t: "t = Inr q'" by (cases t) (auto simp: StoreWithRawBody_def Let_def)
  have res: "e' = e1" "db' = fst (after_store env e1 cs db2)" "m' = ?m"
    using assms Pair s1 r cs tx t by (auto simp: StoreWithRawBody_def Let_def split: prod.splits)
  show thesis
  proof (rule that [of db1 cs])
    show "\<exists>db2. store_tx sha env (se_project e) (m', cs) db1 = Inr db2 \<and> db' = db2\<lparr>db_leases := db_leases db'\<rparr>"
      using tx_result [OF tx] t res fr after_store_frame [of env e1 cs db2] by (intro exI [of _ db2]) simp
  qed (use fr res cs in \<open>auto simp: only_meta_def\<close>)
qed

lemma StoreWithRawBody_rows:
  assumes "db_ok db" "inj ids" "range ids \<inter> c_ID ` set (db_chunks db) = {}"
    and "StoreWithRawBody u dig sha env ids m rawBody (e, db) = ((e', db'), Inr (m', ws))"
  obtains cs where "m' = store_defaults env e m rawBody (e_newid env)" "m_ID m' \<notin> mem_ids db"
    "se_embedder e' = se_embedder e" "se_project e' = se_project e"
    "db' = db\<lparr>db_meta := db_meta db', db_leases := db_leases db',
        db_memories := db_memories db @ [inserted_row (prepare_memory (se_project e) sha (e_now env) m')],
        db_chunks := db_chunks db @ cs\<rparr>"
    "map (\<lambda>c. (c_ChunkText c, c_ChunkType c, c_ChunkIndex c)) cs
        = map (\<lambda>(k, c). (cc_Text c, cc_ChunkType c, int k)) (enumerate 0 (chunk_candidates e m' rawBody))"
    "\<forall>c \<in> set cs. c_MemoryID c = m_ID m' \<and> pending_chunk c \<and> c_ChunkHash c = ChunkHash u dig (c_ChunkText c)
        \<and> c_Project c = se_project e"
    "distinct (map c_ID (db_chunks db'))"
proof (rule StoreWithRawBody_ok [OF assms(4)])
  fix db1 cs
  assume A: "only_meta db db1" "m' = store_defaults env e m rawBody (e_newid env)"
      "se_project e' = se_project e" "se_embedder e' = se_embedder e"
    and cs: "storeChunksForMemory u dig env ids e' m' rawBody db1 = Inr cs"
    and tx: "\<exists>db2. store_tx sha env (se_project e) (m', cs) db1 = Inr db2 \<and> db' = db2\<lparr>db_leases := db_leases db'\<rparr>"
  from A(1) have db1: "db_memories db1 = db_memories db" "db_chunks db1 = db_chunks db"
    unfolding only_meta_def by (metis database.select_convs(1) database.surjective database.update_convs(7)
        database.select_convs(3))+
  note ccs = storeChunksForMemory_Inr [OF cs] and facts = chunks_of_simps [OF assms(2)]
  from tx obtain db2 where db2: "store_tx sha env (se_project e) (m', cs) db1 = Inr db2"
    "db' = db2\<lparr>db_leases := db_leases db'\<rparr>" by blast
  have st: "db2 = stored_rows sha env (se_project e) (m', cs) db1 \<and> m_ID m' \<notin> mem_ids db1"
    using db2(1) by (rule store_tx_Inr) (use facts ccs assms(3) db1 in \<open>fastforce\<close>)+
  then have new: "m_ID m' \<notin> mem_ids db" using db1 by (simp add: mem_ids_def)
  have "\<not> ChunkHashExists h (m_ID m') db1" for h
    using no_chunks_of_new_id [OF assms(1) new] db1 by (simp add: ChunkHashExists_def)
  then have texts: "map (\<lambda>c. (c_ChunkText c, c_ChunkType c, c_ChunkIndex c)) cs
      = map (\<lambda>(k, c). (cc_Text c, cc_ChunkType c, int k)) (enumerate 0 (chunk_candidates e m' rawBody))"
    unfolding ccs using A(4) by (subst chunks_of_all) (simp_all add: chunk_candidates_def)
  have rows: "\<forall>c \<in> set cs. c_MemoryID c = m_ID m' \<and> pending_chunk c \<and> c_ChunkHash c = ChunkHash u dig (c_ChunkText c)
      \<and> c_Project c = se_project e"
    using facts(2) A(3) unfolding ccs by (auto simp: pending_chunk_def)
  have eq: "db' = db\<lparr>db_meta := db_meta db', db_leases := db_leases db',
      db_memories := db_memories db @ [inserted_row (prepare_memory (se_project e) sha (e_now env) m')],
      db_chunks := db_chunks db @ cs\<rparr>"
    using A(1) db2(2) st unfolding only_meta_def stored_rows_def
    by (cases db, cases db1, cases db2, cases db') simp
  have "c_ID c \<in> range ids" if "c \<in> set cs" for c
    using facts(2) [THEN bspec, OF that [unfolded ccs]] by (elim conjE)
  with assms(3) have "c_ID ` set (db_chunks db) \<inter> c_ID ` set cs = {}"
    unfolding disjoint_iff by (metis imageE)
  moreover have "distinct (map c_ID cs)" unfolding ccs by (rule facts(1))
  moreover have "db_chunks db' = db_chunks db @ cs" using arg_cong [OF eq, of db_chunks] by simp
  ultimately have "distinct (map c_ID (db_chunks db'))" using db_okD(2) [OF assms(1)] by simp
  with that [OF A(2) new A(4,3) eq texts rows] show thesis by blast
qed

text \<open>
  C3: Storing a memory is all or nothing. If the store reports an error, whichever of its calls
  failed, no table but the project metadata has changed. If it succeeds, the tables have exactly
  one more memory row, with the id, project and storage mode it reports, and one more chunk row
  per chunk candidate of its text, in order, each belonging to the memory and waiting for its
  embedding; versions, relationships, documents and events are as before. Hypotheses: the tables
  are consistent and the drawn chunk ids are new.
\<close>

theorem store_all_or_nothing:
  assumes "db_ok db" "inj ids" "range ids \<inter> c_ID ` set (db_chunks db) = {}"
    and "StoreWithRawBody u dig sha env ids m rawBody (e, db) = ((e', db'), r)"
  shows "case r of
      Inl _ \<Rightarrow> only_meta db db'
    | Inr (m', ws) \<Rightarrow> m' = store_defaults env e m rawBody (e_newid env) \<and> m_ID m' \<notin> mem_ids db
        \<and> (\<exists>cs. db' = db\<lparr>db_meta := db_meta db', db_leases := db_leases db',
                db_memories := db_memories db @ [inserted_row (prepare_memory (se_project e) sha (e_now env) m')],
                db_chunks := db_chunks db @ cs\<rparr>
             \<and> map (\<lambda>c. (c_ChunkText c, c_ChunkType c, c_ChunkIndex c)) cs
                 = map (\<lambda>(k, c). (cc_Text c, cc_ChunkType c, int k)) (enumerate 0 (chunk_candidates e m' rawBody))
             \<and> (\<forall>c \<in> set cs. c_MemoryID c = m_ID m' \<and> pending_chunk c))"
proof (cases r)
  case Inl
  with assms(4) show ?thesis by (auto dest: StoreWithRawBody_error)
next
  case (Inr q)
  obtain m' ws where q: "q = (m', ws)" by force
  show ?thesis
    by (rule StoreWithRawBody_rows [OF assms(1-3) assms(4) [unfolded Inr q]]) (simp add: Inr q, blast)
qed

definition warm_engine :: SearchEngine where
  "warm_engine = \<lparr>se_project = ''p'', se_embedder = (''bge-m3'', 1024), se_reembedderOverride = None,
     se_worker = None, se_embedGateway = True, se_globalReembedder = False,
     se_embedderMetaCacheValid = True, se_cachedEmbedderName = ''bge-m3'', se_cachedEmbedderDims = 1024,
     se_cachedMigrationInProgress = False\<rparr>"

definition empty_note :: Memory where
  "empty_note = (note_memory ''a'' False)\<lparr>m_Content := []\<rparr>"

definition x_ids :: "nat \<Rightarrow> string" where
  "x_ids n = replicate n CHR ''x''"

lemma inj_x_ids: "inj x_ids"
  by (rule injI) (metis length_replicate x_ids_def)

lemma warm_check: "checkEmbedderMeta env warm_engine db = ((warm_engine, db), Inr ())"
  by (simp add: checkEmbedderMeta_def warm_engine_def check_cached_def)

lemma empty_candidates:
  "m_Content m = [] \<Longrightarrow> m_StorageMode m = ''focused'' \<Longrightarrow> length (chunk_candidates e m []) = 1"
  by (simp add: chunk_candidates_def Let_def ChunkText_def TrimSpace_def trim_left.simps [of "[]"]
      trim_right.simps [of "[]"])

theorem store_all_or_nothing_witness:
  "case StoreWithRawBody (\<lambda>s. s) (\<lambda>_. []) (\<lambda>s. s) calm x_ids empty_note [] (warm_engine, empty_db) of
     ((e', db'), Inl _) \<Rightarrow> only_meta empty_db db'
   | ((e', db'), Inr (m', ws)) \<Rightarrow> map m_ID (db_memories db') = [m_ID m']"
proof (cases "StoreWithRawBody (\<lambda>s. s) (\<lambda>_. []) (\<lambda>s. s) calm x_ids empty_note [] (warm_engine, empty_db)")
  case (Pair s r)
  obtain e' db' where s: "s = (e', db')" by force
  have ids: "range x_ids \<inter> c_ID ` set (db_chunks empty_db) = {}" by (simp add: empty_db_def)
  show ?thesis
    unfolding Pair s prod.case
    using store_all_or_nothing [OF empty_db_ok inj_x_ids ids Pair [unfolded s]]
    by (cases r; cases db') (auto simp: empty_db_def inserted_row_def prepare_memory_def)
qed

lemma prepare_batch_memories:
  "prepare_batch u dig env mids ids e db n ms = Inr ps
     \<Longrightarrow> map fst ps = map (\<lambda>(k, m). store_defaults env e m [] (mids k)) (enumerate n ms)"
  by (induction u dig env mids ids e db n ms arbitrary: ps rule: prepare_batch.induct)
    (auto simp: Let_def split: sum.splits)

lemma store_tx_memories:
  assumes "store_tx sha env project mc db = Inr db'"
  shows "db_memories db' = db_memories db @ [inserted_row (prepare_memory project sha (e_now env) (fst mc))]
    \<and> db_versions db' = db_versions db"
proof -
  obtain db1 where "storeMemoryExec project sha env (fst mc) db = Inr db1"
    "snd mc = [] \<and> db' = db1 \<or> StoreChunksTx env (snd mc) db1 = Inr db'"
    using assms by (auto simp: store_tx_def split: sum.splits if_splits)
  then show ?thesis
    by (auto simp: storeMemoryExec_def Let_def dest: StoreChunksTx_simps split: if_splits)
qed

lemma batch_tx_memories:
  "batch_tx sha env project mcs db = Inr db'
     \<Longrightarrow> db_memories db' = db_memories db @ map (\<lambda>m. inserted_row (prepare_memory project sha (e_now env) m)) (map fst mcs)
       \<and> db_versions db' = db_versions db"
  by (induction sha env project mcs db rule: batch_tx.induct)
    (auto split: sum.splits dest!: store_tx_memories)

text \<open>
  A batch is stored as a whole. If storing a batch reports an error, from the first memory
  or the last, no table but the project metadata has changed; if it succeeds, the table of
  memories has exactly one more row for each memory of the batch, in their order.
\<close>

theorem batch_all_or_nothing:
  assumes "StoreBatch u dig sha env mids ids ms (e, db) = ((e', db'), r)"
  shows "case r of
      Inl _ \<Rightarrow> only_meta db db'
    | Inr _ \<Rightarrow> db_memories db' = db_memories db @ map (\<lambda>(n, m). inserted_row (prepare_memory (se_project e) sha
          (e_now env) (store_defaults env e m [] (mids n)))) (enumerate 0 ms) \<and> db_versions db' = db_versions db"
proof (cases "ms = []")
  case True
  with assms show ?thesis by (auto simp: StoreBatch_def)
next
  case ms: False
  obtain e1 db1 t where chk: "checkEmbedderMeta env e db = ((e1, db1), t)" by (metis surj_pair)
  note fr = checkEmbedderMeta_frame [OF chk]
  then have db1: "only_meta db db1" "db_memories db1 = db_memories db" "db_versions db1 = db_versions db"
    unfolding only_meta_def by (metis, (metis database.select_convs database.surjective database.update_convs(7))+)
  note step = assms [unfolded StoreBatch_def fst_conv snd_conv if_not_P [OF ms] chk]
  show ?thesis
  proof (cases "\<exists>ps. t = Inr () \<and> prepare_batch u dig env mids ids e1 db1 0 ms = Inr ps")
    case True
    then obtain ps where ps: "t = Inr ()" "prepare_batch u dig env mids ids e1 db1 0 ms = Inr ps" by blast
    obtain db2 t2 where tx: "in_tx env (\<lambda>db. commit_result (batch_tx sha env (se_project e1) ps db)) db1 = (db2, t2)"
      by force
    show ?thesis
    proof (cases t2)
      case Inl
      with step ps tx db1 tx_result [OF tx] show ?thesis by auto
    next
      case (Inr q)
      have "db' = fst (after_store env e1 (concat (map snd ps)) db2)" "\<exists>ws. r = Inr ws"
        using step ps tx Inr by (auto split: prod.splits)
      moreover have "store_defaults env e1 = store_defaults env e"
        using fr by (simp add: store_defaults_def fun_eq_iff)
      moreover have "db_memories (fst (after_store env e1 cs db2)) = db_memories db2"
        "db_versions (fst (after_store env e1 cs db2)) = db_versions db2" for cs
        by (subst after_store_frame, simp)+
      ultimately show ?thesis
        using batch_tx_memories [of sha env "se_project e1" ps db1 db2] tx_result [OF tx] Inr db1 fr
          prepare_batch_memories [OF ps(2)] by (auto simp: case_prod_unfold)
    qed
  next
    case False
    with step db1 show ?thesis by (cases t) (auto split: sum.splits)
  qed
qed

theorem batch_all_or_nothing_witness:
  "case StoreBatch (\<lambda>s. s) (\<lambda>_. []) (\<lambda>s. s) calm x_ids (\<lambda>n. x_ids) [empty_note] (warm_engine, empty_db) of
     ((e', db'), Inl _) \<Rightarrow> only_meta empty_db db'
   | ((e', db'), Inr _) \<Rightarrow> map m_ID (db_memories db') = [''a'']"
proof (cases "StoreBatch (\<lambda>s. s) (\<lambda>_. []) (\<lambda>s. s) calm x_ids (\<lambda>n. x_ids) [empty_note] (warm_engine, empty_db)")
  case (Pair s r)
  obtain e' db' where s: "s = (e', db')" by force
  show ?thesis
    unfolding Pair s prod.case using batch_all_or_nothing [OF Pair [unfolded s]]
    by (cases r) (auto simp: empty_db_def inserted_row_def prepare_memory_def store_defaults_def empty_note_def
        note_memory_def Let_def)
qed

section \<open>What a correction does to the chunks\<close>

lemma UpdateMemory_Some:
  assumes "UpdateMemory p sha parse env i content tags imp pc db = (db1, Inr (Some m))"
  obtains m0 where "GetMemory p i db = Some m0" "db_chunks db1 = db_chunks db" "m_ID m = m_ID m0"
    "m_StorageMode m = m_StorageMode m0" "m_Content m = (case content of Some c \<Rightarrow> c | None \<Rightarrow> m_Content m0)"
proof -
  have "\<exists>m0. GetMemory p i db = Some m0 \<and> db_chunks db1 = db_chunks db
      \<and> m = (updated_memory sha parse content tags imp pc m0)\<lparr>m_UpdatedAt := e_now env\<rparr>"
    using assms unfolding UpdateMemory_def in_tx_def
    by (auto simp: Let_def split: if_splits option.splits outcome.splits)
  then show thesis by (auto intro!: that simp: updated_memory_def Let_def split: option.splits)
qed

lemma Correct_ok:
  assumes "Correct u dig sha parse env env2 ids i (Some c) tags imp pc e db = (db', Inr (mem, ws))"
  obtains db1 m cs db2 where "UpdateMemory (se_project e) sha parse env i (Some c) tags imp pc db = (db1, Inr (Some m))"
    "storeChunksForMemory u dig env2 ids e m [] db1 = Inr cs" "mem = Some m"
    "swap_tx env2 (m_ID m) cs db1 = Inr db2" "db' = db2\<lparr>db_leases := db_leases db'\<rparr>"
proof (cases "UpdateMemory (se_project e) sha parse env i (Some c) tags imp pc db")
  case (Pair db1 r)
  with assms obtain m where r: "r = Inr (Some m)"
    by (cases r) (auto simp: Correct_def split: option.splits)
  with assms Pair obtain cs where cs: "storeChunksForMemory u dig env2 ids e m [] db1 = Inr cs"
    by (cases "storeChunksForMemory u dig env2 ids e m [] db1") (auto simp: Correct_def)
  obtain db2 t where tx: "in_tx env2 (\<lambda>db. commit_result (swap_tx env2 (m_ID m) cs db)) db1 = (db2, t)" by force
  from assms Pair r cs tx obtain q where t: "t = Inr q" by (cases t) (auto simp: Correct_def)
  have "db' = fst (after_store env2 e cs db2)" "mem = Some m"
    using assms Pair r cs tx t by (auto simp: Correct_def split: prod.splits)
  then show thesis
    using tx_result [OF tx] t Pair r cs after_store_frame [of env2 e cs db2] by (intro that [of db1 m cs db2]) auto
qed

lemma storeChunksForMemory_all_known:
  assumes "storeChunksForMemory u dig env ids e m rawBody db = Inr cs"
    and "\<forall>c \<in> set (chunk_candidates e m rawBody). ChunkHashExists (ChunkHash u dig (cc_Text c)) (m_ID m) db"
  shows "cs = []"
  using storeChunksForMemory_Inr [OF assms(1)] assms(2)
  by (auto simp: chunks_of_def filter_empty_conv enumerate_eq_zip dest: set_zip_rightD)

lemma sort_stable_Nil_iff: "sort_stable lt xs = [] \<longleftrightarrow> xs = []"
  by (metis mset_sort_stable mset_zero_iff)

lemma chunk_candidates_not_Nil [simp]: "chunk_candidates e m rawBody \<noteq> []"
  by (simp add: chunk_candidates_def Let_def)

lemma candidates_indexed:
  assumes "map (\<lambda>c. (c_ChunkText c, c_ChunkType c, c_ChunkIndex c)) cs
      = map (\<lambda>(k, c). (cc_Text c, cc_ChunkType c, int k)) (enumerate 0 cands)"
    and "\<forall>c \<in> set cs. c_ChunkHash c = ChunkHash u dig (c_ChunkText c)" "c \<in> set cands"
  shows "\<exists>ch \<in> set cs. c_ChunkHash ch = ChunkHash u dig (cc_Text c)"
proof -
  obtain k where "(k, c) \<in> set (enumerate 0 cands)"
    using assms(3) by (metis in_set_impl_in_set_zip2 enumerate_eq_zip length_upt diff_zero add_0)
  then have "(cc_Text c, cc_ChunkType c, int k) \<in> set (map (\<lambda>c. (c_ChunkText c, c_ChunkType c, c_ChunkIndex c)) cs)"
    unfolding assms(1) by force
  then obtain ch where "ch \<in> set cs" "c_ChunkText ch = cc_Text c" by auto
  with assms(2) show ?thesis by (intro bexI [of _ ch]) auto
qed


lemma empty_candidate_list:
  "m_Content m = [] \<Longrightarrow> m_StorageMode m = ''focused'' \<Longrightarrow> chunk_candidates e m []
     = [\<lparr>cc_Text = [], cc_SectionHeading = [], cc_HasHeading = False, cc_ChunkType = ''sentence_window''\<rparr>]"
  by (simp add: chunk_candidates_def Let_def ChunkText_def TrimSpace_def trim_left.simps [of "[]"]
      trim_right.simps [of "[]"])

definition stored_empty :: Memory where
  "stored_empty = store_defaults calm warm_engine empty_note [] ''n''"

lemma stored_empty_simps:
  "m_ID stored_empty = ''a''" "m_Content stored_empty = []" "m_StorageMode stored_empty = ''focused''"
  "m_DocumentID stored_empty = []" "m_Immutable stored_empty = False"
  by (simp_all add: stored_empty_def store_defaults_def empty_note_def note_memory_def Let_def)

definition stored_chunk :: Chunk where
  "stored_chunk = new_chunk ''p'' ''a'' []
     (0, \<lparr>cc_Text = [], cc_SectionHeading = [], cc_HasHeading = False, cc_ChunkType = ''sentence_window''\<rparr>, [])"

lemma chunk_empty_note:
  "storeChunksForMemory (\<lambda>s. s) (\<lambda>_. []) calm x_ids warm_engine stored_empty [] empty_db = Inr [stored_chunk]"
  by (simp add: storeChunksForMemory_def empty_candidate_list stored_empty_simps ChunkHash_def hex_def
      calm_def ChunkHashExists_def empty_db_def stored_chunk_def x_ids_def warm_engine_def)

definition stored_db :: database where
  "stored_db = empty_db\<lparr>db_memories := [inserted_row (prepare_memory ''p'' (\<lambda>s. s) 5 stored_empty)],
     db_chunks := [stored_chunk], db_leases := [([], 5 + 5 * minute)]\<rparr>"

lemma row_ids [simp]:
  "m_ID (prepare_memory p sha t m) = m_ID m" "m_DocumentID (prepare_memory p sha t m) = m_DocumentID m"
  "m_ID (inserted_row m) = m_ID m"
  by (simp_all add: prepare_memory_def inserted_row_def)

lemma store_empty_note:
  "StoreWithRawBody (\<lambda>s. s) (\<lambda>_. []) (\<lambda>s. s) calm x_ids empty_note [] (warm_engine, empty_db)
     = ((warm_engine, stored_db), Inr (stored_empty, [WakeGateway]))"
proof -
  have "store_defaults calm warm_engine empty_note [] (e_newid calm) = stored_empty"
    by (simp add: stored_empty_def calm_def)
  moreover have "store_tx (\<lambda>s. s) calm (se_project warm_engine) (stored_empty, [stored_chunk]) empty_db
      = Inr (stored_db\<lparr>db_leases := []\<rparr>)"
    by (simp add: store_tx_def storeMemoryExec_def calm_def warm_engine_def stored_db_def empty_db_def
        stored_empty_simps insert_chunk_def stored_chunk_def row_ids Let_def)
  moreover have "after_store calm warm_engine [stored_chunk] (stored_db\<lparr>db_leases := []\<rparr>) = (stored_db, [WakeGateway])"
    by (simp add: after_store_def EnqueueChunkLeases_def exec_def calm_def stored_db_def stored_chunk_def
        wakes_def warm_engine_def)
  ultimately show ?thesis
    by (simp add: StoreWithRawBody_def warm_check chunk_empty_note in_tx_def commit_result_def)
      (simp add: calm_def)
qed

lemma correct_stored_empty:
  "\<exists>db2 mem. Correct (\<lambda>s. s) (\<lambda>_. []) (\<lambda>s. s) (\<lambda>_. None) calm calm x_ids (m_ID stored_empty)
     (Some (m_Content stored_empty)) None None None warm_engine stored_db = (db2, Inr (mem, []))"
proof -
  let ?row = "inserted_row (prepare_memory ''p'' (\<lambda>s. s) 5 stored_empty)"
  have row: "m_Project ?row = ''p''" "m_ValidTo ?row = None" "m_Immutable ?row = False" "m_StorageMode ?row = ''focused''"
    by (simp_all add: inserted_row_def prepare_memory_def stored_empty_simps)
  have "GetMemory ''p'' ''a'' stored_db = Some ?row"
    using row by (simp add: GetMemory_def stored_db_def active_row_def stored_empty_simps)
  then obtain db1 m where up: "UpdateMemory ''p'' (\<lambda>s. s) (\<lambda>_. None) calm ''a'' (Some []) None None None stored_db
      = (db1, Inr (Some m))"
    using row by (simp add: UpdateMemory_def in_tx_def calm_def Let_def)
  note facts = UpdateMemory_Some [OF up]
  have m: "db_chunks db1 = [stored_chunk]" "m_ID m = ''a''" "m_Content m = []" "m_StorageMode m = ''focused''"
    using facts row \<open>GetMemory ''p'' ''a'' stored_db = Some ?row\<close>
    by (auto simp: stored_db_def stored_empty_simps)
  have "ChunkHashExists [] ''a'' db1" using m(1) by (simp add: ChunkHashExists_def stored_chunk_def)
  then have "storeChunksForMemory (\<lambda>s. s) (\<lambda>_. []) calm x_ids warm_engine m [] db1 = Inr []"
    by (simp add: storeChunksForMemory_def empty_candidate_list m ChunkHash_def hex_def calm_def)
  then show ?thesis
    using up by (simp add: Correct_def stored_empty_simps warm_engine_def in_tx_def commit_result_def
        swap_tx_def after_store_def calm_def)
qed


text \<open>Correcting the content of a memory that does not exist dereferences a nil pointer.\<close>

lemma correct_missing_memory:
  assumes "GetMemory (se_project e) i db = None" "\<not> e_fault env ''begin''" "\<not> e_fault env ''select''"
  shows "Correct u dig sha parse env env2 ids i (Some c) tags imp pc e db = (db, Inl NilMemory)"
  using assms by (simp add: Correct_def UpdateMemory_def in_tx_def)

section \<open>The guard on the embedder\<close>

text \<open>A cache that is in force agrees with the project's metadata.\<close>

definition cache_coherent :: "SearchEngine \<Rightarrow> database \<Rightarrow> bool" where
  "cache_coherent e db \<longleftrightarrow> (se_embedderMetaCacheValid e \<and> \<not> se_cachedMigrationInProgress e \<longrightarrow>
     (\<exists>n. GetMeta (se_project e) ''embedder_name'' db = Some n
        \<and> canonicalEmbedderName (se_cachedEmbedderName e) = canonicalEmbedderName n))"

lemma canonical_cases: "canonicalEmbedderName s = s \<or> canonicalEmbedderName s = CanonicalBGEM3"
proof -
  have "map_of aliasToCanonical s = Some c \<Longrightarrow> c = CanonicalBGEM3" for c
    by (drule map_of_SomeD) (auto simp: aliasToCanonical_def)
  moreover have "map_of embedderAliases s = Some c \<Longrightarrow> c = CanonicalBGEM3" for c
    by (drule map_of_SomeD) (auto simp: embedderAliases_def CanonicalBGEM3_def)
  ultimately show ?thesis
    by (auto simp: canonicalEmbedderName_def CanonicalName_def Let_def split: option.splits)
qed

lemma canonical_idem [simp]: "canonicalEmbedderName (canonicalEmbedderName s) = canonicalEmbedderName s"
proof -
  have "canonicalEmbedderName CanonicalBGEM3 = CanonicalBGEM3"
    by (simp add: canonicalEmbedderName_def CanonicalName_def aliasToCanonical_def CanonicalBGEM3_def)
  with canonical_cases [of s] show ?thesis by metis
qed

lemma GetMeta_SetMeta:
  assumes "SetMeta env p k v db = (db', Inr x)"
  shows "GetMeta q j db' = (if q = p \<and> j = k then Some v else GetMeta q j db)"
proof -
  have "map_of (filter (\<lambda>(k', _). k' \<noteq> (p, k)) xs) (q, j) = (if q = p \<and> j = k then None else map_of xs (q, j))" for xs
    by (induction xs) auto
  then show ?thesis
    using assms by (auto simp: GetMeta_def SetMeta_def exec_def split: if_splits)
qed

lemma register_embedder_cases:
  assumes "register_embedder env e db = ((e', db'), r)"
  shows "(r = Inr () \<and> GetMeta (se_project e) ''embedder_name'' db' = Some (canonicalEmbedderName (fst (se_embedder e)))
      \<and> e' = cache_meta (canonicalEmbedderName (fst (se_embedder e))) (snd (se_embedder e)) e)
    \<or> (r \<noteq> Inr () \<and> e' = e)"
  using assms
  by (auto simp: register_embedder_def Let_def GetMeta_SetMeta split: prod.splits sum.splits)

lemma check_stored_dims_cases:
  "check_stored_dims env n e db = (e', r) \<Longrightarrow> e' = e \<or> (\<exists>d. e' = cache_meta (canonicalEmbedderName n) d e)"
  by (auto simp: check_stored_dims_def split: sum.splits option.splits if_splits)

text \<open>
  No store with the wrong embedder. Whenever the engine's cache agrees with the metadata and
  the project's registered embedder is another model, a store reports the mismatch and leaves the
  engine and every table as they were; and the check that lets a store through leaves the project
  registered for the engine's own model, with a cache that agrees.
\<close>

theorem embedder_guard:
  assumes "cache_coherent e db" "\<not> e_fault env ''get meta embedder_name''"
    and "checkEmbedderMeta env e db = ((e', db'), r)"
  shows "cache_coherent e' db' \<and>
    (case GetMeta (se_project e) ''embedder_name'' db of
       Some n \<Rightarrow> if canonicalEmbedderName n = canonicalEmbedderName (fst (se_embedder e))
         then db' = db
         else (e', db') = (e, db) \<and> (\<exists>a b. r = Inl (EmbedderMismatch a b))
     | None \<Rightarrow> r = Inr () \<longrightarrow>
         GetMeta (se_project e) ''embedder_name'' db' = Some (canonicalEmbedderName (fst (se_embedder e))))"
proof (cases "se_embedderMetaCacheValid e \<and> \<not> se_cachedMigrationInProgress e")
  case True
  then obtain n where n: "GetMeta (se_project e) ''embedder_name'' db = Some n"
    "canonicalEmbedderName (se_cachedEmbedderName e) = canonicalEmbedderName n"
    using assms(1) by (auto simp: cache_coherent_def)
  from True assms(3) have "(e', db') = (e, db)" "r = check_cached e" by (auto simp: checkEmbedderMeta_def)
  with n assms(1) show ?thesis by (auto simp: check_cached_def)
next
  case False
  have get: "get_meta env (se_project e) ''embedder_name'' db = Inr (GetMeta (se_project e) ''embedder_name'' db)"
    using assms(2) by (simp add: get_meta_def)
  note step = assms(3) [unfolded checkEmbedderMeta_def if_not_P [OF False] get]
  show ?thesis
  proof (cases "GetMeta (se_project e) ''embedder_name'' db")
    case None
    with step have "register_embedder env e db = ((e', db'), r)" by simp
    with None False assms(1) show ?thesis
      by (auto dest!: register_embedder_cases simp: cache_coherent_def cache_meta_def)
  next
    case (Some n)
    show ?thesis
    proof (cases "canonicalEmbedderName n = canonicalEmbedderName (fst (se_embedder e))")
      case True
      with step Some assms(1) have "db' = db \<and> cache_coherent e' db'"
        by (auto simp: cache_coherent_def cache_meta_def dest!: check_stored_dims_cases
            split: if_splits prod.splits)
      with Some True show ?thesis by auto
    next
      case False
      with step Some assms(1) show ?thesis by auto
    qed
  qed
qed

definition cold_engine :: SearchEngine where
  "cold_engine = warm_engine\<lparr>se_embedderMetaCacheValid := False\<rparr>"

definition other_db :: database where
  "other_db = empty_db\<lparr>db_meta := [((''p'', ''embedder_name''), ''other'')]\<rparr>"

lemma canonical_instances:
  "canonicalEmbedderName ''bge-m3'' = ''BAAI/bge-m3''" "canonicalEmbedderName ''other'' = ''other''"
  by (simp_all add: canonicalEmbedderName_def CanonicalName_def aliasToCanonical_def embedderAliases_def
      CanonicalBGEM3_def)

theorem embedder_guard_witness:
  "\<exists>a b. checkEmbedderMeta calm cold_engine other_db = ((cold_engine, other_db), Inl (EmbedderMismatch a b))"
proof (cases "checkEmbedderMeta calm cold_engine other_db")
  case (Pair s r)
  obtain e' db' where s: "s = (e', db')" by force
  have "cache_coherent cold_engine other_db" by (simp add: cache_coherent_def cold_engine_def)
  moreover have "\<not> e_fault calm ''get meta embedder_name''" by (simp add: calm_def)
  moreover have "GetMeta (se_project cold_engine) ''embedder_name'' other_db = Some ''other''"
    "fst (se_embedder cold_engine) = ''bge-m3''"
    by (simp_all add: GetMeta_def cold_engine_def warm_engine_def other_db_def)
  ultimately show ?thesis
    using embedder_guard [of cold_engine other_db calm e' db' r] Pair s by (simp add: canonical_instances)
qed

section \<open>Migration\<close>

lemma migrate_commits:
  assumes "MigrateEmbedder newClient env p (e, db) = ((e1, db1), r)"
    and "r = Inl (NoClient model) \<or> (\<exists>n. r = Inr (Queued n))"
  shows "GetMeta (se_project e) ''embedder_name'' db1 = Some (canonicalEmbedderName (mp_NewModel p))
    \<and> \<not> se_embedderMetaCacheValid e1 \<and> se_embedder e1 = se_embedder e \<and> se_project e1 = se_project e"
proof -
  let ?m = "canonicalEmbedderName (mp_NewModel p)"
  obtain db' n where tx: "in_tx env (migrate_tx env (se_project e) ?m) db = (db', Inr n)" and "db1 = db'"
    and e1: "e1 = e\<lparr>se_embedderMetaCacheValid := False\<rparr>
      \<or> (\<exists>r'. switch_client newClient ?m n (e\<lparr>se_embedderMetaCacheValid := False\<rparr>) = (e1, r') \<and> r' = r)"
    using assms unfolding MigrateEmbedder_def
    by (auto simp: Let_def split: if_splits prod.splits sum.splits)
  have "GetMeta (se_project e) ''embedder_name'' db' = Some ?m"
    using tx by (auto simp: in_tx_def migrate_tx_def GetMeta_SetMeta
        split: if_splits prod.splits sum.splits outcome.splits)
  moreover have "\<not> se_embedderMetaCacheValid e1 \<and> se_embedder e1 = se_embedder e \<and> se_project e1 = se_project e"
    using e1 assms(2) by (auto simp: switch_client_def split: option.splits)
  ultimately show ?thesis using \<open>db1 = db'\<close> by simp
qed

text \<open>
  A migration that keeps the old client locks the project. When the migration commits but the
  engine keeps its old embedding client (the new one cannot be created, or the embedding gateway
  is in charge, in which case the client is never switched), every later store by this engine
  is refused for the mismatch and changes nothing; and repeating the migration, even when the
  client could now be created, reports that the identity is unchanged and does nothing.
\<close>

theorem migration_keeps_client_locks_out:
  assumes "MigrateEmbedder newClient env p (e, db) = ((e1, db1), r)"
    and "r = Inl (NoClient model) \<or> (\<exists>n. r = Inr (Queued n))"
    and "canonicalEmbedderName (mp_NewModel p) \<noteq> []"
    and "canonicalEmbedderName (fst (se_embedder e)) \<noteq> canonicalEmbedderName (mp_NewModel p)"
    and "\<not> e_fault env2 ''get meta embedder_name''"
  shows "StoreWithRawBody u dig sha env2 ids m rawBody (e1, db1)
      = ((e1, db1), Inl (EmbedderMismatch (canonicalEmbedderName (mp_NewModel p)) (fst (se_embedder e))))
    \<and> MigrateEmbedder newClient2 env2 p (e1, db1) = ((e1, db1), Inr IdentityUnchanged)"
proof -
  note mig = migrate_commits [OF assms(1,2)]
  have get: "get_meta env2 (se_project e) ''embedder_name'' db1
      = Inr (Some (canonicalEmbedderName (mp_NewModel p)))"
    using mig assms(5) by (simp add: get_meta_def)
  have "checkEmbedderMeta env2 e1 db1
      = ((e1, db1), Inl (EmbedderMismatch (canonicalEmbedderName (mp_NewModel p)) (fst (se_embedder e))))"
    using mig assms(4) by (simp add: checkEmbedderMeta_def get)
  then show ?thesis
    using assms(3) get mig by (simp add: StoreWithRawBody_def MigrateEmbedder_def Let_def)
qed

theorem migration_keeps_client_locks_out_witness:
  "\<exists>e1 db1 n. MigrateEmbedder (\<lambda>_. Some 1024) calm
      \<lparr>mp_NewModel = ''other'', mp_NewDims = 0, mp_Force = False, mp_DryRun = False, mp_Confirm = False\<rparr>
      (warm_engine, empty_db) = ((e1, db1), Inr (Queued n))
    \<and> StoreWithRawBody (\<lambda>s. s) (\<lambda>_. []) (\<lambda>s. s) calm x_ids empty_note [] (e1, db1)
      = ((e1, db1), Inl (EmbedderMismatch ''other'' ''bge-m3''))"
proof -
  let ?p = "\<lparr>mp_NewModel = ''other'', mp_NewDims = 0, mp_Force = False, mp_DryRun = False, mp_Confirm = False\<rparr>"
  have fst: "fst (se_embedder warm_engine) = ''bge-m3''" by (simp add: warm_engine_def)
  obtain e1 db1 n where mig: "MigrateEmbedder (\<lambda>_. Some 1024) calm ?p (warm_engine, empty_db) = ((e1, db1), Inr (Queued n))"
    by (simp add: MigrateEmbedder_def Let_def get_meta_def calm_def GetMeta_def empty_db_def warm_engine_def
        same_dims_def CountProjectChunks_def migrateConfirmThreshold_def in_tx_def migrate_tx_def
        NullAllEmbeddings_def SetMeta_def exec_def)
  show ?thesis
    using mig migration_keeps_client_locks_out [OF mig, of _ calm]
    by (auto simp: canonical_instances fst calm_def)
qed

end
