(* ===== verification/Recall_Score.thy ===== *)
theory Recall_Score
  imports Engram_Types
begin

text \<open>
  The scoring of a recall candidate (\<^verbatim>\<open>src/internal/search/score.go\<close>, \<^verbatim>\<open>fusion.go\<close>,
  \<^verbatim>\<open>validity_window.go\<close>, \<^verbatim>\<open>src/internal/envconf/envconf.go\<close>): the weights and their
  overrides from the environment, the recency signals, and the three composite scores.

  \<open>getenv\<close> is the environment, the empty string where a variable is not set, and \<open>pf\<close> is
  \<^verbatim>\<open>strconv.ParseFloat\<close>. The exponential is the argument \<open>ex\<close>: a score is a rational number and
  the exponential of one is not. A configuration is read once, so it is an argument too.
\<close>

section \<open>Configuration\<close>

type_synonym getenv = "string \<Rightarrow> string"
type_synonym parse_float = "string \<Rightarrow> float_value option"

definition envconf_Float :: "getenv \<Rightarrow> parse_float \<Rightarrow> string \<Rightarrow> float64 \<Rightarrow> float_value" where
  "envconf_Float getenv pf name def =
     (let raw = getenv name in
      if raw = [] then Fin def else case pf raw of None \<Rightarrow> Fin def | Some v \<Rightarrow> v)"

definition fv_less :: "float_value \<Rightarrow> float_value \<Rightarrow> bool" where
  "fv_less a b =
     (case (a, b) of
        (NaN, _) \<Rightarrow> False | (_, NaN) \<Rightarrow> False
      | (Fin x, Fin y) \<Rightarrow> x < y
      | (Inf False, Inf False) \<Rightarrow> False | (Inf False, _) \<Rightarrow> True
      | (Inf True, _) \<Rightarrow> False
      | (Fin _, Inf pos) \<Rightarrow> pos)"

definition envconf_FloatBounded ::
    "getenv \<Rightarrow> parse_float \<Rightarrow> string \<Rightarrow> float64 \<Rightarrow> float64 \<Rightarrow> float64 \<Rightarrow> float_value" where
  "envconf_FloatBounded getenv pf name def lo hi =
     (let raw = getenv name in
      if raw = [] then Fin def
      else case pf raw of
        None \<Rightarrow> Fin def
      | Some v \<Rightarrow> if fv_less v (Fin lo) \<or> fv_less (Fin hi) v then Fin def else v)"

record ScoreWeights =
  sw_Vector :: float64
  sw_BM25 :: float64
  sw_Recency :: float64
  sw_Precision :: float64

record weightConfig =
  wc_vector :: float_value
  wc_bm25 :: float_value
  wc_recency :: float_value
  wc_precision :: float_value

definition load_weights ::
    "getenv \<Rightarrow> parse_float \<Rightarrow> string \<Rightarrow> ScoreWeights \<Rightarrow> weightConfig" where
  "load_weights getenv pf pre def =
     \<lparr>wc_vector = envconf_FloatBounded getenv pf (pre @ ''COSINE'') (sw_Vector def) 0 1,
      wc_bm25 = envconf_FloatBounded getenv pf (pre @ ''BM25'') (sw_BM25 def) 0 1,
      wc_recency = envconf_FloatBounded getenv pf (pre @ ''RECENCY'') (sw_Recency def) 0 1,
      wc_precision = envconf_FloatBounded getenv pf (pre @ ''PRECISION'') (sw_Precision def) 0 1\<rparr>"

definition score_defaults :: ScoreWeights where
  "score_defaults = \<lparr>sw_Vector = 40 / 100, sw_BM25 = 30 / 100, sw_Recency = 15 / 100, sw_Precision = 15 / 100\<rparr>"

definition temporal_defaults :: ScoreWeights where
  "temporal_defaults = \<lparr>sw_Vector = 35 / 100, sw_BM25 = 25 / 100, sw_Recency = 30 / 100, sw_Precision = 10 / 100\<rparr>"

definition ku_defaults :: ScoreWeights where
  "ku_defaults = \<lparr>sw_Vector = 38 / 100, sw_BM25 = 27 / 100, sw_Recency = 25 / 100, sw_Precision = 13 / 100\<rparr>"

definition loadWeightConfig :: "getenv \<Rightarrow> parse_float \<Rightarrow> weightConfig" where
  "loadWeightConfig getenv pf = load_weights getenv pf ''ENGRAM_W_'' score_defaults"

definition loadTemporalWeightConfig :: "getenv \<Rightarrow> parse_float \<Rightarrow> weightConfig" where
  "loadTemporalWeightConfig getenv pf = load_weights getenv pf ''ENGRAM_W_TEMPORAL_'' temporal_defaults"

definition loadKUWeightConfig :: "getenv \<Rightarrow> parse_float \<Rightarrow> weightConfig" where
  "loadKUWeightConfig getenv pf = load_weights getenv pf ''ENGRAM_W_KU_'' ku_defaults"

text \<open>
  A profile as the scores use it. A weight that is not a number makes every score it enters not a
  number; such a configuration has no profile in the model.
\<close>

definition fin :: "float_value \<Rightarrow> float64 option" where
  "fin v = (case v of Fin x \<Rightarrow> Some x | _ \<Rightarrow> None)"

definition profile_of :: "weightConfig \<Rightarrow> ScoreWeights option" where
  "profile_of cfg =
     (case (fin (wc_vector cfg), fin (wc_bm25 cfg), fin (wc_recency cfg), fin (wc_precision cfg)) of
        (Some v, Some b, Some r, Some p) \<Rightarrow> Some \<lparr>sw_Vector = v, sw_BM25 = b, sw_Recency = r, sw_Precision = p\<rparr>
      | _ \<Rightarrow> None)"

definition EnvWeights :: "getenv \<Rightarrow> parse_float \<Rightarrow> ScoreWeights option" where
  "EnvWeights getenv pf = profile_of (loadWeightConfig getenv pf)"

definition KnowledgeUpdateWeights :: "getenv \<Rightarrow> parse_float \<Rightarrow> ScoreWeights option" where
  "KnowledgeUpdateWeights getenv pf = profile_of (loadKUWeightConfig getenv pf)"

definition TemporalWeights :: "getenv \<Rightarrow> parse_float \<Rightarrow> ScoreWeights option" where
  "TemporalWeights getenv pf = profile_of (loadTemporalWeightConfig getenv pf)"

definition decayRate :: float64 where
  "decayRate = 1 / 100"

record decayConfig =
  dc_rate :: float_value
  dc_floor :: float_value

definition loadDecayConfig :: "getenv \<Rightarrow> parse_float \<Rightarrow> decayConfig" where
  "loadDecayConfig getenv pf =
     (let v = envconf_Float getenv pf ''ENGRAM_DECAY_RATE_PER_HOUR'' decayRate in
      \<lparr>dc_rate =
         (if v = Fin decayRate then Fin decayRate
          else if v = Fin 0 \<or> fv_less v (Fin 0) then Fin decayRate
          else if fv_less (Fin 10) v then Fin decayRate
          else v),
       dc_floor = envconf_FloatBounded getenv pf ''ENGRAM_DECAY_FLOOR'' 0 0 1\<rparr>)"

text \<open>The scores below are over finite configurations: rate and floor are numbers.\<close>

section \<open>Signals\<close>

record ScoreInput =
  si_Cosine :: float64
  si_BM25 :: float64
  si_HoursSince :: float64
  si_Importance :: int
  si_DynamicImportance :: "float64 option"
  si_RetrievalPrecision :: "float64 option"
  si_EpisodeMatch :: bool
  si_MemoryType :: string
  si_IsPreferenceQuery :: bool
  si_TopicAnchorMatch :: bool
  si_ExactIdentifierMatch :: bool

definition RecencyDecay :: "(float64 \<Rightarrow> float64) \<Rightarrow> float64 \<Rightarrow> float64 \<Rightarrow> float64 \<Rightarrow> float64" where
  "RecencyDecay ex rate floor_v hours =
     (let v = ex (- rate * hours) in if floor_v > 0 then max floor_v v else v)"

definition ImportanceBoost :: "int \<Rightarrow> float64" where
  "ImportanceBoost importance = max (1 / 10) (of_int (5 - importance)) / 3"

definition exactIdentifierBoost :: float64 where
  "exactIdentifierBoost = 10 / 100"

definition importance_factor :: "ScoreInput \<Rightarrow> float64" where
  "importance_factor i =
     (case si_DynamicImportance i of Some d \<Rightarrow> max (1 / 10) d | None \<Rightarrow> ImportanceBoost (si_Importance i))"

definition precision_signal :: "ScoreInput \<Rightarrow> float64" where
  "precision_signal i = (case si_RetrievalPrecision i of Some p \<Rightarrow> p | None \<Rightarrow> 1 / 2)"

text \<open>The multipliers and the bonus applied to the weighted sum; \<open>pref\<close> is the preference factor.\<close>

definition boosted :: "float64 \<Rightarrow> ScoreInput \<Rightarrow> float64 \<Rightarrow> float64" where
  "boosted pref i raw =
     (let r1 = (if si_EpisodeMatch i then raw * (115 / 100) else raw);
          r2 = (if si_IsPreferenceQuery i \<and> si_MemoryType i = ''preference'' then r1 * pref else r1);
          r3 = (if si_IsPreferenceQuery i \<and> si_TopicAnchorMatch i \<and> si_MemoryType i = ''preference''
                then r2 * (125 / 100) else r2);
          r4 = (if si_ExactIdentifierMatch i then r3 + exactIdentifierBoost else r3)
      in r4 * importance_factor i)"

definition RankNormalizedRecency :: "gotime \<Rightarrow> gotime \<Rightarrow> gotime \<Rightarrow> float64" where
  "RankNormalizedRecency validFrom minDate maxDate =
     (let d = maxDate - minDate in
      if d \<le> 0 then 1 / 2
      else let score = of_int (validFrom - minDate) / of_int d in
        if score < 0 then 0 else if score > 1 then 1 else score)"

definition hours_of :: "duration \<Rightarrow> float64" where
  "hours_of d = of_int d / of_int hour"

definition RankNormalizedRecencyWithFallback ::
    "(float64 \<Rightarrow> float64) \<Rightarrow> gotime \<Rightarrow> gotime \<Rightarrow> gotime \<Rightarrow> gotime \<Rightarrow> gotime \<Rightarrow> float64" where
  "RankNormalizedRecencyWithFallback dec now validFrom createdAt minDate maxDate =
     (if validFrom = 0 then dec (hours_of (now - createdAt))
      else RankNormalizedRecency validFrom minDate maxDate)"

text \<open>\<^verbatim>\<open>candidateDateRange\<close> over the candidates' dates; zero times when none has one.\<close>

definition candidateDateRange :: "Memory list \<Rightarrow> gotime \<times> gotime" where
  "candidateDateRange candidates =
     (case [t. m \<leftarrow> candidates, t \<leftarrow> (case m_ValidFrom m of Some t \<Rightarrow> [t] | None \<Rightarrow> []), t \<noteq> 0] of
        [] \<Rightarrow> (0, 0)
      | t # ts \<Rightarrow> fold (\<lambda>vf (lo, hi). (if vf < lo then vf else lo, if vf > hi then vf else hi)) ts (t, t))"

definition validityWindowYearScale :: float64 where
  "validityWindowYearScale = 2"

definition loadValidityWindowFlag :: "getenv \<Rightarrow> bool" where
  "loadValidityWindowFlag getenv \<longleftrightarrow>
     getenv ''ENGRAM_VALIDITY_WINDOW_FILTER'' \<notin> {[], ''false'', ''0'', ''no''}"

definition ValidFromBoost :: "bool \<Rightarrow> gotime \<Rightarrow> gotime option \<Rightarrow> float64" where
  "ValidFromBoost enabled now validFrom =
     (if \<not> enabled then 1
      else case validFrom of
        None \<Rightarrow> 1
      | Some t \<Rightarrow>
          if t = 0 then 1
          else let yearsAgo = hours_of (now - t) / (36525 / 100 * 24);
                   y = (if yearsAgo < 0 then 0 else yearsAgo) in
            validityWindowYearScale / (validityWindowYearScale + y))"

section \<open>Composite scores\<close>

definition RRFScore :: "nat \<Rightarrow> nat \<Rightarrow> nat \<Rightarrow> float64" where
  "RRFScore vectorRank bm25Rank k =
     (if vectorRank > 0 then 1 / of_nat (k + vectorRank) else 0)
     + (if bm25Rank > 0 then 1 / of_nat (k + bm25Rank) else 0)"

definition rrfK :: nat where
  "rrfK = 60"

definition weighted :: "ScoreWeights \<Rightarrow> ScoreInput \<Rightarrow> float64 \<Rightarrow> float64" where
  "weighted w i recency =
     sw_Vector w * si_Cosine i + sw_BM25 w * si_BM25 i + sw_Recency w * recency
     + sw_Precision w * precision_signal i"

definition CompositeScoreWithWeights ::
    "(float64 \<Rightarrow> float64) \<Rightarrow> ScoreInput \<Rightarrow> ScoreWeights \<Rightarrow> float64" where
  "CompositeScoreWithWeights dec i w = boosted (135 / 100) i (weighted w i (dec (si_HoursSince i)))"

definition CompositeScore ::
    "(float64 \<Rightarrow> float64) \<Rightarrow> getenv \<Rightarrow> parse_float \<Rightarrow> ScoreInput \<Rightarrow> float64 option" where
  "CompositeScore dec getenv pf i = map_option (CompositeScoreWithWeights dec i) (EnvWeights getenv pf)"

definition CompositeScoreRRF ::
    "(float64 \<Rightarrow> float64) \<Rightarrow> ScoreInput \<Rightarrow> ScoreWeights \<Rightarrow> float64 \<Rightarrow> float64" where
  "CompositeScoreRRF dec i w rrfBase =
     (let rrfScaled = rrfBase * of_nat (rrfK + 1) / 2 * (sw_Vector w + sw_BM25 w) in
      boosted (180 / 100) i
        (rrfScaled + sw_Recency w * dec (si_HoursSince i) + sw_Precision w * precision_signal i))"

definition rank_norm_recency ::
    "(float64 \<Rightarrow> float64) \<Rightarrow> ScoreInput \<Rightarrow> gotime \<Rightarrow> Memory list \<Rightarrow> float64" where
  "rank_norm_recency dec i validFrom candidates =
     (if validFrom = 0 then dec (si_HoursSince i)
      else if length candidates = 1 then 1
      else case candidateDateRange candidates of (minDate, maxDate) \<Rightarrow>
        if minDate = 0 then dec (si_HoursSince i)
        else RankNormalizedRecency validFrom minDate maxDate)"

definition CompositeScoreWithRankNorm ::
    "(float64 \<Rightarrow> float64) \<Rightarrow> ScoreInput \<Rightarrow> ScoreWeights \<Rightarrow> gotime \<Rightarrow> Memory list \<Rightarrow> float64" where
  "CompositeScoreWithRankNorm dec i w validFrom candidates =
     boosted (135 / 100) i (weighted w i (rank_norm_recency dec i validFrom candidates))"

section \<open>Properties of the signals\<close>

text \<open>A bounded setting is in its bounds, or it is not a number: the two comparisons let NaN pass.\<close>

lemma FloatBounded_cases:
  assumes "lo \<le> def" "def \<le> hi"
  shows "envconf_FloatBounded getenv pf name def lo hi = NaN
    \<or> (\<exists>x. envconf_FloatBounded getenv pf name def lo hi = Fin x \<and> lo \<le> x \<and> x \<le> hi)"
  using assms
  by (auto simp: envconf_FloatBounded_def fv_less_def Let_def not_less
      split: option.splits float_value.splits bool.splits)

lemma FloatBounded_nan:
  "getenv name \<noteq> [] \<Longrightarrow> pf (getenv name) = Some NaN \<Longrightarrow> envconf_FloatBounded getenv pf name def lo hi = NaN"
  by (simp add: envconf_FloatBounded_def fv_less_def)

lemma RankNormalizedRecency_range: "0 \<le> RankNormalizedRecency t lo hi" "RankNormalizedRecency t lo hi \<le> 1"
  by (auto simp: RankNormalizedRecency_def Let_def)

lemma ValidFromBoost_range: "0 < ValidFromBoost en now vf" "ValidFromBoost en now vf \<le> 1"
  by (auto simp: ValidFromBoost_def validityWindowYearScale_def Let_def field_simps split: option.split)

text \<open>The later of two known dates never gets the smaller factor.\<close>

lemma ValidFromBoost_mono:
  assumes "t \<noteq> 0" "t \<le> u"
  shows "ValidFromBoost en now (Some t) \<le> ValidFromBoost en now (Some u)"
proof (cases "u = 0 \<or> \<not> en")
  case True
  then show ?thesis using ValidFromBoost_range(2) [of en now "Some t"] by (auto simp: ValidFromBoost_def)
next
  case False
  define ys where "ys x = max 0 (hours_of (now - x) / (36525 / 100 * 24))" for x
  have "hours_of (now - u) \<le> hours_of (now - t)"
    using assms(2) by (simp add: hours_of_def divide_right_mono)
  then have "ys u \<le> ys t" unfolding ys_def by (intro max.mono divide_right_mono) auto
  moreover have "0 \<le> ys u" by (simp add: ys_def)
  ultimately have "2 / (2 + ys t) \<le> 2 / (2 + ys u)" by (intro divide_left_mono) auto
  moreover have "ValidFromBoost en now (Some x) = 2 / (2 + ys x)" if "x \<noteq> 0" for x
    using False that by (auto simp: ValidFromBoost_def validityWindowYearScale_def ys_def Let_def max_def)
  ultimately show ?thesis using assms(1) False by simp
qed

lemma importance_factor_pos: "1 / 30 \<le> importance_factor i"
  by (auto simp: importance_factor_def ImportanceBoost_def max_def split: option.splits)

lemma boosted_linear:
  assumes "0 \<le> pref"
  obtains a b where "0 \<le> a" "\<And>x. boosted pref i x = (x * a + b) * importance_factor i"
proof -
  define a where "a = (if si_EpisodeMatch i then 115 / 100 else 1)
    * (if si_IsPreferenceQuery i \<and> si_MemoryType i = ''preference'' then pref else 1)
    * (if si_IsPreferenceQuery i \<and> si_TopicAnchorMatch i \<and> si_MemoryType i = ''preference'' then 125 / 100 else 1)"
  define b where "b = (if si_ExactIdentifierMatch i then exactIdentifierBoost else 0)"
  show thesis
    by (rule that [of a b]) (use assms in \<open>simp_all add: a_def b_def boosted_def Let_def\<close>)
qed

lemma boosted_mono:
  assumes "x \<le> y" "0 \<le> pref"
  shows "boosted pref i x \<le> boosted pref i y"
proof -
  obtain a b where ab: "0 \<le> a" "\<And>x. boosted pref i x = (x * a + b) * importance_factor i"
    using boosted_linear [OF assms(2)] by blast
  have "0 \<le> importance_factor i" using importance_factor_pos [of i] by linarith
  then show ?thesis
    unfolding ab(2) using assms(1) ab(1) by (intro mult_right_mono add_right_mono) auto
qed

definition dominates :: "ScoreInput \<Rightarrow> ScoreInput \<Rightarrow> bool" where
  "dominates j i \<longleftrightarrow> (\<exists>c b p. j = i\<lparr>si_Cosine := c, si_BM25 := b, si_RetrievalPrecision := p\<rparr>
     \<and> si_Cosine i \<le> c \<and> si_BM25 i \<le> b \<and> precision_signal i \<le> precision_signal j)"

lemma dominates_fields:
  assumes "dominates j i"
  shows "si_EpisodeMatch j = si_EpisodeMatch i" "si_IsPreferenceQuery j = si_IsPreferenceQuery i"
    "si_MemoryType j = si_MemoryType i" "si_TopicAnchorMatch j = si_TopicAnchorMatch i"
    "si_ExactIdentifierMatch j = si_ExactIdentifierMatch i" "si_Importance j = si_Importance i"
    "si_DynamicImportance j = si_DynamicImportance i" "si_HoursSince j = si_HoursSince i"
  using assms unfolding dominates_def by (elim exE conjE; simp)+

lemma weighted_mono:
  assumes "0 \<le> sw_Vector w" "0 \<le> sw_BM25 w" "0 \<le> sw_Precision w" "dominates j i"
  shows "weighted w i r \<le> weighted w j r"
proof -
  have "si_Cosine i \<le> si_Cosine j" "si_BM25 i \<le> si_BM25 j" "precision_signal i \<le> precision_signal j"
    using assms(4) unfolding dominates_def by force+
  then show ?thesis
    unfolding weighted_def using assms(1-3) by (intro add_mono mult_left_mono order_refl)
qed

lemma boosted_cong: "dominates j i \<Longrightarrow> boosted pref j x = boosted pref i x"
  by (simp only: boosted_def importance_factor_def dominates_fields)

text \<open>
  Scores respect their signals. With non-negative weights, a candidate that is at least as
  similar, has at least the text score and at least the retrieval precision of another that is
  otherwise alike, never scores lower, by the weighted, the rank-normalised and the fused score.
\<close>

theorem scores_monotone:
  assumes "0 \<le> sw_Vector w" "0 \<le> sw_BM25 w" "0 \<le> sw_Precision w" "dominates j i" "rrf \<le> rrf'"
  shows "CompositeScoreWithWeights dec i w \<le> CompositeScoreWithWeights dec j w
    \<and> CompositeScoreWithRankNorm dec i w t cands \<le> CompositeScoreWithRankNorm dec j w t cands
    \<and> CompositeScoreRRF dec i w rrf \<le> CompositeScoreRRF dec j w rrf'"
proof -
  have same: "si_HoursSince j = si_HoursSince i" using assms(4) by (auto simp: dominates_def)
  have "precision_signal i \<le> precision_signal j" using assms(4) by (auto simp: dominates_def)
  then have p: "sw_Precision w * precision_signal i \<le> sw_Precision w * precision_signal j"
    using assms(3) by (rule mult_left_mono)
  have "rrf * of_nat (rrfK + 1) / 2 * (sw_Vector w + sw_BM25 w)
      \<le> rrf' * of_nat (rrfK + 1) / 2 * (sw_Vector w + sw_BM25 w)"
    using assms by (intro mult_right_mono divide_right_mono) auto
  with p have "rrf * of_nat (rrfK + 1) / 2 * (sw_Vector w + sw_BM25 w) + sw_Recency w * dec (si_HoursSince i)
        + sw_Precision w * precision_signal i
      \<le> rrf' * of_nat (rrfK + 1) / 2 * (sw_Vector w + sw_BM25 w) + sw_Recency w * dec (si_HoursSince i)
        + sw_Precision w * precision_signal j"
    by linarith
  then show ?thesis
    unfolding CompositeScoreWithWeights_def CompositeScoreWithRankNorm_def CompositeScoreRRF_def Let_def
      boosted_cong [OF assms(4)] rank_norm_recency_def same
    by (intro conjI boosted_mono weighted_mono assms) auto
qed

definition sample_input :: ScoreInput where
  "sample_input =
     \<lparr>si_Cosine = 1 / 2, si_BM25 = 1 / 4, si_HoursSince = 24, si_Importance = 2, si_DynamicImportance = None,
      si_RetrievalPrecision = None, si_EpisodeMatch = True, si_MemoryType = ''preference'',
      si_IsPreferenceQuery = True, si_TopicAnchorMatch = False, si_ExactIdentifierMatch = True\<rparr>"

theorem scores_monotone_witness:
  "CompositeScoreRRF (RecencyDecay (\<lambda>x. 1 / (1 - x)) decayRate 0) sample_input score_defaults (RRFScore 2 0 60)
     \<le> CompositeScoreRRF (RecencyDecay (\<lambda>x. 1 / (1 - x)) decayRate 0)
         (sample_input\<lparr>si_Cosine := 3 / 4, si_BM25 := 1 / 4, si_RetrievalPrecision := Some 1\<rparr>) score_defaults (RRFScore 1 3 60)"
proof -
  have "dominates (sample_input\<lparr>si_Cosine := 3 / 4, si_BM25 := 1 / 4, si_RetrievalPrecision := Some 1\<rparr>) sample_input"
    unfolding dominates_def
    by (rule exI [of _ "3 / 4"], rule exI [of _ "1 / 4"], rule exI [of _ "Some 1"])
      (simp add: sample_input_def precision_signal_def)
  then show ?thesis
    using scores_monotone [of score_defaults "sample_input\<lparr>si_Cosine := 3 / 4, si_BM25 := 1 / 4, si_RetrievalPrecision := Some 1\<rparr>"
        sample_input "RRFScore 2 0 60" "RRFScore 1 3 60" "RecencyDecay (\<lambda>x. 1 / (1 - x)) decayRate 0" 0 "[]"]
    by (simp add: score_defaults_def RRFScore_def)
qed

end
