(* ===== verification/Recall_Signal.thy ===== *)
theory Recall_Signal
  imports Go_Regexp
begin

text \<open>
  What a recall reads off the text of a query or of a memory (\<^verbatim>\<open>src/internal/search/query_signal.go\<close>,
  \<^verbatim>\<open>exact_fact_boost.go\<close>, \<^verbatim>\<open>preference_extract.go\<close>): the signal words, the identifiers, the
  topic tokens and the preference statements.

  The tables of package \<^verbatim>\<open>unicode\<close> beyond ASCII are the argument \<open>u\<close>: lowering a string that is
  not ASCII, and the classes of a code point from 128 on.
\<close>

section \<open>Characters and fields\<close>

record unicode =
  u_lower :: "string \<Rightarrow> string"
  u_letter :: "nat \<Rightarrow> bool"
  u_number :: "nat \<Rightarrow> bool"
  u_digit :: "nat \<Rightarrow> bool"
  u_upper :: "nat \<Rightarrow> bool"

definition IsLetter :: "unicode \<Rightarrow> nat \<Rightarrow> bool" where
  "IsLetter u c \<longleftrightarrow> (if c < 128 then 65 \<le> c \<and> c \<le> 90 \<or> 97 \<le> c \<and> c \<le> 122 else u_letter u c)"

definition IsNumber :: "unicode \<Rightarrow> nat \<Rightarrow> bool" where
  "IsNumber u c \<longleftrightarrow> (if c < 128 then digit_class c else u_number u c)"

definition IsDigit :: "unicode \<Rightarrow> nat \<Rightarrow> bool" where
  "IsDigit u c \<longleftrightarrow> (if c < 128 then digit_class c else u_digit u c)"

definition IsUpper :: "unicode \<Rightarrow> nat \<Rightarrow> bool" where
  "IsUpper u c \<longleftrightarrow> (if c < 128 then 65 \<le> c \<and> c \<le> 90 else u_upper u c)"

text \<open>
  The string cut into its encoded runes, and \<^verbatim>\<open>strings.FieldsFunc\<close>: the maximal runs of runes that
  are not separators.
\<close>

function rune_pieces :: "string \<Rightarrow> string list" where
  "rune_pieces s =
     (if s = [] then [] else take (snd (decode_rune s)) s # rune_pieces (drop (snd (decode_rune s)) s))"
  by pat_completeness auto
termination
  by (relation "measure length") (auto simp: decode_rune_width)

declare rune_pieces.simps [simp del]

fun fields_of :: "(string \<Rightarrow> bool) \<Rightarrow> string list \<Rightarrow> string list \<Rightarrow> string list" where
  "fields_of sep acc [] = (if acc = [] then [] else [concat acc])"
| "fields_of sep acc (p # ps) =
     (if sep p then (if acc = [] then [] else [concat acc]) @ fields_of sep [] ps
      else fields_of sep (acc @ [p]) ps)"

definition piece_is :: "(nat \<Rightarrow> bool) \<Rightarrow> string \<Rightarrow> bool" where
  "piece_is P p \<longleftrightarrow> P (fst (decode_rune p))"

definition FieldsFunc :: "(nat \<Rightarrow> bool) \<Rightarrow> string \<Rightarrow> string list" where
  "FieldsFunc f s = fields_of (piece_is f) [] (rune_pieces s)"

text \<open>\<^verbatim>\<open>strings.TrimLeftFunc\<close> and \<^verbatim>\<open>TrimFunc\<close>.\<close>

definition TrimLeftFunc :: "(nat \<Rightarrow> bool) \<Rightarrow> string \<Rightarrow> string" where
  "TrimLeftFunc f s = concat (dropWhile (piece_is f) (rune_pieces s))"

definition TrimFunc :: "(nat \<Rightarrow> bool) \<Rightarrow> string \<Rightarrow> string" where
  "TrimFunc f s =
     concat (rev (dropWhile (piece_is f) (rev (dropWhile (piece_is f) (rune_pieces s)))))"

section \<open>Signal words\<close>

definition preferenceContentFalsePositivePhrases :: "string list" where
  "preferenceContentFalsePositivePhrases =
     [''i'd like to'', ''i would like'', ''i love this approach'', ''i love this pr'', ''i love this idea'',
      ''i love this solution'', ''would love to'', ''would love feedback'', ''i hate to say'', ''i hate to admit'']"

definition preferenceContentSignals :: "string list" where
  "preferenceContentSignals =
     [''prefer'', ''prefers'', ''preferred'', ''favorite'', ''favourite'', ''enjoy'', ''enjoys'', ''enjoyed'',
      ''like'', ''love'', ''loves'', ''loved'', ''hate'', ''hates'', ''hated'', ''dislike'', ''dislikes'',
      ''disliked'', ''adore'', ''adores'', ''adored'', ''detest'', ''detests'', ''detested'', ''allergic'',
      ''vegetarian'', ''vegan'', ''avoid'', ''avoids'']"

definition preferenceContentPhraseSignals :: "string list" where
  "preferenceContentPhraseSignals = [''can't stand'', ''cannot stand'', ''can't eat'', ''cannot eat'']"

definition preferenceQuerySignals :: "string list" where
  "preferenceQuerySignals =
     preferenceContentSignals @
     [''like'', ''likes'', ''liked'', ''love'', ''loves'', ''loved'', ''hate'', ''hates'', ''hated'',
      ''dislike'', ''dislikes'', ''disliked'', ''interested'']"

definition wordBoundary :: "unicode \<Rightarrow> nat \<Rightarrow> bool" where
  "wordBoundary u r \<longleftrightarrow> \<not> IsLetter u r \<and> \<not> IsNumber u r"

definition containsSignalFrom :: "unicode \<Rightarrow> string \<Rightarrow> string list \<Rightarrow> bool" where
  "containsSignalFrom u t signals =
     list_ex (\<lambda>w. w \<in> set signals) (FieldsFunc (wordBoundary u) (ToLower (u_lower u) t))"

definition isPreferenceQuery :: "unicode \<Rightarrow> string \<Rightarrow> bool" where
  "isPreferenceQuery u query = containsSignalFrom u query preferenceQuerySignals"

definition IsPreferenceContent :: "unicode \<Rightarrow> string \<Rightarrow> bool" where
  "IsPreferenceContent u content =
     (let lower = ToLower (u_lower u) content in
      if list_ex (Contains lower) preferenceContentFalsePositivePhrases then False
      else if containsSignalFrom u content preferenceContentSignals then True
      else list_ex (Contains lower) preferenceContentPhraseSignals)"

definition temporalQuerySignals :: "string list" where
  "temporalQuerySignals =
     [''when'', ''ago'', ''before'', ''after'', ''first'', ''last'', ''recent'', ''recently'', ''long'',
      ''sequence'', ''order'', ''earliest'', ''latest'', ''previous'', ''prior'', ''since'']"

definition isTemporalQuery :: "unicode \<Rightarrow> string \<Rightarrow> bool" where
  "isTemporalQuery u query = containsSignalFrom u query temporalQuerySignals"

definition knowledgeUpdateQuerySignals :: "string list" where
  "knowledgeUpdateQuerySignals = [''currently'', ''anymore'', ''still'', ''current'']"

definition isKnowledgeUpdateQuery :: "unicode \<Rightarrow> string \<Rightarrow> bool" where
  "isKnowledgeUpdateQuery u query = containsSignalFrom u query knowledgeUpdateQuerySignals"

section \<open>Topic anchors\<close>

definition topicAnchorStripWords :: "string list" where
  "topicAnchorStripWords =
     [''a'', ''an'', ''the'', ''for'', ''on'', ''in'', ''of'', ''to'', ''and'', ''or'',
      ''i'', ''me'', ''my'', ''you'', ''your'', ''do'', ''is'', ''are'', ''some'', ''any'',
      ''can'', ''could'', ''would'', ''should'', ''what'', ''which'', ''how'', ''when'', ''where'',
      ''user'', ''preference'', ''like'', ''dislike'', ''use'', ''avoid'', ''likes'', ''dislikes'',
      ''uses'', ''avoids'']"

definition extractTopicAnchorTokens :: "unicode \<Rightarrow> string \<Rightarrow> string list" where
  "extractTopicAnchorTokens u query =
     filter (\<lambda>tok. ToLower (u_lower u) tok \<notin> set topicAnchorStripWords) (FieldsFunc (wordBoundary u) query)"

definition contentContainsTopicAnchor :: "unicode \<Rightarrow> string \<Rightarrow> string list \<Rightarrow> bool" where
  "contentContainsTopicAnchor u content tokens =
     (if tokens = [] \<or> content = [] then False
      else let lower = ToLower (u_lower u) content in
        list_ex (\<lambda>tok. Contains lower (ToLower (u_lower u) tok)) tokens)"

section \<open>Identifiers\<close>

definition urlRe :: regex where
  "urlRe = seqs [lit ''http'', Opt (lit ''s''), lit ''://'', Plus (Rune (\<lambda>c. \<not> space_class c))]"

definition digits :: "nat \<Rightarrow> regex" where
  "digits n = seqs (replicate n (Rune digit_class))"

definition dash_or_space :: regex where
  "dash_or_space = Rune (\<lambda>c. c = 45 \<or> space_class c)"

definition digit_or_dash :: regex where
  "digit_or_dash = Rune (\<lambda>c. c = 45 \<or> digit_class c)"

definition phoneRe :: regex where
  "phoneRe = alts
     [seqs [lit ''+'', Rune digit_class, seqs (replicate 7 digit_or_dash), Star digit_or_dash],
      seqs [lit ''('', digits 3, lit '')'', Opt (Rune space_class), digits 3, dash_or_space, digits 4],
      seqs [digits 3, dash_or_space, digits 3, dash_or_space, digits 4]]"

definition not_alnum :: "unicode \<Rightarrow> nat \<Rightarrow> bool" where
  "not_alnum u r \<longleftrightarrow> \<not> IsLetter u r \<and> \<not> IsDigit u r"

text \<open>The first letter of a token is upper case, after stripping what precedes letters and digits.\<close>

definition is_title :: "unicode \<Rightarrow> string \<Rightarrow> bool" where
  "is_title u tok =
     (let start = fst (decode_rune tok) in
      if not_alnum u start
      then (case TrimLeftFunc (not_alnum u) tok of
              [] \<Rightarrow> False
            | stripped \<Rightarrow> IsUpper u (fst (decode_rune stripped)))
      else IsUpper u start)"

fun title_pair :: "unicode \<Rightarrow> bool \<Rightarrow> string list \<Rightarrow> bool" where
  "title_pair u prevTitle [] = False"
| "title_pair u prevTitle (tok # toks) =
     (if tok = [] then title_pair u False toks
      else if is_title u tok \<and> prevTitle then True
      else title_pair u (is_title u tok) toks)"

definition isProperNounPair :: "unicode \<Rightarrow> string \<Rightarrow> bool" where
  "isProperNounPair u query = title_pair u False (Fields query)"

definition IsIdentifierQuery :: "unicode \<Rightarrow> string \<Rightarrow> bool" where
  "IsIdentifierQuery u query \<longleftrightarrow> MatchString urlRe query \<or> MatchString phoneRe query \<or> isProperNounPair u query"

definition FindAllString :: "regex \<Rightarrow> string \<Rightarrow> string list" where
  "FindAllString r s = map (\<lambda>(b, e). slice s b e) (find_all r s 0)"

fun pair_hit :: "unicode \<Rightarrow> string \<Rightarrow> string list \<Rightarrow> bool" where
  "pair_hit u lowerContent (x # y # toks) =
     (let a = TrimFunc (not_alnum u) x; b = TrimFunc (not_alnum u) y in
      if a \<noteq> [] \<and> b \<noteq> [] \<and> IsUpper u (fst (decode_rune a)) \<and> IsUpper u (fst (decode_rune b))
         \<and> Contains lowerContent (ToLower (u_lower u) (a @ '' '' @ b))
      then True
      else pair_hit u lowerContent (y # toks))"
| "pair_hit u lowerContent _ = False"

definition ExactIdentifierHit :: "unicode \<Rightarrow> string \<Rightarrow> string \<Rightarrow> bool" where
  "ExactIdentifierHit u content query \<longleftrightarrow>
     list_ex (Contains content) (FindAllString urlRe query)
     \<or> list_ex (Contains content) (FindAllString phoneRe query)
     \<or> pair_hit u (ToLower (u_lower u) content) (Fields query)"

section \<open>Properties\<close>

lemma concat_rune_pieces [simp]: "concat (rune_pieces s) = s"
  by (induction s rule: rune_pieces.induct) (subst rune_pieces.simps, simp)

lemma rune_pieces_not_Nil: "p \<in> set (rune_pieces s) \<Longrightarrow> p \<noteq> []"
proof (induction s rule: rune_pieces.induct)
  case (1 s)
  then show ?case
    using decode_rune_width [of s] by (subst (asm) (2) rune_pieces.simps) (auto split: if_splits)
qed

text \<open>A field is a maximal run of pieces that are not separators.\<close>

definition is_field :: "(string \<Rightarrow> bool) \<Rightarrow> string list \<Rightarrow> string \<Rightarrow> bool" where
  "is_field sep ps w \<longleftrightarrow> (\<exists>xs ws ys. ps = xs @ ws @ ys \<and> w = concat ws \<and> ws \<noteq> [] \<and> list_all (\<lambda>p. \<not> sep p) ws
     \<and> (xs = [] \<or> sep (last xs)) \<and> (ys = [] \<or> sep (hd ys)))"

lemma fields_of_sound:
  "w \<in> set (fields_of sep acc ps) \<Longrightarrow> list_all (\<lambda>p. \<not> sep p) acc \<Longrightarrow> pre = [] \<or> sep (last pre)
     \<Longrightarrow> is_field sep (pre @ acc @ ps) w"
proof (induction sep acc ps arbitrary: pre rule: fields_of.induct)
  case (1 sep acc)
  then show ?case unfolding is_field_def
    by (intro exI [of _ pre] exI [of _ acc] exI [of _ "[]"]) (simp split: if_splits)
next
  case (2 sep acc p ps)
  show ?case
  proof (cases "sep p")
    case False
    then show ?thesis using 2(2) [of pre] 2(3-5) by simp
  next
    case True
    then consider "acc \<noteq> []" "w = concat acc" | "w \<in> set (fields_of sep [] ps)"
      using 2(3) by (auto split: if_splits)
    then show ?thesis
    proof cases
      case 1
      then show ?thesis unfolding is_field_def using True 2(4,5)
        by (intro exI [of _ pre] exI [of _ acc] exI [of _ "p # ps"]) simp
    next
      case 2
      then show ?thesis using "2.IH"(1) [OF True 2, of "pre @ acc @ [p]"] True by simp
    qed
  qed
qed

lemma fields_of_run:
  "list_all (\<lambda>p. \<not> sep p) ws \<Longrightarrow> fields_of sep acc (ws @ ys) = fields_of sep (acc @ ws) ys"
  by (induction ws arbitrary: acc) auto

lemma fields_of_after:
  "xs \<noteq> [] \<Longrightarrow> sep (last xs) \<Longrightarrow> set (fields_of sep [] ys) \<subseteq> set (fields_of sep acc (xs @ ys))"
proof (induction xs arbitrary: acc)
  case (Cons x xs)
  then show ?case by (cases "xs = []") auto
qed simp

lemma fields_of_complete:
  assumes "is_field sep ps w"
  shows "w \<in> set (fields_of sep [] ps)"
proof -
  obtain xs ws ys where f: "ps = xs @ ws @ ys" "w = concat ws" "ws \<noteq> []" "list_all (\<lambda>p. \<not> sep p) ws"
    "xs = [] \<or> sep (last xs)" "ys = [] \<or> sep (hd ys)"
    using assms unfolding is_field_def by blast
  have "w \<in> set (fields_of sep [] (ws @ ys))"
    unfolding fields_of_run [OF f(4)] using f(2,3,6) by (cases ys) auto
  then show ?thesis using f(1,5) fields_of_after [of xs sep "ws @ ys" "[]"] by (cases "xs = []") auto
qed

text \<open>
  A query has a signal exactly when one of the signal words stands in its lowered text as a
  whole word: a maximal run of letters and numbers.
\<close>

theorem signal_is_whole_word:
  "containsSignalFrom u t signals
     = (\<exists>w. w \<in> set signals \<and> is_field (piece_is (wordBoundary u)) (rune_pieces (ToLower (u_lower u) t)) w)"
proof -
  have "w \<in> set (FieldsFunc f s) \<longleftrightarrow> is_field (piece_is f) (rune_pieces s) w" for f s w
    unfolding FieldsFunc_def using fields_of_sound [of w "piece_is f" "[]" "rune_pieces s" "[]"] fields_of_complete
    by auto
  then show ?thesis unfolding containsSignalFrom_def list_ex_iff by blast
qed

lemma decode_rune_prefix:
  assumes "prefix t s" "snd (decode_rune s) \<le> length t" "t \<noteq> []"
  shows "fst (decode_rune t) = fst (decode_rune s)"
proof -
  obtain r where s: "s = t @ r" using assms(1) by (elim prefixE)
  consider a where "t = [a]" | a b where "t = [a, b]" | a b c where "t = [a, b, c]"
    | a b c d t' where "t = a # b # c # d # t'"
    using assms(3) by (metis list.exhaust)
  then show ?thesis
  proof cases
    case 1
    then show ?thesis using assms(2) by (auto simp: s decode_rune_def Let_def split: list.split_asm if_split_asm)
  next
    case 2
    then show ?thesis using assms(2) by (auto simp: s decode_rune_def Let_def split: list.split_asm if_split_asm)
  next
    case 3
    then show ?thesis using assms(2) by (auto simp: s decode_rune_def Let_def split: list.split_asm if_split_asm)
  next
    case 4
    then show ?thesis by (simp add: s decode_rune_def Let_def)
  qed
qed

lemma rune_pieces_Nil [simp]: "rune_pieces [] = []"
  by (subst rune_pieces.simps) simp

lemma rune_pieces_Cons:
  "s \<noteq> [] \<Longrightarrow> rune_pieces s = take (snd (decode_rune s)) s # rune_pieces (drop (snd (decode_rune s)) s)"
  by (subst rune_pieces.simps) simp

lemma dropWhile_rune_pieces: "\<exists>t. dropWhile P (rune_pieces s) = rune_pieces t"
proof (induction s rule: rune_pieces.induct)
  case (1 s)
  show ?case
  proof (cases "s = []")
    case True
    then show ?thesis by (intro exI [of _ "[]"]) simp
  next
    case False
    show ?thesis
    proof (cases "P (take (snd (decode_rune s)) s)")
      case True
      then show ?thesis using 1 [OF False] by (simp add: rune_pieces_Cons [OF False])
    next
      case False2: False
      then show ?thesis by (intro exI [of _ s]) (simp add: rune_pieces_Cons [OF False])
    qed
  qed
qed

lemma first_rune_of_pieces:
  assumes "prefix qs (rune_pieces s)" "qs \<noteq> []"
  shows "fst (decode_rune (concat qs)) = fst (decode_rune s)"
proof -
  have "s \<noteq> []" using assms by (cases "s = []") auto
  then obtain qs' where qs: "qs = take (snd (decode_rune s)) s # qs'"
    using assms by (cases qs) (auto simp: rune_pieces_Cons)
  obtain r where "rune_pieces s = qs @ r" using assms(1) by (elim prefixE)
  then have "s = concat qs @ concat r" by (metis concat_append concat_rune_pieces)
  then have "prefix (concat qs) s" by (metis prefixI)
  moreover have "snd (decode_rune s) \<le> length (concat qs)"
    using decode_rune_fits [OF \<open>s \<noteq> []\<close>] by (simp add: qs)
  moreover have "concat qs \<noteq> []" using \<open>s \<noteq> []\<close> decode_rune_width [of s] by (simp add: qs)
  ultimately show ?thesis by (rule decode_rune_prefix)
qed

lemma TrimFunc_first:
  assumes "TrimFunc f s \<noteq> []"
  shows "TrimLeftFunc f s \<noteq> []" "fst (decode_rune (TrimFunc f s)) = fst (decode_rune (TrimLeftFunc f s))"
proof -
  obtain t where t: "dropWhile (piece_is f) (rune_pieces s) = rune_pieces t" using dropWhile_rune_pieces by blast
  have "suffix (dropWhile (piece_is f) (rev (rune_pieces t))) (rev (rune_pieces t))"
    by (rule suffix_dropWhile)
  then have p: "prefix (rev (dropWhile (piece_is f) (rev (rune_pieces t)))) (rune_pieces t)"
    by (metis rev_rev_ident suffix_to_prefix)
  have ne: "rev (dropWhile (piece_is f) (rev (rune_pieces t))) \<noteq> []"
    using assms unfolding TrimFunc_def t by (metis concat.simps(1))
  have l: "TrimLeftFunc f s = t" by (simp add: TrimLeftFunc_def t)
  then show "TrimLeftFunc f s \<noteq> []" using ne by (cases "t = []") auto
  show "fst (decode_rune (TrimFunc f s)) = fst (decode_rune (TrimLeftFunc f s))"
    unfolding l using first_rune_of_pieces [OF p ne] by (simp add: TrimFunc_def t)
qed

lemma TrimLeftFunc_id:
  assumes "s \<noteq> []" "\<not> f (fst (decode_rune s))"
  shows "TrimLeftFunc f s = s"
proof -
  have "prefix [take (snd (decode_rune s)) s] (rune_pieces s)" by (simp add: rune_pieces_Cons [OF assms(1)])
  from first_rune_of_pieces [OF this]
  have "\<not> piece_is f (take (snd (decode_rune s)) s)" using assms(2) by (simp add: piece_is_def)
  then show ?thesis
    using concat_rune_pieces [of s] by (simp add: TrimLeftFunc_def rune_pieces_Cons [OF assms(1)])
qed

lemma title_of_trimmed:
  assumes "TrimFunc (not_alnum u) x \<noteq> []" "IsUpper u (fst (decode_rune (TrimFunc (not_alnum u) x)))"
  shows "is_title u x" "x \<noteq> []"
proof -
  note f = TrimFunc_first [OF assms(1)]
  show x: "x \<noteq> []" using assms(1) by (cases "x = []") (auto simp: TrimFunc_def)
  show "is_title u x"
    using f assms(2) TrimLeftFunc_id [OF x, of "not_alnum u"]
    by (auto simp: is_title_def Let_def split: list.split)
qed

lemma pair_hit_Cons:
  "pair_hit u lc (x # y # toks) \<Longrightarrow> pair_hit u lc (y # toks) \<or> is_title u x \<and> x \<noteq> [] \<and> is_title u y \<and> y \<noteq> []"
  using title_of_trimmed [of u x] title_of_trimmed [of u y] by (auto simp: Let_def split: if_splits)

lemma pair_hit_title: "pair_hit u lc toks \<Longrightarrow> title_pair u b toks"
proof (induction toks arbitrary: b)
  case (Cons x toks)
  then obtain y ys where toks: "toks = y # ys" by (cases toks) auto
  show ?case
    using pair_hit_Cons [OF Cons.prems [unfolded toks]]
  proof
    assume "pair_hit u lc (y # ys)"
    then have "title_pair u b' toks" for b' using Cons.IH toks by blast
    then show ?thesis by simp
  qed (simp add: toks)
qed simp

lemma FindAllString_match: "list_ex P (FindAllString r s) \<Longrightarrow> MatchString r s"
  by (cases "find_from r s 0") (simp_all add: FindAllString_def MatchString_def find_all.simps)

text \<open>
  The exact-identifier bonus needs no gate: whatever a memory contains, it is a hit only for a
  query that is itself classified as asking for an identifier.
\<close>

theorem exact_hit_only_for_identifier_query:
  assumes "ExactIdentifierHit u content query"
  shows "IsIdentifierQuery u query"
  using assms FindAllString_match pair_hit_title
  unfolding ExactIdentifierHit_def IsIdentifierQuery_def isProperNounPair_def by blast

definition ascii_only :: unicode where
  "ascii_only = \<lparr>u_lower = (\<lambda>s. s), u_letter = (\<lambda>_. False), u_number = (\<lambda>_. False), u_digit = (\<lambda>_. False),
     u_upper = (\<lambda>_. False)\<rparr>"

theorem exact_hit_only_for_identifier_query_witness:
  "IsIdentifierQuery ascii_only ''is (Ann Lee) in?''"
proof (rule exact_hit_only_for_identifier_query)
  have "pair_hit ascii_only (ToLower (u_lower ascii_only) ''I met ann lee'') (Fields ''is (Ann Lee) in?'')"
    by code_simp
  then show "ExactIdentifierHit ascii_only ''I met ann lee'' ''is (Ann Lee) in?''"
    by (simp add: ExactIdentifierHit_def)
qed

end
