(* ===== verification/Recall_Rank.thy ===== *)
theory Recall_Rank
  imports Recall_Score Recall_Signal "HOL-Library.AList"
begin

text \<open>
  What a recall does to its list of scored results (\<^verbatim>\<open>src/internal/search/engine.go\<close>,
  \<^verbatim>\<open>fusion.go\<close>, \<^verbatim>\<open>session_ndcg_agg.go\<close>, \<^verbatim>\<open>session_diversity.go\<close>, \<^verbatim>\<open>federation.go\<close>): ranks,
  sorting, the two session passes, preference-first, reranking, and the merges of two passes and
  of several projects.

  A Go map that is iterated is an association list. \<^verbatim>\<open>sort.Slice\<close> is not stable: it is a stable
  sort of some permutation of its input, the argument \<open>tie\<close>. Every result of a recall carries a
  memory, so the identifier of a result is that of its memory.
\<close>

section \<open>Candidates\<close>

record VectorHit =
  vh_ChunkID :: string
  vh_MemoryID :: string
  vh_Distance :: float64
  vh_ChunkText :: string
  vh_ChunkIndex :: int
  vh_SectionHeading :: "string option"

record FTSResult =
  ft_Memory :: "Memory option"
  ft_Score :: float64

record bestHit =
  bh_cosine :: float64
  bh_denseScore :: float64
  bh_chunkText :: string
  bh_chunkIndex :: int
  bh_sectionHeading :: "string option"
  bh_chunkID :: string
  bh_rrfScore :: float64

definition no_hit :: bestHit where
  "no_hit = \<lparr>bh_cosine = 0, bh_denseScore = 0, bh_chunkText = [], bh_chunkIndex = 0, bh_sectionHeading = None,
     bh_chunkID = [], bh_rrfScore = 0\<rparr>"

definition get_or :: "(string \<times> 'a) list \<Rightarrow> 'a \<Rightarrow> string \<Rightarrow> 'a" where
  "get_or m zero k = (case map_of m k of Some v \<Rightarrow> v | None \<Rightarrow> zero)"

definition rankVectorHits :: "VectorHit list \<Rightarrow> (string \<times> nat) list" where
  "rankVectorHits hits =
     fst (fold (\<lambda>h (ranks, rank).
       if vh_MemoryID h \<in> fst ` set ranks then (ranks, rank)
       else (AList.update (vh_MemoryID h) (rank + 1) ranks, rank + 1)) hits ([], 0))"

definition rankFTSResults :: "FTSResult list \<Rightarrow> (string \<times> nat) list" where
  "rankFTSResults results =
     fst (fold (\<lambda>r (ranks, rank).
       case ft_Memory r of
         None \<Rightarrow> (ranks, rank)
       | Some m \<Rightarrow>
           (if m_ID m \<in> fst ` set ranks then ranks else AList.update (m_ID m) (rank + 1) ranks, rank + 1))
       results ([], 0))"

definition applyFusion ::
    "bool \<Rightarrow> string list \<Rightarrow> (string \<times> bestHit) list \<Rightarrow> (string \<times> nat) list \<Rightarrow> (string \<times> nat) list
      \<Rightarrow> (string \<times> bestHit) list" where
  "applyFusion fusion ids bestHits vecRanks ftsRanks =
     (if \<not> fusion then bestHits
      else fold (\<lambda>i hits. AList.update i
             ((get_or hits no_hit i)\<lparr>bh_rrfScore := RRFScore (get_or vecRanks 0 i) (get_or ftsRanks 0 i) rrfK\<rparr>) hits) ids bestHits)"

section \<open>Sorting\<close>

type_synonym tie = "SearchResult list \<Rightarrow> SearchResult list"

definition score_greater :: "SearchResult \<Rightarrow> SearchResult \<Rightarrow> bool" where
  "score_greater a b \<longleftrightarrow> s_Score a > s_Score b"

definition sortResults :: "tie \<Rightarrow> SearchResult list \<Rightarrow> SearchResult list" where
  "sortResults tie r = sort_stable score_greater (tie r)"

definition res_id :: "SearchResult \<Rightarrow> string" where
  "res_id r = (case s_Memory r of Some m \<Rightarrow> m_ID m | None \<Rightarrow> [])"

section \<open>Sessions\<close>

definition session_tag :: "string \<Rightarrow> string list \<Rightarrow> string option" where
  "session_tag pre tags = map_option (drop (length pre)) (find (\<lambda>tag. HasPrefix tag pre) tags)"

definition ExtractSessionID :: "string list \<Rightarrow> string" where
  "ExtractSessionID tags =
     (case session_tag ''sid:'' tags of
        Some v \<Rightarrow> v
      | None \<Rightarrow> (case session_tag ''session:'' tags of Some v \<Rightarrow> v | None \<Rightarrow> []))"

definition result_sid :: "SearchResult \<Rightarrow> string" where
  "result_sid r = (case s_Memory r of Some m \<Rightarrow> ExtractSessionID (m_Tags m) | None \<Rightarrow> [])"

subsection \<open>Aggregation by discounted gain\<close>

text \<open>\<open>lg\<close> is \<^verbatim>\<open>math.Log2\<close>.\<close>

definition sessionDCG :: "(float64 \<Rightarrow> float64) \<Rightarrow> float64 list \<Rightarrow> float64" where
  "sessionDCG lg scores =
     sum_list (map (\<lambda>(i, s). s / lg (of_nat (i + 1) + 1)) (enumerate 0 (rev (sort scores))))"

definition group_key :: "SearchResult \<Rightarrow> string" where
  "group_key r =
     (let sid = result_sid r in
      if sid = []
      then CHR 0x00 # ''no-sid:'' @ (case s_Memory r of Some m \<Rightarrow> m_ID m | None \<Rightarrow> ''nil'')
      else sid)"

definition add_to_group ::
    "SearchResult \<Rightarrow> (string \<times> SearchResult list) list \<Rightarrow> (string \<times> SearchResult list) list" where
  "add_to_group r groups = AList.update (group_key r) (get_or groups [] (group_key r) @ [r]) groups"

definition group_dcg ::
    "(float64 \<Rightarrow> float64) \<Rightarrow> (string \<rightharpoonup> float64 list) \<Rightarrow> SearchResult list \<Rightarrow> float64" where
  "group_dcg lg cosines members =
     sessionDCG lg (concat (map (\<lambda>r. case s_Memory r of
       None \<Rightarrow> [] | Some m \<Rightarrow> (case cosines (m_ID m) of Some cs \<Rightarrow> cs | None \<Rightarrow> [])) members))"

definition bestScore :: "SearchResult list \<Rightarrow> float64" where
  "bestScore results = fold (\<lambda>r best. if s_Score r > best then s_Score r else best) results 0"

definition group_before ::
    "(float64 \<Rightarrow> float64) \<Rightarrow> (string \<rightharpoonup> float64 list) \<Rightarrow> SearchResult list \<Rightarrow> SearchResult list \<Rightarrow> bool" where
  "group_before lg cosines a b \<longleftrightarrow>
     (if group_dcg lg cosines a \<noteq> group_dcg lg cosines b
      then group_dcg lg cosines a > group_dcg lg cosines b
      else bestScore a > bestScore b)"

definition sessionNDCGRerank ::
    "(float64 \<Rightarrow> float64) \<Rightarrow> SearchResult list \<Rightarrow> (string \<times> float64 list) list \<Rightarrow> bool \<Rightarrow> SearchResult list" where
  "sessionNDCGRerank lg results allChunkCosines enabled =
     (if \<not> enabled \<or> results = [] then results
      else if allChunkCosines = [] then results
      else
        let groups = map snd (fold add_to_group results []);
            ranked = sort_stable (group_before lg (map_of allChunkCosines)) groups
        in concat (map (sort_stable score_greater) ranked))"

subsection \<open>Diversity\<close>

definition shouldApplySessionDiversity :: "SearchResult list \<Rightarrow> int \<Rightarrow> bool" where
  "shouldApplySessionDiversity results N \<longleftrightarrow>
     \<not> (N \<le> 0 \<or> results = [])
     \<and> 2 \<le> length (remdups (map result_sid (filter (\<lambda>r. s_Memory r \<noteq> None) results)))"

fun diversity_scan ::
    "int \<Rightarrow> int \<Rightarrow> (string \<Rightarrow> int) \<Rightarrow> SearchResult list \<Rightarrow> SearchResult list \<Rightarrow> SearchResult list" where
  "diversity_scan topK N sessionCount out [] = out"
| "diversity_scan topK N sessionCount out (r # rs) =
     (if int (length out) \<ge> topK then out
      else let sid = result_sid r in
        if sessionCount sid < N
        then diversity_scan topK N (sessionCount(sid := sessionCount sid + 1)) (out @ [r]) rs
        else diversity_scan topK N sessionCount out rs)"

definition applySessionDiversity :: "SearchResult list \<Rightarrow> int \<Rightarrow> int \<Rightarrow> SearchResult list" where
  "applySessionDiversity results topK N =
     (if \<not> shouldApplySessionDiversity results N then results
      else diversity_scan topK N (\<lambda>_. 0) [] results)"

definition SessionDiversityNFromEnv :: "getenv \<Rightarrow> int" where
  "SessionDiversityNFromEnv getenv =
     (let v = getenv ''ENGRAM_SESSION_DIVERSITY_N'' in
      if v = [] then 0
      else case Atoi v of None \<Rightarrow> 0 | Some n \<Rightarrow> if n < 0 then 0 else n)"

section \<open>Preference first\<close>

definition is_preference :: "SearchResult \<Rightarrow> bool" where
  "is_preference r \<longleftrightarrow> (case s_Memory r of Some m \<Rightarrow> m_MemoryType m = ''preference'' | None \<Rightarrow> False)"

definition pref_slots :: "int \<Rightarrow> int" where
  "pref_slots topK = (let s = topK div 2; s' = (if s > 10 then 10 else s) in if s' < 1 then 1 else s')"

fun fill_slots ::
    "int \<Rightarrow> SearchResult list \<Rightarrow> SearchResult list \<times> string set \<Rightarrow> SearchResult list \<times> string set" where
  "fill_slots topK [] acc = acc"
| "fill_slots topK (r # rs) (merged, seen) =
     (if int (length merged) \<ge> topK then (merged, seen)
      else if res_id r \<in> seen then fill_slots topK rs (merged, seen)
      else fill_slots topK rs (merged @ [r], if res_id r \<noteq> [] then insert (res_id r) seen else seen))"

definition preference_first :: "int \<Rightarrow> SearchResult list \<Rightarrow> SearchResult list" where
  "preference_first topK results =
     (let prefResults = filter is_preference results;
          generalResults = filter (\<lambda>r. \<not> is_preference r) results
      in if prefResults = [] then results
         else let taken = min (nat (pref_slots topK)) (length prefResults);
                  front = take taken prefResults
              in fst (fill_slots topK (drop taken prefResults)
                   (fill_slots topK generalResults (front, res_id ` set front))))"

section \<open>Reranking\<close>

text \<open>A reranker is an external model: it may fail.\<close>

record RerankItem =
  ri_ID :: string
  ri_Summary :: string
  ri_Score :: float64

record RerankResult =
  rr_ID :: string
  rr_Score :: float64

type_synonym reranker = "string \<Rightarrow> RerankItem list \<Rightarrow> RerankResult list option"

text \<open>The start of the last rune that begins at byte 500 or before; the ellipsis is U+2026.\<close>

function rune_starts :: "nat \<Rightarrow> string \<Rightarrow> nat list" where
  "rune_starts i s =
     (if s = [] then [] else i # rune_starts (i + snd (decode_rune s)) (drop (snd (decode_rune s)) s))"
  by pat_completeness auto
termination
  by (relation "measure (\<lambda>(i, s). length s)") (auto simp: decode_rune_width)

declare rune_starts.simps [simp del]

definition truncatedContentFallback :: "string \<Rightarrow> string" where
  "truncatedContentFallback content =
     (if length content \<le> 500 then content
      else take (last (0 # takeWhile (\<lambda>i. i \<le> 500) (rune_starts 0 content))) content
        @ [CHR 0xE2, CHR 0x80, CHR 0xA6])"

definition summaryContentFallback :: "Memory \<Rightarrow> string" where
  "summaryContentFallback m =
     (case m_Summary m of Some s \<Rightarrow> s | None \<Rightarrow> truncatedContentFallback (m_Content m))"

definition rerankTextForMemory :: "Memory option \<Rightarrow> string" where
  "rerankTextForMemory m =
     (case m of
        None \<Rightarrow> []
      | Some m \<Rightarrow> (case m_Summary m of Some s \<Rightarrow> s | None \<Rightarrow> truncatedContentFallback (m_Content m)))"

definition rerank_item :: "SearchResult \<Rightarrow> RerankItem" where
  "rerank_item r = \<lparr>ri_ID = res_id r, ri_Summary = rerankTextForMemory (s_Memory r), ri_Score = s_Score r\<rparr>"

text \<open>The last score reported for an identifier counts.\<close>

definition score_map :: "RerankResult list \<Rightarrow> string \<rightharpoonup> float64" where
  "score_map reranked = map_of (rev (map (\<lambda>rr. (rr_ID rr, rr_Score rr)) reranked))"

definition rescore :: "(string \<rightharpoonup> float64) \<Rightarrow> SearchResult \<Rightarrow> SearchResult" where
  "rescore scores r = (case scores (res_id r) of Some x \<Rightarrow> r\<lparr>s_Score := x\<rparr> | None \<Rightarrow> r)"

definition maybeRerank ::
    "tie \<Rightarrow> string \<Rightarrow> int \<Rightarrow> SearchResult list \<Rightarrow> reranker option \<Rightarrow> SearchResult list" where
  "maybeRerank tie query topK results reranker =
     (case reranker of
        None \<Rightarrow> results
      | Some rerank \<Rightarrow>
          if results = [] then results
          else case rerank query (map rerank_item (take (nat topK) results)) of
            None \<Rightarrow> results
          | Some reranked \<Rightarrow>
              if reranked = [] then results
              else sortResults tie (map (rescore (score_map reranked)) results))"

section \<open>Merging two passes\<close>

definition preferLongerMemoryContent :: "Memory option \<Rightarrow> Memory option \<Rightarrow> Memory option" where
  "preferLongerMemoryContent current candidate =
     (case (current, candidate) of
        (None, _) \<Rightarrow> candidate
      | (_, None) \<Rightarrow> current
      | (Some a, Some b) \<Rightarrow> if length (m_Content b) \<le> length (m_Content a) then current else candidate)"

definition firstAtomPreamble :: "SearchResult list \<Rightarrow> string" where
  "firstAtomPreamble results =
     (case find (\<lambda>r. s_AtomPreamble r \<noteq> []) results of Some r \<Rightarrow> s_AtomPreamble r | None \<Rightarrow> [])"

definition appendOrHydrate :: "SearchResult \<Rightarrow> SearchResult list \<Rightarrow> SearchResult list" where
  "appendOrHydrate r merged =
     (case s_Memory r of
        None \<Rightarrow> merged
      | Some m \<Rightarrow>
          if m_ID m \<in> res_id ` set merged
          then map (\<lambda>x. if res_id x = m_ID m
                        then x\<lparr>s_Memory := preferLongerMemoryContent (s_Memory x) (Some m)\<rparr> else x) merged
          else merged @ [r])"

definition mergeSearchResults :: "SearchResult list \<Rightarrow> SearchResult list \<Rightarrow> int \<Rightarrow> SearchResult list" where
  "mergeSearchResults a b limit =
     (let atomPreamble = (if firstAtomPreamble a = [] then firstAtomPreamble b else firstAtomPreamble a);
          merged = fold appendOrHydrate (a @ b) [];
          cut = (if limit > 0 \<and> int (length merged) > limit then take (nat limit) merged else merged)
      in if atomPreamble \<noteq> [] then map (\<lambda>r. r\<lparr>s_AtomPreamble := atomPreamble\<rparr>) cut else cut)"

section \<open>Federation\<close>

definition federatedScoreGreater :: "float_value \<Rightarrow> float_value \<Rightarrow> bool" where
  "federatedScoreGreater a b \<longleftrightarrow> (if a = NaN then False else if b = NaN then True else fv_less b a)"

definition federated_greater :: "SearchResult \<Rightarrow> SearchResult \<Rightarrow> bool" where
  "federated_greater a b \<longleftrightarrow> federatedScoreGreater (Fin (s_Score a)) (Fin (s_Score b))"

definition keep_best :: "SearchResult \<Rightarrow> (string \<times> SearchResult) list \<Rightarrow> (string \<times> SearchResult) list" where
  "keep_best r seen =
     (case map_of seen (res_id r) of
        None \<Rightarrow> AList.update (res_id r) r seen
      | Some existing \<Rightarrow>
          if federated_greater r existing then AList.update (res_id r) r seen else seen)"

text \<open>
  The merge over the answers of the engines, in the order they arrive: a project with its results
  or its error. \<open>tie\<close> is also the order in which the map is read out.
\<close>

type_synonym 'e fan = "string \<times> ('e + SearchResult list)"

definition fan_results :: "'e fan list \<Rightarrow> SearchResult list" where
  "fan_results fans = concat (map (\<lambda>f. case snd f of Inr rs \<Rightarrow> rs | Inl _ \<Rightarrow> []) fans)"

definition fan_failures :: "'e fan list \<Rightarrow> (string \<times> 'e) list" where
  "fan_failures fans = concat (map (\<lambda>f. case snd f of Inr _ \<Rightarrow> [] | Inl e \<Rightarrow> [(fst f, e)]) fans)"

definition federated_merge ::
    "tie \<Rightarrow> int \<Rightarrow> 'e fan list \<Rightarrow> ((string \<times> 'e) list) + SearchResult list \<times> (string \<times> 'e) list" where
  "federated_merge tie topK fans =
     (if length (fan_failures fans) = length fans then Inl (fan_failures fans)
      else
        let merged = sort_stable federated_greater (tie (map snd (fold keep_best (fan_results fans) [])));
            cut = (if topK > 0 \<and> int (length merged) > topK then take (nat topK) merged else merged)
        in Inr (cut, fan_failures fans))"

section \<open>Sorted lists of results\<close>

interpretation by_score: strict_weak_order score_greater
  by unfold_locales (auto simp: score_greater_def)

interpretation by_federated_score: strict_weak_order federated_greater
  by unfold_locales (auto simp: federated_greater_def federatedScoreGreater_def fv_less_def)

definition tie_ok :: "('a list \<Rightarrow> 'a list) \<Rightarrow> bool" where
  "tie_ok tie \<longleftrightarrow> (\<forall>xs. mset (tie xs) = mset xs)"

lemma tie_set [simp]: "tie_ok tie \<Longrightarrow> set (tie xs) = set xs"
  unfolding tie_ok_def by (metis set_mset_mset)

lemma tie_distinct: "tie_ok tie \<Longrightarrow> distinct (map f (tie xs)) = distinct (map f xs)"
  unfolding tie_ok_def by (metis mset_eq_imp_distinct_iff mset_map)

abbreviation descending :: "SearchResult list \<Rightarrow> bool" where
  "descending \<equiv> sorted_wrt (\<lambda>a b. s_Score b \<le> s_Score a)"

lemma descending_sort_stable: "descending (sort_stable score_greater xs)"
  using by_score.sorted_sort_stable [of xs] by (simp add: score_greater_def not_less)

lemma sortResults_props:
  assumes "tie_ok tie"
  shows "mset (sortResults tie xs) = mset xs" "descending (sortResults tie xs)"
  using assms descending_sort_stable by (auto simp: sortResults_def tie_ok_def)

section \<open>Diversity\<close>

text \<open>How many earlier results are of the session of the \<open>i\<close>-th.\<close>

definition earlier :: "SearchResult list \<Rightarrow> nat \<Rightarrow> nat" where
  "earlier xs i = length (filter (\<lambda>r. result_sid r = result_sid (xs ! i)) (take i xs))"

lemma diversity_scan_spec:
  assumes "\<And>sid. cnt sid = min N (int (length (filter (\<lambda>r. result_sid r = sid) pre)))"
    and "int (length out) \<le> topK"
  shows "diversity_scan topK N cnt out rs
    = take (nat topK) (out @ map (nth (pre @ rs))
        (filter (\<lambda>i. int (earlier (pre @ rs) i) < N) [length pre..<length (pre @ rs)]))"
  using assms
proof (induction rs arbitrary: cnt out pre)
  case (Cons r rs)
  let ?P = "\<lambda>i. int (earlier ((pre @ [r]) @ rs) i) < N"
  have upt: "[length pre..<length (pre @ r # rs)] = length pre # [length (pre @ [r])..<length ((pre @ [r]) @ rs)]"
    using upt_conv_Cons [of "length pre" "length (pre @ r # rs)"] by (simp del: upt_Suc)
  have here: "?P (length pre) \<longleftrightarrow> cnt (result_sid r) < N"
    using Cons.prems(1) [of "result_sid r"] by (auto simp: earlier_def)
  show ?case
  proof (cases "int (length out) \<ge> topK")
    case True
    then show ?thesis using Cons.prems(2) by simp
  next
    case False
    then have room: "int (length (out @ [r])) \<le> topK" by simp
    show ?thesis
    proof (cases "cnt (result_sid r) < N")
      case True
      have "(cnt(result_sid r := cnt (result_sid r) + 1)) sid
          = min N (int (length (filter (\<lambda>x. result_sid x = sid) (pre @ [r]))))" for sid
        using Cons.prems(1) [of sid] True by auto
      from Cons.IH [OF this room] show ?thesis
        using False True here unfolding upt by (simp add: Let_def fun_upd_def del: upt_Suc)
    next
      case False2: False
      have "cnt sid = min N (int (length (filter (\<lambda>x. result_sid x = sid) (pre @ [r]))))" for sid
        using Cons.prems(1) [of sid] False2 by auto
      from Cons.IH [OF this Cons.prems(2)] show ?thesis
        using False False2 here unfolding upt by (simp add: Let_def del: upt_Suc)
    qed
  qed
qed simp

lemma diversity_eq:
  assumes "shouldApplySessionDiversity results N" "0 \<le> topK"
  shows "applySessionDiversity results topK N
    = take (nat topK) (map (nth results) (filter (\<lambda>i. int (earlier results i) < N) [0..<length results]))"
  using diversity_scan_spec [of "\<lambda>_. 0" N "[]" "[]" topK results] assms
  by (auto simp: applySessionDiversity_def shouldApplySessionDiversity_def)

lemma mset_nths_subseteq: "mset (map (nth xs) (filter P [0..<length xs])) \<subseteq># mset xs"
proof -
  have "mset (map (nth xs) (filter P [0..<length xs])) \<subseteq># mset (map (nth xs) [0..<length xs])"
    unfolding mset_map mset_filter by (intro image_mset_subseteq_mono multiset_filter_subset)
  then show ?thesis by (simp add: map_nth)
qed

lemma mset_take_subseteq: "mset (take n xs) \<subseteq># mset xs"
  by (metis append_take_drop_id mset_append mset_subset_eq_add_left)

lemma diversity_subset:
  assumes "0 \<le> topK"
  shows "mset (applySessionDiversity results topK N) \<subseteq># mset results"
proof (cases "shouldApplySessionDiversity results N")
  case True
  show ?thesis unfolding diversity_eq [OF True assms]
    by (rule subset_mset.order_trans [OF mset_take_subseteq mset_nths_subseteq])
qed (simp add: applySessionDiversity_def)

text \<open>
  When the diversity pass applies, its result is exactly the first \<open>N\<close> results of each session,
  in their order, cut at \<open>topK\<close>: a slot that no session may still fill_slots stays empty.
\<close>

theorem diversity_keeps_first_of_each_session:
  assumes "shouldApplySessionDiversity results N" "0 \<le> topK"
  shows "applySessionDiversity results topK N
    = take (nat topK) (map (nth results) (filter (\<lambda>i. int (earlier results i) < N) [0..<length results]))"
  using assms by (rule diversity_eq)

section \<open>Preference first\<close>

lemma take_take_append: "take n (take n xs @ ys) = take n (xs @ ys)"
  by (cases "length xs \<le> n") (simp_all add: min_def)

lemma fill_slots_spec:
  assumes "distinct (map res_id rs)" "res_id ` set rs \<inter> seen = {}" "int (length merged) \<le> topK"
  shows "fst (fill_slots topK rs (merged, seen)) = take (nat topK) (merged @ rs)
    \<and> snd (fill_slots topK rs (merged, seen)) \<subseteq> seen \<union> res_id ` set rs"
  using assms
proof (induction rs arbitrary: merged seen)
  case (Cons r rs)
  show ?case
  proof (cases "int (length merged) \<ge> topK")
    case True
    then show ?thesis using Cons.prems(3) by auto
  next
    case False
    let ?seen = "if res_id r \<noteq> [] then insert (res_id r) seen else seen"
    have "fst (fill_slots topK rs (merged @ [r], ?seen)) = take (nat topK) ((merged @ [r]) @ rs)
        \<and> snd (fill_slots topK rs (merged @ [r], ?seen)) \<subseteq> ?seen \<union> res_id ` set rs"
      using Cons.prems False by (intro Cons.IH) auto
    then show ?thesis using False Cons.prems(2) by (auto split: if_splits)
  qed
qed simp

lemma pref_slots_bounds: "1 \<le> topK \<Longrightarrow> 1 \<le> pref_slots topK \<and> pref_slots topK \<le> topK \<and> pref_slots topK \<le> 10"
  by (auto simp: pref_slots_def Let_def)

lemma preference_first_eq:
  assumes "distinct (map res_id results)" "1 \<le> topK"
  shows "preference_first topK results
    = (let prefs = filter is_preference results; general = filter (\<lambda>r. \<not> is_preference r) results;
           slots = nat (pref_slots topK)
       in if prefs = [] then results
          else take (nat topK) (take slots prefs @ general @ drop slots prefs))"
proof -
  define prefs where "prefs = filter is_preference results"
  define general where "general = filter (\<lambda>r. \<not> is_preference r) results"
  define slots where "slots = nat (pref_slots topK)"
  define taken where "taken = min slots (length prefs)"
  let ?front = "take taken prefs" and ?tail = "drop taken prefs"
  have t: "?front = take slots prefs" "?tail = drop slots prefs"
    by (auto simp: taken_def min_def)
  have "inj_on res_id (set results)" using assms(1) by (simp add: distinct_map)
  then have disj: "res_id ` A \<inter> res_id ` B = {}" if "A \<inter> B = {}" "A \<union> B \<subseteq> set results" for A B
    using that by (metis Int_Un_eq(2) Un_upper1 Un_upper2 image_is_empty inj_on_image_Int subset_trans)
  have d: "distinct (map res_id prefs)" "distinct (map res_id general)"
    using assms(1) by (auto simp: prefs_def general_def distinct_map_filter)
  have dp: "distinct prefs" using d(1) by (simp add: distinct_map)
  have bk: "distinct (map res_id ?tail)" using d(1) by (metis distinct_drop drop_map)
  have pg: "set prefs \<inter> set general = {}" "set prefs \<union> set general \<subseteq> set results"
    by (auto simp: prefs_def general_def)
  have fb: "set ?front \<inter> set ?tail = {}" using dp by (rule set_take_disj_set_drop_if_distinct) simp
  have sub: "set ?front \<subseteq> set prefs" "set ?tail \<subseteq> set prefs" by (rule set_take_subset, rule set_drop_subset)
  have l: "int (length ?front) \<le> topK"
    using pref_slots_bounds [OF assms(2)] by (auto simp: taken_def slots_def min_def)
  let ?one = "fill_slots topK general (?front, res_id ` set ?front)"
  have "res_id ` set general \<inter> res_id ` set ?front = {}" using pg sub by (intro disj) auto
  from fill_slots_spec [OF d(2) this l]
  have one: "fst ?one = take (nat topK) (?front @ general)"
    "snd ?one \<subseteq> res_id ` set ?front \<union> res_id ` set general" by auto
  have "res_id ` set ?tail \<inter> res_id ` (set ?front \<union> set general) = {}"
    using pg sub fb by (intro disj) auto
  then have "res_id ` set ?tail \<inter> snd ?one = {}" using one(2) by (auto simp: image_Un)
  moreover have "int (length (fst ?one)) \<le> topK" using assms(2) one(1) by simp
  ultimately have "fst (fill_slots topK ?tail (fst ?one, snd ?one)) = take (nat topK) (fst ?one @ ?tail)"
    using fill_slots_spec [OF bk] by blast
  also have "\<dots> = take (nat topK) (?front @ general @ ?tail)" by (simp only: one(1) take_take_append append_assoc)
  finally show ?thesis
    unfolding preference_first_def prefs_def [symmetric] general_def [symmetric] slots_def [symmetric] Let_def
      taken_def [symmetric] by (simp add: t)
qed

lemma preference_first_subset:
  assumes "distinct (map res_id results)" "1 \<le> topK"
  shows "mset (preference_first topK results) \<subseteq># mset results"
proof -
  let ?prefs = "filter is_preference results" and ?gen = "filter (\<lambda>r. \<not> is_preference r) results"
  let ?n = "nat (pref_slots topK)"
  have "mset (take ?n ?prefs @ ?gen @ drop ?n ?prefs) = mset ?prefs + mset ?gen"
    by (metis append_take_drop_id mset_append union_assoc union_commute)
  also have "\<dots> = mset results" by (simp add: multiset_partition [symmetric])
  finally have "mset (take (nat topK) (take ?n ?prefs @ ?gen @ drop ?n ?prefs)) \<subseteq># mset results"
    by (metis mset_take_subseteq)
  then show ?thesis unfolding preference_first_eq [OF assms] Let_def by simp
qed

text \<open>
  Preference first is what its comment promises: for results of distinct memories, the best
  preference memories take up to half of the slots (at least one, at most ten), the general results
  follow, then the rest of the preferences, cut at \<open>topK\<close>; without a preference memory nothing changes.
\<close>

theorem preference_first_spec:
  assumes "distinct (map res_id results)" "1 \<le> topK"
  shows "preference_first topK results
    = (let prefs = filter is_preference results; general = filter (\<lambda>r. \<not> is_preference r) results;
           slots = nat (pref_slots topK)
       in if prefs = [] then results
          else take (nat topK) (take slots prefs @ general @ drop slots prefs))"
  using assms by (rule preference_first_eq)

section \<open>Aggregation by session\<close>

lemma add_to_group_mset:
  "distinct (map fst gs) \<Longrightarrow> mset (concat (map snd (add_to_group r gs))) = add_mset r (mset (concat (map snd gs)))"
  unfolding add_to_group_def get_or_def
  by (induction gs) (auto simp: map_of_eq_None_iff split: option.splits dest: map_of_SomeD)

definition groups_ok :: "(string \<times> SearchResult list) list \<Rightarrow> bool" where
  "groups_ok gs \<longleftrightarrow> distinct (map fst gs)
     \<and> (\<forall>g\<in>set gs. snd g \<noteq> [] \<and> (\<forall>r\<in>set (snd g). group_key r = fst g))"

lemma set_AList_update: "set (AList.update k v al) \<subseteq> insert (k, v) (set al)"
  by (induction al) auto

lemma groups_ok_add:
  assumes "groups_ok gs"
  shows "groups_ok (add_to_group r gs)"
proof -
  have "\<forall>x\<in>set (get_or gs [] (group_key r)). group_key x = group_key r"
    using assms by (auto simp: groups_ok_def get_or_def split: option.splits dest!: map_of_SomeD)
  moreover have "set (add_to_group r gs)
      \<subseteq> insert (group_key r, get_or gs [] (group_key r) @ [r]) (set gs)"
    unfolding add_to_group_def by (rule set_AList_update)
  ultimately show ?thesis
    using assms unfolding groups_ok_def add_to_group_def by (fastforce simp: distinct_update)
qed

lemma groups_of_results:
  "groups_ok (fold add_to_group rs []) \<and> mset (concat (map snd (fold add_to_group rs []))) = mset rs"
proof (induction rs rule: rev_induct)
  case (snoc r rs)
  define gs where "gs = fold add_to_group rs []"
  have "groups_ok gs" "mset (concat (map snd gs)) = mset rs" using snoc by (simp_all add: gs_def)
  then have "groups_ok (add_to_group r gs)" "mset (concat (map snd (add_to_group r gs))) = mset (rs @ [r])"
    using groups_ok_add [of gs r] add_to_group_mset [of gs r] by (auto simp: groups_ok_def)
  then show ?case by (simp add: gs_def)
qed (simp add: groups_ok_def)

interpretation by_group: strict_weak_order "group_before lg cosines" for lg cosines
  by unfold_locales (auto simp: group_before_def split: if_splits)

lemma group_dcg_perm:
  assumes "mset a = mset b"
  shows "group_dcg lg cosines a = group_dcg lg cosines b"
proof -
  have "mset (concat (map f a)) = mset (concat (map f b))" for f :: "SearchResult \<Rightarrow> float64 list"
    using assms by (metis mset_concat mset_map sum_mset_sum_list map_map)
  then have "sort (concat (map f a)) = sort (concat (map f b))" for f :: "SearchResult \<Rightarrow> float64 list"
    by (metis sorted_list_of_multiset_mset)
  then show ?thesis unfolding group_dcg_def sessionDCG_def by metis
qed

abbreviation session_list :: "SearchResult list \<Rightarrow> bool" where
  "session_list g \<equiv> g \<noteq> [] \<and> descending g \<and> (\<forall>r\<in>set g. group_key r = group_key (hd g))"

lemma session_rerank_blocks:
  assumes "allChunkCosines \<noteq> []" "results \<noteq> []"
  shows "\<exists>gs. sessionNDCGRerank lg results allChunkCosines True = concat gs
    \<and> mset (concat gs) = mset results \<and> distinct (map (group_key \<circ> hd) gs) \<and> list_all session_list gs
    \<and> sorted_wrt (\<lambda>a b. group_dcg lg (map_of allChunkCosines) b \<le> group_dcg lg (map_of allChunkCosines) a) gs"
proof -
  define groups where "groups = fold add_to_group results []"
  define before where "before = group_before lg (map_of allChunkCosines)"
  define ranked where "ranked = sort_stable before (map snd groups)"
  define gs where "gs = map (sort_stable score_greater) ranked"
  note g = groups_of_results [of results, folded groups_def]
  have rset: "set ranked = snd ` set groups" by (simp add: ranked_def)
  have hd: "group_key (hd (sort_stable score_greater (snd q))) = fst q \<and> sort_stable score_greater (snd q) \<noteq> []"
    if "q \<in> set groups" for q
  proof -
    have "sort_stable score_greater (snd q) \<noteq> []"
      using that g by (metis groups_ok_def length_0_conv length_sort_stable)
    moreover from this have "hd (sort_stable score_greater (snd q)) \<in> set (snd q)"
      by (metis list.set_sel(1) set_sort_stable)
    ultimately show ?thesis using that g by (auto simp: groups_ok_def)
  qed
  have "mset (map (group_key \<circ> hd) gs) = mset (map (group_key \<circ> hd \<circ> sort_stable score_greater) (map snd groups))"
    unfolding gs_def ranked_def map_map mset_map mset_sort_stable by (simp add: multiset.map_comp comp_def)
  also have "map (group_key \<circ> hd \<circ> sort_stable score_greater) (map snd groups) = map fst groups"
    using hd by auto
  finally have "distinct (map (group_key \<circ> hd) gs)"
    using g by (metis groups_ok_def mset_eq_imp_distinct_iff)
  moreover have "mset (concat gs) = mset results"
  proof -
    have "mset (concat gs) = sum_mset (mset (map mset ranked))"
      by (simp add: gs_def mset_concat comp_def flip: sum_mset_sum_list)
    also have "\<dots> = sum_mset (mset (map mset (map snd groups)))"
      unfolding ranked_def mset_map [of mset] mset_sort_stable ..
    also have "\<dots> = mset (concat (map snd groups))" by (simp only: mset_concat sum_mset_sum_list)
    finally show ?thesis using g by simp
  qed
  moreover have "list_all session_list gs"
    using hd g descending_sort_stable by (fastforce simp: list_all_iff gs_def rset groups_ok_def)
  moreover have "sorted_wrt (\<lambda>a b. group_dcg lg (map_of allChunkCosines) b \<le> group_dcg lg (map_of allChunkCosines) a) gs"
  proof -
    have "sorted_wrt (\<lambda>a b. \<not> before b a) ranked"
      unfolding ranked_def before_def by (rule by_group.sorted_sort_stable)
    then have "sorted_wrt (\<lambda>a b. group_dcg lg (map_of allChunkCosines) b \<le> group_dcg lg (map_of allChunkCosines) a) ranked"
      by (rule sorted_wrt_mono_rel [rotated]) (auto simp: before_def group_before_def split: if_splits)
    then show ?thesis by (simp add: gs_def sorted_wrt_map group_dcg_perm [OF mset_sort_stable])
  qed
  moreover have "sessionNDCGRerank lg results allChunkCosines True = concat gs"
    using assms by (simp add: sessionNDCGRerank_def gs_def ranked_def groups_def before_def Let_def)
  ultimately show ?thesis by blast
qed

lemma sessionNDCGRerank_mset [simp]: "mset (sessionNDCGRerank lg results cosines enabled) = mset results"
proof (cases "enabled \<and> results \<noteq> [] \<and> cosines \<noteq> []")
  case True
  then show ?thesis using session_rerank_blocks [of cosines results lg] by auto
qed (auto simp: sessionNDCGRerank_def)

text \<open>
  C35: Session aggregation packs sessions: the reranked list is a permutation of its input made of one
  block per session, the blocks by decreasing discounted gain of their chunks, each block by
  decreasing score.
\<close>

theorem session_rerank_packs:
  assumes "allChunkCosines \<noteq> []" "results \<noteq> []"
  shows "\<exists>gs. sessionNDCGRerank lg results allChunkCosines True = concat gs
    \<and> mset (concat gs) = mset results \<and> distinct (map (group_key \<circ> hd) gs) \<and> list_all session_list gs
    \<and> sorted_wrt (\<lambda>a b. group_dcg lg (map_of allChunkCosines) b \<le> group_dcg lg (map_of allChunkCosines) a) gs"
  using assms by (rule session_rerank_blocks)

section \<open>Two passes\<close>

lemma appendOrHydrate_ids:
  "map res_id (appendOrHydrate r merged)
     = map res_id merged @ (if s_Memory r \<noteq> None \<and> res_id r \<notin> res_id ` set merged then [res_id r] else [])"
  by (auto simp: appendOrHydrate_def res_id_def preferLongerMemoryContent_def split: option.split)

lemma merged_ids:
  "map res_id (fold appendOrHydrate rs merged)
     = map res_id merged @ keep_first (\<lambda>x. x) (rev (map res_id merged)) (map res_id (filter (\<lambda>r. s_Memory r \<noteq> None) rs))"
proof (induction rs arbitrary: merged)
  case (Cons r rs)
  show ?case
    unfolding fold_simps Cons.IH appendOrHydrate_ids by (auto simp: image_image)
qed simp

lemma mergeSearchResults_ids:
  assumes "0 < limit"
  shows "map res_id (mergeSearchResults a b limit)
    = take (nat limit) (keep_first (\<lambda>x. x) [] (map res_id (filter (\<lambda>r. s_Memory r \<noteq> None) (a @ b))))"
proof -
  define M where "M = fold appendOrHydrate (a @ b) []"
  have pre: "map (res_id \<circ> s_AtomPreamble_update f) xs = map res_id xs" for f and xs :: "SearchResult list"
    by (simp add: res_id_def)
  have cut: "(if limit > 0 \<and> int (length M) > limit then take (nat limit) M else M) = take (nat limit) M"
    using assms by auto
  have "map res_id M = keep_first (\<lambda>x. x) [] (map res_id (filter (\<lambda>r. s_Memory r \<noteq> None) (a @ b)))"
    using merged_ids [of "a @ b" "[]"] by (simp only: M_def) simp
  then show ?thesis
    unfolding mergeSearchResults_def Let_def M_def [symmetric] cut by (simp only: if_distrib map_map pre if_cancel flip: take_map)
qed

lemma keep_first_append_prefix:
  "distinct xs \<Longrightarrow> set xs \<inter> set seen = {}
     \<Longrightarrow> keep_first (\<lambda>x. x) seen (xs @ ys) = xs @ keep_first (\<lambda>x. x) (rev xs @ seen) ys"
  by (induction xs arbitrary: seen) auto

text \<open>
  The merge of the two temporal passes gives every slot to the unfiltered pass: when that pass
  already returned as many results as asked for, the merged list has exactly its memories, whatever
  the date-windowed pass found.
\<close>

theorem full_first_pass_hides_second:
  assumes "0 < topK" "int (length pass1) = topK" "list_all (\<lambda>r. s_Memory r \<noteq> None) pass1"
    "distinct (map res_id pass1)"
  shows "map res_id (mergeSearchResults pass1 pass2 topK) = map res_id pass1"
proof -
  have "filter (\<lambda>r. s_Memory r \<noteq> None) pass1 = pass1" using assms(3) by (simp add: list_all_iff)
  then show ?thesis
    unfolding mergeSearchResults_ids [OF assms(1)] using assms(2,4)
    by (simp add: keep_first_append_prefix)
qed

section \<open>Federation\<close>

definition best_so_far :: "SearchResult list \<Rightarrow> (string \<times> SearchResult) list \<Rightarrow> bool" where
  "best_so_far rs seen \<longleftrightarrow> distinct (map fst seen)
     \<and> (\<forall>q\<in>set seen. res_id (snd q) = fst q \<and> snd q \<in> set rs)
     \<and> (\<forall>r\<in>set rs. \<exists>b. map_of seen (res_id r) = Some b \<and> s_Score r \<le> s_Score b)"

lemma federated_greater_iff [simp]: "federated_greater a b \<longleftrightarrow> s_Score a > s_Score b"
  by (simp add: federated_greater_def federatedScoreGreater_def fv_less_def)

lemma best_so_far_keep:
  assumes "best_so_far rs seen"
  shows "best_so_far (rs @ [r]) (keep_best r seen)"
proof (cases "\<exists>b. map_of seen (res_id r) = Some b \<and> s_Score r \<le> s_Score b")
  case True
  then have "keep_best r seen = seen" by (auto simp: keep_best_def)
  with True assms show ?thesis by (auto simp: best_so_far_def)
next
  case False
  then have k: "keep_best r seen = AList.update (res_id r) r seen"
    by (auto simp: keep_best_def not_le split: option.split)
  have "\<forall>q\<in>set (AList.update (res_id r) r seen). res_id (snd q) = fst q \<and> snd q \<in> set (rs @ [r])"
    using assms set_AList_update [of "res_id r" r seen] by (auto simp: best_so_far_def)
  moreover have "\<exists>b. map_of (AList.update (res_id r) r seen) (res_id x) = Some b \<and> s_Score x \<le> s_Score b"
    if "x \<in> set (rs @ [r])" for x
    using that assms False by (fastforce simp: best_so_far_def update_conv' not_le)
  ultimately show ?thesis using assms unfolding k best_so_far_def by (auto simp: distinct_update)
qed

lemma best_so_far_fold: "best_so_far rs (fold keep_best rs [])"
  by (induction rs rule: rev_induct) (auto simp: best_so_far_keep best_so_far_def [of "[]"])

lemma best_so_far_values:
  assumes "best_so_far rs seen"
  shows "map res_id (map snd seen) = map fst seen" "snd ` set seen \<subseteq> set rs"
    "r \<in> set rs \<Longrightarrow> \<exists>b\<in>snd ` set seen. res_id b = res_id r \<and> s_Score r \<le> s_Score b"
  using assms by (auto simp: best_so_far_def image_iff dest!: map_of_SomeD) (metis map_of_SomeD snd_conv fst_conv)

text \<open>
  C14: Federated recall returns the best of all projects. Of the engines that answered, the merged
  list has each memory once, by decreasing score, from the results of the engines; every result is
  represented by one of its memory with at least its score, unless the list is full and everything
  in it scores at least as much. Scores are finite here; the order the source gives to NaN does not arise.
\<close>

theorem federated_best:
  assumes "tie_ok tie" "federated_merge tie topK fans = Inr (out, failed)"
  shows "distinct (map res_id out) \<and> descending out \<and> set out \<subseteq> set (fan_results fans)
    \<and> (\<forall>r. r \<in> set (fan_results fans) \<longrightarrow>
          (\<exists>b. b \<in> set out \<and> res_id b = res_id r \<and> s_Score r \<le> s_Score b)
          \<or> int (length out) = topK \<and> list_all (\<lambda>b. s_Score r \<le> s_Score b) out)"
proof -
  define seen where "seen = fold keep_best (fan_results fans) []"
  define merged where "merged = sort_stable federated_greater (tie (map snd seen))"
  define n where "n = (if topK > 0 \<and> int (length merged) > topK then nat topK else length merged)"
  have out: "out = take n merged"
    using assms(2) by (auto simp: federated_merge_def Let_def merged_def seen_def n_def split: if_splits)
  have b: "best_so_far (fan_results fans) seen" unfolding seen_def by (rule best_so_far_fold)
  note v = best_so_far_values [OF b]
  have m: "mset merged = mset (map snd seen)" using assms(1) by (simp add: merged_def tie_ok_def)
  then have set_m: "set merged = snd ` set seen" by (metis list.set_map set_mset_mset)
  have "distinct (map res_id (map snd seen))" unfolding v(1) using b by (simp add: best_so_far_def)
  then have "distinct (map res_id merged)" using m by (metis mset_eq_imp_distinct_iff mset_map)
  then have "distinct (map res_id out)" unfolding out by (simp add: distinct_take flip: take_map)
  moreover have desc: "descending merged"
    using by_federated_score.sorted_sort_stable [of "tie (map snd seen)"] by (simp add: merged_def not_less)
  then have "descending out" unfolding out by (rule sorted_wrt_take)
  moreover have "set out \<subseteq> set (fan_results fans)"
    using v(2) set_m set_take_subset [of n merged] by (auto simp: out)
  moreover have "(\<exists>b. b \<in> set out \<and> res_id b = res_id r \<and> s_Score r \<le> s_Score b)
      \<or> int (length out) = topK \<and> list_all (\<lambda>b. s_Score r \<le> s_Score b) out"
    if rin: "r \<in> set (fan_results fans)" for r
  proof -
    obtain q where q: "q \<in> set merged" "res_id q = res_id r" "s_Score r \<le> s_Score q"
      using v(3) [OF rin] set_m by auto
    show ?thesis
    proof (cases "q \<in> set out")
      case False
      then have cut: "topK > 0" "int (length merged) > topK" "n = nat topK"
        using q(1) by (auto simp: out n_def split: if_splits)
      have "q \<in> set (drop n merged)"
        using False q(1) append_take_drop_id [of n merged] by (metis UnE out set_append)
      moreover have "sorted_wrt (\<lambda>a b. s_Score b \<le> s_Score a) (out @ drop n merged)"
        using desc by (simp add: out)
      ultimately have "\<forall>b\<in>set out. s_Score q \<le> s_Score b" by (auto simp: sorted_wrt_append)
      then show ?thesis using q(3) cut by (fastforce simp: list_all_iff out)
    qed (use q in blast)
  qed
  ultimately show ?thesis by blast
qed

section \<open>Instances\<close>

definition sample_memory :: "string \<Rightarrow> string \<Rightarrow> string list \<Rightarrow> Memory" where
  "sample_memory i memType tags =
     \<lparr>m_ID = i, m_Content = i, m_RawBody = [], m_MemoryType = memType, m_Project = ''p'', m_Tags = tags,
      m_Importance = 2, m_AccessCount = 0, m_LastAccessed = 0, m_CreatedAt = 0, m_UpdatedAt = 0,
      m_Immutable = False, m_ExpiresAt = None, m_Summary = None, m_ContentHash = None, m_StorageMode = [],
      m_ValidFrom = None, m_ValidTo = None, m_InvalidationReason = None, m_PatternConfidence = None,
      m_DynamicImportance = None, m_RetrievalIntervalHrs = 0, m_NextReviewAt = None, m_TimesRetrieved = 0,
      m_TimesUseful = 0, m_RetrievalPrecision = None, m_EpisodeID = [], m_DocumentID = []\<rparr>"

definition sample_result :: "string \<Rightarrow> string \<Rightarrow> string list \<Rightarrow> float64 \<Rightarrow> SearchResult" where
  "sample_result i memType tags score =
     \<lparr>s_Memory = Some (sample_memory i memType tags), s_Score = score, s_ScoreBreakdown = Map.empty,
      s_MatchedChunk = [], s_ChunkScore = 0, s_MatchedChunkIndex = 0, s_AtomPreamble = [], s_Connected = [],
      s_MatchedChunkSection = None\<rparr>"

definition sample_results :: "SearchResult list" where
  "sample_results =
     [sample_result ''m1'' ''context'' [''sid:a''] 4, sample_result ''m2'' ''context'' [''sid:a''] 3,
      sample_result ''m3'' ''preference'' [''session:b''] 2, sample_result ''m4'' ''preference'' [''sid:a''] 1]"

theorem diversity_keeps_first_of_each_session_witness:
  "map res_id (applySessionDiversity sample_results 4 1) = [''m1'', ''m3'']"
proof -
  have a: "shouldApplySessionDiversity sample_results 1" by code_simp
  show ?thesis
    unfolding diversity_keeps_first_of_each_session [OF a, of 4, simplified] by code_simp
qed

theorem preference_first_spec_witness:
  "map res_id (preference_first 3 sample_results) = [''m3'', ''m1'', ''m2'']"
proof -
  have d: "distinct (map res_id sample_results)" by code_simp
  show ?thesis unfolding preference_first_spec [OF d, of 3, simplified] by code_simp
qed

theorem session_rerank_packs_witness:
  "\<exists>gs. sessionNDCGRerank (\<lambda>x. x) sample_results [(''m3'', [1])] True = concat gs
    \<and> mset (concat gs) = mset sample_results \<and> distinct (map (group_key \<circ> hd) gs) \<and> list_all session_list gs
    \<and> sorted_wrt (\<lambda>a b. group_dcg (\<lambda>x. x) (map_of [(''m3'', [1])]) b \<le> group_dcg (\<lambda>x. x) (map_of [(''m3'', [1])]) a) gs"
  using session_rerank_packs [of "[(''m3'', [1])]" sample_results "\<lambda>x. x"] by (simp add: sample_results_def)

theorem full_first_pass_hides_second_witness:
  "map res_id (mergeSearchResults sample_results [sample_result ''m5'' ''event'' [] 9] 4)
     = [''m1'', ''m2'', ''m3'', ''m4'']"
proof -
  have "list_all (\<lambda>r. s_Memory r \<noteq> None) sample_results" "distinct (map res_id sample_results)"
    "int (length sample_results) = 4" "map res_id sample_results = [''m1'', ''m2'', ''m3'', ''m4'']"
    by code_simp+
  then show ?thesis using full_first_pass_hides_second [of 4 sample_results] by simp
qed

definition sample_fans :: "string fan list" where
  "sample_fans =
     [(''p'', Inr sample_results), (''q'', Inl ''down''),
      (''r'', Inr [sample_result ''m3'' ''preference'' [] 5, sample_result ''m6'' ''event'' [] 1])]"

theorem federated_best_witness:
  "\<exists>out failed. federated_merge rev 2 sample_fans = Inr (out, failed) \<and> map res_id out = [''m3'', ''m1'']
     \<and> descending out"
proof -
  obtain out failed where o: "federated_merge rev 2 sample_fans = Inr (out, failed)"
    by (cases "federated_merge rev 2 sample_fans")
      (auto simp: federated_merge_def sample_fans_def fan_failures_def Let_def)
  have "tie_ok (rev :: SearchResult list \<Rightarrow> _)" by (simp add: tie_ok_def)
  note f = federated_best [OF this o]
  have "case federated_merge rev 2 sample_fans of Inr (out, _) \<Rightarrow> map res_id out = [''m3'', ''m1''] | Inl _ \<Rightarrow> False"
    by code_simp
  then show ?thesis using o f by auto
qed

end
