(* ===== verification/Recall_Query.thy ===== *)
theory Recall_Query
  imports Recall_Signal
begin

text \<open>
  How a recall derives further queries from its own (\<^verbatim>\<open>src/internal/search/paraphrase_union.go\<close>,
  \<^verbatim>\<open>temporal_window.go\<close>): the rule-based paraphrases, and the date window of a question that
  refers to a time before it was asked.
\<close>

section \<open>Paraphrases\<close>

definition whPrefixes :: "string list" where
  "whPrefixes =
     [''what is '', ''what are '', ''what was '', ''what were '', ''what's '', ''what're '',
      ''who is '', ''who are '', ''who was '', ''who were '', ''who's '',
      ''where is '', ''where are '', ''where was '', ''where were '', ''where's '',
      ''when is '', ''when was '', ''which is '', ''which are '', ''how is '', ''how was '', ''how's '',
      ''tell me about '', ''tell me what '', ''do you know '', ''do you remember '',
      ''can you tell me about '', ''what do you know about '', ''what do you remember about '']"

definition auxiliaryPrefixes :: "string list" where
  "auxiliaryPrefixes =
     [''did '', ''does '', ''do '', ''has '', ''have '', ''had '', ''is '', ''are '', ''was '', ''were '',
      ''can '', ''could '', ''would '', ''should '']"

definition contractionExpansions :: "(string \<times> string) list" where
  "contractionExpansions =
     [(''what's'', ''what is''), (''who's'', ''who is''), (''where's'', ''where is''), (''how's'', ''how is''),
      (''when's'', ''when is''), (''that's'', ''that is''), (''there's'', ''there is''), (''it's'', ''it is''),
      (''he's'', ''he is''), (''she's'', ''she is''), (''they're'', ''they are''), (''we're'', ''we are''),
      (''you're'', ''you are''), (''i'm'', ''i am''), (''isn't'', ''is not''), (''aren't'', ''are not''),
      (''wasn't'', ''was not''), (''weren't'', ''were not''), (''don't'', ''do not''), (''doesn't'', ''does not''),
      (''didn't'', ''did not''), (''won't'', ''will not''), (''can't'', ''cannot''), (''couldn't'', ''could not'')]"

definition expandContractions :: "string \<Rightarrow> string" where
  "expandContractions s =
     (let ws = Fields s;
          expanded = map (\<lambda>w. case map_of contractionExpansions w of Some e \<Rightarrow> e | None \<Rightarrow> w) ws
      in if list_ex (\<lambda>w. map_of contractionExpansions w \<noteq> None) ws then Join expanded '' '' else s)"

fun strip_first :: "string list \<Rightarrow> string \<Rightarrow> string" where
  "strip_first [] s = s"
| "strip_first (p # ps) s =
     (if HasPrefix s p \<and> TrimSpace (drop (length p) s) \<noteq> [] then TrimSpace (drop (length p) s)
      else strip_first ps s)"

definition stripWHPrefix :: "string \<Rightarrow> string" where
  "stripWHPrefix s = strip_first whPrefixes s"

definition stripAuxiliaryPrefix :: "string \<Rightarrow> string" where
  "stripAuxiliaryPrefix s = strip_first auxiliaryPrefixes s"

text \<open>The key under which a paraphrase counts as seen.\<close>

definition para_key :: "unicode \<Rightarrow> string \<Rightarrow> string" where
  "para_key u s = ToLower (u_lower u) (TrimSpace s)"

fun take_fresh :: "unicode \<Rightarrow> nat \<Rightarrow> string list \<Rightarrow> string list \<Rightarrow> string list \<Rightarrow> string list" where
  "take_fresh u n seen out [] = out"
| "take_fresh u n seen out (c # cs) =
     (if TrimSpace c = [] \<or> para_key u c \<in> set seen then take_fresh u n seen out cs
      else if length (out @ [c]) \<ge> n then out @ [c]
      else take_fresh u n (para_key u c # seen) (out @ [c]) cs)"

definition paraphrase_candidates :: "string \<Rightarrow> string list" where
  "paraphrase_candidates original =
     (let expanded = expandContractions original;
          bare = stripWHPrefix original;
          stripped = stripAuxiliaryPrefix bare;
          subject = (if stripped = original then bare else stripped)
      in [expanded, bare]
         @ (if expanded \<noteq> original then [stripWHPrefix expanded] else [])
         @ [stripped, ''information about '' @ subject]
         @ (if length bare \<le> 60 then [bare @ '' not''] else []))"

definition Paraphrase :: "unicode \<Rightarrow> string \<Rightarrow> int \<Rightarrow> string list" where
  "Paraphrase u query n =
     (if n \<le> 0 \<or> TrimSpace query = [] then []
      else let original = TrimSpace (ToLower (u_lower u) query) in
        take_fresh u (nat n) [original] [] (paraphrase_candidates original))"

definition unionCandidates :: "string list \<Rightarrow> string list \<Rightarrow> string list" where
  "unionCandidates setA setB = setA @ keep_first (\<lambda>x. x) (rev setA) setB"

section \<open>Dates\<close>

text \<open>
  A date as year, month and day, and the midnight of a date in nanoseconds since the zero time, the
  first day of year 1. As \<^verbatim>\<open>time.Date\<close> does, months beyond the year and days beyond the month carry
  over. The calendar is exact for every year the range of \<^verbatim>\<open>time.Time\<close> has.
\<close>

definition leap :: "int \<Rightarrow> bool" where
  "leap y \<longleftrightarrow> y mod 4 = 0 \<and> (y mod 100 \<noteq> 0 \<or> y mod 400 = 0)"

definition month_lengths :: "int \<Rightarrow> int list" where
  "month_lengths y = [31, if leap y then 29 else 28, 31, 30, 31, 30, 31, 31, 30, 31, 30, 31]"

definition days_before_year :: "int \<Rightarrow> int" where
  "days_before_year y = 365 * (y - 1) + (y - 1) div 4 - (y - 1) div 100 + (y - 1) div 400"

definition Date :: "int \<Rightarrow> int \<Rightarrow> int \<Rightarrow> gotime" where
  "Date y m d =
     (let months = 12 * y + (m - 1); y' = months div 12; m' = nat (months mod 12) in
      (days_before_year y' + sum_list (take m' (month_lengths y')) + (d - 1)) * (24 * hour))"

definition parse_layout :: "char \<Rightarrow> string \<Rightarrow> (int \<times> int \<times> int) option" where
  "parse_layout sep s =
     (if length s = 10 \<and> s ! 4 = sep \<and> s ! 7 = sep
         \<and> list_all is_digit (take 4 s @ take 2 (drop 5 s) @ drop 8 s)
      then let y = int (digits_val (take 4 s)); m = int (digits_val (take 2 (drop 5 s))); d = int (digits_val (drop 8 s)) in
        if 1 \<le> m \<and> m \<le> 12 \<and> 1 \<le> d \<and> d \<le> month_lengths y ! nat (m - 1) then Some (y, m, d) else None
      else None)"

definition parseQuestionDate :: "string \<Rightarrow> (int \<times> int \<times> int) option" where
  "parseQuestionDate questionDate =
     (case Fields questionDate of
        [] \<Rightarrow> None
      | f # _ \<Rightarrow> (case parse_layout (CHR ''/'') f of Some t \<Rightarrow> Some t | None \<Rightarrow> parse_layout (CHR ''-'') f))"

section \<open>The window\<close>

definition twAgoWords :: "(string \<times> int) list" where
  "twAgoWords =
     [(''one'', 1), (''two'', 2), (''three'', 3), (''four'', 4), (''five'', 5), (''six'', 6), (''seven'', 7),
      (''eight'', 8), (''nine'', 9), (''ten'', 10), (''eleven'', 11), (''twelve'', 12)]"

definition twRelativeAgoRe :: regex where
  "twRelativeAgoRe = seqs
     [WordB, Alt (Plus (Rune digit_class)) (alts (map (ilit \<circ> fst) twAgoWords)), Plus (Rune space_class),
      alts (map ilit [''day'', ''days'', ''week'', ''weeks'', ''month'', ''months'', ''year'', ''years'']),
      Plus (Rune space_class), ilit ''ago'', WordB]"

text \<open>
  \<^verbatim>\<open>FindStringSubmatch\<close>: neither group contains white space, so the groups are the first two fields
  of the match.
\<close>

definition ago_match :: "string \<Rightarrow> (string \<times> string) option" where
  "ago_match s =
     (case find_from twRelativeAgoRe s 0 of
        None \<Rightarrow> None
      | Some (b, e) \<Rightarrow> (case Fields (slice s b e) of amount # unit # _ \<Rightarrow> Some (amount, unit) | _ \<Rightarrow> None))"

definition parseTWAgoAmount :: "unicode \<Rightarrow> string \<Rightarrow> int option" where
  "parseTWAgoAmount u raw =
     (let n = (case Atoi raw of
          Some n \<Rightarrow> n
        | None \<Rightarrow> (case map_of twAgoWords (ToLower (u_lower u) raw) of Some n \<Rightarrow> n | None \<Rightarrow> 0))
      in if n > 0 then Some n else None)"

definition target_and_pad :: "int \<times> int \<times> int \<Rightarrow> int \<Rightarrow> string \<Rightarrow> ((int \<times> int \<times> int) \<times> int) option" where
  "target_and_pad anchor n unit =
     (case anchor of (y, m, d) \<Rightarrow>
        if unit \<in> {''day'', ''days''} then Some ((y, m, d - n), 1)
        else if unit \<in> {''week'', ''weeks''} then Some ((y, m, d - 7 * n), 3)
        else if unit \<in> {''month'', ''months''} then Some ((y, m - n, d), 7)
        else if unit \<in> {''year'', ''years''} then Some ((y - n, m, d), 30)
        else None)"

definition add_days :: "gotime \<Rightarrow> int \<Rightarrow> gotime" where
  "add_days t n = t + n * (24 * hour)"

definition ParseTemporalWindow :: "unicode \<Rightarrow> string \<Rightarrow> string \<Rightarrow> (gotime \<times> gotime) option" where
  "ParseTemporalWindow u question questionDate =
     (case parseQuestionDate questionDate of
        None \<Rightarrow> None
      | Some (y, m, d) \<Rightarrow>
          let lower = ToLower (u_lower u) (TrimSpace question) in
          if HasPrefix lower ''how many'' then None
          else if Contains lower ''yesterday''
          then let target = Date y m (d - 1) in Some (target, add_days target 1)
          else case ago_match lower of
            None \<Rightarrow> None
          | Some (amount, unit) \<Rightarrow>
              (case parseTWAgoAmount u amount of
                 None \<Rightarrow> None
               | Some n \<Rightarrow>
                   (case target_and_pad (y, m, d) n unit of
                      None \<Rightarrow> None
                    | Some ((y', m', d'), pad) \<Rightarrow>
                        let target = Date y' m' d' in Some (add_days target (- pad), add_days target (pad + 1)))))"

section \<open>Properties\<close>

lemma take_fresh_spec:
  assumes "distinct seen" "set (map (para_key u) out) \<subseteq> set seen" "distinct (map (para_key u) out)"
    "original \<in> set seen" "original \<notin> para_key u ` set out" "length out < n" "\<forall>s\<in>set out. TrimSpace s \<noteq> []"
  shows "length (take_fresh u n seen out cs) \<le> n \<and> distinct (map (para_key u) (take_fresh u n seen out cs))
    \<and> original \<notin> para_key u ` set (take_fresh u n seen out cs)
    \<and> (\<forall>s\<in>set (take_fresh u n seen out cs). TrimSpace s \<noteq> [] \<and> s \<in> set (out @ cs))"
  using assms
proof (induction u n seen out cs rule: take_fresh.induct)
  case (2 u n seen out c cs)
  let ?Q = "\<lambda>xs ys. length xs \<le> n \<and> distinct (map (para_key u) xs) \<and> original \<notin> para_key u ` set xs
    \<and> (\<forall>s\<in>set xs. TrimSpace s \<noteq> [] \<and> s \<in> set ys)"
  show ?case
  proof (cases "TrimSpace c = [] \<or> para_key u c \<in> set seen")
    case True
    have "?Q (take_fresh u n seen out cs) (out @ cs)" by (rule "2.IH"(1) [OF True]) (rule "2.prems")+
    with True show ?thesis by auto
  next
    case fresh: False
    then have new: "para_key u c \<notin> para_key u ` set out" "para_key u c \<noteq> original" using "2.prems" by auto
    show ?thesis
    proof (cases "length (out @ [c]) \<ge> n")
      case True
      then show ?thesis using fresh new "2.prems" by auto
    next
      case False
      have "take_fresh u n seen out (c # cs) = take_fresh u n (para_key u c # seen) (out @ [c]) cs"
        using fresh False by simp
      moreover have "?Q (take_fresh u n (para_key u c # seen) (out @ [c]) cs) ((out @ [c]) @ cs)"
        by (rule "2.IH"(2) [OF fresh False]) (use fresh new "2.prems" False in auto)
      ultimately show ?thesis by simp
    qed
  qed
qed auto

text \<open>
  The paraphrases of a query are at most as many as asked for, none is blank, no two are alike and
  none repeats the query, up to case and surrounding space.
\<close>

theorem paraphrases_fresh:
  assumes "out = Paraphrase u query n" "0 \<le> n"
  shows "int (length out) \<le> n \<and> distinct (map (para_key u) out)
    \<and> TrimSpace (ToLower (u_lower u) query) \<notin> para_key u ` set out \<and> list_all (\<lambda>s. TrimSpace s \<noteq> []) out"
proof (cases "n = 0 \<or> TrimSpace query = []")
  case True
  then show ?thesis using assms by (auto simp: Paraphrase_def)
next
  case False
  then have "0 < nat n" using assms(2) by simp
  with False show ?thesis
    using take_fresh_spec [of "[TrimSpace (ToLower (u_lower u) query)]" u "[]" "TrimSpace (ToLower (u_lower u) query)"
        "nat n" "paraphrase_candidates (TrimSpace (ToLower (u_lower u) query))"] assms
    by (auto simp: Paraphrase_def Let_def list_all_iff)
qed

lemma target_and_pad_pos: "target_and_pad a n unit = Some (t, pad) \<Longrightarrow> 1 \<le> pad"
  by (auto simp: target_and_pad_def split: if_splits prod.splits)

text \<open>
  A resolved window is a real interval, at least a day long, and it is resolved only for a question
  with a parseable date that does not ask for the amount of time itself.
\<close>

theorem window_is_interval:
  assumes "ParseTemporalWindow u question questionDate = Some (since, before)"
  shows "since + 24 * hour \<le> before \<and> parseQuestionDate questionDate \<noteq> None
    \<and> \<not> HasPrefix (ToLower (u_lower u) (TrimSpace question)) ''how many''"
  using assms target_and_pad_pos
  by (fastforce simp: ParseTemporalWindow_def add_days_def Let_def split: option.splits if_splits prod.splits)

theorem paraphrases_fresh_witness:
  "distinct (map (para_key ascii_only) (Paraphrase ascii_only ''Who's Ann?'' 3))"
  using paraphrases_fresh [OF refl, of 3 ascii_only "''Who's Ann?''"] by simp

theorem window_is_interval_witness:
  "ParseTemporalWindow ascii_only ''Whom did I meet two weeks ago?'' ''2023/03/01 (Wed)''
     = Some (Date 2023 2 12, Date 2023 2 19) \<and> Date 2023 2 12 + 24 * hour \<le> Date 2023 2 19"
proof -
  have "ParseTemporalWindow ascii_only ''Whom did I meet two weeks ago?'' ''2023/03/01 (Wed)''
      = Some (Date 2023 2 12, Date 2023 2 19)" by code_simp
  with window_is_interval [OF this] show ?thesis by simp
qed

end
