(* ===== verification/Recall.thy ===== *)
theory Recall
  imports Recall_Rank Recall_Query Search_Store
begin

text \<open>
  Recall (\<^verbatim>\<open>src/internal/search/engine.go\<close>: \<^verbatim>\<open>RecallWithOpts\<close>, \<^verbatim>\<open>recallTwoPassTemporal\<close>,
  \<^verbatim>\<open>RecallWithEventAndOpts\<close>; \<^verbatim>\<open>weight_cache.go\<close>) and the two searches of the backend it rests on
  (\<^verbatim>\<open>src/internal/db/postgres_chunk.go\<close>, \<^verbatim>\<open>postgres_prune.go\<close>).

  The environment of a call holds what the program does not decide: the embedding service, the
  answers of the vector index, what matches a text query and how well, the rerankers, ties and the
  iteration order of maps, and the configuration resolved at first use. A recall is modelled with
  the cluster filter, the preference diversity pass and the atom preamble switched off.
\<close>

section \<open>Searching the tables\<close>

definition in_window :: "gotime option \<Rightarrow> gotime option \<Rightarrow> gotime option \<Rightarrow> bool" where
  "in_window since before validFrom \<longleftrightarrow>
     (case since of None \<Rightarrow> True | Some s \<Rightarrow> (case validFrom of None \<Rightarrow> False | Some t \<Rightarrow> s \<le> t))
     \<and> (case before of None \<Rightarrow> True | Some b \<Rightarrow> (case validFrom of None \<Rightarrow> False | Some t \<Rightarrow> t < b))"

text \<open>
  The exact answer of the vector query; the index approximates it. \<open>cosdist\<close> is the cosine distance of
  pgvector, \<open>tkey\<close> the order of chunks at the same distance. A chunk without an embedding has the empty one.
\<close>

definition hit_of :: "(float32 list \<Rightarrow> float32 list \<Rightarrow> float64) \<Rightarrow> float32 list \<Rightarrow> Chunk \<Rightarrow> VectorHit" where
  "hit_of cosdist q c =
     \<lparr>vh_ChunkID = c_ID c, vh_MemoryID = c_MemoryID c, vh_Distance = cosdist (c_Embedding c) q,
      vh_ChunkText = c_ChunkText c, vh_ChunkIndex = c_ChunkIndex c, vh_SectionHeading = c_SectionHeading c\<rparr>"

definition searched_chunk :: "string \<Rightarrow> gotime option \<Rightarrow> gotime option \<Rightarrow> database \<Rightarrow> Chunk \<Rightarrow> bool" where
  "searched_chunk project since before db c \<longleftrightarrow>
     c_Project c = project \<and> c_Embedding c \<noteq> []
     \<and> list_ex (\<lambda>m. m_ID m = c_MemoryID c \<and> m_Project m = c_Project c \<and> in_window since before (m_ValidFrom m))
         (db_memories db)"

definition hit_before :: "(string \<Rightarrow> nat) \<Rightarrow> VectorHit \<Rightarrow> VectorHit \<Rightarrow> bool" where
  "hit_before tkey a b \<longleftrightarrow>
     vh_Distance a < vh_Distance b
     \<or> vh_Distance a = vh_Distance b \<and> tkey (vh_ChunkID a) < tkey (vh_ChunkID b)"

definition VectorSearchWithDateRange ::
    "(string \<Rightarrow> nat) \<Rightarrow> (float32 list \<Rightarrow> float32 list \<Rightarrow> float64) \<Rightarrow> string \<Rightarrow> float32 list
      \<Rightarrow> int \<Rightarrow> gotime option \<Rightarrow> gotime option \<Rightarrow> database \<Rightarrow> VectorHit list" where
  "VectorSearchWithDateRange tkey cosdist project queryVec limit since before db =
     take (nat limit) (sort_stable (hit_before tkey)
       (map (hit_of cosdist queryVec) (filter (searched_chunk project since before db) (db_chunks db))))"

text \<open>\<open>rank\<close> is the text search of Postgres: the rank of a row for a query, if it matches.\<close>

definition FTSSearch ::
    "(FTSResult list \<Rightarrow> FTSResult list) \<Rightarrow> (string \<Rightarrow> Memory \<Rightarrow> float64 option) \<Rightarrow> string \<Rightarrow> string
      \<Rightarrow> int \<Rightarrow> gotime option \<Rightarrow> gotime option \<Rightarrow> database \<Rightarrow> FTSResult list" where
  "FTSSearch tie rank project query limit since before db =
     (let q = TrimSpace query in
      if q = [] then []
      else take (nat limit) (sort_stable (\<lambda>a b. ft_Score a > ft_Score b)
        (tie [\<lparr>ft_Memory = Some m, ft_Score = r\<rparr>.
           m \<leftarrow> db_memories db, m_Project m = project \<and> m_ValidTo m = None \<and> in_window since before (m_ValidFrom m),
           r \<leftarrow> (case rank q m of Some r \<Rightarrow> [r] | None \<Rightarrow> [])])))"

section \<open>Weights of a project\<close>

definition weightCacheTTL :: duration where
  "weightCacheTTL = 15 * minute"

record weightCacheEntry =
  wce_weights :: ScoreWeights
  wce_expiresAt :: gotime

type_synonym WeightCache = "(string \<times> weightCacheEntry) list"

text \<open>\<open>row\<close> answers the query of the row of the project: an error, no row, or the weights.\<close>

definition loadFromDB :: "ScoreWeights \<Rightarrow> (string \<Rightarrow> db_error + ScoreWeights option) \<Rightarrow> string \<Rightarrow> ScoreWeights" where
  "loadFromDB def row project = (case row project of Inr (Some w) \<Rightarrow> w | _ \<Rightarrow> def)"

definition WeightCache_Get ::
    "ScoreWeights \<Rightarrow> (string \<Rightarrow> db_error + ScoreWeights option) \<Rightarrow> gotime \<Rightarrow> string \<Rightarrow> WeightCache
      \<Rightarrow> WeightCache \<times> ScoreWeights" where
  "WeightCache_Get def row now project entries =
     (let load = (let w = loadFromDB def row project in
            (AList.update project \<lparr>wce_weights = w, wce_expiresAt = now + weightCacheTTL\<rparr> entries, w)) in
      case map_of entries project of
        Some e \<Rightarrow> if now < wce_expiresAt e then (entries, wce_weights e) else load
      | None \<Rightarrow> load)"

definition WeightCache_Invalidate :: "string \<Rightarrow> WeightCache \<Rightarrow> WeightCache" where
  "WeightCache_Invalidate project entries = AList.delete project entries"

section \<open>Options and environment\<close>

record RecallOpts =
  ro_Reranker :: "reranker option"
  ro_DenseReranker :: "reranker option"
  ro_DenseRerankTopN :: int
  ro_Mode :: string
  ro_CurrentEpisodeID :: string
  ro_DateSince :: "gotime option"
  ro_DateBefore :: "gotime option"
  ro_TopicAnchorBoost :: bool
  ro_ExactFactBoost :: bool
  ro_Fusion :: bool
  ro_ParaphraseUnion :: bool
  ro_SessionNDCGAgg :: bool
  ro_TemporalWindowRecall :: bool
  ro_QuestionText :: string
  ro_QuestionDate :: string
  ro_SessionDiversityN :: int

record recall_env =
  rv_call :: call_env
  rv_uni :: unicode
  rv_getenv :: getenv
  rv_default :: ScoreWeights
  rv_temporal :: ScoreWeights
  rv_ku :: ScoreWeights
  rv_row :: "string \<Rightarrow> db_error + ScoreWeights option"
  rv_decay :: "float64 \<Rightarrow> float64"
  rv_validity :: bool
  rv_lg :: "float64 \<Rightarrow> float64"
  rv_embed :: "string \<Rightarrow> bool + float32 list option"
  rv_vec :: "string \<Rightarrow> float32 list \<Rightarrow> int \<Rightarrow> gotime option \<Rightarrow> gotime option \<Rightarrow> database \<Rightarrow> VectorHit list"
  rv_rank :: "string \<Rightarrow> Memory \<Rightarrow> float64 option"
  rv_fts_tie :: "FTSResult list \<Rightarrow> FTSResult list"
  rv_tie :: tie
  rv_ids :: "string list \<Rightarrow> string list"

text \<open>An embedding that failed is \<open>Inl\<close>, with whether its deadline had passed.\<close>

abbreviation rv_now :: "recall_env \<Rightarrow> gotime" where
  "rv_now v \<equiv> e_now (rv_call v)"

section \<open>Candidates of a pass\<close>

record candidates =
  cs_hits :: "(string \<times> bestHit) list"
  cs_ids :: "string list"
  cs_memories :: "(string \<times> Memory) list"
  cs_fts :: "(string \<times> float64) list"
  cs_maxBM25 :: float64

definition cosine_of :: "VectorHit \<Rightarrow> float64" where
  "cosine_of h = 1 - vh_Distance h"

definition best_of :: "VectorHit \<Rightarrow> bestHit" where
  "best_of h =
     \<lparr>bh_cosine = cosine_of h, bh_denseScore = cosine_of h, bh_chunkText = vh_ChunkText h,
      bh_chunkIndex = vh_ChunkIndex h, bh_sectionHeading = vh_SectionHeading h, bh_chunkID = vh_ChunkID h,
      bh_rrfScore = 0\<rparr>"

definition add_hit :: "VectorHit \<Rightarrow> (string \<times> bestHit) list \<Rightarrow> (string \<times> bestHit) list" where
  "add_hit h bestHits =
     (case map_of bestHits (vh_MemoryID h) of
        None \<Rightarrow> AList.update (vh_MemoryID h) (best_of h) bestHits
      | Some existing \<Rightarrow>
          if cosine_of h > bh_cosine existing then AList.update (vh_MemoryID h) (best_of h) bestHits else bestHits)"

definition add_cosine :: "VectorHit \<Rightarrow> (string \<times> float64 list) list \<Rightarrow> (string \<times> float64 list) list" where
  "add_cosine h m = AList.update (vh_MemoryID h) (get_or m [] (vh_MemoryID h) @ [cosine_of h]) m"

definition put_memory :: "Memory \<Rightarrow> (string \<times> Memory) list \<Rightarrow> (string \<times> Memory) list" where
  "put_memory m mems = AList.update (m_ID m) m mems"

text \<open>The results of the text search enter the candidates; the rows of a result list always have memories.\<close>

definition merge_fts :: "FTSResult \<Rightarrow> candidates \<Rightarrow> candidates" where
  "merge_fts r cs =
     (case ft_Memory r of
        None \<Rightarrow> cs
      | Some m \<Rightarrow>
          cs\<lparr>cs_fts := AList.update (m_ID m) (ft_Score r) (cs_fts cs),
             cs_maxBM25 := (if ft_Score r > cs_maxBM25 cs then ft_Score r else cs_maxBM25 cs),
             cs_memories := put_memory m (cs_memories cs)\<rparr>)"

definition collect_candidates ::
    "VectorHit list \<Rightarrow> Memory list \<Rightarrow> FTSResult list \<Rightarrow> candidates" where
  "collect_candidates vecHits batchMems ftsResults =
     fold merge_fts ftsResults
       \<lparr>cs_hits = fold add_hit vecHits [], cs_ids = keep_first (\<lambda>x. x) [] (map vh_MemoryID vecHits),
        cs_memories = fold put_memory batchMems [], cs_fts = [], cs_maxBM25 = 0\<rparr>"

subsection \<open>Paraphrases\<close>

definition merge_fts_better :: "FTSResult \<Rightarrow> candidates \<Rightarrow> candidates" where
  "merge_fts_better r cs =
     (case ft_Memory r of
        None \<Rightarrow> cs
      | Some m \<Rightarrow>
          let cs1 = (if ft_Score r > get_or (cs_fts cs) 0 (m_ID m)
                then cs\<lparr>cs_fts := AList.update (m_ID m) (ft_Score r) (cs_fts cs),
                        cs_maxBM25 := (if ft_Score r > cs_maxBM25 cs then ft_Score r else cs_maxBM25 cs)\<rparr>
                else cs)
          in if m_ID m \<in> fst ` set (cs_memories cs1) then cs1
             else cs1\<lparr>cs_memories := put_memory m (cs_memories cs1)\<rparr>)"

definition paraphrase_hits ::
    "recall_env \<Rightarrow> RecallOpts \<Rightarrow> int \<Rightarrow> string \<Rightarrow> database \<Rightarrow> string \<Rightarrow> VectorHit list" where
  "paraphrase_hits v opts topK project db pq =
     (case rv_embed v pq of
        Inr (Some pVec) \<Rightarrow>
          if e_fault (rv_call v) (''vector search '' @ pq) then []
          else rv_vec v project pVec (topK * 3) (ro_DateSince opts) (ro_DateBefore opts) db
      | _ \<Rightarrow> [])"

definition fts_results ::
    "recall_env \<Rightarrow> RecallOpts \<Rightarrow> int \<Rightarrow> string \<Rightarrow> database \<Rightarrow> string \<Rightarrow> db_error + FTSResult list" where
  "fts_results v opts topK project db q =
     (if e_fault (rv_call v) (''fts '' @ q) then Inl DbFailed
      else Inr (FTSSearch (rv_fts_tie v) (rv_rank v) project q (topK * 3) (ro_DateSince opts) (ro_DateBefore opts) db))"

definition paraphrase_pass ::
    "recall_env \<Rightarrow> RecallOpts \<Rightarrow> int \<Rightarrow> string \<Rightarrow> database \<Rightarrow> string \<Rightarrow> candidates \<Rightarrow> candidates" where
  "paraphrase_pass v opts topK project db pq cs =
     (let hits = paraphrase_hits v opts topK project db pq;
          cs1 = cs\<lparr>cs_hits := fold add_hit hits (cs_hits cs),
                   cs_ids := unionCandidates (cs_ids cs) (map vh_MemoryID hits)\<rparr>
      in case fts_results v opts topK project db pq of
           Inl _ \<Rightarrow> cs1
         | Inr rs \<Rightarrow> fold merge_fts_better rs cs1)"

definition paraphrase_union ::
    "recall_env \<Rightarrow> RecallOpts \<Rightarrow> int \<Rightarrow> string \<Rightarrow> database \<Rightarrow> string \<Rightarrow> candidates \<Rightarrow> candidates" where
  "paraphrase_union v opts topK project db query cs =
     (if \<not> ro_ParaphraseUnion opts then cs
      else
        let cs1 = fold (paraphrase_pass v opts topK project db) (Paraphrase (rv_uni v) query 3) cs;
            newIDs = filter (\<lambda>i. i \<notin> fst ` set (cs_memories cs1)) (cs_ids cs1)
        in if newIDs = [] \<or> e_fault (rv_call v) ''select by ids'' then cs1
           else cs1\<lparr>cs_memories := fold put_memory (GetMemoriesByIDs project newIDs db) (cs_memories cs1)\<rparr>)"

subsection \<open>Reranking the dense leg\<close>

definition defaultDenseRerankTopN :: int where
  "defaultDenseRerankTopN = 20"

definition dense_item :: "(string \<times> Memory) list \<Rightarrow> string \<times> bestHit \<Rightarrow> RerankItem list" where
  "dense_item memories hit =
     (case map_of memories (fst hit) of
        None \<Rightarrow> []
      | Some m \<Rightarrow> [\<lparr>ri_ID = fst hit, ri_Summary = rerankTextForMemory (Some m), ri_Score = bh_cosine (snd hit)\<rparr>])"

definition item_before :: "RerankItem \<Rightarrow> RerankItem \<Rightarrow> bool" where
  "item_before a b \<longleftrightarrow> (if ri_Score a = ri_Score b then ri_ID a < ri_ID b else ri_Score a > ri_Score b)"

definition normalizeDenseRerankScores :: "RerankItem list \<Rightarrow> RerankResult list \<Rightarrow> (string \<times> float64) list" where
  "normalizeDenseRerankScores items reranked =
     (let raw = score_map reranked;
          bounds = (case map rr_Score reranked of
              [] \<Rightarrow> None
            | x # xs \<Rightarrow> Some (fold (\<lambda>y (lo, hi). (if y < lo then y else lo, if y > hi then y else hi)) xs (x, x)))
      in map (\<lambda>item. (ri_ID item,
           case bounds of
             None \<Rightarrow> ri_Score item
           | Some (lo, hi) \<Rightarrow>
               if hi = lo then ri_Score item
               else case raw (ri_ID item) of
                 None \<Rightarrow> ri_Score item
               | Some score \<Rightarrow> (score - lo) / (hi - lo))) items)"

definition set_dense :: "(string \<times> float64) list \<Rightarrow> RerankItem \<Rightarrow> (string \<times> bestHit) list \<Rightarrow> (string \<times> bestHit) list" where
  "set_dense scores item hits =
     (case map_of scores (ri_ID item) of
        None \<Rightarrow> hits
      | Some x \<Rightarrow> AList.update (ri_ID item) ((get_or hits no_hit (ri_ID item))\<lparr>bh_denseScore := x\<rparr>) hits)"

definition applyDenseRerank ::
    "string \<Rightarrow> (string \<times> Memory) list \<Rightarrow> (string \<times> bestHit) list \<Rightarrow> reranker option \<Rightarrow> int
      \<Rightarrow> (string \<times> bestHit) list" where
  "applyDenseRerank query memories bestHits reranker topN =
     (case reranker of
        None \<Rightarrow> bestHits
      | Some rerank \<Rightarrow>
          if memories = [] \<or> bestHits = [] then bestHits
          else
            let n = (if topN \<le> 0 then defaultDenseRerankTopN else topN);
                items = take (nat n) (sort_stable item_before (concat (map (dense_item memories) bestHits)))
            in if items = [] then bestHits
               else case rerank query items of
                 None \<Rightarrow> bestHits
               | Some reranked \<Rightarrow>
                   if reranked = [] then bestHits
                   else fold (set_dense (normalizeDenseRerankScores items reranked)) items bestHits)"

definition dense_before :: "string \<times> bestHit \<Rightarrow> string \<times> bestHit \<Rightarrow> bool" where
  "dense_before a b \<longleftrightarrow>
     (if bh_denseScore (snd a) = bh_denseScore (snd b) then fst a < fst b
      else bh_denseScore (snd a) > bh_denseScore (snd b))"

definition rankBestHitsByDenseScore :: "(string \<times> bestHit) list \<Rightarrow> (string \<times> nat) list" where
  "rankBestHitsByDenseScore bestHits =
     map (\<lambda>(i, hit). (fst hit, i + 1)) (enumerate 0 (sort_stable dense_before bestHits))"

section \<open>Scoring\<close>

definition temporalAnchorHours :: "gotime \<Rightarrow> Memory \<Rightarrow> float64" where
  "temporalAnchorHours now m =
     hours_of (now - (case m_ValidFrom m of Some t \<Rightarrow> t | None \<Rightarrow> m_LastAccessed m))"

record query_kind =
  qk_pref :: bool
  qk_temporal :: bool
  qk_ku :: bool
  qk_exact :: bool
  qk_anchors :: "string list"

definition classify :: "recall_env \<Rightarrow> RecallOpts \<Rightarrow> string \<Rightarrow> query_kind" where
  "classify v opts query =
     (let pref = isPreferenceQuery (rv_uni v) query in
      \<lparr>qk_pref = pref, qk_temporal = isTemporalQuery (rv_uni v) query,
       qk_ku = isKnowledgeUpdateQuery (rv_uni v) query,
       qk_exact = (ro_ExactFactBoost opts \<and> IsIdentifierQuery (rv_uni v) query),
       qk_anchors = (if ro_TopicAnchorBoost opts \<and> pref then extractTopicAnchorTokens (rv_uni v) query else [])\<rparr>)"

definition base_weights ::
    "recall_env \<Rightarrow> query_kind \<Rightarrow> string \<Rightarrow> WeightCache option \<Rightarrow> WeightCache option \<times> ScoreWeights" where
  "base_weights v k project cache =
     (let (cache', w) = (case cache of
            None \<Rightarrow> (None, rv_default v)
          | Some entries \<Rightarrow>
              (case WeightCache_Get (rv_default v) (rv_row v) (rv_now v) project entries of (en, w) \<Rightarrow> (Some en, w)))
      in (cache', if qk_temporal k then rv_temporal v else if qk_ku k then rv_ku v else w))"

definition score_input :: "recall_env \<Rightarrow> RecallOpts \<Rightarrow> query_kind \<Rightarrow> string \<Rightarrow> float64 \<Rightarrow> bestHit \<Rightarrow> Memory \<Rightarrow> ScoreInput" where
  "score_input v opts k query bm25 hit m =
     \<lparr>si_Cosine = bh_denseScore hit, si_BM25 = bm25, si_HoursSince = temporalAnchorHours (rv_now v) m,
      si_Importance = m_Importance m, si_DynamicImportance = m_DynamicImportance m,
      si_RetrievalPrecision = m_RetrievalPrecision m,
      si_EpisodeMatch = (ro_CurrentEpisodeID opts \<noteq> [] \<and> m_EpisodeID m = ro_CurrentEpisodeID opts),
      si_MemoryType = m_MemoryType m, si_IsPreferenceQuery = qk_pref k,
      si_TopicAnchorMatch = (qk_anchors k \<noteq> [] \<and> contentContainsTopicAnchor (rv_uni v) (m_Content m) (qk_anchors k)),
      si_ExactIdentifierMatch = (qk_exact k \<and> ExactIdentifierHit (rv_uni v) (m_Content m) query)\<rparr>"

definition raw_score ::
    "recall_env \<Rightarrow> RecallOpts \<Rightarrow> query_kind \<Rightarrow> ScoreWeights \<Rightarrow> Memory list \<Rightarrow> ScoreInput \<Rightarrow> bestHit \<Rightarrow> Memory \<Rightarrow> float64" where
  "raw_score v opts k w cands i hit m =
     (if ro_Fusion opts then CompositeScoreRRF (rv_decay v) i w (bh_rrfScore hit)
      else if qk_temporal k
      then CompositeScoreWithRankNorm (rv_decay v) i w (case m_ValidFrom m of Some t \<Rightarrow> t | None \<Rightarrow> 0) cands
      else CompositeScoreWithWeights (rv_decay v) i w)"

definition breakdown :: "recall_env \<Rightarrow> ScoreInput \<Rightarrow> bestHit \<Rightarrow> float64 \<Rightarrow> float64 \<Rightarrow> Memory \<Rightarrow> (string \<rightharpoonup> float64)" where
  "breakdown v i hit bm25 vwBoost m = map_of
     ((if si_ExactIdentifierMatch i then [(''exact_identifier_boost'', exactIdentifierBoost)] else [])
      @ (case m_RetrievalPrecision m of Some p \<Rightarrow> [(''retrieval_precision'', p)] | None \<Rightarrow> [])
      @ (case m_DynamicImportance m of
           Some d \<Rightarrow> [(''dynamic_importance'', d)]
         | None \<Rightarrow> [(''importance_boost'', ImportanceBoost (m_Importance m))])
      @ (if bh_denseScore hit \<noteq> bh_cosine hit then [(''cross_encoder_score'', bh_denseScore hit)] else [])
      @ [(''cosine'', bh_cosine hit), (''dense_score'', bh_denseScore hit), (''bm25'', bm25),
         (''recency'', rv_decay v (si_HoursSince i)),
         (''episode_boost'', if si_EpisodeMatch i then 115 / 100 else 1), (''valid_from_boost'', vwBoost)])"

definition zero_memory :: Memory where
  "zero_memory =
     \<lparr>m_ID = [], m_Content = [], m_RawBody = [], m_MemoryType = [], m_Project = [], m_Tags = [],
      m_Importance = 0, m_AccessCount = 0, m_LastAccessed = 0, m_CreatedAt = 0, m_UpdatedAt = 0,
      m_Immutable = False, m_ExpiresAt = None, m_Summary = None, m_ContentHash = None, m_StorageMode = [],
      m_ValidFrom = None, m_ValidTo = None, m_InvalidationReason = None, m_PatternConfidence = None,
      m_DynamicImportance = None, m_RetrievalIntervalHrs = 0, m_NextReviewAt = None, m_TimesRetrieved = 0,
      m_TimesUseful = 0, m_RetrievalPrecision = None, m_EpisodeID = [], m_DocumentID = []\<rparr>"

definition shown :: "string \<Rightarrow> Memory \<Rightarrow> Memory" where
  "shown detail m =
     (if detail = ''id_only'' then zero_memory\<lparr>m_ID := m_ID m\<rparr>
      else if detail = ''summary'' then m\<lparr>m_Content := summaryContentFallback m\<rparr>
      else m)"

definition score_memory ::
    "recall_env \<Rightarrow> RecallOpts \<Rightarrow> query_kind \<Rightarrow> ScoreWeights \<Rightarrow> string \<Rightarrow> string \<Rightarrow> candidates \<Rightarrow> string \<times> Memory \<Rightarrow> SearchResult" where
  "score_memory v opts k w query detail cs im =
     (let (i, m) = im;
          bm25 = (if cs_maxBM25 cs > 0 then get_or (cs_fts cs) 0 i / cs_maxBM25 cs else 0);
          hit = get_or (cs_hits cs) no_hit i;
          inp = score_input v opts k query bm25 hit m;
          score = raw_score v opts k w (map snd (cs_memories cs)) inp hit m;
          boost = ValidFromBoost (rv_validity v) (rv_now v) (m_ValidFrom m)
      in \<lparr>s_Memory = Some (shown detail m),
          s_Score = (if qk_temporal k then score else score * boost),
          s_ScoreBreakdown = breakdown v inp hit bm25 (if qk_temporal k then 1 else boost) m,
          s_MatchedChunk = bh_chunkText hit, s_ChunkScore = bh_cosine hit, s_MatchedChunkIndex = bh_chunkIndex hit,
          s_AtomPreamble = [], s_Connected = [], s_MatchedChunkSection = bh_sectionHeading hit\<rparr>)"

definition surfaced :: "query_kind \<Rightarrow> Memory \<Rightarrow> bool" where
  "surfaced k m \<longleftrightarrow> qk_pref k \<or> ''extracted-preference'' \<notin> set (m_Tags m)"

text \<open>The map of memories in its iteration order.\<close>

definition in_order :: "(string list \<Rightarrow> string list) \<Rightarrow> (string \<times> 'a) list \<Rightarrow> (string \<times> 'a) list" where
  "in_order ord m = map (\<lambda>i. (i, the (map_of m i))) (ord (map fst m))"

definition score_all ::
    "recall_env \<Rightarrow> RecallOpts \<Rightarrow> query_kind \<Rightarrow> ScoreWeights \<Rightarrow> string \<Rightarrow> string \<Rightarrow> candidates \<Rightarrow> SearchResult list" where
  "score_all v opts k w query detail cs =
     map (score_memory v opts k w query detail cs)
       (filter (\<lambda>im. surfaced k (snd im)) (in_order (rv_ids v) (cs_memories cs)))"

section \<open>Post-processing\<close>

definition arrange ::
    "recall_env \<Rightarrow> RecallOpts \<Rightarrow> query_kind \<Rightarrow> string \<Rightarrow> int \<Rightarrow> (string \<times> float64 list) list \<Rightarrow> SearchResult list \<Rightarrow> SearchResult list" where
  "arrange v opts k query topK cosines results =
     (let sorted_rs = sortResults (rv_tie v) results;
          packed = sessionNDCGRerank (rv_lg v) sorted_rs cosines (ro_SessionNDCGAgg opts \<and> \<not> qk_pref k);
          divN = (if ro_SessionDiversityN opts = 0 then SessionDiversityNFromEnv (rv_getenv v) else ro_SessionDiversityN opts);
          diverse = applySessionDiversity packed topK divN;
          preferred = (if qk_pref k then preference_first topK diverse else diverse);
          reranked = maybeRerank (rv_tie v) query topK preferred (ro_Reranker opts)
      in if int (length reranked) > topK then take (nat topK) reranked else reranked)"

definition neighbor_of :: "string \<Rightarrow> Relationship \<Rightarrow> string" where
  "neighbor_of memID r = (if r_TargetID r = memID then r_SourceID r else r_TargetID r)"

definition toConnectedMemories ::
    "Relationship list \<Rightarrow> string \<Rightarrow> (string \<rightharpoonup> Memory) \<Rightarrow> ConnectedMemory list" where
  "toConnectedMemories rels memID neighborMap =
     map (\<lambda>r. \<lparr>k_Memory = neighborMap (neighbor_of memID r), k_RelType = r_RelType r,
                k_Direction = (if r_TargetID r = memID then ''incoming'' else ''outgoing''),
                k_Strength = r_Strength r\<rparr>) rels"

definition attach_connected ::
    "recall_env \<Rightarrow> string \<Rightarrow> database \<Rightarrow> SearchResult list \<Rightarrow> SearchResult list" where
  "attach_connected v project db results =
     (let ids = map res_id results;
          rels = (if e_fault (rv_call v) ''relationships'' then Map.empty else GetRelationshipsBatch project ids db);
          rels_of = (\<lambda>r. case rels (res_id r) of Some rs \<Rightarrow> rs | None \<Rightarrow> []);
          neighborIDs = keep_first (\<lambda>x. x) [] (concat (map (\<lambda>r. map (neighbor_of (res_id r)) (rels_of r)) results));
          neighbors = (if neighborIDs = [] \<or> e_fault (rv_call v) ''neighbors'' then []
                       else GetMemoriesByIDs project neighborIDs db);
          neighborMap = map_of (rev (map (\<lambda>m. (m_ID m, m)) neighbors))
      in map (\<lambda>r. r\<lparr>s_Connected := toConnectedMemories (rels_of r) (res_id r) neighborMap\<rparr>) results)"

definition touch_results ::
    "recall_env \<Rightarrow> (string \<times> bestHit) list \<Rightarrow> SearchResult list \<Rightarrow> database \<Rightarrow> database" where
  "touch_results v bestHits results db =
     fold (\<lambda>r db. case map_of bestHits (res_id r) of
             Some hit \<Rightarrow> if bh_chunkID hit \<noteq> [] then fst (UpdateChunkLastMatched (rv_call v) (bh_chunkID hit) db) else db
           | None \<Rightarrow> db)
       results (fst (TouchMemories (rv_call v) (map res_id results) db))"

section \<open>One pass\<close>

text \<open>The degradation a caller is told about: none, a deadline that passed, or another failure.\<close>

definition embed_query :: "recall_env \<Rightarrow> string \<Rightarrow> float32 list option \<times> string" where
  "embed_query v query =
     (case rv_embed v query of
        Inl timedOut \<Rightarrow> (None, if timedOut then ''embed_timeout'' else ''embed_error'')
      | Inr vec \<Rightarrow> (vec, []))"

definition vector_leg ::
    "recall_env \<Rightarrow> RecallOpts \<Rightarrow> int \<Rightarrow> string \<Rightarrow> database \<Rightarrow> string \<Rightarrow> float32 list option \<Rightarrow> db_error + VectorHit list" where
  "vector_leg v opts topK project db query vec =
     (case vec of
        None \<Rightarrow> Inr []
      | Some q \<Rightarrow>
          if e_fault (rv_call v) (''vector search '' @ query) then Inl DbFailed
          else Inr (rv_vec v project q (topK * 3) (ro_DateSince opts) (ro_DateBefore opts) db))"

definition fetch_memories :: "recall_env \<Rightarrow> string \<Rightarrow> database \<Rightarrow> string list \<Rightarrow> db_error + Memory list" where
  "fetch_memories v project db ids =
     (if ids = [] then Inr []
      else if e_fault (rv_call v) ''select by ids'' then Inl DbFailed
      else Inr (GetMemoriesByIDs project ids db))"

definition rank_candidates ::
    "recall_env \<Rightarrow> RecallOpts \<Rightarrow> string \<Rightarrow> VectorHit list \<Rightarrow> FTSResult list \<Rightarrow> candidates \<Rightarrow> candidates" where
  "rank_candidates v opts query vecHits ftsResults cs =
     (let hits = applyDenseRerank query (cs_memories cs) (cs_hits cs) (ro_DenseReranker opts) (ro_DenseRerankTopN opts);
          vecRanks = (if ro_DenseReranker opts \<noteq> None then rankBestHitsByDenseScore hits else rankVectorHits vecHits)
      in cs\<lparr>cs_hits := applyFusion (ro_Fusion opts) (map fst (cs_memories cs)) hits vecRanks (rankFTSResults ftsResults)\<rparr>)"

definition finish_pass ::
    "recall_env \<Rightarrow> RecallOpts \<Rightarrow> string \<Rightarrow> int \<Rightarrow> string \<Rightarrow> string \<Rightarrow> WeightCache option \<Rightarrow> database
      \<Rightarrow> VectorHit list \<Rightarrow> FTSResult list \<Rightarrow> candidates \<Rightarrow> WeightCache option \<times> database \<times> SearchResult list" where
  "finish_pass v opts query topK detail project cache db vecHits ftsResults cs =
     (let k = classify v opts query;
          cs' = rank_candidates v opts query vecHits ftsResults cs;
          (cache', w) = base_weights v k project cache;
          cosines = (if ro_SessionNDCGAgg opts then fold add_cosine vecHits [] else []);
          results = arrange v opts k query topK cosines (score_all v opts k w query detail cs');
          connected = (if ro_Mode opts = ''handle'' then results else attach_connected v project db results)
      in (cache', touch_results v (cs_hits cs') connected db, connected))"

definition single_pass ::
    "recall_env \<Rightarrow> string \<Rightarrow> int \<Rightarrow> string \<Rightarrow> RecallOpts \<Rightarrow> SearchEngine \<Rightarrow> WeightCache option \<Rightarrow> database
      \<Rightarrow> (SearchEngine \<times> WeightCache option \<times> database) \<times> (engine_error + SearchResult list)" where
  "single_pass v query topK detail opts e cache db =
     (case checkEmbedderMeta (rv_call v) e db of
        ((e1, db1), Inl x) \<Rightarrow> ((e1, cache, db1), Inl x)
      | ((e1, db1), Inr _) \<Rightarrow>
          (case vector_leg v opts topK (se_project e) db1 query (fst (embed_query v query)) of
             Inl x \<Rightarrow> ((e1, cache, db1), Inl (Backend x))
           | Inr vecHits \<Rightarrow>
               (case fetch_memories v (se_project e) db1 (keep_first (\<lambda>x. x) [] (map vh_MemoryID vecHits)) of
                  Inl x \<Rightarrow> ((e1, cache, db1), Inl (Backend x))
                | Inr batchMems \<Rightarrow>
                    (case fts_results v opts topK (se_project e) db1 query of
                       Inl x \<Rightarrow> ((e1, cache, db1), Inl (Backend x))
                     | Inr ftsResults \<Rightarrow>
                         (case finish_pass v opts query topK detail (se_project e) cache db1 vecHits ftsResults
                             (paraphrase_union v opts topK (se_project e) db1 query (collect_candidates vecHits batchMems ftsResults)) of
                            (cache', db2, results) \<Rightarrow> ((e1, cache', db2), Inr results))))))"

section \<open>Recall\<close>

definition recallTwoPassTemporal ::
    "recall_env \<times> recall_env \<Rightarrow> string \<Rightarrow> int \<Rightarrow> string \<Rightarrow> RecallOpts \<Rightarrow> gotime \<Rightarrow> gotime
      \<Rightarrow> SearchEngine \<Rightarrow> WeightCache option \<Rightarrow> database
      \<Rightarrow> (SearchEngine \<times> WeightCache option \<times> database) \<times> (engine_error + SearchResult list)" where
  "recallTwoPassTemporal vs query topK detail opts since before e cache db =
     (let v1 = fst vs; v2 = snd vs;
          opts1 = opts\<lparr>ro_TemporalWindowRecall := False, ro_QuestionText := [], ro_QuestionDate := [],
             ro_DateSince := None, ro_DateBefore := None, ro_Reranker := None\<rparr>;
          opts2 = opts1\<lparr>ro_DateSince := Some since, ro_DateBefore := Some before\<rparr>
      in case single_pass v1 query topK detail opts1 e cache db of
           (s1, Inl x) \<Rightarrow> (s1, Inl x)
         | ((e1, cache1, db1), Inr pass1) \<Rightarrow>
             (case single_pass v2 query topK detail opts2 e1 cache1 db1 of
                (s2, Inl _) \<Rightarrow> (s2, Inr (maybeRerank (rv_tie v1) query topK pass1 (ro_Reranker opts)))
              | (s2, Inr pass2) \<Rightarrow>
                  (s2, Inr (maybeRerank (rv_tie v1) query topK (mergeSearchResults pass1 pass2 topK) (ro_Reranker opts)))))"

definition RecallWithOpts ::
    "recall_env \<times> recall_env \<Rightarrow> string \<Rightarrow> int \<Rightarrow> string \<Rightarrow> RecallOpts \<Rightarrow> SearchEngine \<Rightarrow> WeightCache option \<Rightarrow> database
      \<Rightarrow> (SearchEngine \<times> WeightCache option \<times> database) \<times> (engine_error + SearchResult list)" where
  "RecallWithOpts vs query topK0 detail opts e cache db =
     (let topK = (if topK0 \<le> 0 then 10 else topK0);
          anchorText = (if ro_QuestionText opts = [] then query else ro_QuestionText opts)
      in case (if ro_TemporalWindowRecall opts
               then ParseTemporalWindow (rv_uni (fst vs)) anchorText (ro_QuestionDate opts) else None) of
           Some (since, before) \<Rightarrow> recallTwoPassTemporal vs query topK detail opts since before e cache db
         | None \<Rightarrow> single_pass (fst vs) query topK detail opts e cache db)"

text \<open>
  What the pointers \<^verbatim>\<open>EmbedDegraded\<close> and \<^verbatim>\<open>EmbedDegradedReason\<close> of a caller are set to: nothing when
  the check of the embedder refuses the recall. Only the first pass of a two-pass recall writes them,
  the second one runs without them.
\<close>

definition recall_signal ::
    "recall_env \<times> recall_env \<Rightarrow> string \<Rightarrow> SearchEngine \<Rightarrow> database \<Rightarrow> (bool \<times> string) option" where
  "recall_signal vs query e db =
     (case snd (checkEmbedderMeta (rv_call (fst vs)) e db) of
        Inl _ \<Rightarrow> None
      | Inr _ \<Rightarrow>
          (let reason = snd (embed_query (fst vs) query);
               degraded = (case rv_embed (fst vs) query of Inl _ \<Rightarrow> True | Inr _ \<Rightarrow> False)
           in Some (degraded, reason)))"

text \<open>Recording the event: the identifier of the event, empty when it could not be stored.\<close>

definition recall_event :: "call_env \<Rightarrow> string \<Rightarrow> string \<Rightarrow> SearchResult list \<Rightarrow> RetrievalEvent" where
  "recall_event env project query results =
     \<lparr>ev_ID = e_newid env, ev_Project = project, ev_Query = query, ev_ResultIDs = map res_id results,
      ev_FeedbackIDs = [], ev_CreatedAt = e_now env, ev_FeedbackAt = None, ev_FailureClass = []\<rparr>"

definition RecallWithEventAndOpts ::
    "recall_env \<times> recall_env \<Rightarrow> string \<Rightarrow> int \<Rightarrow> string \<Rightarrow> RecallOpts \<Rightarrow> SearchEngine \<Rightarrow> WeightCache option \<Rightarrow> database
      \<Rightarrow> (SearchEngine \<times> WeightCache option \<times> database) \<times> (engine_error + SearchResult list \<times> string)" where
  "RecallWithEventAndOpts vs query topK detail opts e cache db =
     (case RecallWithOpts vs query topK detail opts e cache db of
        (s, Inl x) \<Rightarrow> (s, Inl x)
      | ((e1, cache1, db1), Inr results) \<Rightarrow>
          let env = rv_call (fst vs); ev = recall_event env (se_project e) query results in
          (case StoreRetrievalEvent env ev db1 of
             (db2, Inl _) \<Rightarrow> ((e1, cache1, db2), Inr (results, []))
           | (db2, Inr _) \<Rightarrow>
               let db3 = (if results = [] then db2 else fst (IncrementTimesRetrieved env (map res_id results) db2))
               in ((e1, cache1, db3), Inr (results, ev_ID ev))))"

end
