(* ===== verification/Recall_Laws.thy ===== *)
theory Recall_Laws
  imports Recall
begin

text \<open>
  What a recall returns and what it changes.
\<close>

section \<open>Lists drawn from others\<close>

text \<open>Every result list of a recall has its memories from the scored candidates, none more often.\<close>

definition draws :: "SearchResult list \<Rightarrow> SearchResult list \<Rightarrow> bool" where
  "draws xs ys \<longleftrightarrow> mset (map res_id xs) \<subseteq># mset (map res_id ys)"

lemma draws_refl: "draws xs xs"
  by (simp add: draws_def)

lemma draws_trans [trans]: "draws xs ys \<Longrightarrow> draws ys zs \<Longrightarrow> draws xs zs"
  unfolding draws_def by (rule subset_mset.order_trans)

lemma draws_mset: "mset xs \<subseteq># mset ys \<Longrightarrow> draws xs ys"
  unfolding draws_def mset_map by (rule image_mset_subseteq_mono)

lemma draws_ids: "map res_id xs = map res_id ys \<Longrightarrow> draws xs ys"
  by (simp add: draws_def)

lemma draws_distinct:
  assumes "draws xs ys" "distinct (map res_id ys)"
  shows "distinct (map res_id xs)"
proof -
  obtain M where "mset (map res_id ys) = mset (map res_id xs) + M"
    using assms(1) unfolding draws_def by (metis subset_mset.add_diff_inverse)
  then obtain zs where "mset (map res_id ys) = mset (map res_id xs @ zs)" by (metis ex_mset mset_append)
  then show ?thesis using assms(2) by (metis distinct_append mset_eq_imp_distinct_iff)
qed

lemma draws_set: "draws xs ys \<Longrightarrow> res_id ` set xs \<subseteq> res_id ` set ys"
  unfolding draws_def by (metis list.set_map set_mset_mono set_mset_mset)

lemma rescore_id [simp]: "res_id (rescore f r) = res_id r"
  by (simp add: rescore_def res_id_def split: option.split)

lemma maybeRerank_draws: "tie_ok tie \<Longrightarrow> draws (maybeRerank tie query topK rs reranker) rs"
  by (auto simp: maybeRerank_def draws_def sortResults_props(1) multiset.map_comp comp_def split: option.split)

lemma maybeRerank_length [simp]: "tie_ok tie \<Longrightarrow> length (maybeRerank tie query topK rs reranker) = length rs"
  using sortResults_props(1) [of tie]
  by (auto simp: maybeRerank_def split: option.split) (metis length_map size_mset)

section \<open>Arranging the results\<close>

definition env_ok :: "recall_env \<Rightarrow> bool" where
  "env_ok v \<longleftrightarrow> tie_ok (rv_tie v) \<and> tie_ok (rv_fts_tie v) \<and> tie_ok (rv_ids v)"

lemma arrange_props:
  assumes "env_ok v" "1 \<le> topK" "distinct (map res_id rs)"
  shows "draws (arrange v opts k query topK cosines rs) rs"
    and "int (length (arrange v opts k query topK cosines rs)) \<le> topK"
proof -
  have tie: "tie_ok (rv_tie v)" using assms(1) by (simp add: env_ok_def)
  define a where "a = sortResults (rv_tie v) rs"
  define b where "b = sessionNDCGRerank (rv_lg v) a cosines (ro_SessionNDCGAgg opts \<and> \<not> qk_pref k)"
  define c where "c = applySessionDiversity b topK
    (if ro_SessionDiversityN opts = 0 then SessionDiversityNFromEnv (rv_getenv v) else ro_SessionDiversityN opts)"
  define d where "d = (if qk_pref k then preference_first topK c else c)"
  define e where "e = maybeRerank (rv_tie v) query topK d (ro_Reranker opts)"
  have ar: "arrange v opts k query topK cosines rs = (if int (length e) > topK then take (nat topK) e else e)"
    by (simp add: arrange_def Let_def a_def b_def c_def d_def e_def)
  have "draws b rs" using tie by (intro draws_mset) (simp add: b_def a_def sortResults_props)
  moreover have "draws c b" unfolding c_def by (intro draws_mset diversity_subset) (use assms(2) in simp)
  ultimately have c: "draws c rs" by (metis draws_trans)
  have "draws d c"
    using preference_first_subset [OF draws_distinct [OF c assms(3)] assms(2)]
    by (auto simp: d_def draws_refl intro: draws_mset)
  moreover have "draws e d" unfolding e_def by (rule maybeRerank_draws [OF tie])
  ultimately have "draws e rs" using c by (metis draws_trans)
  moreover have "draws (take n e) e" for n by (intro draws_mset mset_take_subseteq)
  ultimately show "draws (arrange v opts k query topK cosines rs) rs"
    unfolding ar using draws_trans by (metis (full_types))
  show "int (length (arrange v opts k query topK cosines rs)) \<le> topK"
    unfolding ar using assms(2) by simp
qed

lemma attach_connected_ids [simp]: "map res_id (attach_connected v project db rs) = map res_id rs"
  by (simp add: attach_connected_def Let_def comp_def res_id_def)

section \<open>The candidates are live memories\<close>

definition cand_ok :: "(Memory \<Rightarrow> bool) \<Rightarrow> candidates \<Rightarrow> bool" where
  "cand_ok P cs \<longleftrightarrow> distinct (map fst (cs_memories cs)) \<and> (\<forall>q\<in>set (cs_memories cs). m_ID (snd q) = fst q \<and> P (snd q))"

definition fts_ok :: "(Memory \<Rightarrow> bool) \<Rightarrow> FTSResult list \<Rightarrow> bool" where
  "fts_ok P rs \<longleftrightarrow> (\<forall>r\<in>set rs. \<forall>m. ft_Memory r = Some m \<longrightarrow> P m)"

lemma put_memory_ok:
  assumes "cand_ok P cs" "P m"
  shows "cand_ok P (cs\<lparr>cs_memories := put_memory m (cs_memories cs)\<rparr>)"
  using assms set_AList_update [of "m_ID m" m "cs_memories cs"]
  by (auto simp: cand_ok_def put_memory_def distinct_update)

lemma put_memories_ok:
  "cand_ok P cs \<Longrightarrow> (\<forall>m\<in>set ms. P m) \<Longrightarrow> cand_ok P (cs\<lparr>cs_memories := fold put_memory ms (cs_memories cs)\<rparr>)"
proof (induction ms arbitrary: cs)
  case (Cons m ms)
  then show ?case using Cons.IH [OF put_memory_ok [of P cs m]] by simp
qed simp

lemma merge_fts_ok: "cand_ok P cs \<Longrightarrow> \<forall>m. ft_Memory r = Some m \<longrightarrow> P m \<Longrightarrow> cand_ok P (merge_fts r cs)"
  using put_memory_ok [of P cs] by (auto simp: merge_fts_def cand_ok_def split: option.split)

lemma fold_merge_fts_ok: "cand_ok P cs \<Longrightarrow> fts_ok P rs \<Longrightarrow> cand_ok P (fold merge_fts rs cs)"
  by (induction rs arbitrary: cs) (auto simp: fts_ok_def merge_fts_ok)

lemma merge_fts_better_ok: "cand_ok P cs \<Longrightarrow> \<forall>m. ft_Memory r = Some m \<longrightarrow> P m \<Longrightarrow> cand_ok P (merge_fts_better r cs)"
  using put_memory_ok [of P cs] by (auto simp: merge_fts_better_def Let_def cand_ok_def split: option.split)

lemma fold_merge_fts_better_ok: "cand_ok P cs \<Longrightarrow> fts_ok P rs \<Longrightarrow> cand_ok P (fold merge_fts_better rs cs)"
  by (induction rs arbitrary: cs) (auto simp: fts_ok_def merge_fts_better_ok)

lemma collect_candidates_ok:
  assumes "\<forall>m\<in>set ms. P m" "fts_ok P rs"
  shows "cand_ok P (collect_candidates hits ms rs)"
proof -
  have "cand_ok P \<lparr>cs_hits = h, cs_ids = i, cs_memories = [], cs_fts = [], cs_maxBM25 = 0\<rparr>" for h i
    by (simp add: cand_ok_def)
  from put_memories_ok [OF this assms(1)] show ?thesis
    unfolding collect_candidates_def by (intro fold_merge_fts_ok [OF _ assms(2)]) simp
qed

text \<open>The rows a search may return.\<close>

definition live :: "string \<Rightarrow> database \<Rightarrow> gotime option \<Rightarrow> gotime option \<Rightarrow> Memory \<Rightarrow> bool" where
  "live project db since before m \<longleftrightarrow>
     m \<in> set (db_memories db) \<and> m_Project m = project \<and> m_ValidTo m = None \<and> in_window since before (m_ValidFrom m)"

lemma FTSSearch_ok: "tie_ok tie \<Longrightarrow> fts_ok (live project db since before) (FTSSearch tie rank project q n since before db)"
  by (auto simp: fts_ok_def FTSSearch_def Let_def live_def dest!: in_set_takeD)

lemma GetMemoriesByIDs_live: "m \<in> set (GetMemoriesByIDs project ids db) \<Longrightarrow> live project db None None m"
  by (auto simp: GetMemoriesByIDs_def live_def in_window_def)

lemma live_weaken: "live project db since before m \<Longrightarrow> live project db None None m"
  by (simp add: live_def in_window_def)

lemma cand_ok_mono: "cand_ok P cs \<Longrightarrow> (\<And>m. P m \<Longrightarrow> Q m) \<Longrightarrow> cand_ok Q cs"
  by (auto simp: cand_ok_def)

text \<open>
  Candidates stay rows that satisfy \<open>P\<close>, when the text search and the lookup of the hits only give such rows.
\<close>

lemma paraphrase_pass_ok:
  assumes "cand_ok P cs" "\<And>q rs. fts_results v opts topK project db q = Inr rs \<Longrightarrow> fts_ok P rs"
  shows "cand_ok P (paraphrase_pass v opts topK project db pq cs)"
proof -
  define cs1 where "cs1 = cs\<lparr>cs_hits := fold add_hit (paraphrase_hits v opts topK project db pq) (cs_hits cs),
    cs_ids := unionCandidates (cs_ids cs) (map vh_MemoryID (paraphrase_hits v opts topK project db pq))\<rparr>"
  have "cand_ok P cs1" using assms(1) by (simp add: cs1_def cand_ok_def)
  then show ?thesis
    using assms(2) [of pq] fold_merge_fts_better_ok [of P cs1]
    by (auto simp: paraphrase_pass_def Let_def cs1_def [symmetric] split: sum.split)
qed

lemma paraphrase_passes_ok:
  "cand_ok P cs \<Longrightarrow> (\<And>q rs. fts_results v opts topK project db q = Inr rs \<Longrightarrow> fts_ok P rs)
     \<Longrightarrow> cand_ok P (fold (paraphrase_pass v opts topK project db) pqs cs)"
  by (induction pqs arbitrary: cs) (simp_all add: paraphrase_pass_ok)

definition hit_ids :: "recall_env \<Rightarrow> RecallOpts \<Rightarrow> int \<Rightarrow> string \<Rightarrow> database \<Rightarrow> string set" where
  "hit_ids v opts topK project db =
     {i. \<exists>q. i \<in> vh_MemoryID ` set (rv_vec v project q (topK * 3) (ro_DateSince opts) (ro_DateBefore opts) db)}"

lemma paraphrase_hits_ids: "vh_MemoryID ` set (paraphrase_hits v opts topK project db pq) \<subseteq> hit_ids v opts topK project db"
  by (auto simp: paraphrase_hits_def hit_ids_def split: sum.split option.split)

lemma set_unionCandidates: "set (unionCandidates a b) = set a \<union> set b"
  using keys_keep_first [of "\<lambda>x. x" "rev a" b] by (auto simp: unionCandidates_def)

lemma cs_ids_merge [simp]:
  "cs_ids (merge_fts r cs) = cs_ids cs" "cs_ids (merge_fts_better r cs) = cs_ids cs"
  by (auto simp: merge_fts_def merge_fts_better_def Let_def split: option.split)

lemma cs_ids_fold_merge [simp]:
  "cs_ids (fold merge_fts rs cs) = cs_ids cs" "cs_ids (fold merge_fts_better rs cs) = cs_ids cs"
  by (induction rs arbitrary: cs) simp_all

lemma paraphrase_passes_ids:
  "set (cs_ids cs) \<subseteq> hit_ids v opts topK project db
     \<Longrightarrow> set (cs_ids (fold (paraphrase_pass v opts topK project db) pqs cs)) \<subseteq> hit_ids v opts topK project db"
proof (induction pqs arbitrary: cs)
  case (Cons pq pqs)
  have "set (cs_ids (paraphrase_pass v opts topK project db pq cs)) \<subseteq> hit_ids v opts topK project db"
    using Cons.prems paraphrase_hits_ids [of v opts topK project db pq]
    by (auto simp: paraphrase_pass_def Let_def set_unionCandidates split: sum.split)
  then show ?case using Cons.IH by simp
qed simp

lemma paraphrase_union_ok:
  assumes "cand_ok P cs" "\<And>q rs. fts_results v opts topK project db q = Inr rs \<Longrightarrow> fts_ok P rs"
    and "set (cs_ids cs) \<subseteq> hit_ids v opts topK project db"
    and "\<And>ids m. set ids \<subseteq> hit_ids v opts topK project db \<Longrightarrow> m \<in> set (GetMemoriesByIDs project ids db) \<Longrightarrow> P m"
  shows "cand_ok P (paraphrase_union v opts topK project db query cs)"
proof -
  define cs1 where "cs1 = fold (paraphrase_pass v opts topK project db) (Paraphrase (rv_uni v) query 3) cs"
  have ok: "cand_ok P cs1" unfolding cs1_def using assms(1,2) by (rule paraphrase_passes_ok)
  have ids: "set (cs_ids cs1) \<subseteq> hit_ids v opts topK project db"
    unfolding cs1_def using assms(3) by (rule paraphrase_passes_ids)
  define newIDs where "newIDs = filter (\<lambda>i. i \<notin> fst ` set (cs_memories cs1)) (cs_ids cs1)"
  have "set newIDs \<subseteq> hit_ids v opts topK project db" using ids by (auto simp: newIDs_def)
  then have "\<forall>m\<in>set (GetMemoriesByIDs project newIDs db). P m" using assms(4) by blast
  from put_memories_ok [OF ok this] show ?thesis
    using ok assms(1) by (simp add: paraphrase_union_def Let_def cs1_def [symmetric] newIDs_def [symmetric])
qed

section \<open>Scored candidates\<close>

lemma in_order_props:
  assumes "tie_ok ord" "distinct (map fst m)"
  shows "set (in_order ord m) = set m" "map fst (in_order ord m) = ord (map fst m)" "distinct (ord (map fst m))"
proof -
  show d: "distinct (ord (map fst m))" using tie_distinct [OF assms(1), of id] assms(2) by simp
  show "map fst (in_order ord m) = ord (map fst m)" by (simp add: in_order_def comp_def)
  have "set (in_order ord m) = (\<lambda>i. (i, the (map_of m i))) ` fst ` set m"
    using assms(1) by (simp add: in_order_def)
  also have "\<dots> = set m" using assms(2) by (force simp: image_iff)
  finally show "set (in_order ord m) = set m" .
qed

lemma shown_id [simp]: "m_ID (shown detail m) = m_ID m"
  by (simp add: shown_def)

lemma score_memory_id [simp]: "res_id (score_memory v opts k w query detail cs im) = m_ID (snd im)"
  by (simp add: score_memory_def res_id_def Let_def split: prod.split)

lemma score_all_props:
  assumes "env_ok v" "cand_ok P cs"
  shows "distinct (map res_id (score_all v opts k w query detail cs))"
    and "i \<in> res_id ` set (score_all v opts k w query detail cs) \<Longrightarrow> \<exists>m. P m \<and> m_ID m = i"
proof -
  let ?o = "in_order (rv_ids v) (cs_memories cs)"
  have d: "distinct (map fst (cs_memories cs))" and t: "tie_ok (rv_ids v)"
    using assms by (auto simp: cand_ok_def env_ok_def)
  note o = in_order_props [OF t d]
  have ids: "map (\<lambda>im. m_ID (snd im)) (filter P' ?o) = map fst (filter P' ?o)" for P'
    using assms(2) o(1) by (auto simp: cand_ok_def)
  have "distinct (map fst (filter P' ?o))" for P' using o(2,3) by (simp add: distinct_map_filter)
  then show "distinct (map res_id (score_all v opts k w query detail cs))"
    by (simp add: score_all_def comp_def ids)
  show "\<exists>m. P m \<and> m_ID m = i" if "i \<in> res_id ` set (score_all v opts k w query detail cs)"
    using that assms(2) o(1) by (force simp: score_all_def cand_ok_def)
qed

section \<open>What a recall changes\<close>

definition access_erased :: "Memory \<Rightarrow> Memory" where
  "access_erased m = m\<lparr>m_AccessCount := 0, m_LastAccessed := 0\<rparr>"

definition match_erased :: "Chunk \<Rightarrow> Chunk" where
  "match_erased c = c\<lparr>c_LastMatched := None\<rparr>"

text \<open>The tables other than the metadata agree up to access statistics.\<close>

definition quiet :: "database \<Rightarrow> database \<Rightarrow> bool" where
  "quiet db db' \<longleftrightarrow>
     map access_erased (db_memories db') = map access_erased (db_memories db)
     \<and> map match_erased (db_chunks db') = map match_erased (db_chunks db)
     \<and> db_versions db' = db_versions db \<and> db_relationships db' = db_relationships db
     \<and> db_documents db' = db_documents db \<and> db_events db' = db_events db \<and> db_leases db' = db_leases db"

lemma quiet_refl: "quiet db db"
  by (simp add: quiet_def)

lemma quiet_trans: "quiet a b \<Longrightarrow> quiet b c \<Longrightarrow> quiet a c"
  by (simp add: quiet_def)

lemma quiet_meta: "db' = db\<lparr>db_meta := x\<rparr> \<Longrightarrow> quiet db db'"
  by (simp add: quiet_def)

lemma quiet_TouchMemories: "quiet db (fst (TouchMemories env ids db))"
  by (simp add: quiet_def TouchMemories_def exec_def update_rows_def touched_def access_erased_def)

lemma quiet_UpdateChunkLastMatched: "quiet db (fst (UpdateChunkLastMatched env i db))"
  by (simp add: quiet_def UpdateChunkLastMatched_def exec_def update_chunks_def match_erased_def)

lemma quiet_touch_results: "quiet db (touch_results v hits rs db)"
proof -
  have "quiet a (fold (\<lambda>r db. case map_of hits (res_id r) of
             Some hit \<Rightarrow> if bh_chunkID hit \<noteq> [] then fst (UpdateChunkLastMatched (rv_call v) (bh_chunkID hit) db) else db
           | None \<Rightarrow> db) rs a)" for a
  proof (induction rs arbitrary: a)
    case (Cons r rs)
    show ?case unfolding fold_simps
      by (rule quiet_trans [OF _ Cons.IH])
        (simp add: quiet_refl quiet_UpdateChunkLastMatched split: option.split)
  qed (simp add: quiet_refl)
  then show ?thesis unfolding touch_results_def by (rule quiet_trans [OF quiet_TouchMemories])
qed

text \<open>
  Of the metadata at most the registration of the project's embedder is new: once a name is
  registered, nothing is written.
\<close>

definition meta_kept :: "string \<Rightarrow> database \<Rightarrow> database \<Rightarrow> bool" where
  "meta_kept project db db' \<longleftrightarrow>
     (GetMeta project ''embedder_name'' db \<noteq> None \<longrightarrow> db_meta db' = db_meta db)
     \<and> (\<forall>p k. (p, k) \<notin> {(project, ''embedder_name''), (project, ''embedder_dimensions'')}
          \<longrightarrow> GetMeta p k db' = GetMeta p k db)"

lemma meta_kept_refl: "db_meta db' = db_meta db \<Longrightarrow> meta_kept project db db'"
  by (simp add: meta_kept_def GetMeta_def)

lemma meta_kept_trans: "meta_kept project a b \<Longrightarrow> meta_kept project b c \<Longrightarrow> meta_kept project a c"
  by (simp add: meta_kept_def GetMeta_def)

lemma GetMeta_SetMeta_other:
  assumes "(p, k) \<noteq> (p', k')"
  shows "GetMeta p k (fst (SetMeta env p' k' x db)) = GetMeta p k db"
proof (cases "e_fault env (''set meta '' @ k')")
  case False
  then have "SetMeta env p' k' x db = (fst (SetMeta env p' k' x db), Inr ())" by (simp add: SetMeta_def exec_def)
  from GetMeta_SetMeta [OF this] assms show ?thesis by auto
qed (simp add: SetMeta_def exec_def)

lemma meta_kept_register:
  assumes "GetMeta (se_project e) ''embedder_name'' db = None" "register_embedder env e db = ((e', db'), r)"
  shows "meta_kept (se_project e) db db'"
proof -
  have "\<exists>x y. db' \<in> {db, fst (SetMeta env (se_project e) ''embedder_name'' x db),
      fst (SetMeta env (se_project e) ''embedder_dimensions'' y (fst (SetMeta env (se_project e) ''embedder_name'' x db)))}"
    (is "\<exists>x y. ?P x y")
  proof (intro exI)
    show "?P (canonicalEmbedderName (fst (se_embedder e))) (show_int (snd (se_embedder e)))"
      using assms(2) by (auto simp: register_embedder_def Let_def split: prod.splits sum.splits)
  qed
  then show ?thesis using assms(1) by (auto simp: meta_kept_def GetMeta_SetMeta_other)
qed

lemma erased_live:
  "access_erased m = access_erased m'
     \<Longrightarrow> m_ID m = m_ID m' \<and> m_Project m = m_Project m' \<and> m_ValidTo m = m_ValidTo m' \<and> m_ValidFrom m = m_ValidFrom m'"
  by (cases m; cases m'; simp add: access_erased_def)

lemma quiet_live:
  assumes "quiet db db'" "live project db' since before m"
  shows "\<exists>m'. live project db since before m' \<and> m_ID m' = m_ID m"
proof -
  have "access_erased m \<in> set (map access_erased (db_memories db'))" using assms(2) by (simp add: live_def)
  then obtain m' where "m' \<in> set (db_memories db)" "access_erased m = access_erased m'"
    using assms(1) unfolding quiet_def by (metis (mono_tags, lifting) image_iff list.set_map)
  with erased_live [OF this(2)] assms(2) show ?thesis by (auto simp: live_def)
qed

section \<open>One pass\<close>

lemma finish_pass_props:
  assumes "env_ok v" "1 \<le> topK" "cand_ok P cs"
    and "finish_pass v opts query topK detail project cache db vecHits ftsResults cs = (cache', db', results)"
  shows "distinct (map res_id results)" "int (length results) \<le> topK" "quiet db db'"
    and "i \<in> res_id ` set results \<Longrightarrow> \<exists>m. P m \<and> m_ID m = i"
proof -
  define k where "k = classify v opts query"
  define cs' where "cs' = rank_candidates v opts query vecHits ftsResults cs"
  have ok: "cand_ok P cs'" using assms(3) by (simp add: cs'_def rank_candidates_def Let_def cand_ok_def)
  define w where "w = snd (base_weights v k project cache)"
  define cosines where "cosines = (if ro_SessionNDCGAgg opts then fold add_cosine vecHits [] else [])"
  define scored where "scored = score_all v opts k w query detail cs'"
  define ranked where "ranked = arrange v opts k query topK cosines scored"
  note sc = score_all_props [OF assms(1) ok, where opts = opts and k = k and w = w and query = query and detail = detail, folded scored_def]
  note ar = arrange_props [OF assms(1,2) sc(1), where opts = opts and k = k and query = query and cosines = cosines, folded ranked_def]
  have res: "results = (if ro_Mode opts = ''handle'' then ranked else attach_connected v project db ranked)"
    "db' = touch_results v (cs_hits cs') results db"
    using assms(4)
    by (auto simp: finish_pass_def Let_def k_def cs'_def w_def cosines_def scored_def ranked_def split: prod.splits)
  have ids: "map res_id results = map res_id ranked" by (simp add: res(1))
  show "distinct (map res_id results)" unfolding ids by (rule draws_distinct [OF ar(1) sc(1)])
  show "int (length results) \<le> topK" using ar(2) ids by (metis length_map)
  show "quiet db db'" unfolding res(2) by (rule quiet_touch_results)
  show "\<exists>m. P m \<and> m_ID m = i" if "i \<in> res_id ` set results"
    using that sc(2) draws_set [OF ar(1)] ids by (metis list.set_map subsetD)
qed

text \<open>A pass ends in an error, or it scores the candidates it collected.\<close>

lemma single_pass_cases:
  assumes "single_pass v query topK detail opts e cache db = ((e', cache', db'), r)"
  obtains x db1 where "r = Inl x" "db' = db1" "db1 = db\<lparr>db_meta := db_meta db1\<rparr>" "se_project e' = se_project e"
  | db1 vecHits batchMems ftsResults results where "db1 = db\<lparr>db_meta := db_meta db1\<rparr>" "se_project e' = se_project e"
    "vector_leg v opts topK (se_project e) db1 query (fst (embed_query v query)) = Inr vecHits"
    "fetch_memories v (se_project e) db1 (keep_first (\<lambda>x. x) [] (map vh_MemoryID vecHits)) = Inr batchMems"
    "fts_results v opts topK (se_project e) db1 query = Inr ftsResults"
    "finish_pass v opts query topK detail (se_project e) cache db1 vecHits ftsResults
       (paraphrase_union v opts topK (se_project e) db1 query (collect_candidates vecHits batchMems ftsResults)) = (cache', db', results)"
    "r = Inr results"
proof -
  obtain e1 db1 c where ck: "checkEmbedderMeta (rv_call v) e db = ((e1, db1), c)" by (metis surj_pair)
  have fr: "db1 = db\<lparr>db_meta := db_meta db1\<rparr>" "se_project e1 = se_project e"
    using checkEmbedderMeta_frame [OF ck] by auto
  show thesis
  proof (cases "\<exists>x. r = Inl x")
    case True
    then show thesis using assms ck fr that(1) by (auto simp: single_pass_def split: sum.splits prod.splits)
  next
    case False
    then show thesis using assms ck fr that(2) by (auto simp: single_pass_def split: sum.splits prod.splits)
  qed
qed

definition index_rows :: "recall_env \<Rightarrow> RecallOpts \<Rightarrow> int \<Rightarrow> string \<Rightarrow> database \<Rightarrow> (Memory \<Rightarrow> bool) \<Rightarrow> bool" where
  "index_rows v opts topK project db P \<longleftrightarrow>
     (\<forall>ids m. set ids \<subseteq> hit_ids v opts topK project db \<longrightarrow> m \<in> set (GetMemoriesByIDs project ids db) \<longrightarrow> P m)"

lemma single_pass_results:
  assumes "env_ok v" "1 \<le> topK" "single_pass v query topK detail opts e cache db = (s, Inr results)"
    and "\<And>x. index_rows v opts topK (se_project e) (db\<lparr>db_meta := x\<rparr>) P"
    and "\<And>m. live (se_project e) db (ro_DateSince opts) (ro_DateBefore opts) m \<Longrightarrow> P m"
  shows "distinct (map res_id results) \<and> int (length results) \<le> topK
    \<and> (\<forall>i\<in>res_id ` set results. \<exists>m. P m \<and> m_ID m = i)"
proof -
  obtain e' cache' db' where s: "s = (e', cache', db')" by (metis prod_cases3)
  from assms(3) [unfolded s] show ?thesis
  proof (cases rule: single_pass_cases)
    case (2 db1 vecHits batchMems ftsResults results')
    let ?p = "se_project e"
    have mem: "db_memories db1 = db_memories db" using arg_cong [OF 2(1), of db_memories] by simp
    have idx: "index_rows v opts topK ?p db1 P" using assms(4) [of "db_meta db1"] 2(1) by simp
    have hids: "set (keep_first (\<lambda>x. x) [] (map vh_MemoryID vecHits)) \<subseteq> hit_ids v opts topK ?p db1"
      using 2(3) unfolding keep_first_set
      by (auto simp: vector_leg_def hit_ids_def split: option.splits if_splits)
    have batch: "\<forall>m\<in>set batchMems. P m"
      using 2(4) idx hids by (auto simp: fetch_memories_def index_rows_def split: if_splits)
    have fts: "fts_ok P rs" if "fts_results v opts topK ?p db1 q = Inr rs" for q rs
    proof -
      have "fts_ok (live ?p db1 (ro_DateSince opts) (ro_DateBefore opts)) rs"
        using that FTSSearch_ok [of "rv_fts_tie v"] assms(1) by (auto simp: fts_results_def env_ok_def split: if_splits)
      then show ?thesis using assms(5) mem by (auto simp: fts_ok_def live_def)
    qed
    have "cand_ok P (paraphrase_union v opts topK ?p db1 query (collect_candidates vecHits batchMems ftsResults))"
      using idx hids fts collect_candidates_ok [OF batch fts [OF 2(5)]]
      by (intro paraphrase_union_ok) (auto simp: index_rows_def collect_candidates_def)
    from finish_pass_props [OF assms(1,2) this 2(6)] 2(7) show ?thesis by auto
  qed simp
qed

lemma single_pass_quiet:
  assumes "single_pass v query topK detail opts e cache db = ((e', cache', db'), r)"
  shows "quiet db db' \<and> se_project e' = se_project e"
  using assms
proof (cases rule: single_pass_cases)
  case (1 x db1)
  then show ?thesis by (metis quiet_meta)
next
  case (2 db1 vecHits batchMems ftsResults results)
  have "quiet db1 db'" using 2(6) by (auto simp: finish_pass_def Let_def quiet_touch_results split: prod.splits)
  moreover have "quiet db db1" using 2(1) by (rule quiet_meta)
  ultimately show ?thesis using 2(2) quiet_trans by blast
qed

lemma checkEmbedderMeta_meta:
  assumes "checkEmbedderMeta env e db = ((e', db'), r)"
  shows "meta_kept (se_project e) db db'"
proof (cases "register_embedder env e db = ((e', db'), r) \<and> GetMeta (se_project e) ''embedder_name'' db = None")
  case True
  then show ?thesis by (blast intro: meta_kept_register)
next
  case False
  then have "db' = db"
    using assms by (auto simp: checkEmbedderMeta_def get_meta_def split: if_splits option.splits prod.splits)
  then show ?thesis by (simp add: meta_kept_refl)
qed

lemma touch_results_meta: "db_meta (touch_results v hits rs db) = db_meta db"
proof -
  have "db_meta (fold (\<lambda>r db. case map_of hits (res_id r) of
             Some hit \<Rightarrow> if bh_chunkID hit \<noteq> [] then fst (UpdateChunkLastMatched (rv_call v) (bh_chunkID hit) db) else db
           | None \<Rightarrow> db) rs a) = db_meta a" for a
    by (induction rs arbitrary: a)
      (simp_all add: UpdateChunkLastMatched_def exec_def update_chunks_def split: option.split)
  then show ?thesis by (simp add: touch_results_def TouchMemories_def exec_def update_rows_def)
qed

lemma finish_pass_meta:
  "finish_pass v opts query topK detail project cache db vecHits ftsResults cs = (cache', db', rs) \<Longrightarrow> db_meta db' = db_meta db"
  by (auto simp: finish_pass_def Let_def touch_results_meta split: prod.splits)

lemma single_pass_meta:
  assumes "single_pass v query topK detail opts e cache db = ((e', cache', db'), r)"
  shows "meta_kept (se_project e) db db' \<and> se_project e' = se_project e"
proof -
  obtain e1 db1 c where ck: "checkEmbedderMeta (rv_call v) e db = ((e1, db1), c)" by (metis surj_pair)
  have "db_meta db' = db_meta db1"
    using assms ck by (auto simp: single_pass_def dest: finish_pass_meta split: sum.splits prod.splits)
  moreover have "meta_kept (se_project e) db db1" by (rule checkEmbedderMeta_meta [OF ck])
  ultimately show ?thesis
    using single_pass_quiet [OF assms] by (auto intro: meta_kept_trans meta_kept_refl)
qed

section \<open>Recall\<close>

lemma merge_props:
  assumes "1 \<le> topK"
  shows "distinct (map res_id (mergeSearchResults a b topK))"
    "int (length (mergeSearchResults a b topK)) \<le> topK"
    "res_id ` set (mergeSearchResults a b topK) \<subseteq> res_id ` set a \<union> res_id ` set b"
proof -
  have limit: "0 < topK" using assms by simp
  let ?ids = "map res_id (filter (\<lambda>r. s_Memory r \<noteq> None) (a @ b))"
  note ids = mergeSearchResults_ids [OF limit, of a b]
  have "distinct (keep_first (\<lambda>x. x) [] ?ids)" using distinct_keep_first [of "\<lambda>x. x" "[]" ?ids] by simp
  then show "distinct (map res_id (mergeSearchResults a b topK))" unfolding ids by simp
  have "length (map res_id (mergeSearchResults a b topK)) \<le> nat topK" unfolding ids by simp
  then show "int (length (mergeSearchResults a b topK)) \<le> topK" using assms by simp
  have "set (map res_id (mergeSearchResults a b topK)) \<subseteq> set ?ids"
    unfolding ids using set_take_subset keep_first_set [of ?ids] by (metis (no_types, lifting))
  then show "res_id ` set (mergeSearchResults a b topK) \<subseteq> res_id ` set a \<union> res_id ` set b" by auto
qed

lemma index_rows_live: "index_rows v opts topK project (db\<lparr>db_meta := x\<rparr>) (live project db None None)"
  using GetMemoriesByIDs_live [of _ project _ "db\<lparr>db_meta := x\<rparr>"] by (auto simp: index_rows_def live_def)

abbreviation pass_ok :: "string \<Rightarrow> database \<Rightarrow> int \<Rightarrow> SearchResult list \<Rightarrow> bool" where
  "pass_ok project db topK results \<equiv> distinct (map res_id results) \<and> int (length results) \<le> topK
     \<and> (\<forall>i\<in>res_id ` set results. \<exists>m. live project db None None m \<and> m_ID m = i)"

lemma single_pass_ok:
  assumes "env_ok v" "1 \<le> topK" "single_pass v query topK detail opts e cache db = (s, Inr results)"
  shows "pass_ok (se_project e) db topK results"
  using assms index_rows_live live_weaken by (rule single_pass_results)

lemma pass_ok_rerank:
  assumes "tie_ok tie" "pass_ok project db topK rs"
  shows "pass_ok project db topK (maybeRerank tie query topK rs reranker)"
proof -
  note d = maybeRerank_draws [OF assms(1), of query topK rs reranker]
  show ?thesis using assms draws_distinct [OF d] draws_set [OF d] by auto
qed

lemma two_pass_cases:
  assumes "recallTwoPassTemporal (v1, v2) query topK detail opts since before e cache db = ((e', cache', db'), r)"
  obtains s1 x o1 where "single_pass v1 query topK detail o1 e cache db = (s1, Inl x)" "s1 = (e', cache', db')" "r = Inl x"
  | e1 c1 db1 o1 o2 pass1 x where "single_pass v1 query topK detail o1 e cache db = ((e1, c1, db1), Inr pass1)"
    "single_pass v2 query topK detail o2 e1 c1 db1 = ((e', cache', db'), Inl x)"
    "r = Inr (maybeRerank (rv_tie v1) query topK pass1 (ro_Reranker opts))"
  | e1 c1 db1 o1 o2 pass1 pass2 where "single_pass v1 query topK detail o1 e cache db = ((e1, c1, db1), Inr pass1)"
    "single_pass v2 query topK detail o2 e1 c1 db1 = ((e', cache', db'), Inr pass2)"
    "r = Inr (maybeRerank (rv_tie v1) query topK (mergeSearchResults pass1 pass2 topK) (ro_Reranker opts))"
  using assms that
  unfolding recallTwoPassTemporal_def Let_def by (auto split: prod.splits sum.splits)

lemma recall_cases:
  assumes "RecallWithOpts (v1, v2) query topK0 detail opts e cache db = (s, r)"
  obtains since before where "recallTwoPassTemporal (v1, v2) query (if topK0 \<le> 0 then 10 else topK0) detail opts since before e cache db = (s, r)"
  | "single_pass v1 query (if topK0 \<le> 0 then 10 else topK0) detail opts e cache db = (s, r)"
  using assms that unfolding RecallWithOpts_def Let_def fst_conv
  by (cases "if ro_TemporalWindowRecall opts then ParseTemporalWindow (rv_uni v1)
      (if ro_QuestionText opts = [] then query else ro_QuestionText opts) (ro_QuestionDate opts) else None") auto

lemma two_pass_ok:
  assumes "env_ok v1" "env_ok v2" "1 \<le> topK"
    and "recallTwoPassTemporal (v1, v2) query topK detail opts since before e cache db = (s, Inr results)"
  shows "pass_ok (se_project e) db topK results"
proof -
  have tie: "tie_ok (rv_tie v1)" using assms(1) by (simp add: env_ok_def)
  obtain e' cache' db' where s: "s = (e', cache', db')" by (metis prod_cases3)
  from assms(4) [unfolded s] show ?thesis
  proof (cases rule: two_pass_cases)
    case (2 e1 c1 db1 o1 o2 pass1 x)
    from pass_ok_rerank [OF tie single_pass_ok [OF assms(1,3) 2(1)]] 2(3) show ?thesis by simp
  next
    case (3 e1 c1 db1 o1 o2 pass1 pass2)
    note q = single_pass_quiet [OF 3(1)]
    have p1: "pass_ok (se_project e) db topK pass1" by (rule single_pass_ok [OF assms(1,3) 3(1)])
    have "pass_ok (se_project e1) db1 topK pass2" by (rule single_pass_ok [OF assms(2,3) 3(2)])
    moreover have "\<exists>m. live (se_project e) db None None m \<and> m_ID m = i"
      if "\<exists>m. live (se_project e1) db1 None None m \<and> m_ID m = i" for i
      using that q quiet_live [of db db1 "se_project e" None None] by fastforce
    ultimately have p2: "\<forall>i\<in>res_id ` set pass2. \<exists>m. live (se_project e) db None None m \<and> m_ID m = i"
      by blast
    note m = merge_props [OF assms(3), of pass1 pass2]
    have "\<exists>m. live (se_project e) db None None m \<and> m_ID m = i"
      if "i \<in> res_id ` set (mergeSearchResults pass1 pass2 topK)" for i
      using subsetD [OF m(3) that] p1 p2 by (elim UnE) (simp_all only: Ball_def)
    then have "pass_ok (se_project e) db topK (mergeSearchResults pass1 pass2 topK)"
      using m(1,2) by (intro conjI ballI)
    from pass_ok_rerank [OF tie this] 3(3) show ?thesis by simp
  qed simp
qed

text \<open>
  C2: Recall answers with live memories of its project: whatever the options, the index, the
  rerankers and the order of ties and map iteration, a successful recall returns at most as many
  results as asked for (ten when a non-positive number is asked for), no memory twice, and only
  memories that are stored in the project and not invalidated.
\<close>

theorem recall_returns_live_memories:
  assumes "env_ok v1" "env_ok v2"
    and "RecallWithOpts (v1, v2) query topK detail opts e cache db = (s, Inr results)"
  shows "distinct (map res_id results) \<and> int (length results) \<le> (if topK \<le> 0 then 10 else topK)
    \<and> (\<forall>i. i \<in> res_id ` set results \<longrightarrow> (\<exists>m. live (se_project e) db None None m \<and> m_ID m = i))"
proof -
  have k: "1 \<le> (if topK \<le> 0 then 10 else topK)" by simp
  from assms(3) have "pass_ok (se_project e) db (if topK \<le> 0 then 10 else topK) results"
  proof (cases rule: recall_cases)
    case 1
    then show ?thesis by (rule two_pass_ok [OF assms(1,2) k])
  next
    case 2
    then show ?thesis by (rule single_pass_ok [OF assms(1) k])
  qed
  then show ?thesis by blast
qed

lemma recall_frame:
  assumes "RecallWithOpts (v1, v2) query topK detail opts e cache db = ((e', cache', db'), r)"
  shows "quiet db db' \<and> meta_kept (se_project e) db db'"
  using assms
proof (cases rule: recall_cases)
  case 1
  then show ?thesis
  proof (cases rule: two_pass_cases)
    case (2 e1 c1 db1 o1 o2 pass1 x)
    then show ?thesis using single_pass_quiet [OF 2(1)] single_pass_quiet [OF 2(2)]
        single_pass_meta [OF 2(1)] single_pass_meta [OF 2(2)] quiet_trans meta_kept_trans by metis
  next
    case (3 e1 c1 db1 o1 o2 pass1 pass2)
    then show ?thesis using single_pass_quiet [OF 3(1)] single_pass_quiet [OF 3(2)]
        single_pass_meta [OF 3(1)] single_pass_meta [OF 3(2)] quiet_trans meta_kept_trans by metis
  qed (auto dest: single_pass_quiet single_pass_meta)
qed (auto dest: single_pass_quiet single_pass_meta)

text \<open>
  C5: Recall leaves what is stored alone. Successful or not, it changes no memory but its access
  statistics, no chunk but the time of its last match, and no version, relationship, document,
  event or lease. Of the metadata it changes at most the two entries that register the embedder of
  its project, name and dimensions, and those only when no name is registered yet.
\<close>

theorem recall_changes_only_access:
  assumes "RecallWithOpts (v1, v2) query topK detail opts e cache db = ((e', cache', db'), r)"
  shows "quiet db db'
    \<and> (GetMeta (se_project e) ''embedder_name'' db \<noteq> None \<longrightarrow> db_meta db' = db_meta db)
    \<and> (\<forall>p k. (p, k) \<notin> {(se_project e, ''embedder_name''), (se_project e, ''embedder_dimensions'')}
         \<longrightarrow> GetMeta p k db' = GetMeta p k db)"
  using recall_frame [OF assms] unfolding meta_kept_def .

section \<open>The vector index\<close>

text \<open>
  What recall relies on of the vector index: a hit belongs to a memory of the project in the window.
  That the memory is not invalidated is not part of the contract.
\<close>

locale vector_index =
  fixes search :: "string \<Rightarrow> float32 list \<Rightarrow> int \<Rightarrow> gotime option \<Rightarrow> gotime option \<Rightarrow> database \<Rightarrow> VectorHit list"
  assumes in_scope: "h \<in> set (search project q n since before db) \<Longrightarrow>
    \<exists>m\<in>set (db_memories db). m_ID m = vh_MemoryID h \<and> m_Project m = project \<and> in_window since before (m_ValidFrom m)"
begin

lemma rows_in_window:
  assumes "rv_vec v = search" "distinct (map m_ID (db_memories db))"
  shows "index_rows v opts topK project (db\<lparr>db_meta := x\<rparr>) (live project db (ro_DateSince opts) (ro_DateBefore opts))"
  unfolding index_rows_def
proof (intro allI impI)
  fix ids m
  assume ids: "set ids \<subseteq> hit_ids v opts topK project (db\<lparr>db_meta := x\<rparr>)"
    and m: "m \<in> set (GetMemoriesByIDs project ids (db\<lparr>db_meta := x\<rparr>))"
  then have "m_ID m \<in> hit_ids v opts topK project (db\<lparr>db_meta := x\<rparr>)" by (auto simp: GetMemoriesByIDs_def)
  then obtain q h where h: "h \<in> set (search project q (topK * 3) (ro_DateSince opts) (ro_DateBefore opts) (db\<lparr>db_meta := x\<rparr>))"
    "vh_MemoryID h = m_ID m"
    using assms(1) by (auto simp: hit_ids_def)
  from in_scope [OF h(1)] h(2) obtain m' where m': "m' \<in> set (db_memories db)" "m_ID m' = m_ID m"
    "in_window (ro_DateSince opts) (ro_DateBefore opts) (m_ValidFrom m')" by auto
  have "m \<in> set (db_memories db)" using m by (simp add: GetMemoriesByIDs_def)
  then have "m = m'" using m'(1,2) assms(2) by (simp add: distinct_map inj_on_def)
  then show "live project db (ro_DateSince opts) (ro_DateBefore opts) m"
    using m m'(3) by (simp add: live_def GetMemoriesByIDs_def)
qed

lemma window_results:
  assumes "rv_vec v = search" "distinct (map m_ID (db_memories db))" "env_ok v" "1 \<le> topK"
    and "single_pass v query topK detail opts e cache db = (s, Inr results)" "i \<in> res_id ` set results"
  shows "\<exists>m. live (se_project e) db (ro_DateSince opts) (ro_DateBefore opts) m \<and> m_ID m = i"
  using single_pass_results [OF assms(3-5) rows_in_window [OF assms(1,2)]] assms(6) by blast

end

interpretation pgvector: vector_index "VectorSearchWithDateRange tkey cosdist" for tkey cosdist
proof
  fix h project q n since before db
  assume "h \<in> set (VectorSearchWithDateRange tkey cosdist project q n since before db)"
  then obtain c where "searched_chunk project since before db c" "h = hit_of cosdist q c"
    unfolding VectorSearchWithDateRange_def by (auto dest!: in_set_takeD)
  then show "\<exists>m\<in>set (db_memories db). m_ID m = vh_MemoryID h \<and> m_Project m = project \<and> in_window since before (m_ValidFrom m)"
    by (auto simp: searched_chunk_def hit_of_def list_ex_iff)
qed

text \<open>
  C17: A date window is respected by both searches: with memory identifiers unique, every memory a
  windowed recall returns is a live memory of the project that is valid from a time in the window;
  memories without such a time are left out.
\<close>

theorem windowed_recall_in_window:
  assumes "rv_vec v = VectorSearchWithDateRange tkey cosdist" "distinct (map m_ID (db_memories db))" "env_ok v"
    and "RecallWithOpts (v, v2) query topK detail opts e cache db = (s, Inr results)" "\<not> ro_TemporalWindowRecall opts"
  shows "\<forall>i. i \<in> res_id ` set results \<longrightarrow>
    (\<exists>m. live (se_project e) db (ro_DateSince opts) (ro_DateBefore opts) m \<and> m_ID m = i)"
proof -
  have "single_pass v query (if topK \<le> 0 then 10 else topK) detail opts e cache db = (s, Inr results)"
    using assms(4,5) by (simp add: RecallWithOpts_def Let_def)
  from pgvector.window_results [OF assms(1-3) _ this] show ?thesis by auto
qed

section \<open>Invalidated memories crowd out live ones\<close>

lemma take_sorted_class:
  assumes "sorted_wrt (\<lambda>a b. \<not> lt b a) xs" "\<And>a b. a \<in> set xs \<Longrightarrow> b \<in> set xs \<Longrightarrow> D a \<Longrightarrow> \<not> D b \<Longrightarrow> lt a b"
    "n \<le> length (filter D xs)"
  shows "list_all D (take n xs)"
  using assms
proof (induction xs arbitrary: n)
  case (Cons x xs)
  show ?case
  proof (cases "D x")
    case True
    show ?thesis
    proof (cases n)
      case (Suc k)
      have "list_all D (take k xs)" using Cons.prems True Suc by (intro Cons.IH) auto
      with True Suc show ?thesis by simp
    qed simp
  next
    case False
    have "\<not> D y" if "y \<in> set xs" for y using Cons.prems(1,2) that False by auto
    then have "filter D (x # xs) = []" using False by (simp add: filter_empty_conv)
    with Cons.prems(3) show ?thesis by simp
  qed
qed simp

interpretation by_hit: strict_weak_order "hit_before tkey" for tkey
  by unfold_locales (auto simp: hit_before_def)

definition live_chunk :: "database \<Rightarrow> Chunk \<Rightarrow> bool" where
  "live_chunk db c \<longleftrightarrow> list_ex (\<lambda>m. m_ID m = c_MemoryID c \<and> m_ValidTo m = None) (db_memories db)"

definition crowded :: "(float32 list \<Rightarrow> float32 list \<Rightarrow> float64) \<Rightarrow> string \<Rightarrow> float32 list \<Rightarrow> nat \<Rightarrow> database \<Rightarrow> bool" where
  "crowded cosdist project q n db \<longleftrightarrow>
     (let searched = filter (searched_chunk project None None db) (db_chunks db) in
      n \<le> length (filter (\<lambda>c. \<not> live_chunk db c) searched)
      \<and> list_all (\<lambda>c. list_all (\<lambda>c'. \<not> live_chunk db c \<and> live_chunk db c'
            \<longrightarrow> cosdist (c_Embedding c) q < cosdist (c_Embedding c') q) searched) searched)"

lemma crowded_hits:
  assumes "crowded cosdist project q (nat n) db" "h \<in> set (VectorSearchWithDateRange tkey cosdist project q n None None db)"
  shows "\<not> list_ex (\<lambda>m. m_ID m = vh_MemoryID h \<and> m_ValidTo m = None) (db_memories db)"
proof -
  define D where "D h \<longleftrightarrow> \<not> list_ex (\<lambda>m. m_ID m = vh_MemoryID h \<and> m_ValidTo m = None) (db_memories db)" for h :: VectorHit
  define cs where "cs = filter (searched_chunk project None None db) (db_chunks db)"
  define hs where "hs = sort_stable (hit_before tkey) (map (hit_of cosdist q) cs)"
  have D: "D (hit_of cosdist q c) \<longleftrightarrow> \<not> live_chunk db c" for c by (simp add: D_def hit_of_def live_chunk_def)
  have "mset (filter D hs) = mset (filter D (map (hit_of cosdist q) cs))" by (simp only: hs_def mset_filter mset_sort_stable)
  then have "length (filter D hs) = length (filter D (map (hit_of cosdist q) cs))" by (metis size_mset)
  also have "\<dots> = length (filter (\<lambda>c. \<not> live_chunk db c) cs)" by (simp add: filter_map comp_def D)
  finally have n: "nat n \<le> length (filter D hs)" using assms(1) by (simp add: crowded_def Let_def cs_def)
  have "hit_before tkey a b" if ab: "a \<in> set hs" "b \<in> set hs" "D a" "\<not> D b" for a b
  proof -
    obtain c c' where c: "a = hit_of cosdist q c" "b = hit_of cosdist q c'" "c \<in> set cs" "c' \<in> set cs"
      using ab(1,2) by (auto simp: hs_def)
    then have "\<not> live_chunk db c" "live_chunk db c'" using ab(3,4) by (simp_all add: D)
    then have "cosdist (c_Embedding c) q < cosdist (c_Embedding c') q"
      using c(3,4) assms(1) by (auto simp: crowded_def Let_def cs_def [symmetric] list_all_iff)
    then show ?thesis by (simp add: c(1,2) hit_before_def hit_of_def)
  qed
  then have "list_all D (take (nat n) hs)"
    by (rule take_sorted_class [OF by_hit.sorted_sort_stable [of tkey "map (hit_of cosdist q) cs", folded hs_def] _ n])
  then show ?thesis using assms(2) by (auto simp: VectorSearchWithDateRange_def hs_def cs_def list_all_iff D_def)
qed

lemma concat_map_Nil [simp]: "concat (map (\<lambda>_. []) xs) = []"
  by (induction xs) simp_all

lemma no_candidates:
  assumes "single_pass v query topK detail opts e cache db = (s, r)" "checkEmbedderMeta (rv_call v) e db = ((e1, db), Inr ())"
    and "\<not> e_fault (rv_call v) (''vector search '' @ query)" "\<not> e_fault (rv_call v) ''select by ids''"
      "\<not> e_fault (rv_call v) (''fts '' @ query)"
    and "\<And>vec. rv_embed v query = Inr (Some vec) \<Longrightarrow> h_all (rv_vec v (se_project e) vec (topK * 3) (ro_DateSince opts) (ro_DateBefore opts) db)"
    and "\<And>hits. h_all hits \<Longrightarrow> GetMemoriesByIDs (se_project e) (keep_first (\<lambda>x. x) [] (map vh_MemoryID hits)) db = []"
    and "h_all []" "\<And>m. rv_rank v (TrimSpace query) m = None" "\<not> ro_ParaphraseUnion opts"
    and "tie_ok (rv_fts_tie v)" "tie_ok (rv_ids v)" "tie_ok (rv_tie v)"
  shows "\<exists>db' cache'. s = (e1, cache', db') \<and> r = Inr []"
proof -
  define hits where "hits = (case rv_embed v query of
      Inr (Some vec) \<Rightarrow> rv_vec v (se_project e) vec (topK * 3) (ro_DateSince opts) (ro_DateBefore opts) db | _ \<Rightarrow> [])"
  have hits: "vector_leg v opts topK (se_project e) db query (fst (embed_query v query)) = Inr hits" "h_all hits"
    using assms(3,6,8) by (auto simp: hits_def vector_leg_def embed_query_def split: option.split sum.split)
  have mems: "fetch_memories v (se_project e) db (keep_first (\<lambda>x. x) [] (map vh_MemoryID hits)) = Inr []"
    using assms(4,7) hits(2) by (simp add: fetch_memories_def)
  have "set (rv_fts_tie v []) = {}" using assms(11) by simp
  then have fts: "fts_results v opts topK (se_project e) db query = Inr []"
    using assms(5) by (simp add: fts_results_def FTSSearch_def Let_def assms(9) cong: if_cong)
  have "set (rv_ids v []) = {}" using assms(12) by simp
  then have scored: "score_all v opts k w query detail (rank_candidates v opts query hits [] (collect_candidates hits [] [])) = []" for k w
    by (simp add: score_all_def in_order_def rank_candidates_def collect_candidates_def Let_def)
  have "set (rv_tie v []) = {}" using assms(13) by simp
  then have arr: "arrange v opts k query topK cosines [] = []" for k cosines
    by (simp add: arrange_def Let_def sortResults_def sessionNDCGRerank_def applySessionDiversity_def
        shouldApplySessionDiversity_def preference_first_def maybeRerank_def split: option.split)
  obtain cache' db' where "finish_pass v opts query topK detail (se_project e) cache db hits [] (collect_candidates hits [] []) = (cache', db', [])"
    by (cases "base_weights v (classify v opts query) (se_project e) cache")
      (simp add: finish_pass_def Let_def scored arr attach_connected_def)
  then show ?thesis
    using assms(1,2) hits(1) mems fts assms(10) by (auto simp: single_pass_def paraphrase_union_def)
qed

text \<open>
  C15: Forgetting starves the vector search. Invalidating a memory keeps its chunks and the vector
  query does not look at the validity: when the chunks of invalidated memories that are closer to the
  query than every live chunk number three times what is asked for, and the text search finds
  nothing, recall returns nothing, however many live memories are indexed.
\<close>

theorem invalidated_memories_starve_recall:
  assumes "rv_vec v = VectorSearchWithDateRange tkey cosdist" "rv_embed v query = Inr (Some q)"
    and "crowded cosdist (se_project e) q (nat (3 * topK)) db" "1 \<le> topK" "env_ok v"
    and "checkEmbedderMeta (rv_call v) e db = ((e1, db), Inr ())" "e_fault (rv_call v) = (\<lambda>_. False)"
    and "rv_rank v = (\<lambda>_ _. None)"
    and "ro_DateSince opts = None" "ro_DateBefore opts = None" "\<not> ro_ParaphraseUnion opts" "\<not> ro_TemporalWindowRecall opts"
  shows "\<exists>s. RecallWithOpts (v, v2) query topK detail opts e cache db = (s, Inr [])"
proof -
  define dead where "dead hits \<longleftrightarrow> list_all (\<lambda>h. \<not> list_ex (\<lambda>m. m_ID m = vh_MemoryID h \<and> m_ValidTo m = None) (db_memories db)) hits"
    for hits :: "VectorHit list"
  obtain s r where pass: "single_pass v query topK detail opts e cache db = (s, r)" by (metis surj_pair)
  have "\<exists>db' cache'. s = (e1, cache', db') \<and> r = Inr []"
  proof (rule no_candidates [OF pass assms(6), where h_all = dead])
    show "dead (rv_vec v (se_project e) vec (topK * 3) (ro_DateSince opts) (ro_DateBefore opts) db)"
      if "rv_embed v query = Inr (Some vec)" for vec
      using that assms(1,2,9,10) crowded_hits [of cosdist "se_project e" q "topK * 3" db _ tkey] assms(3)
      by (simp add: dead_def list_all_iff mult.commute)
    show "GetMemoriesByIDs (se_project e) (keep_first (\<lambda>x. x) [] (map vh_MemoryID hits)) db = []" if "dead hits" for hits
      using that by (auto simp: GetMemoriesByIDs_def keep_first_set dead_def list_all_iff list_ex_iff filter_empty_conv)
  qed (use assms in \<open>auto simp: dead_def env_ok_def\<close>)
  then show ?thesis using pass assms(4,12) by (auto simp: RecallWithOpts_def Let_def)
qed

section \<open>Degraded recall\<close>

text \<open>The environment in which the embedder answers but the index has nothing.\<close>

definition empty_index :: "recall_env \<Rightarrow> recall_env" where
  "empty_index v = v\<lparr>rv_embed := (\<lambda>_. Inr (Some [])), rv_vec := (\<lambda>_ _ _ _ _ _. [])\<rparr>"

lemma empty_index_simps [simp]:
  "rv_call (empty_index v) = rv_call v" "rv_uni (empty_index v) = rv_uni v" "rv_getenv (empty_index v) = rv_getenv v"
  "rv_default (empty_index v) = rv_default v" "rv_temporal (empty_index v) = rv_temporal v" "rv_ku (empty_index v) = rv_ku v"
  "rv_row (empty_index v) = rv_row v" "rv_decay (empty_index v) = rv_decay v" "rv_validity (empty_index v) = rv_validity v"
  "rv_lg (empty_index v) = rv_lg v" "rv_rank (empty_index v) = rv_rank v" "rv_fts_tie (empty_index v) = rv_fts_tie v"
  "rv_tie (empty_index v) = rv_tie v" "rv_ids (empty_index v) = rv_ids v"
  by (simp_all add: empty_index_def)

lemma empty_index_parts [simp]:
  "classify (empty_index v) = classify v"
  "base_weights (empty_index v) = base_weights v"
  "score_input (empty_index v) = score_input v"
  "raw_score (empty_index v) = raw_score v"
  "breakdown (empty_index v) = breakdown v"
  "arrange (empty_index v) = arrange v"
  "attach_connected (empty_index v) = attach_connected v"
  "touch_results (empty_index v) = touch_results v"
  "fts_results (empty_index v) = fts_results v"
  "fetch_memories (empty_index v) = fetch_memories v"
  "rank_candidates (empty_index v) = rank_candidates v"
  by (intro ext, simp add: classify_def base_weights_def score_input_def raw_score_def breakdown_def arrange_def attach_connected_def touch_results_def fts_results_def fetch_memories_def rank_candidates_def Let_def cong: if_cong option.case_cong)+

lemma empty_index_score [simp]: "score_memory (empty_index v) = score_memory v"
  by (intro ext) (simp add: score_memory_def Let_def)

lemma empty_index_score_all [simp]: "score_all (empty_index v) = score_all v"
  by (intro ext) (simp add: score_all_def)

lemma empty_index_finish [simp]: "finish_pass (empty_index v) = finish_pass v"
  by (intro ext) (simp add: finish_pass_def cong: if_cong)

lemma degraded_pass:
  assumes "rv_embed v = (\<lambda>_. Inl timedOut)" "\<And>q. \<not> e_fault (rv_call v) (''vector search '' @ q)"
  shows "single_pass v = single_pass (empty_index v)"
proof -
  have hits: "paraphrase_hits v = paraphrase_hits (empty_index v)"
    by (intro ext) (simp add: paraphrase_hits_def assms(1) empty_index_def)
  have "paraphrase_pass v = paraphrase_pass (empty_index v)"
    by (intro ext) (simp add: paraphrase_pass_def hits)
  then have pu: "paraphrase_union v = paraphrase_union (empty_index v)"
    by (intro ext) (simp add: paraphrase_union_def)
  have vl: "vector_leg v opts topK p db q (fst (embed_query v q))
      = vector_leg (empty_index v) opts topK p db q (fst (embed_query (empty_index v) q))" for opts topK p db q
    using assms(2) by (simp add: vector_leg_def embed_query_def assms(1) empty_index_def)
  show ?thesis
    by (intro ext) (simp only: single_pass_def pu vl empty_index_simps empty_index_parts empty_index_finish)
qed

lemma degraded_signal:
  assumes "rv_embed v1 = (\<lambda>_. Inl timedOut)" "recall_signal (v1, v2) query e db = Some sig"
  shows "sig = (True, if timedOut then ''embed_timeout'' else ''embed_error'')
    \<and> recall_signal (empty_index v1, v2') query e db = Some (False, [])"
  using assms
  by (auto simp: recall_signal_def embed_query_def empty_index_def split: sum.splits prod.splits)

text \<open>
  C16: Recall survives the loss of its embedder. When every embedding fails and the database does
  not, it answers and leaves the tables exactly as it would with a working embedder over an index
  that finds nothing, so the text search, the scores and all later steps still count. Whenever the
  check of the registered embedder lets the recall go on, the caller is told: the signal says degraded, with
  the reason a timeout or an error, and with a working embedder it says not degraded.
\<close>

theorem degraded_recall:
  assumes "rv_embed v1 = (\<lambda>_. Inl t1)" "rv_embed v2 = (\<lambda>_. Inl t2)"
    and "e_fault (rv_call v1) = (\<lambda>_. False)" "e_fault (rv_call v2) = (\<lambda>_. False)"
  shows "RecallWithOpts (v1, v2) query topK detail opts e cache db
      = RecallWithOpts (empty_index v1, empty_index v2) query topK detail opts e cache db
    \<and> (snd (checkEmbedderMeta (rv_call v1) e db) = Inr () \<longrightarrow>
        recall_signal (v1, v2) query e db = Some (True, if t1 then ''embed_timeout'' else ''embed_error'')
        \<and> recall_signal (empty_index v1, empty_index v2) query e db = Some (False, []))"
proof -
  have p: "single_pass v1 = single_pass (empty_index v1)" "single_pass v2 = single_pass (empty_index v2)"
    using degraded_pass [OF assms(1)] degraded_pass [OF assms(2)] assms(3,4) by simp_all
  have "RecallWithOpts (v1, v2) query topK detail opts e cache db
      = RecallWithOpts (empty_index v1, empty_index v2) query topK detail opts e cache db"
    unfolding RecallWithOpts_def recallTwoPassTemporal_def Let_def fst_conv snd_conv p empty_index_simps ..
  moreover have "recall_signal (v1, v2) query e db \<noteq> None" if "snd (checkEmbedderMeta (rv_call v1) e db) = Inr ()"
    using that by (simp add: recall_signal_def)
  ultimately show ?thesis using degraded_signal [OF assms(1)] by blast
qed

section \<open>Results without their fields\<close>

definition bare :: "SearchResult \<Rightarrow> bool" where
  "bare r \<longleftrightarrow> (\<exists>i. s_Memory r = Some (zero_memory\<lparr>m_ID := i\<rparr>))"

lemma bare_fields: "bare r \<Longrightarrow> result_sid r = [] \<and> \<not> is_preference r"
  by (auto simp: bare_def result_sid_def is_preference_def zero_memory_def ExtractSessionID_def session_tag_def)

lemma bare_passes:
  assumes "list_all bare rs"
  shows "applySessionDiversity rs topK N = rs" "preference_first topK rs = rs"
proof -
  have "set (map result_sid (filter (\<lambda>r. s_Memory r \<noteq> None) rs)) \<subseteq> {[]}"
    using assms bare_fields by (auto simp: list_all_iff)
  then have "length (remdups (map result_sid (filter (\<lambda>r. s_Memory r \<noteq> None) rs))) \<le> card {[] :: string}"
    by (metis card_mono finite.emptyI finite.insertI length_remdups_card_conv)
  then show "applySessionDiversity rs topK N = rs"
    by (simp add: applySessionDiversity_def shouldApplySessionDiversity_def)
  have "filter is_preference rs = []" using assms bare_fields by (auto simp: list_all_iff filter_empty_conv)
  then show "preference_first topK rs = rs" by (simp add: preference_first_def)
qed

text \<open>
  Asking for identifiers only changes the answer. The memory of such a result has lost its type
  and its tags when the preference and diversity passes look at it, so neither has any effect: the
  ranking is the sorted scores, reranked and cut.
\<close>

theorem id_only_disables_passes:
  assumes "env_ok v" "\<not> ro_SessionNDCGAgg opts"
  shows "arrange v opts k query topK cosines (score_all v opts k w query ''id_only'' cs)
    = (let ranked = maybeRerank (rv_tie v) query topK
             (sortResults (rv_tie v) (score_all v opts k w query ''id_only'' cs)) (ro_Reranker opts)
       in if int (length ranked) > topK then take (nat topK) ranked else ranked)"
proof -
  have "list_all bare (score_all v opts k w query ''id_only'' cs)"
    by (auto simp: list_all_iff score_all_def score_memory_def bare_def shown_def Let_def)
  moreover have "tie_ok (rv_tie v)" using assms(1) by (simp add: env_ok_def)
  ultimately have "list_all bare (sortResults (rv_tie v) (score_all v opts k w query ''id_only'' cs))"
    by (simp add: sortResults_def list_all_iff)
  from bare_passes [OF this] show ?thesis
    using assms(2) by (simp add: arrange_def sessionNDCGRerank_def Let_def)
qed

section \<open>Instances\<close>

definition plain_opts :: RecallOpts where
  "plain_opts =
     \<lparr>ro_Reranker = None, ro_DenseReranker = None, ro_DenseRerankTopN = 0, ro_Mode = [], ro_CurrentEpisodeID = [],
      ro_DateSince = None, ro_DateBefore = None, ro_TopicAnchorBoost = False, ro_ExactFactBoost = False,
      ro_Fusion = False, ro_ParaphraseUnion = False, ro_SessionNDCGAgg = False, ro_TemporalWindowRecall = False,
      ro_QuestionText = [], ro_QuestionDate = [], ro_SessionDiversityN = 0\<rparr>"

definition plain_env :: recall_env where
  "plain_env =
     \<lparr>rv_call = calm, rv_uni = ascii_only, rv_getenv = (\<lambda>_. []), rv_default = score_defaults,
      rv_temporal = temporal_defaults, rv_ku = ku_defaults, rv_row = (\<lambda>_. Inr None), rv_decay = (\<lambda>h. 1 / (1 + h * h)),
      rv_validity = False, rv_lg = (\<lambda>x. x), rv_embed = (\<lambda>_. Inr (Some [1])),
      rv_vec = VectorSearchWithDateRange (\<lambda>_. 0) (\<lambda>a _. of_nat (length a)), rv_rank = (\<lambda>_ _. Some 1),
      rv_fts_tie = (\<lambda>x. x), rv_tie = (\<lambda>x. x), rv_ids = (\<lambda>x. x)\<rparr>"

lemma plain_env_ok: "env_ok plain_env"
  by (simp add: env_ok_def plain_env_def tie_ok_def)

definition sample_chunk :: "string \<Rightarrow> string \<Rightarrow> float32 list \<Rightarrow> Chunk" where
  "sample_chunk i mid emb =
     \<lparr>c_ID = i, c_MemoryID = mid, c_ChunkText = i, c_ChunkIndex = 0, c_ChunkHash = i, c_Embedding = emb,
      c_SectionHeading = None, c_ChunkType = [], c_LastMatched = None, c_Project = ''p''\<rparr>"

definition sample_db :: database where
  "sample_db = empty_db\<lparr>
     db_memories := [sample_memory ''m1'' ''context'' [], (sample_memory ''m2'' ''context'' [])\<lparr>m_ValidTo := Some 3\<rparr>,
       (sample_memory ''m3'' ''context'' [])\<lparr>m_ValidFrom := Some 7\<rparr>],
     db_chunks := [sample_chunk ''c1'' ''m1'' [1, 1], sample_chunk ''c2'' ''m2'' [1], sample_chunk ''c3'' ''m2'' [2],
       sample_chunk ''c4'' ''m2'' [3]]\<rparr>"

definition sample_hits :: "VectorHit list" where
  "sample_hits = VectorSearchWithDateRange (\<lambda>_. 0) (\<lambda>a _. of_nat (length a)) ''p'' [1] 6 None None sample_db"

definition sample_fts :: "FTSResult list" where
  "sample_fts = FTSSearch (\<lambda>x. x) (\<lambda>_ _. Some 1) ''p'' ''hello'' 6 None None sample_db"

definition sample_cands :: candidates where
  "sample_cands = collect_candidates sample_hits
     (GetMemoriesByIDs ''p'' (keep_first (\<lambda>x. x) [] (map vh_MemoryID sample_hits)) sample_db) sample_fts"

lemma sample_recall:
  "\<exists>s results. RecallWithOpts (plain_env, plain_env) ''hello'' 2 ''full'' plain_opts warm_engine None sample_db = (s, Inr results)
     \<and> map res_id results = [''m3'', ''m1'']"
proof -
  have ck: "checkEmbedderMeta (rv_call plain_env) warm_engine sample_db = ((warm_engine, sample_db), Inr ())"
    by (rule warm_check)
  have p: "se_project warm_engine = ''p''" by (simp add: warm_engine_def)
  have vl: "vector_leg plain_env plain_opts 2 ''p'' sample_db ''hello'' (fst (embed_query plain_env ''hello'')) = Inr sample_hits"
    by (simp add: vector_leg_def embed_query_def plain_env_def plain_opts_def calm_def sample_hits_def)
  have fm: "fetch_memories plain_env ''p'' sample_db ids = Inr (GetMemoriesByIDs ''p'' ids sample_db)" for ids
    by (simp add: fetch_memories_def plain_env_def calm_def GetMemoriesByIDs_def)
  have ft: "fts_results plain_env plain_opts 2 ''p'' sample_db ''hello'' = Inr sample_fts"
    by (simp add: fts_results_def plain_env_def plain_opts_def calm_def sample_fts_def)
  obtain cache' db' results where fp: "finish_pass plain_env plain_opts ''hello'' 2 ''full'' ''p'' None sample_db sample_hits sample_fts sample_cands
      = (cache', db', results)" by (metis prod_cases3)
  have bw: "base_weights plain_env (classify plain_env plain_opts ''hello'') ''p'' None = (None, score_defaults)"
    by code_simp
  have "map res_id (arrange plain_env plain_opts (classify plain_env plain_opts ''hello'') ''hello'' 2 []
      (score_all plain_env plain_opts (classify plain_env plain_opts ''hello'') score_defaults ''hello'' ''full''
        (rank_candidates plain_env plain_opts ''hello'' sample_hits sample_fts sample_cands))) = [''m3'', ''m1'']"
    by code_simp
  moreover have "map res_id results = map res_id (arrange plain_env plain_opts (classify plain_env plain_opts ''hello'') ''hello'' 2 []
      (score_all plain_env plain_opts (classify plain_env plain_opts ''hello'') score_defaults ''hello'' ''full''
        (rank_candidates plain_env plain_opts ''hello'' sample_hits sample_fts sample_cands)))"
    using fp bw by (simp add: finish_pass_def Let_def plain_opts_def split: if_splits) auto
  moreover have "RecallWithOpts (plain_env, plain_env) ''hello'' 2 ''full'' plain_opts warm_engine None sample_db
      = ((warm_engine, cache', db'), Inr results)"
    using fp by (simp add: RecallWithOpts_def Let_def single_pass_def ck p vl fm ft paraphrase_union_def
        sample_cands_def [symmetric] plain_opts_def [THEN arg_cong, of ro_TemporalWindowRecall]
        plain_opts_def [THEN arg_cong, of ro_ParaphraseUnion])
  ultimately show ?thesis by auto
qed

lemma pass_succeeds:
  assumes "checkEmbedderMeta (rv_call v) e db = ((e1, db1), Inr ())" "e_fault (rv_call v) = (\<lambda>_. False)"
  shows "\<exists>s results. single_pass v query topK detail opts e cache db = (s, Inr results)"
proof -
  obtain hits where "vector_leg v opts topK (se_project e) db1 query (fst (embed_query v query)) = Inr hits"
    using assms(2) by (cases "fst (embed_query v query)") (auto simp: vector_leg_def)
  moreover obtain ms where "fetch_memories v (se_project e) db1 (keep_first (\<lambda>x. x) [] (map vh_MemoryID hits)) = Inr ms"
    using assms(2) by (cases "keep_first (\<lambda>x. x) [] (map vh_MemoryID hits) = []") (auto simp: fetch_memories_def)
  moreover obtain fs where "fts_results v opts topK (se_project e) db1 query = Inr fs"
    using assms(2) by (auto simp: fts_results_def)
  ultimately show ?thesis using assms(1) by (auto simp: single_pass_def split: prod.split)
qed

theorem recall_returns_live_memories_witness:
  "\<exists>s results. RecallWithOpts (plain_env, plain_env) ''hello'' 2 ''full'' plain_opts warm_engine None sample_db = (s, Inr results)
     \<and> map res_id results = [''m3'', ''m1''] \<and> (\<exists>m. live ''p'' sample_db None None m \<and> m_ID m = ''m3'')"
proof -
  obtain s results where r: "RecallWithOpts (plain_env, plain_env) ''hello'' 2 ''full'' plain_opts warm_engine None sample_db = (s, Inr results)"
    "map res_id results = [''m3'', ''m1'']" using sample_recall by (elim exE conjE)
  have "''m3'' \<in> res_id ` set results" using r(2) by (metis list.set_intros(1) list.set_map)
  then have "\<exists>m. live ''p'' sample_db None None m \<and> m_ID m = ''m3''"
    using recall_returns_live_memories [OF plain_env_ok plain_env_ok r(1)] by (simp add: warm_engine_def)
  with r show ?thesis by (intro exI [of _ s] exI [of _ results]) simp
qed

theorem recall_changes_only_access_witness:
  "\<exists>e' cache' db' r. RecallWithOpts (plain_env, plain_env) ''hello'' 2 ''full'' plain_opts warm_engine None sample_db
     = ((e', cache', db'), r) \<and> quiet sample_db db' \<and> GetMeta ''q'' ''embedder_name'' db' = GetMeta ''q'' ''embedder_name'' sample_db"
proof -
  obtain e' cache' db' r where "RecallWithOpts (plain_env, plain_env) ''hello'' 2 ''full'' plain_opts warm_engine None sample_db
      = ((e', cache', db'), r)" by (metis prod_cases4 surj_pair)
  moreover from this have "quiet sample_db db'" "GetMeta ''q'' ''embedder_name'' db' = GetMeta ''q'' ''embedder_name'' sample_db"
    using recall_changes_only_access by (force simp: warm_engine_def)+
  ultimately show ?thesis by blast
qed

abbreviation window_opts :: RecallOpts where
  "window_opts \<equiv> plain_opts\<lparr>ro_DateSince := Some 6\<rparr>"

theorem windowed_recall_in_window_witness:
  "\<exists>s results. RecallWithOpts (plain_env, plain_env) ''hello'' 2 ''full'' window_opts warm_engine None sample_db = (s, Inr results)
     \<and> ''m1'' \<notin> set (map res_id results)"
proof -
  have "checkEmbedderMeta (rv_call plain_env) warm_engine sample_db = ((warm_engine, sample_db), Inr ())"
    by (rule warm_check)
  then obtain s results where "single_pass plain_env ''hello'' 2 ''full'' window_opts warm_engine None sample_db = (s, Inr results)"
    using pass_succeeds [of plain_env] by (fastforce simp: plain_env_def calm_def)
  then have r: "RecallWithOpts (plain_env, plain_env) ''hello'' 2 ''full'' window_opts warm_engine None sample_db = (s, Inr results)"
    by (simp add: RecallWithOpts_def Let_def plain_opts_def)
  have "distinct (map m_ID (db_memories sample_db))" by code_simp
  moreover have "rv_vec plain_env = VectorSearchWithDateRange (\<lambda>_. 0) (\<lambda>a _. of_nat (length a))"
    by (simp add: plain_env_def)
  ultimately have w: "\<forall>i. i \<in> res_id ` set results \<longrightarrow>
      (\<exists>m. live (se_project warm_engine) sample_db (ro_DateSince window_opts) (ro_DateBefore window_opts) m \<and> m_ID m = i)"
    using windowed_recall_in_window [OF _ _ plain_env_ok r] by (simp add: plain_opts_def)
  have "\<not> live (se_project warm_engine) sample_db (ro_DateSince window_opts) (ro_DateBefore window_opts) m" if "m_ID m = ''m1''" for m
    using that by (auto simp: live_def sample_db_def sample_memory_def empty_db_def in_window_def plain_opts_def)
  then have "''m1'' \<notin> set (map res_id results)" using w by (metis list.set_map)
  with r show ?thesis by (intro exI conjI)
qed

definition semantic_env :: recall_env where
  "semantic_env = plain_env\<lparr>rv_rank := (\<lambda>_ _. None)\<rparr>"

theorem invalidated_memories_starve_recall_witness:
  "\<exists>s. RecallWithOpts (semantic_env, semantic_env) ''hello'' 1 ''full'' plain_opts warm_engine None sample_db = (s, Inr [])"
proof (rule invalidated_memories_starve_recall)
  show "rv_vec semantic_env = VectorSearchWithDateRange (\<lambda>_. 0) (\<lambda>a _. of_nat (length a))"
    "rv_embed semantic_env ''hello'' = Inr (Some [1])" "e_fault (rv_call semantic_env) = (\<lambda>_. False)"
    "rv_rank semantic_env = (\<lambda>_ _. None)"
    by (simp_all add: semantic_env_def plain_env_def calm_def)
  show "crowded (\<lambda>a _. of_nat (length a)) (se_project warm_engine) [1] (nat (3 * 1)) sample_db" by code_simp
  show "env_ok semantic_env" by (simp add: env_ok_def semantic_env_def plain_env_def tie_ok_def)
  show "checkEmbedderMeta (rv_call semantic_env) warm_engine sample_db = ((warm_engine, sample_db), Inr ())"
    by (rule warm_check)
qed (simp_all add: plain_opts_def)

definition deaf_env :: recall_env where
  "deaf_env = plain_env\<lparr>rv_embed := (\<lambda>_. Inl True)\<rparr>"

theorem degraded_recall_witness:
  "RecallWithOpts (deaf_env, deaf_env) ''hello'' 2 ''full'' plain_opts warm_engine None sample_db
     = RecallWithOpts (empty_index deaf_env, empty_index deaf_env) ''hello'' 2 ''full'' plain_opts warm_engine None sample_db
   \<and> recall_signal (deaf_env, deaf_env) ''hello'' warm_engine sample_db = Some (True, ''embed_timeout'')"
  using degraded_recall [of deaf_env True deaf_env True "''hello''" 2 "''full''" plain_opts warm_engine None sample_db]
  by (simp add: deaf_env_def plain_env_def calm_def warm_check)

theorem id_only_disables_passes_witness:
  "arrange plain_env plain_opts (classify plain_env plain_opts ''I like'') ''I like'' 1 []
      (score_all plain_env plain_opts (classify plain_env plain_opts ''I like'') score_defaults ''I like'' ''id_only'' sample_cands)
    = (let ranked = maybeRerank (rv_tie plain_env) ''I like'' 1
             (sortResults (rv_tie plain_env)
               (score_all plain_env plain_opts (classify plain_env plain_opts ''I like'') score_defaults ''I like'' ''id_only'' sample_cands))
             (ro_Reranker plain_opts)
       in if int (length ranked) > 1 then take (nat 1) ranked else ranked)"
  by (rule id_only_disables_passes [OF plain_env_ok]) (simp add: plain_opts_def)

end
