(* ===== verification/Reembed.thy ===== *)
theory Reembed
  imports Search_Store Embed_Gateway
begin

text \<open>
  The workers that embed chunks stored without a vector: one per project
  (\<^verbatim>\<open>src/internal/reembed/worker.go\<close>), one for all projects
  (\<^verbatim>\<open>src/internal/reembed/global_worker.go\<close>), and how the engine replaces the former
  (\<^verbatim>\<open>src/internal/search/engine.go\<close>). A channel that is closed or filled, a \<^verbatim>\<open>sync.Once\<close> and a
  context are flags of the worker's record; the calls of other goroutines are interleaved at every
  access to shared state. The embedder, the database's failures, the order among equal rows and
  the order in which the goroutines of a batch finish are parameters; panics are left out.
\<close>

section \<open>The worker of a project\<close>

datatype loop_phase = NotStarted | AtPass | AtSelect | LoopExited

text \<open>
  \<open>rw_startOnce\<close>: the \<^verbatim>\<open>sync.Once\<close> has fired; \<open>rw_parentCtx\<close>: the parent context is set;
  \<open>rw_cancelled\<close>: the run context is cancelled; \<open>rw_starts\<close>, \<open>rw_closes\<close>: how often the goroutine was
  launched and the channel \<^verbatim>\<open>done\<close> closed. \<open>rw_cleared\<close> is the variable \<^verbatim>\<open>migrationCleared\<close> of \<^verbatim>\<open>run\<close>.
\<close>

record Worker =
  rw_embedder :: client
  rw_project :: string
  rw_active :: bool
  rw_startOnce :: bool
  rw_parentCtx :: bool
  rw_notify :: bool
  rw_cancelled :: bool
  rw_phase :: loop_phase
  rw_cleared :: bool
  rw_starts :: nat
  rw_closes :: nat

definition reembed_batchSize :: int where
  "reembed_batchSize = 20"

definition NewWorker :: "client \<Rightarrow> string \<Rightarrow> bool \<Rightarrow> Worker" where
  "NewWorker c project active =
     \<lparr>rw_embedder = c, rw_project = project, rw_active = active, rw_startOnce = False,
      rw_parentCtx = False, rw_notify = False, rw_cancelled = False, rw_phase = NotStarted,
      rw_cleared = False, rw_starts = 0, rw_closes = 0\<rparr>"

definition of_project :: "string \<Rightarrow> database \<Rightarrow> Chunk \<Rightarrow> bool" where
  "of_project project db c \<longleftrightarrow>
     c_MemoryID c \<in> m_ID ` set (filter (\<lambda>m. m_Project m = project) (db_memories db))"

definition accessed :: "database \<Rightarrow> Chunk \<Rightarrow> gotime" where
  "accessed db c =
     (case find (\<lambda>m. m_ID m = c_MemoryID c) (db_memories db) of None \<Rightarrow> 0 | Some m \<Rightarrow> m_LastAccessed m)"

text \<open>Equally recent memories come in any order: \<open>tie\<close> permutes the rows before they are sorted.\<close>

definition GetChunksPendingEmbedding ::
    "(Chunk list \<Rightarrow> Chunk list) \<Rightarrow> string \<Rightarrow> int \<Rightarrow> database \<Rightarrow> Chunk list" where
  "GetChunksPendingEmbedding tie project n db =
     take (nat n) (sort_stable (\<lambda>a b. accessed db b < accessed db a)
       (tie (filter (\<lambda>c. of_project project db c \<and> pending_chunk c) (db_chunks db))))"

definition GetPendingEmbeddingCount :: "string \<Rightarrow> database \<Rightarrow> int" where
  "GetPendingEmbeddingCount project db =
     int (length (filter (\<lambda>c. pending_chunk c
       \<and> c_MemoryID c \<in> m_ID ` set (filter (\<lambda>m. m_Project m = project \<and> m_ValidTo m = None) (db_memories db)))
       (db_chunks db)))"

definition NewWorkerFromMeta :: "call_env \<Rightarrow> client \<Rightarrow> string \<Rightarrow> database \<Rightarrow> Worker" where
  "NewWorkerFromMeta env c project db =
     (let flagged = (get_meta env project ''embedding_migration_in_progress'' db = Inr (Some ''true''));
          pending = (\<not> e_fault env ''pending''
            \<and> GetChunksPendingEmbedding (\<lambda>rows. rows) project 1 db \<noteq> []) in
      NewWorker c project (flagged \<or> pending))"

subsection \<open>Starting and stopping\<close>

text \<open>The two functions run under \<^verbatim>\<open>startOnce\<close>; a second one does nothing.\<close>

definition once_start :: "Worker \<Rightarrow> Worker" where
  "once_start w =
     (if rw_startOnce w then w
      else w\<lparr>rw_startOnce := True, rw_phase := AtPass, rw_starts := rw_starts w + 1\<rparr>)"

definition once_close :: "Worker \<Rightarrow> Worker" where
  "once_close w =
     (if rw_startOnce w then w else w\<lparr>rw_startOnce := True, rw_closes := rw_closes w + 1\<rparr>)"

text \<open>\<^verbatim>\<open>w.cancel != nil\<close>: set by \<^verbatim>\<open>start\<close>, never reset.\<close>

definition has_cancel :: "Worker \<Rightarrow> bool" where
  "has_cancel w \<longleftrightarrow> rw_phase w \<noteq> NotStarted"

text \<open>
  A call as the point it has reached. \<open>call_step\<close> is one access to shared state; an undisturbed
  call is \<open>StartWithContext\<close>, \<open>Notify\<close> or \<open>Stop\<close> below.
\<close>

datatype wcall =
    AtStart | AtStartCheck | AtStartDo | StartReturned
  | AtNotify | AtNotifyRead | AtNotifyDo | AtNotifySend | NotifyReturned
  | AtStop | AtStopCancel | AtStopWait | AtStopDo | StopReturned

fun call_step :: "wcall \<Rightarrow> Worker \<Rightarrow> Worker \<times> wcall" where
  "call_step AtStart w = (w\<lparr>rw_parentCtx := True\<rparr>, AtStartCheck)"
| "call_step AtStartCheck w = (w, if rw_active w then AtStartDo else StartReturned)"
| "call_step AtStartDo w = (once_start w, StartReturned)"
| "call_step AtNotify w = (w\<lparr>rw_active := True\<rparr>, AtNotifyRead)"
| "call_step AtNotifyRead w = (w, if rw_parentCtx w then AtNotifyDo else AtNotifySend)"
| "call_step AtNotifyDo w = (once_start w, AtNotifySend)"
| "call_step AtNotifySend w = (w\<lparr>rw_notify := True\<rparr>, NotifyReturned)"
| "call_step AtStop w = (w, if has_cancel w then AtStopCancel else AtStopDo)"
| "call_step AtStopCancel w = (w\<lparr>rw_cancelled := True\<rparr>, AtStopWait)"
| "call_step AtStopWait w = (w, StopReturned)"
| "call_step AtStopDo w = (once_close w, StopReturned)"
| "call_step k w = (w, k)"

definition StartWithContext :: "Worker \<Rightarrow> Worker" where
  "StartWithContext w =
     (let w1 = w\<lparr>rw_parentCtx := True\<rparr> in if rw_active w1 then once_start w1 else w1)"

definition Worker_Notify :: "Worker \<Rightarrow> Worker" where
  "Worker_Notify w =
     (let w1 = w\<lparr>rw_active := True\<rparr>;
          w2 = (if rw_parentCtx w1 then once_start w1 else w1) in
      w2\<lparr>rw_notify := True\<rparr>)"

definition Worker_Stop :: "Worker \<Rightarrow> Worker" where
  "Worker_Stop w = (if has_cancel w then w\<lparr>rw_cancelled := True\<rparr> else once_close w)"

subsection \<open>The loop of the goroutine\<close>

text \<open>
  What one pass meets: whether the fetch fails, how equal rows are ordered, what the embedder
  answers, how the updates fare, in which order the goroutines finish, after how many of them the
  context of the pass ends (if it does), and how clearing the flag fares.
\<close>

record pass_env =
  p_fetchFails :: bool
  p_tie :: "Chunk list \<Rightarrow> Chunk list"
  p_embed :: "string \<Rightarrow> float32 list option"
  p_update :: "string \<Rightarrow> call_env"
  p_visit :: "Chunk list \<Rightarrow> Chunk list"
  p_cut :: "nat option"
  p_flag :: call_env

definition reembed_one :: "pass_env \<Rightarrow> Chunk \<Rightarrow> database \<Rightarrow> database" where
  "reembed_one pe c db =
     (case p_embed pe (c_ChunkText c) of
        None \<Rightarrow> db
      | Some vec \<Rightarrow> fst (UpdateChunkEmbedding (p_update pe (c_ID c)) (c_ID c) vec db))"

definition Worker_runBatch :: "pass_env \<Rightarrow> string \<Rightarrow> database \<Rightarrow> database \<times> bool" where
  "Worker_runBatch pe project db =
     (if p_fetchFails pe then (db, False)
      else let chunks = GetChunksPendingEmbedding (p_tie pe) project reembed_batchSize db in
        if chunks = [] then (db, True)
        else let started = (case p_cut pe of None \<Rightarrow> chunks | Some n \<Rightarrow> take n chunks) in
          (fold (reembed_one pe) (p_visit pe started) db,
           p_cut pe = None \<and> int (length chunks) < reembed_batchSize))"

definition clear_flag :: "pass_env \<Rightarrow> string \<Rightarrow> database \<Rightarrow> database" where
  "clear_flag pe project db =
     fst (SetMeta (p_flag pe) project ''embedding_migration_in_progress'' ''false'' db)"

definition loop_exit :: "Worker \<Rightarrow> Worker" where
  "loop_exit w = w\<lparr>rw_phase := LoopExited, rw_closes := rw_closes w + 1\<rparr>"

definition run_pass :: "pass_env \<Rightarrow> Worker \<times> database \<Rightarrow> Worker \<times> database" where
  "run_pass pe s =
     (let w = fst s; (db1, batchDone) = Worker_runBatch pe (rw_project w) (snd s) in
      if rw_cancelled w then (loop_exit w, db1)
      else if batchDone \<and> \<not> rw_cleared w
      then (w\<lparr>rw_cleared := True, rw_phase := AtSelect\<rparr>, clear_flag pe (rw_project w) db1)
      else (w\<lparr>rw_phase := AtSelect\<rparr>, db1))"

text \<open>
  Workers, the calls of other goroutines and the database. A call is made at any time; every
  transition is one access.
\<close>

record wsys =
  ws_worker :: Worker
  ws_calls :: "wcall list"
  ws_db :: database

inductive wstep :: "wsys \<Rightarrow> wsys \<Rightarrow> bool" where
  invoke: "k \<in> {AtStart, AtNotify, AtStop} \<Longrightarrow> wstep s (s\<lparr>ws_calls := ws_calls s @ [k]\<rparr>)"
| advance: "i < length (ws_calls s) \<Longrightarrow> call_step (ws_calls s ! i) (ws_worker s) = (w, k)
    \<Longrightarrow> wstep s (s\<lparr>ws_worker := w, ws_calls := (ws_calls s)[i := k]\<rparr>)"
| pass: "rw_phase (ws_worker s) = AtPass \<Longrightarrow> run_pass pe (ws_worker s, ws_db s) = (w, db)
    \<Longrightarrow> wstep s (s\<lparr>ws_worker := w, ws_db := db\<rparr>)"
| stopped: "rw_phase (ws_worker s) = AtSelect \<Longrightarrow> rw_cancelled (ws_worker s)
    \<Longrightarrow> wstep s (s\<lparr>ws_worker := loop_exit (ws_worker s)\<rparr>)"
| woken: "rw_phase (ws_worker s) = AtSelect \<Longrightarrow> rw_notify (ws_worker s)
    \<Longrightarrow> wstep s (s\<lparr>ws_worker := (ws_worker s)\<lparr>rw_notify := False, rw_phase := AtPass\<rparr>\<rparr>)"
| tick: "rw_phase (ws_worker s) = AtSelect
    \<Longrightarrow> wstep s (s\<lparr>ws_worker := (ws_worker s)\<lparr>rw_phase := AtPass\<rparr>\<rparr>)"
| elsewhere: "wstep s (s\<lparr>ws_db := db\<rparr>)"

inductive wreach :: "Worker \<Rightarrow> wsys \<Rightarrow> bool" for w0 where
  init: "wreach w0 \<lparr>ws_worker = w0, ws_calls = [], ws_db = db\<rparr>"
| step: "wreach w0 s \<Longrightarrow> wstep s t \<Longrightarrow> wreach w0 t"

section \<open>The worker for all projects\<close>

record GlobalReembedder =
  gr_batchSize :: int
  gr_interval :: duration
  gr_backoff :: duration
  gr_consecutiveErrors :: int
  gr_poolResets :: nat

definition NewGlobalReembedder :: "int \<Rightarrow> duration \<Rightarrow> GlobalReembedder" where
  "NewGlobalReembedder n interval =
     \<lparr>gr_batchSize = (if n \<le> 0 then 100 else n), gr_interval = interval, gr_backoff = interval,
      gr_consecutiveErrors = 0, gr_poolResets = 0\<rparr>"

definition consecutiveErrorThreshold :: int where
  "consecutiveErrorThreshold = 3"

definition global_maxBackoff :: duration where
  "global_maxBackoff = 5 * minute"

text \<open>
  What a batch meets: what other transactions did to the chunks since the batch before (stores,
  deletions, other drainers), the rows they hold locked, the calls that fail, the embedder, the order
  in which the goroutines finish and where a cancellation cuts the batch.
\<close>

record global_env =
  ge_meanwhile :: "Chunk list \<Rightarrow> Chunk list"
  ge_locked :: "string \<Rightarrow> bool"
  ge_fault :: "gw_call \<Rightarrow> bool"
  ge_embed :: "string \<Rightarrow> float32 list option"
  ge_visit :: "Chunk list \<Rightarrow> Chunk list"
  ge_cut :: "nat option"

definition global_one :: "global_env \<Rightarrow> Chunk \<Rightarrow> Chunk list \<Rightarrow> Chunk list" where
  "global_one ge c rows =
     (case ge_embed ge (c_ChunkText c) of
        None \<Rightarrow> rows
      | Some vec \<Rightarrow> if ge_fault ge (UpdateRow (c_ID c)) then rows else set_embedding (c_ID c) vec rows)"

definition Global_runBatch :: "global_env \<Rightarrow> int \<Rightarrow> Chunk list \<Rightarrow> Chunk list \<times> (gw_call + int)" where
  "Global_runBatch ge n rows =
     (if ge_fault ge BeginClaim then (rows, Inl BeginClaim)
      else if ge_fault ge QueryPending then (rows, Inl QueryPending)
      else if ge_fault ge CommitClaim then (rows, Inl CommitClaim)
      else let chunks = claim_pending (ge_locked ge) n rows in
        if chunks = [] then (rows, Inr 0)
        else let started = (case ge_cut ge of None \<Rightarrow> chunks | Some k \<Rightarrow> take k chunks) in
          (fold (global_one ge) (ge_visit ge started) rows, Inr (int (length chunks))))"

text \<open>What \<^verbatim>\<open>run\<close> does with the result of a batch, and whether it drains on without waiting.\<close>

definition after_batch :: "gw_call + int \<Rightarrow> GlobalReembedder \<Rightarrow> GlobalReembedder \<times> bool" where
  "after_batch r g =
     (case r of
        Inl _ \<Rightarrow>
          (let consecutive = gr_consecutiveErrors g + 1; g1 = g\<lparr>gr_consecutiveErrors := consecutive\<rparr> in
           (if consecutive \<ge> consecutiveErrorThreshold
            then g1\<lparr>gr_poolResets := gr_poolResets g1 + 1\<rparr> else g1, False))
      | Inr n \<Rightarrow>
          (let g1 = g\<lparr>gr_consecutiveErrors := 0\<rparr> in
           if n = 0 then (g1\<lparr>gr_backoff := min (gr_backoff g1 * 2) global_maxBackoff\<rparr>, False)
           else (g1\<lparr>gr_backoff := gr_interval g1\<rparr>, \<not> n < gr_batchSize g1)))"

text \<open>
  The drain loop; \<open>envs k\<close> is what batch \<open>k\<close> meets. \<open>None\<close>: it never ends. Other transactions change
  chunks between batches, not while one runs.
\<close>

partial_function (option) drain_loop ::
    "(nat \<Rightarrow> global_env) \<Rightarrow> nat \<Rightarrow> GlobalReembedder \<times> Chunk list \<Rightarrow> (GlobalReembedder \<times> Chunk list) option" where
  "drain_loop envs k s =
     (let (rows, r) = Global_runBatch (envs k) (gr_batchSize (fst s)) (ge_meanwhile (envs k) (snd s));
          (g, again) = after_batch r (fst s) in
      if again then drain_loop envs (Suc k) (g, rows) else Some (g, rows))"

section \<open>The worker in the engine\<close>

text \<open>
  The fields of the engine that concern its worker. A stopped worker is dropped by the engine but
  not gone: \<open>ew_retired\<close> keeps it. The engine's context is set when it is made.
\<close>

record engine_worker =
  ew_override :: "client option"
  ew_worker :: Worker
  ew_retired :: "Worker list"

definition New_reembedder :: "call_env \<Rightarrow> client \<Rightarrow> string \<Rightarrow> database \<Rightarrow> engine_worker" where
  "New_reembedder env c project db =
     \<lparr>ew_override = None, ew_worker = NewWorkerFromMeta env c project db, ew_retired = []\<rparr>"

definition SetReembedEmbedder :: "call_env \<Rightarrow> client option \<Rightarrow> database \<Rightarrow> engine_worker \<Rightarrow> engine_worker" where
  "SetReembedEmbedder env cl db s =
     (case cl of
        None \<Rightarrow> s
      | Some c \<Rightarrow>
          (let project = rw_project (ew_worker s); wasActive = rw_active (ew_worker s) in
           \<lparr>ew_override = Some c,
            ew_worker = (if wasActive then StartWithContext (NewWorker c project True)
              else NewWorkerFromMeta env c project db),
            ew_retired = Worker_Stop (ew_worker s) # ew_retired s\<rparr>))"

section \<open>Lifecycle\<close>

text \<open>
  The goroutine is launched at most once and \<^verbatim>\<open>done\<close> closed at most once, in agreement with the
  phase of the loop.
\<close>

definition worker_ok :: "Worker \<Rightarrow> bool" where
  "worker_ok w \<longleftrightarrow>
     (case rw_phase w of
        NotStarted \<Rightarrow> rw_starts w = 0 \<and> rw_closes w = (if rw_startOnce w then 1 else 0)
      | LoopExited \<Rightarrow> rw_startOnce w \<and> rw_starts w = 1 \<and> rw_closes w = 1
      | _ \<Rightarrow> rw_startOnce w \<and> rw_starts w = 1 \<and> rw_closes w = 0)"

lemma worker_ok_New [inv_rules]: "worker_ok (NewWorker c p a)"
  by (simp add: worker_ok_def NewWorker_def)

lemma worker_ok_call [inv_rules]: "worker_ok w \<Longrightarrow> worker_ok (fst (call_step k w))"
  by (cases k) (auto simp: worker_ok_def once_start_def once_close_def split: loop_phase.splits)

lemma run_pass_fields [simp]:
  "rw_active (fst (run_pass pe s)) = rw_active (fst s)"
  "rw_startOnce (fst (run_pass pe s)) = rw_startOnce (fst s)"
  "rw_parentCtx (fst (run_pass pe s)) = rw_parentCtx (fst s)"
  "rw_cancelled (fst (run_pass pe s)) = rw_cancelled (fst s)"
  "rw_starts (fst (run_pass pe s)) = rw_starts (fst s)"
  "rw_project (fst (run_pass pe s)) = rw_project (fst s)"
  by (auto simp: run_pass_def loop_exit_def Let_def split: prod.splits)

lemma run_pass_phase:
  "rw_phase (fst (run_pass pe s)) = (if rw_cancelled (fst s) then LoopExited else AtSelect)"
  "rw_closes (fst (run_pass pe s)) = rw_closes (fst s) + (if rw_cancelled (fst s) then 1 else 0)"
  by (auto simp: run_pass_def loop_exit_def Let_def split: prod.splits)

text \<open>What a call at a given point knows of the worker, and that a launch is not missed.\<close>

definition call_knows :: "Worker \<Rightarrow> wcall \<Rightarrow> bool" where
  "call_knows w k \<longleftrightarrow>
     (k \<in> {AtStartCheck, AtStartDo, StartReturned} \<longrightarrow> rw_parentCtx w)
     \<and> (k \<in> {AtNotifyRead, AtNotifyDo, AtNotifySend, NotifyReturned} \<longrightarrow> rw_active w)
     \<and> (k \<in> {AtStopCancel, AtStopWait} \<longrightarrow> has_cancel w)
     \<and> (k = AtStopWait \<longrightarrow> rw_cancelled w) \<and> (k = StopReturned \<longrightarrow> rw_startOnce w)"

definition launch_not_missed :: "wcall set \<Rightarrow> Worker \<Rightarrow> bool" where
  "launch_not_missed ks w \<longleftrightarrow>
     (StartReturned \<in> ks \<and> (AtNotifySend \<in> ks \<or> NotifyReturned \<in> ks) \<longrightarrow> rw_startOnce w)"

definition stop_calls :: "wcall set" where
  "stop_calls = {AtStop, AtStopCancel, AtStopWait, AtStopDo, StopReturned}"

definition quiet_without_stop :: "wcall set \<Rightarrow> Worker \<Rightarrow> bool" where
  "quiet_without_stop ks w \<longleftrightarrow>
     (ks \<inter> stop_calls = {} \<longrightarrow>
       \<not> rw_cancelled w \<and> rw_phase w \<noteq> LoopExited \<and> (rw_startOnce w \<longrightarrow> rw_phase w \<noteq> NotStarted))"

definition wsys_inv :: "wsys \<Rightarrow> bool" where
  "wsys_inv s \<longleftrightarrow> worker_ok (ws_worker s) \<and> (\<forall>k \<in> set (ws_calls s). call_knows (ws_worker s) k)
     \<and> launch_not_missed (set (ws_calls s)) (ws_worker s) \<and> quiet_without_stop (set (ws_calls s)) (ws_worker s)"

text \<open>A step raises flags, it never lowers one.\<close>

definition raises :: "Worker \<Rightarrow> Worker \<Rightarrow> bool" where
  "raises w w' \<longleftrightarrow> (rw_parentCtx w \<longrightarrow> rw_parentCtx w') \<and> (rw_active w \<longrightarrow> rw_active w')
     \<and> (has_cancel w \<longrightarrow> has_cancel w') \<and> (rw_cancelled w \<longrightarrow> rw_cancelled w')
     \<and> (rw_startOnce w \<longrightarrow> rw_startOnce w')"

lemma raises_call: "raises w (fst (call_step k w))"
  by (cases k) (auto simp: raises_def has_cancel_def once_start_def once_close_def)

lemma raises_knows: "raises w w' \<Longrightarrow> call_knows w k \<Longrightarrow> call_knows w' k"
  unfolding raises_def call_knows_def by blast

lemma raises_launch: "raises w w' \<Longrightarrow> launch_not_missed ks w \<Longrightarrow> launch_not_missed ks w'"
  unfolding raises_def launch_not_missed_def by blast

lemma call_step_knows:
  assumes "call_knows w k" "worker_ok w"
  shows "call_knows (fst (call_step k w)) (snd (call_step k w))"
  using assms
  by (cases k) (auto simp: call_knows_def has_cancel_def once_start_def once_close_def worker_ok_def
      split: loop_phase.splits)

lemma call_step_launch:
  assumes "launch_not_missed ks w" "\<forall>j \<in> ks. call_knows w j" "k \<in> ks"
    and "ks' \<subseteq> insert (snd (call_step k w)) ks"
  shows "launch_not_missed ks' (fst (call_step k w))"
proof -
  have active: "AtNotifySend \<in> ks \<or> NotifyReturned \<in> ks \<Longrightarrow> rw_active w"
    and parent: "StartReturned \<in> ks \<Longrightarrow> rw_parentCtx w"
    using assms(2) unfolding call_knows_def by blast+
  have "launch_not_missed (insert (snd (call_step k w)) ks) (fst (call_step k w))"
    using assms(1,3) active parent unfolding launch_not_missed_def
    by (cases k; simp add: once_start_def once_close_def; blast)
  with assms(4) show ?thesis unfolding launch_not_missed_def by blast
qed

lemma call_step_quiet:
  assumes "quiet_without_stop (set ks) w" "call_knows w k" "i < length ks" "ks ! i = k" "worker_ok w"
  shows "quiet_without_stop (set (ks[i := snd (call_step k w)])) (fst (call_step k w))"
proof -
  let ?k = "snd (call_step k w)"
  have new: "?k \<in> set (ks[i := ?k])" using assms(3) by (simp add: set_update_memI)
  show ?thesis
  proof (cases "k \<in> stop_calls")
    case True
    then have "?k \<in> stop_calls" by (auto simp: stop_calls_def)
    with new show ?thesis unfolding quiet_without_stop_def by blast
  next
    case False
    have "set ks \<inter> stop_calls \<noteq> {} \<Longrightarrow> set (ks[i := ?k]) \<inter> stop_calls \<noteq> {}"
    proof -
      assume "set ks \<inter> stop_calls \<noteq> {}"
      then obtain j where "j < length ks" "ks ! j \<in> stop_calls" by (auto simp: in_set_conv_nth)
      with False assms(3,4) have "ks[i := ?k] ! j \<in> stop_calls" "j < length (ks[i := ?k])"
        by (auto simp: nth_list_update)
      then show ?thesis using nth_mem by blast
    qed
    moreover have "k \<notin> stop_calls \<Longrightarrow> quiet_without_stop {} w \<Longrightarrow> quiet_without_stop {} (fst (call_step k w))"
      using assms(5)
      by (cases k) (auto simp: quiet_without_stop_def once_start_def stop_calls_def worker_ok_def)
    ultimately show ?thesis using assms(1) False unfolding quiet_without_stop_def by auto
  qed
qed

lemma wsys_inv_loop:
  assumes "wsys_inv s" "raises (ws_worker s) w" "worker_ok w"
    and "quiet_without_stop (set (ws_calls s)) w"
  shows "wsys_inv (s\<lparr>ws_worker := w, ws_db := db\<rparr>)"
  using assms raises_knows raises_launch unfolding wsys_inv_def by simp

lemma wsys_inv_step: "wstep s t \<Longrightarrow> wsys_inv s \<Longrightarrow> wsys_inv t"
proof (induction rule: wstep.induct)
  case (invoke k s)
  then show ?case
    by (auto simp: wsys_inv_def call_knows_def launch_not_missed_def quiet_without_stop_def)
next
  case (advance i s w k)
  let ?c = "ws_calls s ! i"
  have c: "?c \<in> set (ws_calls s)" and w: "w = fst (call_step ?c (ws_worker s))"
    and k: "k = snd (call_step ?c (ws_worker s))"
    using advance.hyps by simp_all
  have sub: "set ((ws_calls s)[i := k]) \<subseteq> insert k (set (ws_calls s))"
    by (rule set_update_subset_insert)
  have inv: "worker_ok (ws_worker s)" "\<forall>k \<in> set (ws_calls s). call_knows (ws_worker s) k"
    "launch_not_missed (set (ws_calls s)) (ws_worker s)" "quiet_without_stop (set (ws_calls s)) (ws_worker s)"
    using advance.prems unfolding wsys_inv_def by blast+
  have "call_knows w j" if "j \<in> set ((ws_calls s)[i := k])" for j
    using that sub inv(1,2) c call_step_knows raises_knows [OF raises_call] unfolding w k by blast
  moreover have "launch_not_missed (set ((ws_calls s)[i := k])) w"
    unfolding w by (rule call_step_launch [OF inv(3,2) c sub [unfolded k], folded k])
  moreover have "quiet_without_stop (set ((ws_calls s)[i := k])) w"
    unfolding w k using inv(1,2,4) c advance.hyps(1) by (intro call_step_quiet) auto
  ultimately show ?case
    unfolding wsys_inv_def using inv(1) worker_ok_call w by simp
next
  case (pass s pe w db)
  then have w: "w = fst (run_pass pe (ws_worker s, ws_db s))" by simp
  have inv: "worker_ok (ws_worker s)" "quiet_without_stop (set (ws_calls s)) (ws_worker s)"
    using pass.prems unfolding wsys_inv_def by blast+
  show ?case
    by (rule wsys_inv_loop [OF pass.prems])
      (use inv pass.hyps(1) in \<open>auto simp: w raises_def has_cancel_def worker_ok_def
        quiet_without_stop_def run_pass_phase\<close>)
next
  case (stopped s)
  have "wsys_inv (s\<lparr>ws_worker := loop_exit (ws_worker s), ws_db := ws_db s\<rparr>)"
    by (rule wsys_inv_loop [OF stopped.prems])
      (use stopped in \<open>auto simp: raises_def has_cancel_def worker_ok_def wsys_inv_def
        quiet_without_stop_def loop_exit_def\<close>)
  then show ?case by simp
next
  case (woken s)
  have "wsys_inv (s\<lparr>ws_worker := (ws_worker s)\<lparr>rw_notify := False, rw_phase := AtPass\<rparr>, ws_db := ws_db s\<rparr>)"
    by (rule wsys_inv_loop [OF woken.prems])
      (use woken in \<open>auto simp: raises_def has_cancel_def worker_ok_def wsys_inv_def
        quiet_without_stop_def\<close>)
  then show ?case by simp
next
  case (tick s)
  have "wsys_inv (s\<lparr>ws_worker := (ws_worker s)\<lparr>rw_phase := AtPass\<rparr>, ws_db := ws_db s\<rparr>)"
    by (rule wsys_inv_loop [OF tick.prems])
      (use tick in \<open>auto simp: raises_def has_cancel_def worker_ok_def wsys_inv_def
        quiet_without_stop_def\<close>)
  then show ?case by simp
next
  case (elsewhere s db)
  then show ?case by (simp add: wsys_inv_def)
qed

lemma wsys_inv_reach: "wreach (NewWorker c p a) s \<Longrightarrow> wsys_inv s"
proof (induction rule: wreach.induct)
  case (init db)
  show ?case
    by (simp add: wsys_inv_def worker_ok_def launch_not_missed_def quiet_without_stop_def NewWorker_def)
qed (use wsys_inv_step in blast)


text \<open>Schedules of calls only: who is called next, or which call makes its next access.\<close>

datatype move = Invoke wcall | Advance nat

fun make_move :: "move \<Rightarrow> wsys \<Rightarrow> wsys" where
  "make_move (Invoke k) s =
     (if k \<in> {AtStart, AtNotify, AtStop} then s\<lparr>ws_calls := ws_calls s @ [k]\<rparr> else s)"
| "make_move (Advance i) s =
     (if i < length (ws_calls s)
      then let (w, k) = call_step (ws_calls s ! i) (ws_worker s) in
        s\<lparr>ws_worker := w, ws_calls := (ws_calls s)[i := k]\<rparr>
      else s)"

lemma wreach_move: "wreach w0 s \<Longrightarrow> wreach w0 (make_move m s)"
  by (cases m) (auto intro: wreach.step wstep.invoke wstep.advance split: prod.splits)

lemma wreach_moves: "wreach w0 s \<Longrightarrow> wreach w0 (run_ops make_move ms s)"
  by (induction ms arbitrary: s) (simp_all add: wreach_move)

definition idle_system :: "Worker \<Rightarrow> database \<Rightarrow> wsys" where
  "idle_system w db = \<lparr>ws_worker = w, ws_calls = [], ws_db = db\<rparr>"

lemma wreach_idle: "wreach w (run_ops make_move ms (idle_system w db))"
  unfolding idle_system_def by (rule wreach_moves [OF wreach.init])


text \<open>
  A stop can miss the launch it races with. When \<^verbatim>\<open>Stop\<close> has found no goroutine and a
  notification launches one before \<^verbatim>\<open>Stop\<close> reaches \<^verbatim>\<open>startOnce\<close>, both calls return, the context is
  never cancelled and the goroutine keeps running; no later call of \<^verbatim>\<open>Notify\<close> changes that. A stop
  that returned before the launch prevents it for good.
\<close>

theorem stop_misses_concurrent_launch:
  "(\<exists>s. wreach (NewWorker c p False) s \<and> ws_calls s = [StartReturned, StopReturned, NotifyReturned]
      \<and> rw_phase (ws_worker s) = AtPass \<and> \<not> rw_cancelled (ws_worker s))
   \<and> rw_phase (Worker_Notify (Worker_Stop (StartWithContext (NewWorker c p False)))) = NotStarted"
proof -
  let ?ms = "[Invoke AtStart, Advance 0, Advance 0, Invoke AtStop, Advance 1, Invoke AtNotify,
      Advance 2, Advance 2, Advance 2, Advance 2, Advance 1]"
  let ?s = "run_ops make_move ?ms (idle_system (NewWorker c p False) stored_db)"
  have "ws_calls ?s = [StartReturned, StopReturned, NotifyReturned]"
    "rw_phase (ws_worker ?s) = AtPass" "\<not> rw_cancelled (ws_worker ?s)"
    by (simp_all add: idle_system_def NewWorker_def once_start_def once_close_def has_cancel_def)
  with wreach_idle have "\<exists>s. wreach (NewWorker c p False) s
      \<and> ws_calls s = [StartReturned, StopReturned, NotifyReturned]
      \<and> rw_phase (ws_worker s) = AtPass \<and> \<not> rw_cancelled (ws_worker s)"
    by blast
  then show ?thesis
    by (simp add: Worker_Notify_def Worker_Stop_def StartWithContext_def NewWorker_def once_start_def
        once_close_def has_cancel_def Let_def)
qed

section \<open>What a batch writes\<close>

definition put_answers :: "(Chunk \<Rightarrow> float32 list option) \<Rightarrow> Chunk list \<Rightarrow> Chunk list \<Rightarrow> Chunk list" where
  "put_answers ans cs rows =
     fold (\<lambda>c rows. case ans c of None \<Rightarrow> rows | Some vec \<Rightarrow> set_embedding (c_ID c) vec rows) cs rows"

definition answered :: "(Chunk \<Rightarrow> float32 list option) \<Rightarrow> Chunk \<Rightarrow> Chunk" where
  "answered ans c = (case ans c of None \<Rightarrow> c | Some vec \<Rightarrow> c\<lparr>c_Embedding := vec\<rparr>)"

lemma answered_fields [simp]:
  "c_ID (answered ans c) = c_ID c" "c_MemoryID (answered ans c) = c_MemoryID c"
  "c_ChunkText (answered ans c) = c_ChunkText c"
  by (simp_all add: answered_def split: option.splits)

lemma put_answers_find:
  assumes "\<And>c. ans c \<noteq> Some []"
  shows "put_answers ans cs rows
     = map (\<lambda>r. if pending_chunk r
         then case find (\<lambda>c. c_ID c = c_ID r \<and> ans c \<noteq> None) cs of
             None \<Rightarrow> r | Some c \<Rightarrow> r\<lparr>c_Embedding := the (ans c)\<rparr>
         else r) rows"
  unfolding put_answers_def
proof (induction cs arbitrary: rows)
  case (Cons c cs)
  show ?case
  proof (cases "ans c")
    case None
    then show ?thesis by (simp add: Cons.IH cong: if_cong)
  next
    case (Some vec)
    with assms [of c] show ?thesis
      by (auto simp: Cons.IH set_embedding_def pending_chunk_def)
  qed
qed (simp add: map_idI)

lemma put_answers_rows:
  assumes "\<And>c. ans c \<noteq> Some []" "distinct (map c_ID rows)" "set cs \<subseteq> {c \<in> set rows. pending_chunk c}"
  shows "put_answers ans cs rows = map (\<lambda>r. if r \<in> set cs then answered ans r else r) rows"
proof -
  have sub: "set cs \<subseteq> set rows" using assms(3) by blast
  have "(if pending_chunk r
         then case find (\<lambda>c. c_ID c = c_ID r \<and> ans c \<noteq> None) cs of
             None \<Rightarrow> r | Some c \<Rightarrow> r\<lparr>c_Embedding := the (ans c)\<rparr>
         else r) = (if r \<in> set cs then answered ans r else r)" if "r \<in> set rows" for r
    using find_own_row [OF assms(2) that sub, of "\<lambda>c. ans c \<noteq> None"] assms(3)
    by (auto simp: answered_def split: option.splits)
  then show ?thesis unfolding put_answers_find [OF assms(1)] by simp
qed

lemma filter_answered:
  assumes "\<And>c. c \<in> C \<Longrightarrow> \<not> pending_chunk (f c)"
  shows "filter (\<lambda>c. Q c \<and> pending_chunk c) (map (\<lambda>r. if r \<in> C then f r else r) rows)
    = filter (\<lambda>c. Q c \<and> pending_chunk c \<and> c \<notin> C) rows"
  using assms by (induction rows) auto

text \<open>How many chunks are still missing a vector, among those \<open>Q\<close> looks at.\<close>

lemma put_answers_progress:
  assumes "\<And>c. ans c \<noteq> Some []" "distinct (map c_ID rows)"
    and "set cs \<subseteq> {c \<in> set rows. Q c \<and> pending_chunk c}" "distinct cs" "set vs = set cs"
    and "\<And>c. c \<in> set cs \<Longrightarrow> ans c \<noteq> None"
  shows "length (filter (\<lambda>c. Q c \<and> pending_chunk c) (put_answers ans vs rows))
    = length (filter (\<lambda>c. Q c \<and> pending_chunk c) rows) - length cs"
proof -
  have dist: "distinct rows" using assms(2) by (simp add: distinct_map)
  have filled: "\<not> pending_chunk (answered ans c)" if "c \<in> set cs" for c
    using assms(6) [OF that] assms(1) [of c] by (auto simp: answered_def pending_chunk_def)
  have "put_answers ans vs rows = map (\<lambda>r. if r \<in> set cs then answered ans r else r) rows"
    unfolding assms(5) [symmetric] using assms(3,5) by (intro put_answers_rows assms(1,2)) auto
  then have "filter (\<lambda>c. Q c \<and> pending_chunk c) (put_answers ans vs rows)
      = filter (\<lambda>c. Q c \<and> pending_chunk c \<and> c \<notin> set cs) rows"
    using filter_answered [of "set cs" "answered ans", OF filled] by simp
  then have "length (filter (\<lambda>c. Q c \<and> pending_chunk c) (put_answers ans vs rows))
      = card ({c \<in> set rows. Q c \<and> pending_chunk c} - set cs)"
    using dist by (simp add: distinct_length_filter Int_def set_diff_eq conj_ac)
  also have "\<dots> = card {c \<in> set rows. Q c \<and> pending_chunk c} - length cs"
    using assms(3,4) by (simp add: card_Diff_subset distinct_card)
  also have "card {c \<in> set rows. Q c \<and> pending_chunk c} = length (filter (\<lambda>c. Q c \<and> pending_chunk c) rows)"
    using dist by (simp add: distinct_length_filter Int_def conj_ac)
  finally show ?thesis .
qed

subsection \<open>Passes of a project's worker\<close>

definition pass_answer :: "pass_env \<Rightarrow> Chunk \<Rightarrow> float32 list option" where
  "pass_answer pe c =
     (case p_embed pe (c_ChunkText c) of
        None \<Rightarrow> None
      | Some vec \<Rightarrow> if vec = [] \<or> e_fault (p_update pe (c_ID c)) ''update'' then None else Some vec)"

lemma pass_answer_not_Nil: "pass_answer pe c \<noteq> Some []"
  by (simp add: pass_answer_def split: option.splits)

lemma set_embedding_Nil: "set_embedding i [] rows = rows"
  by (induction rows) (auto simp: set_embedding_def pending_chunk_def)

lemma reembed_one_rows:
  "reembed_one pe c db = db\<lparr>db_chunks := put_answers (pass_answer pe) [c] (db_chunks db)\<rparr>"
  by (simp add: reembed_one_def put_answers_def pass_answer_def UpdateChunkEmbedding_def exec_def
      update_chunks_def set_embedding_def [symmetric] pending_chunk_def [symmetric] set_embedding_Nil
      split: option.splits)

lemma fold_reembed_one:
  "fold (reembed_one pe) cs db = db\<lparr>db_chunks := put_answers (pass_answer pe) cs (db_chunks db)\<rparr>"
proof (induction cs arbitrary: db)
  case (Cons c cs)
  then show ?case by (simp add: reembed_one_rows) (simp add: put_answers_def)
qed (simp add: put_answers_def)

abbreviation missing :: "string \<Rightarrow> database \<Rightarrow> Chunk list" where
  "missing project db \<equiv> filter (\<lambda>c. of_project project db c \<and> pending_chunk c) (db_chunks db)"

lemma pending_query:
  assumes "\<And>xs. mset (tie xs) = mset xs"
  shows "set (GetChunksPendingEmbedding tie project n db) \<subseteq> set (missing project db)"
    and "length (GetChunksPendingEmbedding tie project n db) = min (length (missing project db)) (nat n)"
    and "distinct (db_chunks db) \<Longrightarrow> distinct (GetChunksPendingEmbedding tie project n db)"
proof -
  let ?rows = "sort_stable (\<lambda>a b. accessed db b < accessed db a) (tie (missing project db))"
  have m: "mset ?rows = mset (missing project db)" using assms by simp
  show "set (GetChunksPendingEmbedding tie project n db) \<subseteq> set (missing project db)"
    unfolding GetChunksPendingEmbedding_def
    by (rule subset_trans [OF set_take_subset]) (use mset_eq_setD [OF m] in simp)
  show "length (GetChunksPendingEmbedding tie project n db) = min (length (missing project db)) (nat n)"
    unfolding GetChunksPendingEmbedding_def using mset_eq_length [OF m] by simp
  show "distinct (GetChunksPendingEmbedding tie project n db)" if "distinct (db_chunks db)"
    unfolding GetChunksPendingEmbedding_def using that mset_eq_imp_distinct_iff [OF m]
    by (intro distinct_take) simp
qed

lemma runBatch_frame:
  "fst (Worker_runBatch pe project db) = db\<lparr>db_chunks := db_chunks (fst (Worker_runBatch pe project db))\<rparr>"
  by (auto simp: Worker_runBatch_def Let_def fold_reembed_one split: option.splits)

lemma clear_flag_frame [simp]:
  "db_chunks (clear_flag pe project db) = db_chunks db" "db_memories (clear_flag pe project db) = db_memories db"
  by (simp_all add: clear_flag_def SetMeta_def exec_def)

lemma run_pass_chunks:
  "db_chunks (snd (run_pass pe s)) = db_chunks (fst (Worker_runBatch pe (rw_project (fst s)) (snd s)))"
  "db_memories (snd (run_pass pe s)) = db_memories (snd s)"
proof -
  obtain db1 b where r: "Worker_runBatch pe (rw_project (fst s)) (snd s) = (db1, b)" by fastforce
  have "db_memories db1 = db_memories (snd s)"
    using arg_cong [OF runBatch_frame [of pe "rw_project (fst s)" "snd s"], of db_memories] r by simp
  then show "db_chunks (snd (run_pass pe s)) = db_chunks (fst (Worker_runBatch pe (rw_project (fst s)) (snd s)))"
    "db_memories (snd (run_pass pe s)) = db_memories (snd s)"
    by (simp_all add: run_pass_def Let_def r)
qed

text \<open>Whatever happens in a pass, of the chunks only embeddings change.\<close>

definition vectorless :: "Chunk \<Rightarrow> Chunk" where
  "vectorless c = c\<lparr>c_Embedding := []\<rparr>"

lemma vectorless_put_answers: "map vectorless (put_answers ans cs rows) = map vectorless rows"
proof (induction cs arbitrary: rows)
  case (Cons c cs)
  have "map vectorless (set_embedding i vec rows) = map vectorless rows" for i vec
    by (simp add: set_embedding_def vectorless_def)
  with Cons show ?case by (simp add: put_answers_def split: option.splits)
qed (simp add: put_answers_def)

lemma vectorless_run_pass: "map vectorless (db_chunks (snd (run_pass pe s))) = map vectorless (db_chunks (snd s))"
  by (simp add: run_pass_chunks Worker_runBatch_def Let_def fold_reembed_one vectorless_put_answers)

lemma vectorless_passes:
  "map vectorless (db_chunks (snd (run_ops run_pass pes s))) = map vectorless (db_chunks (snd s))"
  "db_memories (snd (run_ops run_pass pes s)) = db_memories (snd s)"
  by (induction pes arbitrary: s) (simp_all add: vectorless_run_pass run_pass_chunks(2))

text \<open>A pass in which everything the worker relies on answers.\<close>

definition good_pass :: "(Chunk \<Rightarrow> bool) \<Rightarrow> pass_env \<Rightarrow> bool" where
  "good_pass embeddable pe \<longleftrightarrow> \<not> p_fetchFails pe \<and> p_cut pe = None
     \<and> (\<forall>xs. mset (p_tie pe xs) = mset xs) \<and> (\<forall>xs. set (p_visit pe xs) = set xs)
     \<and> (\<forall>c. embeddable c \<longrightarrow> pass_answer pe c \<noteq> None)"

lemma good_batch:
  assumes "good_pass (\<lambda>c. c_ChunkText c \<in> T) pe" "distinct (map c_ID (db_chunks db))"
    and "\<forall>c \<in> set (missing project db). c_ChunkText c \<in> T"
  shows "map c_ID (db_chunks (fst (Worker_runBatch pe project db))) = map c_ID (db_chunks db)"
    and "length (missing project (fst (Worker_runBatch pe project db))) = length (missing project db) - 20"
    and "snd (Worker_runBatch pe project db) \<longleftrightarrow> length (missing project db) < 20"
    and "\<forall>c \<in> set (missing project (fst (Worker_runBatch pe project db))). c_ChunkText c \<in> T"
proof -
  let ?cs = "GetChunksPendingEmbedding (p_tie pe) project reembed_batchSize db"
  let ?db = "fst (Worker_runBatch pe project db)"
  have tie: "mset (p_tie pe xs) = mset xs" and visit: "set (p_visit pe xs) = set xs" for xs
    using assms(1) by (simp_all add: good_pass_def)
  note q = pending_query [where tie = "p_tie pe" and project = project and n = reembed_batchSize and db = db, OF tie]
  have dist: "distinct (db_chunks db)" using assms(2) by (simp add: distinct_map)
  have sub: "set ?cs \<subseteq> {c \<in> set (db_chunks db). of_project project db c \<and> pending_chunk c}"
    using q(1) by simp
  have rows: "db_chunks ?db = put_answers (pass_answer pe) (p_visit pe ?cs) (db_chunks db)"
  proof (cases "?cs = []")
    case True
    then have "p_visit pe ?cs = []" using visit [of ?cs] by simp
    with True assms(1) show ?thesis by (simp add: Worker_runBatch_def good_pass_def put_answers_def)
  next
    case False
    with assms(1) show ?thesis by (simp add: Worker_runBatch_def good_pass_def fold_reembed_one Let_def)
  qed
  have mems: "db_memories ?db = db_memories db"
    by (subst runBatch_frame) simp
  have proj: "of_project project ?db = of_project project db"
    by (rule ext) (simp add: of_project_def mems)
  have map_rows: "db_chunks ?db = map (\<lambda>r. if r \<in> set ?cs then answered (pass_answer pe) r else r) (db_chunks db)"
    unfolding rows using sub visit
    by (subst put_answers_rows [OF pass_answer_not_Nil assms(2)]) auto
  show "map c_ID (db_chunks ?db) = map c_ID (db_chunks db)"
    unfolding map_rows by simp
  have "length (missing project ?db) = length (missing project db) - length ?cs"
    unfolding proj rows
    using sub visit assms(1,3) q(1)
    by (intro put_answers_progress [OF pass_answer_not_Nil assms(2) sub q(3) [OF dist]])
      (auto simp: good_pass_def)
  also have "\<dots> = length (missing project db) - 20"
    using q(2) by (simp add: reembed_batchSize_def)
  finally show "length (missing project ?db) = length (missing project db) - 20" .
  show "snd (Worker_runBatch pe project db) \<longleftrightarrow> length (missing project db) < 20"
    using assms(1) q(2) by (auto simp: Worker_runBatch_def good_pass_def Let_def reembed_batchSize_def)
  have "filter (\<lambda>c. of_project project db c \<and> pending_chunk c) (db_chunks ?db)
      = filter (\<lambda>c. of_project project db c \<and> pending_chunk c \<and> c \<notin> set ?cs) (db_chunks db)"
    unfolding map_rows
  proof (rule filter_answered)
    fix c assume "c \<in> set ?cs"
    then have "pass_answer pe c \<noteq> None" using q(1) assms(1,3) by (auto simp: good_pass_def)
    with pass_answer_not_Nil [of pe c] show "\<not> pending_chunk (answered (pass_answer pe) c)"
      by (auto simp: answered_def pending_chunk_def)
  qed
  then show "\<forall>c \<in> set (missing project ?db). c_ChunkText c \<in> T"
    unfolding proj using assms(3) by auto
qed

abbreviation migration_flag :: string where
  "migration_flag \<equiv> ''embedding_migration_in_progress''"

definition flag_settled :: "Worker \<times> database \<Rightarrow> bool" where
  "flag_settled s \<longleftrightarrow> rw_cleared (fst s) \<longrightarrow> GetMeta (rw_project (fst s)) migration_flag (snd s) = Some ''false''"

lemma GetMeta_clear_flag:
  "\<not> e_fault (p_flag pe) (''set meta '' @ migration_flag)
   \<Longrightarrow> GetMeta project migration_flag (clear_flag pe project db) = Some ''false''"
  by (simp add: GetMeta_def clear_flag_def SetMeta_def exec_def)

lemma run_pass_flag:
  assumes "\<not> rw_cancelled (fst s)" "flag_settled s" "\<not> e_fault (p_flag pe) (''set meta '' @ migration_flag)"
  shows "flag_settled (run_pass pe s)"
    and "rw_cleared (fst (run_pass pe s)) \<longleftrightarrow>
      rw_cleared (fst s) \<or> snd (Worker_runBatch pe (rw_project (fst s)) (snd s))"
proof -
  obtain db1 b where r: "Worker_runBatch pe (rw_project (fst s)) (snd s) = (db1, b)" by fastforce
  have "db_meta db1 = db_meta (snd s)"
    using arg_cong [OF runBatch_frame [of pe "rw_project (fst s)" "snd s"], of db_meta] r by simp
  then show "flag_settled (run_pass pe s)"
    and "rw_cleared (fst (run_pass pe s)) \<longleftrightarrow>
      rw_cleared (fst s) \<or> snd (Worker_runBatch pe (rw_project (fst s)) (snd s))"
    using assms by (auto simp: flag_settled_def run_pass_def Let_def r GetMeta_clear_flag)
      (auto simp: GetMeta_def)
qed

lemma missing_cong:
  "db_chunks db = db_chunks db' \<Longrightarrow> db_memories db = db_memories db' \<Longrightarrow> missing project db = missing project db'"
  by (simp add: of_project_def)

lemma passes_catch_up:
  assumes "distinct (map c_ID (db_chunks (snd s)))" "\<not> rw_cancelled (fst s)" "flag_settled s"
    and "\<forall>pe \<in> set pes. good_pass (\<lambda>c. c_ChunkText c \<in> T) pe
      \<and> \<not> e_fault (p_flag pe) (''set meta '' @ migration_flag)"
    and "\<forall>c \<in> set (missing (rw_project (fst s)) (snd s)). c_ChunkText c \<in> T"
    and "length (missing (rw_project (fst s)) (snd s)) < 20 * length pes
      \<or> missing (rw_project (fst s)) (snd s) = [] \<and> rw_cleared (fst s)"
  shows "missing (rw_project (fst s)) (snd (run_ops run_pass pes s)) = []
    \<and> GetMeta (rw_project (fst s)) migration_flag (snd (run_ops run_pass pes s)) = Some ''false''"
  using assms
proof (induction pes arbitrary: s)
  case Nil
  then show ?case by (simp add: flag_settled_def)
next
  case (Cons pe pes)
  let ?p = "rw_project (fst s)" and ?t = "run_pass pe s"
  have good: "good_pass (\<lambda>c. c_ChunkText c \<in> T) pe" and ok: "\<not> e_fault (p_flag pe) (''set meta '' @ migration_flag)"
    and rest: "\<forall>pe \<in> set pes. good_pass (\<lambda>c. c_ChunkText c \<in> T) pe
      \<and> \<not> e_fault (p_flag pe) (''set meta '' @ migration_flag)"
    using Cons.prems(4) by simp_all
  note batch = good_batch [OF good Cons.prems(1) Cons.prems(5)]
  have miss: "missing ?p (snd ?t) = missing ?p (fst (Worker_runBatch pe ?p (snd s)))"
    by (rule missing_cong) (simp_all add: run_pass_chunks arg_cong [OF runBatch_frame, of db_memories])
  note flag = run_pass_flag [OF Cons.prems(2,3) ok]
  have enough: "length (missing ?p (snd ?t)) < 20 * length pes
      \<or> missing ?p (snd ?t) = [] \<and> rw_cleared (fst ?t)"
    using Cons.prems(6) batch(2,3) flag(2) unfolding miss by (cases pes) auto
  have "missing (rw_project (fst ?t)) (snd (run_ops run_pass pes ?t)) = []
    \<and> GetMeta (rw_project (fst ?t)) migration_flag (snd (run_ops run_pass pes ?t)) = Some ''false''"
    using Cons.prems(1,2) batch(1,4) flag(1) enough miss
    by (intro Cons.IH rest) (simp_all only: run_pass_chunks run_pass_fields not_False_eq_True)
  then show ?case by (simp only: run_ops_Cons run_pass_fields)
qed

text \<open>
  C19: The worker of a project catches up. Let it not be stopped and not have cleared the migration
  flag before. When the database answers and the embedder has a vector for
  the text of every chunk of the project that lacks one, one pass more than there are full batches
  leaves no such chunk and the migration flag cleared, whatever the order in which rows come and
  goroutines finish.
\<close>

theorem worker_catches_up:
  assumes "distinct (map c_ID (db_chunks db))" "\<not> rw_cancelled w" "\<not> rw_cleared w"
    and "\<forall>pe \<in> set pes. good_pass (\<lambda>c. c_ChunkText c \<in> T) pe
      \<and> \<not> e_fault (p_flag pe) (''set meta '' @ migration_flag)"
    and "\<forall>c \<in> set (missing (rw_project w) db). c_ChunkText c \<in> T"
    and "length pes = length (missing (rw_project w) db) div 20 + 1"
  shows "missing (rw_project w) (snd (run_ops run_pass pes (w, db))) = []
    \<and> GetMeta (rw_project w) migration_flag (snd (run_ops run_pass pes (w, db))) = Some ''false''"
  using passes_catch_up [of "(w, db)" pes T] assms by (simp add: flag_settled_def)

definition calm_pass :: "(string \<Rightarrow> float32 list option) \<Rightarrow> pass_env" where
  "calm_pass emb =
     \<lparr>p_fetchFails = False, p_tie = id, p_embed = emb, p_update = (\<lambda>_. calm), p_visit = rev,
      p_cut = None, p_flag = calm\<rparr>"

definition flagged_db :: database where
  "flagged_db = stored_db\<lparr>db_meta := [((''p'', migration_flag), ''true'')]\<rparr>"

lemma flagged_db_missing: "missing ''p'' flagged_db = [stored_chunk]"
  by (simp add: flagged_db_def stored_db_def of_project_def inserted_row_def prepare_memory_def
      stored_empty_simps stored_chunk_def new_chunk_def pending_chunk_def empty_db_def)

theorem worker_catches_up_witness:
  "missing ''p'' (snd (run_ops run_pass [calm_pass (\<lambda>_. Some [1])] (NewWorker (''bge-m3'', 1024) ''p'' True, flagged_db))) = []"
proof -
  have "rw_project (NewWorker c ''p'' True) = ''p''" for c by (simp add: NewWorker_def)
  note p = this [of "(''bge-m3'', 1024)"]
  have "good_pass (\<lambda>c. c_ChunkText c \<in> UNIV) (calm_pass (\<lambda>_. Some [1]))"
    by (simp add: good_pass_def calm_pass_def pass_answer_def calm_def)
  then show ?thesis
    using worker_catches_up [of flagged_db "NewWorker (''bge-m3'', 1024) ''p'' True"
        "[calm_pass (\<lambda>_. Some [1])]" UNIV, unfolded p flagged_db_missing]
    by (simp add: flagged_db_def stored_db_def NewWorker_def calm_pass_def calm_def)
qed

lemma fruitless_pass:
  assumes "\<not> rw_cancelled w" "\<not> rw_cleared w" "\<not> p_fetchFails pe" "p_cut pe = None"
    and "\<And>xs. mset (p_tie pe xs) = mset xs" "\<And>xs. set (p_visit pe xs) = set xs"
    and "length (missing (rw_project w) db) < 20"
    and "\<forall>c \<in> set (missing (rw_project w) db). p_embed pe (c_ChunkText c) = None"
  shows "run_pass pe (w, db)
    = (w\<lparr>rw_cleared := True, rw_phase := AtSelect\<rparr>, clear_flag pe (rw_project w) db)"
proof -
  let ?cs = "GetChunksPendingEmbedding (p_tie pe) (rw_project w) reembed_batchSize db"
  note q = pending_query [where tie = "p_tie pe" and project = "rw_project w" and n = reembed_batchSize
      and db = db, OF assms(5)]
  have idle: "\<forall>c \<in> set cs. p_embed pe (c_ChunkText c) = None \<Longrightarrow> fold (reembed_one pe) cs db = db" for cs
    by (induction cs) (simp_all add: reembed_one_def)
  have "fold (reembed_one pe) (p_visit pe ?cs) db = db"
    using q(1) assms(6,8) by (intro idle) auto
  then have "Worker_runBatch pe (rw_project w) db = (db, True)"
    using assms(3,4,7) q(2) by (simp add: Worker_runBatch_def Let_def reembed_batchSize_def)
  then show ?thesis using assms(1,2) by (simp add: run_pass_def)
qed

text \<open>
  C21: The migration is reported complete although nothing was embedded. When fewer chunks than a batch
  lack a vector, the embedder fails on all of them and the flag can be written, the pass counts as
  done: the migration flag then reads \<^verbatim>\<open>false\<close>, although no chunk has changed and the same chunks still
  lack their vectors, and the worker will not write the flag again.
\<close>

theorem migration_cleared_without_vectors:
  assumes "\<not> rw_cancelled w" "\<not> rw_cleared w" "\<not> p_fetchFails pe" "p_cut pe = None"
    and "\<And>xs. mset (p_tie pe xs) = mset xs" "\<And>xs. set (p_visit pe xs) = set xs"
    and "\<not> e_fault (p_flag pe) (''set meta '' @ migration_flag)"
    and "length (missing (rw_project w) db) < 20"
    and "\<forall>c \<in> set (missing (rw_project w) db). p_embed pe (c_ChunkText c) = None"
  shows "let (w', db') = run_pass pe (w, db) in
    GetMeta (rw_project w) migration_flag db' = Some ''false'' \<and> rw_cleared w'
    \<and> db_chunks db' = db_chunks db \<and> missing (rw_project w) db' = missing (rw_project w) db"
proof -
  have "missing (rw_project w) (clear_flag pe (rw_project w) db) = missing (rw_project w) db"
    by (rule missing_cong) simp_all
  moreover have "GetMeta (rw_project w) migration_flag (clear_flag pe (rw_project w) db) = Some ''false''"
    using assms(7) by (simp add: GetMeta_def clear_flag_def SetMeta_def exec_def)
  ultimately show ?thesis by (simp add: fruitless_pass [OF assms(1-6,8,9)])
qed

theorem migration_cleared_without_vectors_witness:
  "GetMeta ''p'' migration_flag flagged_db = Some ''true''
   \<and> (let s = run_pass (calm_pass (\<lambda>_. None)) (NewWorker (''bge-m3'', 1024) ''p'' True, flagged_db) in
      missing ''p'' (snd s) = [stored_chunk] \<and> GetMeta ''p'' migration_flag (snd s) = Some ''false'')"
proof -
  have "rw_project (NewWorker c ''p'' True) = ''p''" for c by (simp add: NewWorker_def)
  note p = this [of "(''bge-m3'', 1024)"]
  have "let (w', db') = run_pass (calm_pass (\<lambda>_. None)) (NewWorker (''bge-m3'', 1024) ''p'' True, flagged_db) in
      GetMeta ''p'' migration_flag db' = Some ''false'' \<and> rw_cleared w'
      \<and> db_chunks db' = db_chunks flagged_db \<and> missing ''p'' db' = [stored_chunk]"
    using migration_cleared_without_vectors [of "NewWorker (''bge-m3'', 1024) ''p'' True" "calm_pass (\<lambda>_. None)"
        flagged_db, unfolded p flagged_db_missing]
    by (simp add: NewWorker_def calm_pass_def calm_def)
  moreover have "GetMeta ''p'' migration_flag flagged_db = Some ''true''" by (simp add: flagged_db_def GetMeta_def)
  ultimately show ?thesis unfolding split_beta Let_def by blast
qed

subsection \<open>The drain over all projects\<close>

definition global_answer :: "global_env \<Rightarrow> Chunk \<Rightarrow> float32 list option" where
  "global_answer ge c =
     (case ge_embed ge (c_ChunkText c) of
        None \<Rightarrow> None
      | Some vec \<Rightarrow> if vec = [] \<or> ge_fault ge (UpdateRow (c_ID c)) then None else Some vec)"

lemma global_answer_not_Nil: "global_answer ge c \<noteq> Some []"
  by (simp add: global_answer_def split: option.splits)

lemma fold_global_one: "fold (global_one ge) cs rows = put_answers (global_answer ge) cs rows"
  by (induction cs arbitrary: rows)
    (simp_all add: put_answers_def global_one_def global_answer_def set_embedding_Nil split: option.splits)

definition database_answers :: "global_env \<Rightarrow> bool" where
  "database_answers ge \<longleftrightarrow> \<not> ge_fault ge BeginClaim \<and> \<not> ge_fault ge QueryPending \<and> \<not> ge_fault ge CommitClaim"

definition good_env :: "string set \<Rightarrow> global_env \<Rightarrow> bool" where
  "good_env T ge \<longleftrightarrow> ge_cut ge = None \<and> (\<forall>xs. set (ge_visit ge xs) = set xs)
     \<and> (\<forall>c. c_ChunkText c \<in> T \<longrightarrow> global_answer ge c \<noteq> None)"

definition drainable :: "string set \<Rightarrow> Chunk list \<Rightarrow> bool" where
  "drainable T rows \<longleftrightarrow> distinct (map c_ID rows) \<and> (\<forall>c \<in> set rows. pending_chunk c \<longrightarrow> c_ChunkText c \<in> T)"

lemma claim_distinct: "distinct rows \<Longrightarrow> distinct (claim_pending locked n rows)"
  unfolding claim_pending_def
  by (intro distinct_take) (metis distinct_filter mset_eq_imp_distinct_iff mset_sort_stable)

lemma claim_length_le: "length (claim_pending locked n rows) \<le> length (filter pending_chunk rows)"
proof -
  have "length (filter (\<lambda>c. pending_chunk c \<and> \<not> locked (c_ID c)) rows) \<le> length (filter pending_chunk rows)"
    by (induction rows) auto
  then show ?thesis by (simp add: length_claim)
qed

lemma Global_runBatch_good:
  assumes "good_env T ge" "drainable T rows"
  shows "drainable T (fst (Global_runBatch ge n rows))"
    and "snd (Global_runBatch ge n rows) = Inr m \<Longrightarrow>
      m = int (length (claim_pending (ge_locked ge) n rows))
      \<and> length (filter pending_chunk (fst (Global_runBatch ge n rows))) = length (filter pending_chunk rows) - nat m"
proof -
  let ?cs = "claim_pending (ge_locked ge) n rows"
  have visit: "set (ge_visit ge ?cs) = set ?cs" using assms(1) by (simp add: good_env_def)
  have sub: "set ?cs \<subseteq> {c \<in> set rows. pending_chunk c}" using claim_subset by fastforce
  have ids: "distinct (map c_ID rows)" and dist: "distinct rows"
    using assms(2) by (simp_all add: drainable_def distinct_map)
  have ans: "c \<in> set ?cs \<Longrightarrow> global_answer ge c \<noteq> None" for c
    using sub assms by (auto simp: drainable_def good_env_def)
  let ?rows = "put_answers (global_answer ge) (ge_visit ge ?cs) rows"
  have map_rows: "?rows = map (\<lambda>r. if r \<in> set ?cs then answered (global_answer ge) r else r) rows"
    unfolding visit [symmetric] using sub visit by (intro put_answers_rows global_answer_not_Nil ids) simp
  have nil: "ge_visit ge [] = []" using assms(1) by (simp add: good_env_def flip: set_empty)
  have out: "Global_runBatch ge n rows =
      (if database_answers ge then (?rows, Inr (int (length ?cs))) else (rows, snd (Global_runBatch ge n rows)))"
    and err: "\<not> database_answers ge \<Longrightarrow> snd (Global_runBatch ge n rows) \<noteq> Inr m"
    using assms(1) nil
    by (auto simp: Global_runBatch_def good_env_def database_answers_def Let_def fold_global_one put_answers_def)
  have "map c_ID ?rows = map c_ID rows" unfolding map_rows by simp
  moreover have "c_ChunkText x \<in> T" if "x \<in> set ?cs" for x
    using that sub assms(2) by (auto simp: drainable_def)
  ultimately have "drainable T ?rows"
    using assms(2) unfolding drainable_def by (simp only:) (auto simp: map_rows)
  with assms(2) show "drainable T (fst (Global_runBatch ge n rows))"
    by (subst out) simp
  have "length (filter pending_chunk ?rows) = length (filter pending_chunk rows) - length ?cs"
    using put_answers_progress [where Q = "\<lambda>_. True", OF global_answer_not_Nil ids _ claim_distinct [OF dist] visit ans]
      sub by simp
  then show "snd (Global_runBatch ge n rows) = Inr m \<Longrightarrow>
      m = int (length ?cs)
      \<and> length (filter pending_chunk (fst (Global_runBatch ge n rows))) = length (filter pending_chunk rows) - nat m"
    using err by (subst (asm) out, subst out) (auto split: if_splits)
qed

lemma after_batch_batchSize [simp]: "gr_batchSize (fst (after_batch r g)) = gr_batchSize g"
  by (auto simp: after_batch_def Let_def split: sum.splits)

lemma after_batch_again: "snd (after_batch r g) \<longleftrightarrow> (\<exists>n. r = Inr n \<and> n \<noteq> 0 \<and> gr_batchSize g \<le> n)"
  by (auto simp: after_batch_def Let_def split: sum.splits)

lemma drain_loop_unfold:
  "drain_loop envs k s =
     (let b = Global_runBatch (envs k) (gr_batchSize (fst s)) (ge_meanwhile (envs k) (snd s)); a = after_batch (snd b) (fst s) in
      if snd a then drain_loop envs (Suc k) (fst a, fst b) else Some (fst a, fst b))"
  by (subst drain_loop.simps) (simp add: Let_def split: prod.splits)

text \<open>One batch: what it keeps, that it makes progress when it is full, and that it is the last one.\<close>

lemma drain_batch:
  assumes "good_env T ge" "drainable T rows" "0 < gr_batchSize g"
    and b: "b = Global_runBatch ge (gr_batchSize g) rows" and a: "a = after_batch (snd b) g"
  shows "drainable T (fst b)"
    and "snd a \<Longrightarrow> length (filter pending_chunk (fst b)) < length (filter pending_chunk rows)"
    and "\<not> snd a \<Longrightarrow> database_answers ge \<Longrightarrow> ge_locked ge = (\<lambda>_. False) \<Longrightarrow> filter pending_chunk (fst b) = []"
proof -
  note good = Global_runBatch_good [OF assms(1,2), of "gr_batchSize g", folded b]
  show "drainable T (fst b)" by (rule good(1))
  show "length (filter pending_chunk (fst b)) < length (filter pending_chunk rows)" if again: "snd a"
  proof -
    obtain m where m: "snd b = Inr m" "m \<noteq> 0" "gr_batchSize g \<le> m" using again unfolding a after_batch_again by blast
    note c = good(2) [OF m(1)]
    have "nat m \<le> length (filter pending_chunk rows)" using c claim_length_le by simp
    with c m assms(3) show ?thesis by linarith
  qed
  show "filter pending_chunk (fst b) = []" if last: "\<not> snd a" "database_answers ge" "ge_locked ge = (\<lambda>_. False)"
  proof -
    obtain m where m: "snd b = Inr m"
      using last(2) unfolding b Global_runBatch_def database_answers_def Let_def
      by (cases "claim_pending (ge_locked ge) (gr_batchSize g) rows = []") simp_all
    note c = good(2) [OF m]
    have "m = 0 \<or> m < gr_batchSize g" using last(1) m unfolding a after_batch_again by auto
    then show ?thesis
      using c last(3) length_claim [of "ge_locked ge" "gr_batchSize g" rows] assms(3)
      by (auto simp: min_def split: if_splits)
  qed
qed

abbreviation drain_ends :: "(nat \<Rightarrow> global_env) \<Rightarrow> nat \<Rightarrow> GlobalReembedder \<times> Chunk list \<Rightarrow> bool" where
  "drain_ends envs k s \<equiv> \<exists>g rows. drain_loop envs k s = Some (g, rows)
     \<and> ((\<forall>j. database_answers (envs j) \<and> ge_locked (envs j) = (\<lambda>_. False)) \<longrightarrow> filter pending_chunk rows = [])"

lemma drain_ends_step:
  assumes good: "good_env T (envs k)" "drainable T (ge_meanwhile (envs k) (snd s))" "0 < gr_batchSize (fst s)"
    and rest: "\<And>t. gr_batchSize (fst t) = gr_batchSize (fst s) \<Longrightarrow> drainable T (snd t)
      \<Longrightarrow> length (filter pending_chunk (snd t)) < length (filter pending_chunk (ge_meanwhile (envs k) (snd s)))
      \<Longrightarrow> drain_ends envs (Suc k) t"
  shows "drain_ends envs k s"
proof -
  define b where "b = Global_runBatch (envs k) (gr_batchSize (fst s)) (ge_meanwhile (envs k) (snd s))"
  define a where "a = after_batch (snd b) (fst s)"
  note batch = drain_batch [OF good b_def a_def]
  have unf: "drain_loop envs k s = (if snd a then drain_loop envs (Suc k) (fst a, fst b) else Some (fst a, fst b))"
    unfolding a_def b_def by (subst drain_loop_unfold) (simp add: Let_def)
  show ?thesis
  proof (cases "snd a")
    case True
    have "gr_batchSize (fst a) = gr_batchSize (fst s)" by (simp add: a_def)
    then show ?thesis unfolding unf using True rest [of "(fst a, fst b)"] batch(1) batch(2) [OF True] by simp
  next
    case False
    then show ?thesis unfolding unf using batch(3) by simp
  qed
qed

lemma drain_ends_quiet:
  assumes "0 < gr_batchSize (fst s)" "drainable T (snd s)" "N \<le> k"
    and env: "\<And>j. good_env T (envs j)" "\<And>j rows. drainable T rows \<Longrightarrow> drainable T (ge_meanwhile (envs j) rows)"
    and quiet: "\<And>j rows. N \<le> j \<Longrightarrow>
      length (filter pending_chunk (ge_meanwhile (envs j) rows)) \<le> length (filter pending_chunk rows)"
  shows "drain_ends envs k s"
  using assms(1-3)
proof (induction "length (filter pending_chunk (snd s))" arbitrary: k s rule: less_induct)
  case less
  show ?case
  proof (rule drain_ends_step [OF env(1) env(2) [OF less.prems(2)] less.prems(1)])
    fix t :: "GlobalReembedder \<times> Chunk list"
    assume t: "gr_batchSize (fst t) = gr_batchSize (fst s)" "drainable T (snd t)"
      "length (filter pending_chunk (snd t)) < length (filter pending_chunk (ge_meanwhile (envs k) (snd s)))"
    show "drain_ends envs (Suc k) t"
      by (rule less.hyps) (use t less.prems quiet [OF less.prems(3), of "snd s"] in simp_all)
  qed
qed

text \<open>
  C20: The drain of the global worker ends. Let every embedding and every update succeed, and let the
  other transactions that change chunks between batches from some batch on add none without a vector.
  Then draining full batches without waiting comes to an end, however often the database fails to hand
  out a batch and whatever is locked; and when it hands out every batch and nothing is locked, no chunk
  lacks its vector at the end.
\<close>

theorem global_drain_returns:
  assumes "0 < gr_batchSize (fst s)" "drainable T (snd s)"
    and "\<And>j. good_env T (envs j)" "\<And>j rows. drainable T rows \<Longrightarrow> drainable T (ge_meanwhile (envs j) rows)"
    and "\<And>j rows. N \<le> j \<Longrightarrow>
      length (filter pending_chunk (ge_meanwhile (envs j) rows)) \<le> length (filter pending_chunk rows)"
  shows "\<exists>g rows. drain_loop envs k s = Some (g, rows)
    \<and> ((\<forall>j. database_answers (envs j) \<and> ge_locked (envs j) = (\<lambda>_. False)) \<longrightarrow> filter pending_chunk rows = [])"
  using assms(1,2)
proof (induction "N - k" arbitrary: k s)
  case 0
  then have "N \<le> k" by simp
  from drain_ends_quiet [OF 0(2,3) this assms(3-5)] show ?case by simp
next
  case (Suc m)
  show ?case
  proof (rule drain_ends_step [OF assms(3) assms(4) [OF Suc.prems(2)] Suc.prems(1)])
    fix t :: "GlobalReembedder \<times> Chunk list"
    assume "gr_batchSize (fst t) = gr_batchSize (fst s)" "drainable T (snd t)"
    then show "drain_ends envs (Suc k) t" using Suc.hyps(1) [of "Suc k" t] Suc.hyps(2) Suc.prems(1) by simp
  qed
qed

definition calm_env :: "(string \<Rightarrow> float32 list option) \<Rightarrow> global_env" where
  "calm_env emb = \<lparr>ge_meanwhile = (\<lambda>rows. rows), ge_locked = (\<lambda>_. False), ge_fault = (\<lambda>_. False), ge_embed = emb, ge_visit = rev, ge_cut = None\<rparr>"

theorem global_drain_returns_witness:
  "\<exists>g rows. drain_loop (\<lambda>_. calm_env (\<lambda>_. Some [1])) 0
      (NewGlobalReembedder 2 second, [test_chunk ''a'' [], test_chunk ''b'' [], test_chunk ''c'' []]) = Some (g, rows)
    \<and> filter pending_chunk rows = []"
proof -
  let ?env = "calm_env (\<lambda>_. Some [1])" and ?rows = "[test_chunk ''a'' [], test_chunk ''b'' [], test_chunk ''c'' []]"
  have "good_env UNIV ?env" "drainable UNIV ?rows" "ge_meanwhile ?env rs = rs"
    "database_answers ?env \<and> ge_locked ?env = (\<lambda>_. False)" for rs
    by (simp_all add: good_env_def drainable_def calm_env_def global_answer_def database_answers_def test_chunk_def)
  then show ?thesis
    using global_drain_returns [of "(NewGlobalReembedder 2 second, ?rows)" UNIV "\<lambda>_. ?env" 0 0]
    by (simp add: NewGlobalReembedder_def)
qed

text \<open>A batch is stuck when it is full and none of its chunks can be embedded.\<close>

definition stuck :: "(nat \<Rightarrow> global_env) \<Rightarrow> int \<Rightarrow> Chunk list \<Rightarrow> bool" where
  "stuck envs n rows \<longleftrightarrow> 0 < n \<and> (\<forall>j. ge_meanwhile (envs j) rows = rows \<and> database_answers (envs j) \<and> (\<forall>xs. set (ge_visit (envs j) xs) \<subseteq> set xs)
     \<and> int (length (claim_pending (ge_locked (envs j)) n rows)) = n
     \<and> (\<forall>c \<in> set (claim_pending (ge_locked (envs j)) n rows). ge_embed (envs j) (c_ChunkText c) = None))"

lemma stuck_batch:
  assumes "stuck envs n rows"
  shows "Global_runBatch (envs j) n rows = (rows, Inr n)"
proof -
  let ?cs = "claim_pending (ge_locked (envs j)) n rows"
  have idle: "\<forall>c \<in> set cs. ge_embed (envs j) (c_ChunkText c) = None \<Longrightarrow> fold (global_one (envs j)) cs rows = rows" for cs
    by (induction cs) (simp_all add: global_one_def)
  have none: "\<forall>c \<in> set ?cs. ge_embed (envs j) (c_ChunkText c) = None"
    and visit: "set (ge_visit (envs j) xs) \<subseteq> set xs" for xs
    using assms unfolding stuck_def by blast+
  have "fold (global_one (envs j)) (ge_visit (envs j) xs) rows = rows" if "set xs \<subseteq> set ?cs" for xs
    using none visit that by (intro idle) blast
  then have "fold (global_one (envs j)) (ge_visit (envs j) ?cs) rows = rows"
    "fold (global_one (envs j)) (ge_visit (envs j) (take m ?cs)) rows = rows" for m
    by (simp_all add: set_take_subset)
  moreover have "database_answers (envs j)" "int (length ?cs) = n" "0 < n"
    using assms unfolding stuck_def by blast+
  ultimately show ?thesis
    by (cases "?cs = []") (simp_all add: Global_runBatch_def database_answers_def Let_def split: option.splits)
qed

lemma stuck_drain:
  assumes "drain_loop envs k s = Some y"
  shows "\<not> stuck envs (gr_batchSize (fst s)) (snd s)"
proof (rule drain_loop.raw_induct [OF _ assms])
  fix f :: "(nat \<Rightarrow> global_env) \<Rightarrow> nat \<Rightarrow> GlobalReembedder \<times> Chunk list \<Rightarrow> (GlobalReembedder \<times> Chunk list) option"
    and envs k s y
  assume IH: "\<And>envs k s y. f envs k s = Some y \<Longrightarrow> \<not> stuck envs (gr_batchSize (fst s)) (snd s)"
    and f: "(let (rows, r) = Global_runBatch (envs k) (gr_batchSize (fst s)) (ge_meanwhile (envs k) (snd s)); (g, again) = after_batch r (fst s)
       in if again then f envs (Suc k) (g, rows) else Some (g, rows)) = Some y"
  let ?g = "fst (after_batch (Inr (gr_batchSize (fst s))) (fst s))"
  show "\<not> stuck envs (gr_batchSize (fst s)) (snd s)"
  proof
    assume st: "stuck envs (gr_batchSize (fst s)) (snd s)"
    then have "snd (after_batch (Inr (gr_batchSize (fst s))) (fst s))"
      by (simp add: after_batch_again stuck_def)
    moreover have "ge_meanwhile (envs k) (snd s) = snd s" using st by (simp add: stuck_def)
    ultimately have "f envs (Suc k) (?g, snd s) = Some y" using f
      by (simp add: stuck_batch [OF st] split: prod.splits)
    from IH [OF this] st show False by simp
  qed
qed

text \<open>
  A full batch that cannot be embedded makes the global worker spin. When nobody else changes the
  chunks, the newest chunks without a vector fill a batch and the embedder fails on each of them, the drain loop never ends:
  it neither waits nor counts an error, and the older chunks are not reached.
\<close>

theorem global_drain_spins:
  assumes "stuck envs (gr_batchSize (fst s)) (snd s)"
  shows "drain_loop envs k s = None"
  using stuck_drain assms by (cases "drain_loop envs k s") blast+

theorem global_drain_spins_witness:
  "drain_loop (\<lambda>_. calm_env (\<lambda>t. if t = ''good'' then Some [1] else None)) 0
     (NewGlobalReembedder 2 second,
      [(test_chunk ''a'' [])\<lparr>c_ChunkText := ''good''\<rparr>, test_chunk ''b'' [], test_chunk ''c'' []]) = None"
  by (rule global_drain_spins)
    (simp add: stuck_def NewGlobalReembedder_def calm_env_def database_answers_def claim_pending_def
      test_chunk_def pending_chunk_def)

text \<open>The pool is reset by every error from the third in a row on, and by nothing else.\<close>

definition third_error :: "(gw_call + int) list \<Rightarrow> nat \<Rightarrow> bool" where
  "third_error rs i \<longleftrightarrow> 2 \<le> i \<and> isl (rs ! i) \<and> isl (rs ! (i - 1)) \<and> isl (rs ! (i - 2))"

definition after_batches :: "(gw_call + int) list \<Rightarrow> GlobalReembedder \<Rightarrow> GlobalReembedder" where
  "after_batches = run_ops (\<lambda>r g. fst (after_batch r g))"

lemma errors_in_a_row:
  assumes "gr_consecutiveErrors g = 0"
  shows "gr_consecutiveErrors (after_batches rs g) = int (length (takeWhile isl (rev rs)))"
proof (induction rs rule: rev_induct)
  case (snoc r rs)
  then show ?case
    by (cases r) (simp_all add: after_batches_def run_ops_append after_batch_def Let_def)
qed (simp add: after_batches_def assms)

lemma takeWhile_two:
  "2 \<le> length (takeWhile P (rev xs)) \<longleftrightarrow> 2 \<le> length xs \<and> P (xs ! (length xs - 1)) \<and> P (xs ! (length xs - 2))"
proof (cases xs rule: rev_cases)
  case (snoc ys a)
  show ?thesis
    by (cases ys rule: rev_cases) (auto simp: snoc nth_append)
qed simp

lemma pool_resets:
  assumes "gr_consecutiveErrors g = 0"
  shows "gr_poolResets (after_batches rs g) = gr_poolResets g + length (filter (third_error rs) [0..<length rs])"
proof (induction rs rule: rev_induct)
  case (snoc r rs)
  have same: "filter (third_error (rs @ [r])) [0..<length rs] = filter (third_error rs) [0..<length rs]"
    by (rule filter_cong) (auto simp: third_error_def nth_append)
  have last: "third_error (rs @ [r]) (length rs) \<longleftrightarrow> isl r \<and> 2 \<le> length (takeWhile isl (rev rs))"
    unfolding takeWhile_two by (auto simp: third_error_def nth_append)
  have errs: "gr_consecutiveErrors (after_batches rs g) = int (length (takeWhile isl (rev rs)))"
    by (rule errors_in_a_row [OF assms])
  have "gr_poolResets (after_batches (rs @ [r]) g)
      = gr_poolResets (after_batches rs g) + (if isl r \<and> 2 \<le> length (takeWhile isl (rev rs)) then 1 else 0)"
    using errs by (cases r)
      (auto simp: after_batches_def run_ops_append after_batch_def Let_def consecutiveErrorThreshold_def)
  then show ?case by (simp add: snoc.IH same last)
qed (simp add: after_batches_def)

section \<open>Replacing the embedder of a project's worker\<close>

lemma notify_unstarted:
  "\<not> rw_parentCtx w \<Longrightarrow> rw_phase ((Worker_Notify ^^ n) w) = rw_phase w \<and> \<not> rw_parentCtx ((Worker_Notify ^^ n) w)"
  by (induction n) (simp_all add: Worker_Notify_def Let_def)

text \<open>
  Overriding the embedder leaves an idle project without a worker and starts one for a busy
  project. When the worker of an engine is inactive and no chunk of the project lacks a vector, the
  worker that replaces it has no context: no number of notifications starts it. When the engine found
  chunks to embed as it was made, the override starts a goroutine for the project, next to the worker
  for all projects.
\<close>

theorem override_worker_never_runs:
  assumes "\<not> rw_active (ew_worker s)" "missing (rw_project (ew_worker s)) db = []"
    and "GetMeta (rw_project (ew_worker s)) migration_flag db \<noteq> Some ''true''"
  shows "rw_phase ((Worker_Notify ^^ n) (ew_worker (SetReembedEmbedder env (Some c) db s))) = NotStarted
    \<and> (missing p db' \<noteq> [] \<and> \<not> e_fault env' ''pending'' \<longrightarrow>
        rw_phase (ew_worker (SetReembedEmbedder env (Some c) db (New_reembedder env' c' p db'))) = AtPass)"
proof -
  have "rw_phase ((Worker_Notify ^^ n) (NewWorkerFromMeta env c (rw_project (ew_worker s)) db)) = NotStarted"
    using notify_unstarted [of "NewWorkerFromMeta env c (rw_project (ew_worker s)) db" n]
    by (simp add: NewWorkerFromMeta_def NewWorker_def Let_def)
  moreover have "rw_active (NewWorkerFromMeta env' c' p db')" if "missing p db' \<noteq> []" "\<not> e_fault env' ''pending''"
  proof -
    have "GetChunksPendingEmbedding (\<lambda>rows. rows) p 1 db' \<noteq> []"
      using pending_query(2) [of "\<lambda>rows. rows" p 1 db'] that(1) by (cases "missing p db'") auto
    then show ?thesis using that(2) by (simp add: NewWorkerFromMeta_def NewWorker_def Let_def)
  qed
  ultimately show ?thesis
    using assms(1)
    by (simp add: SetReembedEmbedder_def New_reembedder_def Let_def StartWithContext_def once_start_def NewWorker_def)
qed

theorem override_worker_never_runs_witness:
  "rw_phase ((Worker_Notify ^^ 3) (ew_worker (SetReembedEmbedder calm (Some (''m'', 3)) empty_db
      (New_reembedder calm (''bge-m3'', 1024) ''p'' empty_db)))) = NotStarted
   \<and> rw_phase (ew_worker (SetReembedEmbedder calm (Some (''m'', 3)) empty_db
      (New_reembedder calm (''bge-m3'', 1024) ''p'' flagged_db))) = AtPass"
proof -
  have "\<not> rw_active (ew_worker (New_reembedder calm (''bge-m3'', 1024) ''p'' empty_db))"
    by (simp add: New_reembedder_def NewWorkerFromMeta_def NewWorker_def get_meta_def GetMeta_def empty_db_def
        GetChunksPendingEmbedding_def Let_def calm_def)
  then show ?thesis
    using override_worker_never_runs [of "New_reembedder calm (''bge-m3'', 1024) ''p'' empty_db" empty_db 3 calm
        "(''m'', 3)" "''p''" flagged_db calm "(''bge-m3'', 1024)"] flagged_db_missing
    by (simp add: GetMeta_def empty_db_def calm_def)
qed

end
