(* ===== verification/Store_Recall.thy ===== *)
theory Store_Recall
  imports Reembed Recall
begin

text \<open>
  From a store to a search: what \<^verbatim>\<open>StoreWithRawBody\<close> (\<^verbatim>\<open>src/internal/search/engine.go\<close>) writes, the
  worker of the project (\<^verbatim>\<open>src/internal/reembed/worker.go\<close>) embeds, and the vector query
  (\<^verbatim>\<open>src/internal/db/postgres_chunk.go\<close>) finds.
\<close>

lemma full_vector_search:
  assumes "c \<in> set (db_chunks db)" "searched_chunk project None None db c" "int (length (db_chunks db)) \<le> n"
  shows "hit_of cosdist q c \<in> set (VectorSearchWithDateRange tkey cosdist project q n None None db)"
proof -
  have "length (filter (searched_chunk project None None db) (db_chunks db)) \<le> nat n"
    using assms(3) length_filter_le [of "searched_chunk project None None db" "db_chunks db"] by linarith
  then show ?thesis
    using assms(1,2) by (simp add: VectorSearchWithDateRange_def)
qed

lemma map_snd_enumerate_comp: "map (\<lambda>p. f (snd p)) (enumerate k xs) = map f xs"
  by (induction xs arbitrary: k) simp_all

lemma vectorless_member:
  assumes "map vectorless xs = map vectorless ys" "y \<in> set ys"
  shows "\<exists>x \<in> set xs. vectorless x = vectorless y"
  using assms by (metis image_eqI image_iff set_map)

lemma vectorless_fields: "vectorless x = vectorless y \<Longrightarrow> c_ID x = c_ID y \<and> c_MemoryID x = c_MemoryID y
    \<and> c_ChunkText x = c_ChunkText y \<and> c_Project x = c_Project y"
  by (cases x; cases y) (simp add: vectorless_def)

text \<open>
  C11: A stored memory becomes searchable. After a store that reports success, passes of the project's
  worker, one that has not cleared the migration flag before, in which the database answers and the embedder has a vector for every waiting text, one more
  than there are full batches, make every chunk of the memory's text a hit of the project's vector
  query, if the query asks for at least as many rows as there are chunks; the query over one project never looks at another's.
\<close>

theorem stored_memory_becomes_searchable:
  assumes "db_ok db" "inj ids" "range ids \<inter> c_ID ` set (db_chunks db) = {}"
    and "StoreWithRawBody u dig sha env ids m rawBody (e, db) = ((e', db'), Inr (m', ws))"
    and "\<not> rw_cancelled w" "\<not> rw_cleared w" "rw_project w = se_project e"
    and "\<forall>pe \<in> set pes. good_pass (\<lambda>c. c_ChunkText c \<in> T) pe
      \<and> \<not> e_fault (p_flag pe) (''set meta '' @ migration_flag)"
    and "\<forall>c \<in> set (missing (se_project e) db'). c_ChunkText c \<in> T"
    and "length pes = length (missing (se_project e) db') div 20 + 1"
    and "int (length (db_chunks db')) \<le> n"
  shows "\<forall>cand \<in> set (chunk_candidates e m' rawBody).
    \<exists>h \<in> set (VectorSearchWithDateRange tkey cosdist (se_project e) q n None None
        (snd (run_ops run_pass pes (w, db')))).
      vh_MemoryID h = m_ID m' \<and> vh_ChunkText h = cc_Text cand"
proof
  fix cand assume cand: "cand \<in> set (chunk_candidates e m' rawBody)"
  let ?f = "snd (run_ops run_pass pes (w, db'))"
  show "\<exists>h \<in> set (VectorSearchWithDateRange tkey cosdist (se_project e) q n None None ?f).
      vh_MemoryID h = m_ID m' \<and> vh_ChunkText h = cc_Text cand"
  proof (rule StoreWithRawBody_rows [OF assms(1-4)])
    fix cs
    assume db': "db' = db\<lparr>db_meta := db_meta db', db_leases := db_leases db',
        db_memories := db_memories db @ [inserted_row (prepare_memory (se_project e) sha (e_now env) m')],
        db_chunks := db_chunks db @ cs\<rparr>"
      and texts: "map (\<lambda>c. (c_ChunkText c, c_ChunkType c, c_ChunkIndex c)) cs
        = map (\<lambda>(k, c). (cc_Text c, cc_ChunkType c, int k)) (enumerate 0 (chunk_candidates e m' rawBody))"
      and rows: "\<forall>c \<in> set cs. c_MemoryID c = m_ID m' \<and> pending_chunk c
          \<and> c_ChunkHash c = ChunkHash u dig (c_ChunkText c) \<and> c_Project c = se_project e"
      and ids: "distinct (map c_ID (db_chunks db'))"
    have "map c_ChunkText cs = map cc_Text (chunk_candidates e m' rawBody)"
      using arg_cong [OF texts, of "map fst"] by (simp add: comp_def case_prod_unfold map_snd_enumerate_comp)
    then obtain c where c: "c \<in> set cs" "c_ChunkText c = cc_Text cand"
      using cand by (metis image_iff set_map)
    have mem: "db_memories db' = db_memories db @ [inserted_row (prepare_memory (se_project e) sha (e_now env) m')]"
      and chunks: "db_chunks db' = db_chunks db @ cs"
      using arg_cong [OF db', of db_memories] arg_cong [OF db', of db_chunks] by simp_all
    obtain d where d: "d \<in> set (db_chunks ?f)" "vectorless d = vectorless c"
      using vectorless_member [OF vectorless_passes(1) [where pes = pes and s = "(w, db')"], of c] c(1) chunks by auto
    note fields = vectorless_fields [OF d(2)]
    have row: "\<exists>r \<in> set (db_memories ?f). m_ID r = m_ID m' \<and> m_Project r = se_project e"
      by (simp add: vectorless_passes(2) mem inserted_row_def prepare_memory_def)
    have settled: "missing (se_project e) ?f = []"
      using passes_catch_up [of "(w, db')" pes T] assms(5-10) ids by (simp add: flag_settled_def)
    have "of_project (se_project e) ?f d"
      using row fields rows c(1) unfolding of_project_def image_iff by fastforce
    with settled d(1) have "c_Embedding d \<noteq> []"
      by (auto simp: filter_empty_conv pending_chunk_def)
    then have "searched_chunk (se_project e) None None ?f d"
      using row fields rows c(1) by (auto simp: searched_chunk_def list_ex_iff in_window_def)
    moreover have "int (length (db_chunks ?f)) \<le> n"
      using arg_cong [OF vectorless_passes(1) [where pes = pes and s = "(w, db')"], of length] assms(11) by simp
    ultimately have "hit_of cosdist q d \<in> set (VectorSearchWithDateRange tkey cosdist (se_project e) q n None None ?f)"
      using d(1) by (intro full_vector_search)
    then show ?thesis
      by (rule bexI [rotated]) (use fields rows c in \<open>simp add: hit_of_def\<close>)
  qed
qed

theorem stored_memory_becomes_searchable_witness:
  "list_ex (\<lambda>h. vh_MemoryID h = ''a'' \<and> vh_ChunkText h = [])
     (VectorSearchWithDateRange (\<lambda>_. 0) (\<lambda>_ _. 0) ''p'' [1] 1 None None
        (snd (run_ops run_pass [calm_pass (\<lambda>_. Some [1])] (NewWorker (''bge-m3'', 1024) ''p'' True, stored_db))))"
proof -
  have good: "good_pass (\<lambda>c. c_ChunkText c \<in> UNIV) (calm_pass (\<lambda>_. Some [1]))"
    by (simp add: good_pass_def calm_pass_def pass_answer_def calm_def)
  have ids: "range x_ids \<inter> c_ID ` set (db_chunks empty_db) = {}" by (simp add: empty_db_def)
  have proj: "se_project warm_engine = ''p''" by (simp add: warm_engine_def)
  have miss: "missing ''p'' stored_db = [stored_chunk]"
    using flagged_db_missing by (simp add: flagged_db_def of_project_def)
  have cand: "chunk_candidates warm_engine stored_empty []
     = [\<lparr>cc_Text = [], cc_SectionHeading = [], cc_HasHeading = False, cc_ChunkType = ''sentence_window''\<rparr>]"
    by (rule empty_candidate_list) (simp_all add: stored_empty_simps)
  note T = stored_memory_becomes_searchable [OF empty_db_ok inj_x_ids ids store_empty_note, of
      "NewWorker (''bge-m3'', 1024) ''p'' True" "[calm_pass (\<lambda>_. Some [1])]" UNIV 1, unfolded proj miss cand]
  show ?thesis
    using T [of "\<lambda>_. 0" "\<lambda>_ _. 0" "[1]"] good
    by (simp add: NewWorker_def list_ex_iff stored_empty_simps calm_def calm_pass_def) (simp add: stored_db_def)
qed

end
