(* ===== verification/Tool_Args.thy ===== *)
theory Tool_Args
  imports Engram_Prelude
begin

text \<open>
  The arguments of a tool call (\<^verbatim>\<open>src/internal/mcp/tools.go\<close>): reading typed values out of decoded
  JSON, with and without loud errors, and the validation of project names, contents and tags. A JSON
  number is a rational number; \<open>nfc\<close> is the unicode normalisation form C, \<open>unmarshal\<close> the decoder of
  JSON arrays and \<open>u\<close> the case mapping of non-ASCII text.
\<close>

datatype json =
    JNull | JBool bool | JNum float64 | JStr string | JArr "json list" | JObj "(string \<times> json) list"

type_synonym args = "(string \<times> json) list"

datatype arg_error =
    NotANumber string | NotABoolean string | NotAString string | NotAnArray string
  | BadTag string nat | EmptyProjectName | LongProjectName | BadCodepoint nat
  | InvalidUTF8 nat | ControlChar nat nat

definition arg :: "args \<Rightarrow> string \<Rightarrow> json" where
  "arg args key = (case map_of args key of None \<Rightarrow> JNull | Some v \<Rightarrow> v)"

section \<open>Numbers in strings\<close>

text \<open>
  \<^verbatim>\<open>json.Unmarshal\<close> of a number into a \<^verbatim>\<open>float64\<close>: the grammar of JSON, then the range. \<^verbatim>\<open>null\<close> leaves
  the variable at zero without an error.
\<close>

definition json_int_part :: "string \<Rightarrow> bool" where
  "json_int_part ip \<longleftrightarrow> ip \<noteq> [] \<and> (ip = ''0'' \<or> hd ip \<noteq> CHR ''0'')"

definition exp_part :: "string \<Rightarrow> int option" where
  "exp_part s =
     (case s of [] \<Rightarrow> Some 0
      | e # t \<Rightarrow>
          if e \<noteq> CHR ''e'' \<and> e \<noteq> CHR ''E'' then None
          else let neg = (t \<noteq> [] \<and> hd t = CHR ''-''); ds = (if t \<noteq> [] \<and> (hd t = CHR ''-'' \<or> hd t = CHR ''+'') then tl t else t) in
            if ds = [] \<or> \<not> list_all is_digit ds then None
            else Some (if neg then - int (digits_val ds) else int (digits_val ds)))"

definition scale10 :: "float64 \<Rightarrow> int \<Rightarrow> float64" where
  "scale10 x e = (if 0 \<le> e then x * 10 ^ nat e else x / 10 ^ nat (- e))"

definition max_float64 :: float64 where
  "max_float64 = 2 ^ 1024 - 2 ^ 970"

definition unmarshal_float :: "string \<Rightarrow> float64 option" where
  "unmarshal_float s =
     (if s = ''null'' then Some 0
      else let neg = (s \<noteq> [] \<and> hd s = CHR ''-''); t = (if neg then tl s else s);
               ip = takeWhile is_digit t; r = dropWhile is_digit t;
               frac = (r \<noteq> [] \<and> hd r = CHR ''.'');
               fp = (if frac then takeWhile is_digit (tl r) else []);
               r2 = (if frac then dropWhile is_digit (tl r) else r) in
        if \<not> json_int_part ip \<or> (frac \<and> fp = []) then None
        else case exp_part r2 of
          None \<Rightarrow> None
        | Some e \<Rightarrow>
            let x = scale10 (of_nat (digits_val (ip @ fp))) (e - int (length fp)) in
            if x \<ge> max_float64 then None else Some (if neg then - x else x))"

definition math_Round :: "float64 \<Rightarrow> int" where
  "math_Round x = (if x \<ge> 0 then \<lfloor>x + 1 / 2\<rfloor> else - \<lfloor>- x + 1 / 2\<rfloor>)"

section \<open>Reading arguments\<close>

definition getString :: "args \<Rightarrow> string \<Rightarrow> string \<Rightarrow> string" where
  "getString args key dflt =
     (case map_of args key of Some (JStr s) \<Rightarrow> if s \<noteq> [] then s else dflt | _ \<Rightarrow> dflt)"

definition requireString :: "args \<Rightarrow> string \<Rightarrow> string option" where
  "requireString args key = (let s = getString args key [] in if s = [] then None else Some s)"

definition coerceToFloat :: "json \<Rightarrow> float64 option" where
  "coerceToFloat v =
     (case v of
        JNum n \<Rightarrow> Some n
      | JStr n \<Rightarrow> (let s = TrimSpace n in if s = [] then None else unmarshal_float s)
      | _ \<Rightarrow> None)"

definition coerceToInt :: "json \<Rightarrow> int option" where
  "coerceToInt v = map_option math_Round (coerceToFloat v)"

definition coerceToBool :: "(string \<Rightarrow> string) \<Rightarrow> json \<Rightarrow> bool option" where
  "coerceToBool u v =
     (case v of
        JBool b \<Rightarrow> Some b
      | JStr s \<Rightarrow>
          (let l = ToLower u (TrimSpace s) in
           if l = ''true'' then Some True else if l = ''false'' then Some False else None)
      | _ \<Rightarrow> None)"

definition getInt :: "args \<Rightarrow> string \<Rightarrow> int \<Rightarrow> int" where
  "getInt args key dflt =
     (case map_of args key of None \<Rightarrow> dflt | Some v \<Rightarrow> (case coerceToInt v of None \<Rightarrow> dflt | Some n \<Rightarrow> n))"

definition getFloat :: "args \<Rightarrow> string \<Rightarrow> float64 \<Rightarrow> float64" where
  "getFloat args key dflt =
     (case map_of args key of None \<Rightarrow> dflt | Some v \<Rightarrow> (case coerceToFloat v of None \<Rightarrow> dflt | Some f \<Rightarrow> f))"

definition getBool :: "(string \<Rightarrow> string) \<Rightarrow> args \<Rightarrow> string \<Rightarrow> bool \<Rightarrow> bool" where
  "getBool u args key dflt =
     (case map_of args key of None \<Rightarrow> dflt | Some v \<Rightarrow> (case coerceToBool u v of None \<Rightarrow> dflt | Some b \<Rightarrow> b))"

text \<open>An optional argument: \<open>Inr None\<close> when it is absent or null.\<close>

definition optional_arg :: "(json \<Rightarrow> 'a option) \<Rightarrow> (string \<Rightarrow> arg_error) \<Rightarrow> args \<Rightarrow> string \<Rightarrow> arg_error + 'a option" where
  "optional_arg coerce err args key =
     (if arg args key = JNull then Inr None
      else case coerce (arg args key) of Some x \<Rightarrow> Inr (Some x) | None \<Rightarrow> Inl (err key))"

definition requireOptionalInt :: "args \<Rightarrow> string \<Rightarrow> arg_error + int option" where
  "requireOptionalInt = optional_arg coerceToInt NotANumber"

definition requireOptionalFloat :: "args \<Rightarrow> string \<Rightarrow> arg_error + float64 option" where
  "requireOptionalFloat = optional_arg coerceToFloat NotANumber"

definition requireOptionalBool :: "(string \<Rightarrow> string) \<Rightarrow> args \<Rightarrow> string \<Rightarrow> arg_error + bool option" where
  "requireOptionalBool u = optional_arg (coerceToBool u) NotABoolean"

definition requireOptionalString :: "args \<Rightarrow> string \<Rightarrow> arg_error + string option" where
  "requireOptionalString args key =
     (case arg args key of
        JNull \<Rightarrow> Inr None
      | JStr s \<Rightarrow> Inr (if s = [] then None else Some s)
      | _ \<Rightarrow> Inl (NotAString key))"

section \<open>Project names\<close>

definition bidiAndZeroWidthRanges :: "(nat \<times> nat) list" where
  "bidiAndZeroWidthRanges =
     [(0x200B, 0x200F), (0x202A, 0x202E), (0x2060, 0x2069), (0xFEFF, 0xFEFF), (0x061C, 0x061C)]"

definition maxProjectNameLen :: nat where
  "maxProjectNameLen = 128"

definition bidi_rune :: "nat \<Rightarrow> bool" where
  "bidi_rune r \<longleftrightarrow> list_ex (\<lambda>(lo, hi). lo \<le> r \<and> r \<le> hi) bidiAndZeroWidthRanges"

definition validateProjectName :: "(string \<Rightarrow> string) \<Rightarrow> string \<Rightarrow> arg_error option" where
  "validateProjectName nfc s0 =
     (let s = TrimSpace s0 in
      if s = [] then Some EmptyProjectName
      else let t = nfc s in
        if length t > maxProjectNameLen then Some LongProjectName
        else case find bidi_rune (runes t) of None \<Rightarrow> None | Some r \<Rightarrow> Some (BadCodepoint r))"

definition getProject :: "(string \<Rightarrow> string) \<Rightarrow> args \<Rightarrow> string \<Rightarrow> arg_error + string" where
  "getProject nfc args dflt =
     (let normalized = nfc (TrimSpace (getString args ''project'' dflt)) in
      case validateProjectName nfc normalized of Some e \<Rightarrow> Inl e | None \<Rightarrow> Inr normalized)"

section \<open>Contents\<close>

definition control_rune :: "nat \<Rightarrow> bool" where
  "control_rune r \<longleftrightarrow>
     \<not> (r = 0x09 \<or> r = 0x0A \<or> r = 0x0D)
     \<and> (r \<le> 0x08 \<or> r = 0x0B \<or> r = 0x0C \<or> (0x0E \<le> r \<and> r \<le> 0x1F) \<or> r = 0x7F \<or> (0x80 \<le> r \<and> r \<le> 0x9F))"

function validate_from :: "nat \<Rightarrow> string \<Rightarrow> arg_error option" where
  "validate_from i s =
     (if s = [] then None
      else if decode_rune s = (0xFFFD, 1) then Some (InvalidUTF8 i)
      else if control_rune (fst (decode_rune s)) then Some (ControlChar (fst (decode_rune s)) i)
      else validate_from (i + snd (decode_rune s)) (drop (snd (decode_rune s)) s))"
  by pat_completeness auto
termination
  by (relation "measure (\<lambda>(i, s). length s)") (auto simp: decode_rune_width)

declare validate_from.simps [simp del]

definition validateContent :: "string \<Rightarrow> arg_error option" where
  "validateContent s = validate_from 0 s"

section \<open>Tags\<close>

definition maxTagCount :: nat where
  "maxTagCount = 50"

definition maxTagLength :: nat where
  "maxTagLength = 256"

definition bad_tag_byte :: "char \<Rightarrow> bool" where
  "bad_tag_byte c \<longleftrightarrow>
     (let b = byte_of c in
      \<not> (b = 0x09 \<or> b = 0x0A \<or> b = 0x0D)
      \<and> (b \<le> 0x08 \<or> b = 0x0B \<or> b = 0x0C \<or> (0x0E \<le> b \<and> b \<le> 0x1F) \<or> b = 0x7F))"

fun take_tags :: "string list \<Rightarrow> json list \<Rightarrow> arg_error + string list" where
  "take_tags result [] = Inr result"
| "take_tags result (JStr s # items) =
     (if length result \<ge> maxTagCount then Inr result
      else let t = take maxTagLength s in
        case find bad_tag_byte t of
          Some c \<Rightarrow> Inl (BadTag t (byte_of c))
        | None \<Rightarrow> take_tags (result @ [t]) items)"
| "take_tags result (_ # items) = take_tags result items"

definition toStringSlice :: "(string \<Rightarrow> json list option) \<Rightarrow> args \<Rightarrow> string \<Rightarrow> arg_error + string list" where
  "toStringSlice unmarshal args key =
     (case arg args key of
        JNull \<Rightarrow> Inr []
      | JArr items \<Rightarrow> take_tags [] items
      | JStr s \<Rightarrow> (case unmarshal s of None \<Rightarrow> Inl (NotAnArray key) | Some items \<Rightarrow> take_tags [] items)
      | _ \<Rightarrow> Inl (NotAnArray key))"

section \<open>What passes\<close>

text \<open>\<^verbatim>\<open>utf8.Valid\<close>.\<close>

function utf8_Valid :: "string \<Rightarrow> bool" where
  "utf8_Valid s =
     (if s = [] then True
      else if decode_rune s = (0xFFFD, 1) then False
      else utf8_Valid (drop (snd (decode_rune s)) s))"
  by pat_completeness auto
termination
  by (relation "measure length") (auto simp: decode_rune_width)

declare utf8_Valid.simps [simp del]

lemma validate_from_None:
  "validate_from i s = None \<longleftrightarrow> utf8_Valid s \<and> (\<forall>r \<in> set (runes s). \<not> control_rune r)"
proof (induction i s rule: validate_from.induct)
  case (1 i s)
  show ?case
  proof (cases "s = []")
    case True
    then show ?thesis
      by (simp add: validate_from.simps [of i "[]"] utf8_Valid.simps [of "[]"] runes.simps [of "[]"])
  next
    case False
    with 1 show ?thesis
      by (auto simp: validate_from.simps [of i s] utf8_Valid.simps [of s] runes.simps [of s])
  qed
qed

text \<open>
  A content is accepted exactly when it is valid UTF-8 without control characters other than tab, line
  feed and carriage return.
\<close>

lemma validateContent_iff:
  "validateContent s = None \<longleftrightarrow> utf8_Valid s \<and> (\<forall>r \<in> set (runes s). \<not> control_rune r)"
  unfolding validateContent_def by (rule validate_from_None)

text \<open>
  What the tags should be: of the strings among the items the first fifty, each cut after 256 bytes,
  when every byte of them is at least a space and not DEL, or one of tab, line feed and carriage return.
\<close>

fun string_items :: "json list \<Rightarrow> string list" where
  "string_items [] = []"
| "string_items (JStr s # items) = s # string_items items"
| "string_items (_ # items) = string_items items"

definition tag_ok :: "string \<Rightarrow> bool" where
  "tag_ok t \<longleftrightarrow> list_all (\<lambda>c. (0x20 \<le> byte_of c \<or> byte_of c \<in> {0x09, 0x0A, 0x0D}) \<and> byte_of c \<noteq> 0x7F) t"

definition accepted_tags :: "json list \<Rightarrow> string list \<Rightarrow> bool" where
  "accepted_tags items ts \<longleftrightarrow> ts = map (take 256) (take 50 (string_items items)) \<and> list_all tag_ok ts"

lemma bad_tag_byte_iff:
  "bad_tag_byte c \<longleftrightarrow> \<not> ((0x20 \<le> byte_of c \<or> byte_of c \<in> {0x09, 0x0A, 0x0D}) \<and> byte_of c \<noteq> 0x7F)"
  by (auto simp: bad_tag_byte_def Let_def)

lemma find_bad_tag_byte: "find bad_tag_byte t = None \<longleftrightarrow> tag_ok t"
  by (auto simp: find_None_iff tag_ok_def list_all_iff bad_tag_byte_iff)

lemma take_tags_spec:
  assumes "length result \<le> 50"
  shows "take_tags result items = Inr ts \<longleftrightarrow>
    (let new = map (take 256) (take (50 - length result) (string_items items)) in ts = result @ new \<and> list_all tag_ok new)"
  using assms
proof (induction result items rule: take_tags.induct)
  case (2 result s items)
  show ?case
  proof (cases "length result \<ge> maxTagCount")
    case False
    then obtain n where n: "50 - length result = Suc n" by (cases "50 - length result") (simp_all add: maxTagCount_def)
    then have "50 - length (result @ [take 256 s]) = n" by simp
    with 2 False n show ?thesis
      by (cases "find bad_tag_byte (take 256 s)") (auto simp: Let_def maxTagCount_def maxTagLength_def find_bad_tag_byte [symmetric])
  qed (use 2 in \<open>auto simp: maxTagCount_def\<close>)
qed auto

lemma accepted_tags_iff: "take_tags [] items = Inr ts \<longleftrightarrow> accepted_tags items ts"
  by (auto simp: take_tags_spec accepted_tags_def Let_def)

text \<open>
  C40: The tags of a call. An absent argument gives none. From an array, or a text that decodes to
  one, exactly the first fifty of its strings come back, each cut after 256 bytes, provided that no byte
  left is DEL or below the space other than tab, line feed and carriage return; everything else is an
  error. The cut may fall inside a character: then a tag in valid UTF-8 comes back as one that is not.
\<close>

theorem tags_bounded:
  "(toStringSlice unmarshal args key = Inr ts \<longleftrightarrow>
     (case arg args key of
        JNull \<Rightarrow> ts = []
      | JArr items \<Rightarrow> accepted_tags items ts
      | JStr s \<Rightarrow> (\<exists>items. unmarshal s = Some items \<and> accepted_tags items ts)
      | _ \<Rightarrow> False))
   \<and> (let s = replicate 255 CHR ''a'' @ [CHR 0xC3, CHR 0xA9] in
      utf8_Valid s \<and> (\<exists>t. toStringSlice unmarshal [(''tags'', JArr [JStr s])] ''tags'' = Inr [t] \<and> \<not> utf8_Valid t))"
proof
  show "toStringSlice unmarshal args key = Inr ts \<longleftrightarrow>
     (case arg args key of
        JNull \<Rightarrow> ts = []
      | JArr items \<Rightarrow> accepted_tags items ts
      | JStr s \<Rightarrow> (\<exists>items. unmarshal s = Some items \<and> accepted_tags items ts)
      | _ \<Rightarrow> False)"
    by (auto simp: toStringSlice_def accepted_tags_iff split: json.split option.split)
next
  let ?a = "\<lambda>n. replicate n CHR ''a''"
  have run: "utf8_Valid (?a n @ t) = utf8_Valid t" for n t
    by (induction n) (simp_all add: utf8_Valid.simps [of "CHR ''a'' # _"] decode_rune_def)
  have "find bad_tag_byte (take 256 (?a 255 @ [CHR 0xC3, CHR 0xA9])) = None"
    by (auto simp: find_None_iff bad_tag_byte_def Let_def)
  then have "toStringSlice unmarshal [(''tags'', JArr [JStr (?a 255 @ [CHR 0xC3, CHR 0xA9])])] ''tags''
      = Inr [?a 255 @ [CHR 0xC3]]"
    by (simp add: toStringSlice_def arg_def maxTagLength_def maxTagCount_def)
  moreover have "\<not> utf8_Valid (?a 255 @ [CHR 0xC3])" "utf8_Valid (?a 255 @ [CHR 0xC3, CHR 0xA9])"
    unfolding run by (simp_all add: utf8_Valid.simps decode_rune_def cont_byte_def)
  ultimately show "let s = ?a 255 @ [CHR 0xC3, CHR 0xA9] in
      utf8_Valid s \<and> (\<exists>t. toStringSlice unmarshal [(''tags'', JArr [JStr s])] ''tags'' = Inr [t] \<and> \<not> utf8_Valid t)"
    unfolding Let_def by blast
qed

end
