(* ===== verification/Safety.thy ===== *)
theory Safety
  imports Recall_Laws Tool_Args
begin

text \<open>
  Verification of a proposed action against stored constraints (\<^verbatim>\<open>src/internal/mcp/safety.go\<close>): the
  risk profile of the action, which memories are constraints and how well they match, the decision,
  and the three handlers over the engine's listing and recall. The iteration over the map of
  candidates and the ties of the unstable sort are permutations; the case mapping of non-ASCII text
  is the one of the recall.
\<close>

section \<open>Risk of an action\<close>

definition constraintTagMarkers :: "string list" where
  "constraintTagMarkers =
     [''constraint'', ''policy'', ''guardrail'', ''safety'', ''protected'', ''approval_required'', ''requires_approval'']"

definition policyCuePhrases :: "string list" where
  "policyCuePhrases =
     [''never '', ''do not'', ''must not'', ''should not'', ''forbidden'', ''requires approval'', ''require approval'',
      ''approval required'', ''review required'', ''deployment pipeline'', ''migration review'', ''without approval'']"

definition productionHints :: "string list" where
  "productionHints = [''production'', ''prod'', ''primary'', ''main branch'', ''main'']"

definition mainBranchRe :: regex where
  "mainBranchRe =
     alts [seqs [Alt TextStart (Rune space_class), Alt (ilit ''main'') (ilit ''master''), WordB],
           seqs [WordB, ilit ''main branch'', WordB], seqs [WordB, ilit ''origin/main'', WordB]]"

definition deleteHints :: "string list" where
  "deleteHints = [''delete from'', ''delete '', ''truncate'', ''drop '', ''destroy'', ''recreate'']"

definition ddlHints :: "string list" where
  "ddlHints = [''create index'', ''alter table'', ''ddl'', ''schema'', ''migration'', ''index '']"

definition forcePushHints :: "string list" where
  "forcePushHints = [''git push --force'', ''push --force'', ''force push'']"

record actionProfile =
  ap_Text :: string
  ap_Signals :: "string list"
  ap_Production :: bool
  ap_MainBranch :: bool
  ap_Destructive :: bool
  ap_DDL :: bool
  ap_DML :: bool
  ap_ForcePush :: bool

definition textContainsAny :: "string \<Rightarrow> string list \<Rightarrow> bool" where
  "textContainsAny s needles = list_ex (Contains s) needles"

definition classifyAction :: "(string \<Rightarrow> string) \<Rightarrow> string \<Rightarrow> actionProfile" where
  "classifyAction u action =
     (let lower = ToLower u (TrimSpace action);
          p0 = \<lparr>ap_Text = action, ap_Signals = [], ap_Production = False, ap_MainBranch = False,
                ap_Destructive = False, ap_DDL = False, ap_DML = False, ap_ForcePush = False\<rparr> in
      if lower = [] then p0
      else
        let p1 = (if textContainsAny lower productionHints
                  then p0\<lparr>ap_Production := True, ap_Signals := ap_Signals p0 @ [''production_scope'']\<rparr> else p0);
            p2 = (if MatchString mainBranchRe lower
                  then p1\<lparr>ap_MainBranch := True, ap_Signals := ap_Signals p1 @ [''protected_branch'']\<rparr> else p1);
            p3 = (if textContainsAny lower deleteHints
                  then p2\<lparr>ap_Destructive := True, ap_DML := True, ap_Signals := ap_Signals p2 @ [''destructive_mutation'']\<rparr>
                  else p2);
            p4 = (if textContainsAny lower ddlHints
                  then p3\<lparr>ap_DDL := True, ap_Signals := ap_Signals p3 @ [''schema_change'']\<rparr> else p3) in
        if textContainsAny lower forcePushHints
        then p4\<lparr>ap_ForcePush := True, ap_Destructive := True, ap_MainBranch := True,
                ap_Signals := ap_Signals p4 @ [''force_push'']\<rparr>
        else p4)"

section \<open>Constraints among the memories\<close>

definition hasAnyTag :: "(string \<Rightarrow> string) \<Rightarrow> string list \<Rightarrow> string list \<Rightarrow> bool" where
  "hasAnyTag u tags markers =
     list_ex (\<lambda>tag. list_ex (\<lambda>marker. ToLower u tag = marker \<or> HasPrefix (ToLower u tag) (marker @ '':'')) markers) tags"

definition hasScopedConstraintTag :: "(string \<Rightarrow> string) \<Rightarrow> string list \<Rightarrow> bool" where
  "hasScopedConstraintTag u tags =
     list_ex (\<lambda>tag. list_ex (HasPrefix (ToLower u tag)) [''env:'', ''action:'', ''resource:'', ''severity:'']) tags"

definition isConstraintMemory :: "(string \<Rightarrow> string) \<Rightarrow> Memory \<Rightarrow> bool" where
  "isConstraintMemory u m =
     (if hasAnyTag u (m_Tags m) constraintTagMarkers then True
      else if hasScopedConstraintTag u (m_Tags m) then True
      else list_ex (Contains (ToLower u (m_Content m))) policyCuePhrases)"

text \<open>\<^verbatim>\<open>strings.TrimSpace(strings.TrimPrefix(s, p))\<close> for a string with the prefix.\<close>

definition after_prefix :: "string \<Rightarrow> string \<Rightarrow> string" where
  "after_prefix p s = TrimSpace (drop (length p) s)"

definition severities :: "string list" where
  "severities = [''critical'', ''high'', ''medium'', ''low'']"

fun tag_severity :: "(string \<Rightarrow> string) \<Rightarrow> string list \<Rightarrow> string option" where
  "tag_severity u [] = None"
| "tag_severity u (tag # tags) =
     (let l = ToLower u tag; v = after_prefix ''severity:'' l in
      if HasPrefix l ''severity:'' \<and> v \<in> set severities then Some v else tag_severity u tags)"

definition inferSeverity :: "(string \<Rightarrow> string) \<Rightarrow> Memory \<Rightarrow> string" where
  "inferSeverity u m =
     (case tag_severity u (m_Tags m) of
        Some v \<Rightarrow> v
      | None \<Rightarrow>
          if m_Importance m = 0 then ''critical'' else if m_Importance m = 1 then ''high''
          else if m_Importance m = 2 then ''medium'' else ''low'')"

definition requiresApproval :: "(string \<Rightarrow> string) \<Rightarrow> Memory \<Rightarrow> bool" where
  "requiresApproval u m =
     (if list_ex (\<lambda>tag. ToLower u tag = ''requires_approval'' \<or> ToLower u tag = ''approval_required'') (m_Tags m)
      then True
      else textContainsAny (ToLower u (m_Content m))
        [''requires approval'', ''require approval'', ''review required'', ''migration review'', ''deployment pipeline''])"

definition classifyFreshness :: "gotime \<Rightarrow> Memory \<Rightarrow> int \<Rightarrow> bool \<times> string" where
  "classifyFreshness now m staleAfterDays =
     (let before = (\<lambda>t. case t of None \<Rightarrow> False | Some x \<Rightarrow> x < now);
          ref = (if m_UpdatedAt m = 0 then m_CreatedAt m else m_UpdatedAt m) in
      if before (m_ExpiresAt m) then (True, ''expired'')
      else if before (m_NextReviewAt m) then (True, ''review_due'')
      else if ref = 0 then (True, ''unknown_timestamp'')
      else if now - ref > staleAfterDays * (24 * hour) then (True, ''older_than_'' @ show_int staleAfterDays @ ''_days'')
      else (False, []))"

section \<open>Text helpers\<close>

function chop_valid :: "string \<Rightarrow> string" where
  "chop_valid b = (if utf8_Valid b then b else chop_valid (butlast b))"
  by pat_completeness auto
termination
proof (relation "measure length")
  fix b
  assume "\<not> utf8_Valid b"
  then have "b \<noteq> []" by (auto simp: utf8_Valid.simps [of "[]"])
  then show "(butlast b, b) \<in> measure length" by simp
qed simp

declare chop_valid.simps [simp del]

definition truncateText :: "string \<Rightarrow> nat \<Rightarrow> string" where
  "truncateText s maxBytes = (if length s \<le> maxBytes then s else chop_valid (take maxBytes s))"

definition isStopword :: "string \<Rightarrow> bool" where
  "isStopword token \<longleftrightarrow> token \<in> set
     [''this'', ''that'', ''with'', ''from'', ''into'', ''what'', ''when'', ''where'', ''then'', ''than'', ''will'',
      ''would'', ''should'', ''could'', ''have'', ''has'', ''been'', ''using'']"

definition token_punctuation :: string where
  "token_punctuation = '',.:;()[]{}/-_'' @ [CHR 0x5C, CHR 0x27, CHR 0x22]"

definition importantTokens :: "(string \<Rightarrow> string) \<Rightarrow> string \<Rightarrow> string list" where
  "importantTokens u s =
     keep_first (\<lambda>f. f) [] (filter (\<lambda>f. length f \<ge> 4 \<and> \<not> isStopword f)
       (Fields (map (\<lambda>c. if c \<in> set token_punctuation then CHR '' '' else c) (ToLower u s))))"

definition tokenOverlapScore :: "(string \<Rightarrow> string) \<Rightarrow> string \<Rightarrow> string \<Rightarrow> nat" where
  "tokenOverlapScore u a b =
     (let ta = importantTokens u a; tb = importantTokens u b in
      if ta = [] \<or> tb = [] then 0 else length (filter (\<lambda>t. t \<in> set tb) ta))"

definition dedupeStrings :: "string list \<Rightarrow> string list" where
  "dedupeStrings values = keep_first (\<lambda>v. v) [] (filter (\<lambda>v. v \<noteq> []) values)"

definition actionTagMatchesProfile :: "string \<Rightarrow> actionProfile \<Rightarrow> string \<Rightarrow> bool" where
  "actionTagMatchesProfile tag p actionLower =
     (if tag \<in> {''production'', ''prod''} then ap_Production p
      else if tag \<in> {''ddl'', ''schema''} then ap_DDL p
      else if tag \<in> {''dml'', ''delete'', ''destructive''} then ap_DML p \<or> ap_Destructive p
      else if tag \<in> {''force-push'', ''force_push''} then ap_ForcePush p
      else if tag = ''main'' then ap_MainBranch p
      else Contains actionLower tag)"

definition inferConstraintSignals :: "(string \<Rightarrow> string) \<Rightarrow> Memory \<Rightarrow> string list" where
  "inferConstraintSignals u m =
     dedupeStrings
       ((if m_Importance m \<le> 1 then [''high_importance''] else [])
        @ (if hasAnyTag u (m_Tags m) constraintTagMarkers then [''explicit_constraint_tag''] else [])
        @ (if requiresApproval u m then [''approval_language''] else [])
        @ (if textContainsAny (ToLower u (m_Content m)) [''production'', ''main'', ''primary'']
           then [''protected_target''] else []))"

section \<open>Scoring a constraint\<close>

record constraintMatch =
  cm_MemoryID :: string
  cm_Content :: string
  cm_Tags :: "string list"
  cm_Importance :: int
  cm_Severity :: string
  cm_RequiresApproval :: bool
  cm_UpdatedAt :: gotime
  cm_CreatedAt :: gotime
  cm_MatchScore :: float64
  cm_MatchReasons :: "string list"
  cm_ConstraintSignals :: "string list"
  cm_Stale :: bool
  cm_StaleReason :: string

text \<open>The score and the reasons a tag adds.\<close>

definition scope_tag :: "(string \<Rightarrow> string) \<Rightarrow> actionProfile \<Rightarrow> string \<Rightarrow> string \<Rightarrow> (string \<times> float64) list" where
  "scope_tag u p actionLower tag =
     (let l = ToLower u tag; named = (\<lambda>n. n \<noteq> [] \<and> Contains actionLower n) in
      if HasPrefix l ''resource:''
      then (if named (after_prefix ''resource:'' l) then [(''resource_scope_match'', 2)] else [])
      else if HasPrefix l ''env:''
      then (if named (after_prefix ''env:'' l) then [(''environment_scope_match'', 3 / 2)] else [])
      else if HasPrefix l ''action:''
      then (let n = after_prefix ''action:'' l in
            if n \<noteq> [] \<and> actionTagMatchesProfile n p actionLower then [(''action_scope_match'', 17 / 10)] else [])
      else [])"

definition match_signals ::
    "(string \<Rightarrow> string) \<Rightarrow> Memory \<Rightarrow> string \<Rightarrow> actionProfile \<Rightarrow> (string \<times> float64) list" where
  "match_signals u m query p =
     (let actionLower = ToLower u query; content = ToLower u (m_Content m); sig = (\<lambda>b r x. if b then [(r, x)] else []) in
      sig (hasAnyTag u (m_Tags m) constraintTagMarkers) ''constraint_tag'' (6 / 5)
      @ sig (requiresApproval u m) ''approval_gate'' (4 / 5)
      @ sig (ap_Production p \<and> textContainsAny content [''production'', ''prod'', ''primary'']) ''production_boundary'' (3 / 2)
      @ sig (ap_ForcePush p \<and> textContainsAny content [''force push'', ''push --force'', ''rewrite history'']) ''force_push_policy'' 2
      @ sig (ap_DDL p \<and> textContainsAny content [''create index'', ''ddl'', ''schema'', ''migration'', ''deployment pipeline''])
          ''schema_change_policy'' (3 / 2)
      @ sig (ap_DML p \<and> textContainsAny content [''delete'', ''truncate'', ''drop'', ''destructive''])
          ''destructive_mutation_policy'' (9 / 5)
      @ concat (map (scope_tag u p actionLower) (m_Tags m))
      @ sig (tokenOverlapScore u actionLower content \<ge> 2) ''text_overlap'' (9 / 10)
      @ sig (textContainsAny content policyCuePhrases) ''policy_language'' (1 / 2))"

definition assessConstraintMatchWithRecallFlag ::
    "(string \<Rightarrow> string) \<Rightarrow> gotime \<Rightarrow> Memory \<Rightarrow> string \<Rightarrow> actionProfile \<Rightarrow> int \<Rightarrow> bool \<Rightarrow> constraintMatch \<times> bool" where
  "assessConstraintMatchWithRecallFlag u now m query p staleAfterDays viaRecall =
     (let (stale, reason) = classifyFreshness now m staleAfterDays;
          match = \<lparr>cm_MemoryID = m_ID m, cm_Content = truncateText (m_Content m) 500, cm_Tags = m_Tags m,
            cm_Importance = m_Importance m, cm_Severity = inferSeverity u m,
            cm_RequiresApproval = requiresApproval u m, cm_UpdatedAt = m_UpdatedAt m, cm_CreatedAt = m_CreatedAt m,
            cm_MatchScore = 0, cm_MatchReasons = [], cm_ConstraintSignals = inferConstraintSignals u m,
            cm_Stale = stale, cm_StaleReason = reason\<rparr> in
      if query = [] then (match\<lparr>cm_MatchScore := of_int (4 - m_Importance m) / 4\<rparr>, True)
      else
        let sigs = match_signals u m query p;
            score0 = sum_list (map snd sigs) + (if m_Importance m \<le> 1 then 1 / 2 else 0) - (if stale then 1 / 4 else 0);
            score = (if viaRecall \<and> score0 \<le> 0 then 1 / 10 else score0) in
        (match\<lparr>cm_MatchScore := score, cm_MatchReasons := dedupeStrings (map fst sigs)\<rparr>, score > 0))"

section \<open>The decision\<close>

record verificationResult =
  vr_Decision :: string
  vr_ProposedAction :: string
  vr_ActionProfile :: actionProfile
  vr_ChecksRun :: "string list"
  vr_Reasons :: "string list"
  vr_MatchedConstraints :: "constraintMatch list"
  vr_SuggestedSafeActions :: "string list"

text \<open>A missing key of the map reads as zero.\<close>

definition decisionRank :: "string \<Rightarrow> nat" where
  "decisionRank d = (if d = ''warn'' then 1 else if d = ''require_approval'' then 2 else if d = ''block'' then 3 else 0)"

definition elevateDecision :: "string \<Rightarrow> string \<Rightarrow> string" where
  "elevateDecision current level = (if decisionRank level > decisionRank current then level else current)"

definition suggestSafeActions :: "actionProfile \<Rightarrow> string list" where
  "suggestSafeActions p =
     (if ap_ForcePush p
      then [''create a new branch'', ''use revert instead of rewriting shared history'',
            ''open a pull request for the corrective change'']
      else if ap_Production p \<and> ap_DML p
      then [''review the data-retention or cleanup policy first'', ''archive or back up the data before any change'',
            ''use a controlled migration or approved maintenance runbook'']
      else if ap_Production p \<and> ap_DDL p
      then [''create a migration file instead of changing production directly'',
            ''run the migration through the deployment pipeline'',
            ''get schema review or operator approval before execution'']
      else if ap_Production p
      then [''verify current production state before acting'', ''prefer a reviewed change path over direct mutation'']
      else [])"

text \<open>One elevation: the decision and the reason appended.\<close>

definition raise_to :: "bool \<Rightarrow> string \<Rightarrow> string \<Rightarrow> string \<times> string list \<Rightarrow> string \<times> string list" where
  "raise_to cond level reason s = (if cond then (elevateDecision (fst s) level, snd s @ [reason]) else s)"

definition apply_match :: "constraintMatch \<Rightarrow> string \<times> string list \<Rightarrow> string \<times> string list" where
  "apply_match match s =
     raise_to (cm_Stale match) ''warn'' ''stale_constraint_evidence''
       (raise_to (cm_RequiresApproval match) ''require_approval'' ''approval_required_constraint''
         (if cm_Severity match = ''critical'' then raise_to True ''block'' ''critical_constraint_match'' s
          else if cm_Severity match = ''high'' then raise_to True ''require_approval'' ''high_severity_constraint_match'' s
          else raise_to True ''warn'' ''constraint_match'' s))"

definition baselines :: "actionProfile \<Rightarrow> string \<times> string list \<Rightarrow> string \<times> string list" where
  "baselines p s =
     raise_to (ap_Production p \<and> \<not> ap_DDL p \<and> \<not> ap_DML p \<and> \<not> ap_ForcePush p) ''warn'' ''production_scope_detected''
       (raise_to (ap_Production p \<and> ap_DDL p) ''require_approval'' ''production_schema_change_requires_review''
         (raise_to (ap_Production p \<and> ap_DML p) ''block'' ''destructive_production_mutation''
           (raise_to (ap_ForcePush p) ''block'' ''force_push_is_high_risk'' s)))"

definition evaluateVerification :: "string \<Rightarrow> actionProfile \<Rightarrow> constraintMatch list \<Rightarrow> verificationResult" where
  "evaluateVerification proposedAction p matches =
     (let s0 = (''proceed'', if matches = [] then [''no_matching_constraints_found''] else []);
          s1 = fold apply_match matches (baselines p s0);
          s2 = raise_to (matches = [] \<and> (ap_DML p \<or> ap_ForcePush p)) ''block'' ''high_risk_action_without_matching_policy'' s1;
          s3 = raise_to (matches = [] \<and> ap_DDL p) ''require_approval'' ''schema_change_without_matching_policy'' s2 in
      \<lparr>vr_Decision = fst s3, vr_ProposedAction = proposedAction, vr_ActionProfile = p, vr_ChecksRun = [],
       vr_Reasons = dedupeStrings (snd s3), vr_MatchedConstraints = matches,
       vr_SuggestedSafeActions = suggestSafeActions p\<rparr>)"

section \<open>Looking constraints up\<close>

definition defaultConstraintLimit :: int where "defaultConstraintLimit = 10"

definition defaultConstraintWindow :: int where "defaultConstraintWindow = 64"

definition defaultStaleAfterDays :: int where "defaultStaleAfterDays = 180"

definition clamp_param :: "int \<Rightarrow> int \<Rightarrow> int option \<Rightarrow> int" where
  "clamp_param dflt hi v =
     (case v of None \<Rightarrow> dflt | Some n \<Rightarrow> if n < 1 \<or> n > hi then dflt else n)"

definition constraintLookupParams :: "args \<Rightarrow> arg_error + int \<times> int" where
  "constraintLookupParams args =
     (case requireOptionalInt args ''limit'' of
        Inl e \<Rightarrow> Inl e
      | Inr l \<Rightarrow>
          (case requireOptionalInt args ''stale_after_days'' of
             Inl e \<Rightarrow> Inl e
           | Inr d \<Rightarrow> Inr (clamp_param defaultConstraintLimit 50 l, clamp_param defaultStaleAfterDays 3650 d)))"

definition buildConstraintQuery :: "string \<Rightarrow> string" where
  "buildConstraintQuery query = (if TrimSpace query = [] then ''constraint policy'' else query)"

definition severityRank :: "string \<Rightarrow> nat" where
  "severityRank s = (if s = ''critical'' then 0 else if s = ''high'' then 1 else if s = ''medium'' then 2 else 3)"

definition match_before :: "constraintMatch \<Rightarrow> constraintMatch \<Rightarrow> bool" where
  "match_before a b =
     (if cm_MatchScore a \<noteq> cm_MatchScore b then cm_MatchScore a > cm_MatchScore b
      else if severityRank (cm_Severity a) \<noteq> severityRank (cm_Severity b)
      then severityRank (cm_Severity a) < severityRank (cm_Severity b)
      else cm_UpdatedAt a > cm_UpdatedAt b)"

definition no_opts :: RecallOpts where
  "no_opts =
     \<lparr>ro_Reranker = None, ro_DenseReranker = None, ro_DenseRerankTopN = 0, ro_Mode = [],
      ro_CurrentEpisodeID = [], ro_DateSince = None, ro_DateBefore = None, ro_TopicAnchorBoost = False,
      ro_ExactFactBoost = False, ro_Fusion = False, ro_ParaphraseUnion = False, ro_SessionNDCGAgg = False,
      ro_TemporalWindowRecall = False, ro_QuestionText = [], ro_QuestionDate = [], ro_SessionDiversityN = 0\<rparr>"

text \<open>
  What a lookup meets besides the recall: the failure of the listing, the order of the map of
  candidates, and the order in which the sort leaves equal matches.
\<close>

record lookup_env =
  lk_recall :: "recall_env \<times> recall_env"
  lk_listFails :: bool
  lk_visit :: "(string \<times> Memory) list \<Rightarrow> (string \<times> Memory) list"
  lk_tie :: "constraintMatch list \<Rightarrow> constraintMatch list"

definition lk_lower :: "lookup_env \<Rightarrow> string \<Rightarrow> string" where
  "lk_lower lk = u_lower (rv_uni (fst (lk_recall lk)))"

type_synonym engine_state = "SearchEngine \<times> WeightCache option \<times> database"

definition add_constraints :: "(string \<Rightarrow> string) \<Rightarrow> Memory list \<Rightarrow> (string \<times> Memory) list \<Rightarrow> (string \<times> Memory) list" where
  "add_constraints u ms cands =
     fold (\<lambda>m cs. if isConstraintMemory u m then AList.update (m_ID m) m cs else cs) ms cands"

definition constraint_window :: "int \<Rightarrow> int" where
  "constraint_window n = (if n * 4 < defaultConstraintWindow then defaultConstraintWindow else n * 4)"

definition assess_candidate ::
    "lookup_env \<Rightarrow> string \<Rightarrow> actionProfile \<Rightarrow> int \<Rightarrow> string list \<Rightarrow> string \<times> Memory \<Rightarrow> constraintMatch \<times> bool" where
  "assess_candidate lk query p staleAfterDays recalled c =
     assessConstraintMatchWithRecallFlag (lk_lower lk) (rv_now (fst (lk_recall lk))) (snd c) query p staleAfterDays
       (m_ID (snd c) \<in> set recalled)"

definition rank_matches ::
    "lookup_env \<Rightarrow> string \<Rightarrow> actionProfile \<Rightarrow> int \<Rightarrow> int \<Rightarrow> (string \<times> Memory) list \<Rightarrow> string list \<Rightarrow> constraintMatch list" where
  "rank_matches lk query p n staleAfterDays cands recalled =
     (let assessed = map (assess_candidate lk query p staleAfterDays recalled) (lk_visit lk cands);
          matches = map fst (filter (\<lambda>a. snd a \<or> query = []) assessed) in
      take (nat n) (sort_stable match_before (lk_tie lk matches)))"

definition recalled_memories :: "SearchResult list \<Rightarrow> Memory list" where
  "recalled_memories rs = concat (map (\<lambda>r. case s_Memory r of None \<Rightarrow> [] | Some m \<Rightarrow> [m]) rs)"

definition findConstraintMatches ::
    "lookup_env \<Rightarrow> string \<Rightarrow> actionProfile \<Rightarrow> int \<Rightarrow> int \<Rightarrow> engine_state
     \<Rightarrow> engine_state \<times> (engine_error + constraintMatch list)" where
  "findConstraintMatches lk query p n staleAfterDays s =
     (let (e, cache, db) = s; u = lk_lower lk; window = constraint_window n in
      if lk_listFails lk then (s, Inl (Backend DbFailed))
      else
        let seeded = ListMemories (se_project e) None [] (Some 3) window 0 db;
            cands = add_constraints u seeded [] in
        if query = [] then (s, Inr (rank_matches lk query p n staleAfterDays cands []))
        else case RecallWithOpts (lk_recall lk) (buildConstraintQuery query) window ''full'' no_opts e cache db of
          (s1, Inl x) \<Rightarrow> (s1, Inl x)
        | (s1, Inr results) \<Rightarrow>
            let ms = recalled_memories results in
            (s1, Inr (rank_matches lk query p n staleAfterDays (add_constraints u ms cands)
               (map m_ID (filter (isConstraintMemory u) ms)))))"

section \<open>The handlers\<close>

datatype handler_error = BadArgument arg_error | ActionRequired | EngineFailed engine_error

definition handleGetConstraints ::
    "(string \<Rightarrow> string) \<Rightarrow> lookup_env \<Rightarrow> args \<Rightarrow> engine_state \<Rightarrow> engine_state \<times> (handler_error + constraintMatch list)" where
  "handleGetConstraints nfc lk args s =
     (case getProject nfc args ''default'' of
        Inl e \<Rightarrow> (s, Inl (BadArgument e))
      | Inr _ \<Rightarrow>
          (case constraintLookupParams args of
             Inl e \<Rightarrow> (s, Inl (BadArgument e))
           | Inr (n, days) \<Rightarrow>
               let query = getString args ''query'' [] in
               case findConstraintMatches lk query (classifyAction (lk_lower lk) query) n days s of
                 (s1, Inl x) \<Rightarrow> (s1, Inl (EngineFailed x))
               | (s1, Inr matches) \<Rightarrow> (s1, Inr matches)))"

definition verify_action ::
    "(string \<Rightarrow> string) \<Rightarrow> string list \<Rightarrow> lookup_env \<Rightarrow> args \<Rightarrow> engine_state \<Rightarrow> engine_state \<times> (handler_error + verificationResult)" where
  "verify_action nfc checks lk args s =
     (case getProject nfc args ''default'' of
        Inl e \<Rightarrow> (s, Inl (BadArgument e))
      | Inr _ \<Rightarrow>
          let action = getString args ''proposed_action'' [] in
          if action = [] then (s, Inl ActionRequired)
          else case constraintLookupParams args of
            Inl e \<Rightarrow> (s, Inl (BadArgument e))
          | Inr (n, days) \<Rightarrow>
              let p = classifyAction (lk_lower lk) action in
              case findConstraintMatches lk action p n days s of
                (s1, Inl x) \<Rightarrow> (s1, Inl (EngineFailed x))
              | (s1, Inr matches) \<Rightarrow> (s1, Inr ((evaluateVerification action p matches)\<lparr>vr_ChecksRun := checks\<rparr>)))"

definition handleCheckConstraints ::
    "(string \<Rightarrow> string) \<Rightarrow> lookup_env \<Rightarrow> args \<Rightarrow> engine_state \<Rightarrow> engine_state \<times> (handler_error + verificationResult)" where
  "handleCheckConstraints nfc = verify_action nfc [''constraint_lookup'', ''constraint_match'']"

definition handleVerifyBeforeActing ::
    "(string \<Rightarrow> string) \<Rightarrow> lookup_env \<Rightarrow> args \<Rightarrow> engine_state \<Rightarrow> engine_state \<times> (handler_error + verificationResult)" where
  "handleVerifyBeforeActing nfc =
     verify_action nfc [''constraint_lookup'', ''constraint_match'', ''freshness_scan'', ''risk_baseline'']"

section \<open>What the decision depends on\<close>

definition decisions :: "string set" where
  "decisions = {''proceed'', ''warn'', ''require_approval'', ''block''}"

lemma decisions_members [simp]:
  "''proceed'' \<in> decisions" "''warn'' \<in> decisions" "''require_approval'' \<in> decisions" "''block'' \<in> decisions"
  by (simp_all add: decisions_def)

lemma decisionRank_simps [simp]:
  "decisionRank ''proceed'' = 0" "decisionRank ''warn'' = 1" "decisionRank ''require_approval'' = 2"
  "decisionRank ''block'' = 3"
  by (simp_all add: decisionRank_def)

lemma decision_of_rank:
  "d \<in> decisions \<Longrightarrow> d = [''proceed'', ''warn'', ''require_approval'', ''block''] ! decisionRank d"
  by (auto simp: decisions_def)

lemma raise_to_rank:
  "decisionRank (fst (raise_to c l r s)) = max (decisionRank (fst s)) (if c then decisionRank l else 0)"
  by (simp add: raise_to_def elevateDecision_def)

lemma raise_to_decisions: "fst s \<in> decisions \<Longrightarrow> l \<in> decisions \<Longrightarrow> fst (raise_to c l r s) \<in> decisions"
  by (simp add: raise_to_def elevateDecision_def)

text \<open>The rank a single match asks for.\<close>

definition match_rank :: "constraintMatch \<Rightarrow> nat" where
  "match_rank m =
     max (if cm_Severity m = ''critical'' then 3 else if cm_Severity m = ''high'' then 2 else 1)
       (if cm_RequiresApproval m then 2 else 0)"

lemma apply_match_rank: "decisionRank (fst (apply_match m s)) = max (decisionRank (fst s)) (match_rank m)"
  by (auto simp: apply_match_def raise_to_rank match_rank_def max_def)

lemma apply_match_decisions: "fst s \<in> decisions \<Longrightarrow> fst (apply_match m s) \<in> decisions"
  unfolding apply_match_def by (intro raise_to_decisions) (auto intro: raise_to_decisions)

lemma fold_apply_match:
  "decisionRank (fst (fold apply_match ms s)) = fold max (map match_rank ms) (decisionRank (fst s))"
  "fst s \<in> decisions \<Longrightarrow> fst (fold apply_match ms s) \<in> decisions"
  by (induction ms arbitrary: s) (simp_all add: apply_match_rank apply_match_decisions max.commute)

lemma baselines_decisions: "fst s \<in> decisions \<Longrightarrow> fst (baselines p s) \<in> decisions"
  unfolding baselines_def by (intro raise_to_decisions) simp_all

lemma baselines_rank:
  "decisionRank (fst (baselines p s)) =
     max (decisionRank (fst s))
       (if ap_ForcePush p \<or> ap_Production p \<and> ap_DML p then 3
        else if ap_Production p \<and> ap_DDL p then 2 else if ap_Production p then 1 else 0)"
  by (cases "ap_Production p"; cases "ap_DDL p"; cases "ap_DML p"; cases "ap_ForcePush p")
    (simp_all add: baselines_def raise_to_rank max.assoc)

definition evidence_rank :: "actionProfile \<Rightarrow> constraintMatch list \<Rightarrow> nat" where
  "evidence_rank p ms =
     fold max (map match_rank ms)
       (if ap_ForcePush p \<or> ap_DML p \<and> (ap_Production p \<or> ms = []) then 3
        else if ap_DDL p \<and> (ap_Production p \<or> ms = []) then 2 else if ap_Production p then 1 else 0)"

lemma evaluate_rank:
  "decisionRank (vr_Decision (evaluateVerification a p ms)) = evidence_rank p ms"
  "vr_Decision (evaluateVerification a p ms) \<in> decisions"
proof -
  show "vr_Decision (evaluateVerification a p ms) \<in> decisions"
    unfolding evaluateVerification_def Let_def verificationResult.simps
    by (intro raise_to_decisions fold_apply_match(2) baselines_decisions) simp_all
  show "decisionRank (vr_Decision (evaluateVerification a p ms)) = evidence_rank p ms"
    by (cases "ms = []")
      (auto simp: evaluateVerification_def Let_def raise_to_rank fold_apply_match(1) baselines_rank evidence_rank_def)
qed

lemma fold_max_ge: "fold max xs (k :: nat) \<ge> n \<longleftrightarrow> k \<ge> n \<or> list_ex (\<lambda>x. x \<ge> n) xs"
  by (induction xs arbitrary: k) (simp_all add: le_max_iff_disj disj_ac)

lemma match_rank_ge:
  "match_rank m \<ge> 3 \<longleftrightarrow> cm_Severity m = ''critical''"
  "match_rank m \<ge> 2 \<longleftrightarrow> cm_Severity m = ''critical'' \<or> cm_Severity m = ''high'' \<or> cm_RequiresApproval m"
  "match_rank m \<ge> 1" "match_rank m \<le> 3"
  by (auto simp: match_rank_def)

lemma evidence_rank_le: "evidence_rank p ms \<le> 3"
proof -
  have "fold max xs (k :: nat) \<le> 3" if "k \<le> 3" "list_all (\<lambda>x. x \<le> 3) xs" for xs k
    using that by (induction xs arbitrary: k) auto
  then show ?thesis unfolding evidence_rank_def by (auto simp: list_all_iff match_rank_ge(4))
qed

lemma verification_decision:
  "vr_Decision (evaluateVerification a p ms) =
     (if ap_ForcePush p \<or> ap_DML p \<and> (ap_Production p \<or> ms = []) \<or> list_ex (\<lambda>m. cm_Severity m = ''critical'') ms
      then ''block''
      else if ap_DDL p \<and> (ap_Production p \<or> ms = [])
        \<or> list_ex (\<lambda>m. cm_Severity m = ''high'' \<or> cm_RequiresApproval m) ms
      then ''require_approval''
      else if ap_Production p \<or> ms \<noteq> [] then ''warn'' else ''proceed'')"
proof -
  let ?r = "evidence_rank p ms"
  let ?B = "ap_ForcePush p \<or> ap_DML p \<and> (ap_Production p \<or> ms = []) \<or> list_ex (\<lambda>m. cm_Severity m = ''critical'') ms"
  let ?R = "ap_DDL p \<and> (ap_Production p \<or> ms = []) \<or> list_ex (\<lambda>m. cm_Severity m = ''high'' \<or> cm_RequiresApproval m) ms"
  have ex: "list_ex (\<lambda>x. x \<ge> n) (map match_rank ms) = list_ex (\<lambda>m. match_rank m \<ge> n) ms" for n
    by (simp add: list_ex_iff)
  have ex2: "list_ex (\<lambda>m. P m \<or> Q m) ms \<longleftrightarrow> list_ex P ms \<or> list_ex Q ms" for P Q
    by (auto simp: list_ex_iff)
  define B R W where defs: "B \<longleftrightarrow> ?B" "R \<longleftrightarrow> ?R" "W \<longleftrightarrow> ap_Production p \<or> ms \<noteq> []"
  have "3 \<le> ?r \<longleftrightarrow> B"
    unfolding evidence_rank_def fold_max_ge ex match_rank_ge(1) defs by auto
  moreover have "2 \<le> ?r \<longleftrightarrow> B \<or> R"
    unfolding evidence_rank_def fold_max_ge ex match_rank_ge(2) ex2 defs by auto
  moreover have "1 \<le> ?r \<longleftrightarrow> B \<or> R \<or> W"
    unfolding evidence_rank_def fold_max_ge ex defs using match_rank_ge(3) by (cases ms) auto
  ultimately have "?r = (if B then 3 else if R then 2 else if W then 1 else 0)"
    using evidence_rank_le [of p ms] by (cases B; cases R; cases W) simp_all
  moreover have "vr_Decision (evaluateVerification a p ms) = [''proceed'', ''warn'', ''require_approval'', ''block''] ! ?r"
    using decision_of_rank [OF evaluate_rank(2)] evaluate_rank(1) by metis
  ultimately have "vr_Decision (evaluateVerification a p ms)
      = (if B then ''block'' else if R then ''require_approval'' else if W then ''warn'' else ''proceed'')"
    by simp
  then show ?thesis unfolding defs .
qed

text \<open>
  C24: The decision is the strongest demand of the risk baselines and the matched constraints, whatever
  their order. An action is blocked exactly when it force-pushes, mutates production destructively,
  matches a critical constraint, or is destructive and matches no constraint; it requires approval
  exactly when it is not blocked and changes a schema in production or without a matching constraint,
  or matches a constraint of high severity or with an approval gate; it is warned about when it is
  otherwise in production or matches any constraint.
\<close>

theorem verification_decision_spec:
  "vr_Decision (evaluateVerification a p ms) =
     (if ap_ForcePush p \<or> ap_DML p \<and> (ap_Production p \<or> ms = []) \<or> list_ex (\<lambda>m. cm_Severity m = ''critical'') ms
      then ''block''
      else if ap_DDL p \<and> (ap_Production p \<or> ms = [])
        \<or> list_ex (\<lambda>m. cm_Severity m = ''high'' \<or> cm_RequiresApproval m) ms
      then ''require_approval''
      else if ms = [] \<and> \<not> ap_Production p then ''proceed'' else ''warn'')"
  unfolding verification_decision by auto

lemma evidence_rank_mono:
  assumes "ms \<noteq> []" "set ms \<subseteq> set ms'"
  shows "evidence_rank p ms \<le> evidence_rank p ms'"
proof -
  have "ms' \<noteq> []" using assms by auto
  have "fold max (map match_rank ms) k \<le> fold max (map match_rank ms') k" for k
    unfolding Max.set_eq_fold [symmetric] by (rule Max_mono) (use assms(2) in auto)
  then show ?thesis unfolding evidence_rank_def using assms(1) \<open>ms' \<noteq> []\<close> by simp
qed

text \<open>
  C26: A stored constraint can lower the decision. Among actions with a matching constraint, more
  constraints never lower it; but a destructive (DML) action outside production and without a force push that matches
  nothing is blocked, and with any number of matches that are neither critical nor high nor gated by an approval
  it is only warned about.
\<close>

theorem stored_constraint_lowers_decision:
  assumes "ms \<noteq> []"
  shows "(set ms \<subseteq> set ms' \<longrightarrow>
      decisionRank (vr_Decision (evaluateVerification a p ms)) \<le> decisionRank (vr_Decision (evaluateVerification a p ms')))
    \<and> (ap_DML p \<and> \<not> ap_Production p \<and> \<not> ap_ForcePush p
        \<and> list_all (\<lambda>m. cm_Severity m \<notin> {''critical'', ''high''} \<and> \<not> cm_RequiresApproval m) ms
      \<longrightarrow> vr_Decision (evaluateVerification a p []) = ''block'' \<and> vr_Decision (evaluateVerification a p ms) = ''warn'')"
proof -
  have "evidence_rank p ms \<le> evidence_rank p ms'" if "set ms \<subseteq> set ms'"
    using that by (rule evidence_rank_mono [OF assms])
  moreover have "vr_Decision (evaluateVerification a p []) = ''block'' \<and> vr_Decision (evaluateVerification a p ms) = ''warn''"
    if "ap_DML p" "\<not> ap_Production p" "\<not> ap_ForcePush p"
      "list_all (\<lambda>m. cm_Severity m \<notin> {''critical'', ''high''} \<and> \<not> cm_RequiresApproval m) ms"
  proof -
    have "\<not> list_ex (\<lambda>m. cm_Severity m = ''critical'') ms" "\<not> list_ex (\<lambda>m. cm_Severity m = ''high'' \<or> cm_RequiresApproval m) ms"
      using that(4) by (auto simp: list_all_iff list_ex_iff)
    then show ?thesis using that(1-3) assms unfolding verification_decision by simp
  qed
  ultimately show ?thesis unfolding evaluate_rank by blast
qed

definition plain_match :: "string \<Rightarrow> constraintMatch" where
  "plain_match sev = \<lparr>cm_MemoryID = ''m'', cm_Content = [], cm_Tags = [], cm_Importance = 3, cm_Severity = sev,
     cm_RequiresApproval = False, cm_UpdatedAt = 1, cm_CreatedAt = 1, cm_MatchScore = 1, cm_MatchReasons = [],
     cm_ConstraintSignals = [], cm_Stale = False, cm_StaleReason = []\<rparr>"

lemma delete_profile:
  "ap_DML (classifyAction id ''delete from cache'') \<and> \<not> ap_Production (classifyAction id ''delete from cache'')
   \<and> \<not> ap_ForcePush (classifyAction id ''delete from cache'')"
  by code_simp

theorem stored_constraint_lowers_decision_witness:
  "vr_Decision (evaluateVerification ''x'' (classifyAction id ''delete from cache'') []) = ''block''
   \<and> vr_Decision (evaluateVerification ''x'' (classifyAction id ''delete from cache'') [plain_match ''low'']) = ''warn''"
  using stored_constraint_lowers_decision [of "[plain_match ''low'']" "[plain_match ''low'']" "''x''" "classifyAction id ''delete from cache''"]
    delete_profile
  by (simp add: plain_match_def)

lemma assessed_recalled:
  "query \<noteq> [] \<Longrightarrow> snd (assessConstraintMatchWithRecallFlag u now m query p days True)"
  by (simp add: assessConstraintMatchWithRecallFlag_def Let_def split: prod.splits)

lemma assessed_fields:
  "cm_Severity (fst (assessConstraintMatchWithRecallFlag u now m query p days r)) = inferSeverity u m"
  "cm_MemoryID (fst (assessConstraintMatchWithRecallFlag u now m query p days r)) = m_ID m"
  by (simp_all add: assessConstraintMatchWithRecallFlag_def Let_def split: prod.splits)

lemma rank_matches_all:
  assumes "\<And>xs. mset (lk_visit lk xs) = mset xs" "\<And>xs. mset (lk_tie lk xs) = mset xs" "length cands \<le> nat n"
  shows "set (rank_matches lk query p n days cands recalled)
    = fst ` {a \<in> assess_candidate lk query p days recalled ` set cands. snd a \<or> query = []}"
proof -
  let ?as = "map (assess_candidate lk query p days recalled) (lk_visit lk cands)"
  let ?ms = "map fst (filter (\<lambda>a. snd a \<or> query = []) ?as)"
  have "length (sort_stable match_before (lk_tie lk ?ms)) = length (filter (\<lambda>a. snd a \<or> query = []) ?as)"
    using mset_eq_length [OF assms(2) [of ?ms]] by simp
  also have "\<dots> \<le> length cands"
    using mset_eq_length [OF assms(1) [of cands]] length_filter_le [of _ ?as] by (metis length_map)
  finally have "set (rank_matches lk query p n days cands recalled) = set ?ms"
    using mset_eq_setD [OF assms(2) [of ?ms]] assms(3) by (simp add: rank_matches_def Let_def)
  then show ?thesis
    using mset_eq_setD [OF assms(1) [of cands]] by simp
qed

text \<open>
  C25: A recalled critical constraint blocks. As long as the candidates fit the limit, every constraint the
  recall found counts, however little its text and tags have in common with the action, and also when
  it is stale: one of critical severity among them makes the decision to block, whatever the order of
  the candidates and of equal matches.
\<close>

theorem recalled_critical_constraint_blocks:
  assumes "\<And>xs. mset (lk_visit lk xs) = mset xs" "\<And>xs. mset (lk_tie lk xs) = mset xs"
    and "(i, m) \<in> set cands" "m_ID m \<in> set recalled" "length cands \<le> nat n"
    and "inferSeverity (lk_lower lk) m = ''critical''" "query \<noteq> []"
  shows "vr_Decision (evaluateVerification query p (rank_matches lk query p n days cands recalled)) = ''block''"
proof -
  let ?a = "assess_candidate lk query p days recalled (i, m)"
  have "snd ?a" "cm_Severity (fst ?a) = ''critical''"
    using assms(4,6,7) by (simp_all add: assess_candidate_def assessed_recalled assessed_fields)
  then have "fst ?a \<in> set (rank_matches lk query p n days cands recalled)"
    unfolding rank_matches_all [OF assms(1,2,5)] using assms(3) by blast
  then have "list_ex (\<lambda>m. cm_Severity m = ''critical'') (rank_matches lk query p n days cands recalled)"
    unfolding list_ex_iff using \<open>cm_Severity (fst ?a) = ''critical''\<close> by blast
  then show ?thesis by (simp add: verification_decision)
qed

definition plain_lookup :: lookup_env where
  "plain_lookup = \<lparr>lk_recall = (plain_env, plain_env), lk_listFails = False, lk_visit = rev, lk_tie = rev\<rparr>"

theorem recalled_critical_constraint_blocks_witness:
  "vr_Decision (evaluateVerification ''go'' (classifyAction id ''go'')
     (rank_matches plain_lookup ''go'' (classifyAction id ''go'') 10 180
       [(''b'', note_memory ''b'' False), (''a'', (note_memory ''a'' False)\<lparr>m_Importance := 0\<rparr>)] [''a''])) = ''block''"
  by (rule recalled_critical_constraint_blocks [where i = "''a''" and m = "(note_memory ''a'' False)\<lparr>m_Importance := 0\<rparr>"])
    (simp_all add: plain_lookup_def note_memory_def inferSeverity_def)

text \<open>
  The words that mean production are matched anywhere in the text. An action on a domain, a product
  or what remains counts as one on production, so a harmless deletion there is blocked as a destructive
  mutation of production; the branch named main is recognised as a word only.
\<close>

theorem production_hint_inside_words:
  "vr_Decision (evaluateVerification a (classifyAction u ''delete from domain_cache'') ms) = ''block''
   \<and> ap_Production (classifyAction u ''delete from domain_cache'')
   \<and> \<not> ap_MainBranch (classifyAction u ''delete from domain_cache'')"
proof -
  have "classifyAction u ''delete from domain_cache'' = classifyAction id ''delete from domain_cache''"
    by (simp add: classifyAction_def ToLower_def, code_simp)
  moreover have "ap_Production (classifyAction id ''delete from domain_cache'')"
    "ap_DML (classifyAction id ''delete from domain_cache'')"
    "\<not> ap_MainBranch (classifyAction id ''delete from domain_cache'')"
    by code_simp+
  ultimately show ?thesis by (simp add: verification_decision)
qed

end
