(* ===== verification/Consolidate.thy ===== *)
theory Consolidate
  imports Recall
begin

text \<open>
  Consolidation of a project (\<^verbatim>\<open>src/internal/consolidate/consolidate.go\<close> and
  \<^verbatim>\<open>llm_contradiction.go\<close>): similar memories are joined, contradicting ones are detected by patterns
  and, on request, by a language model, and the older of two contradicting memories is retired.

  A run is a value of \<open>Runner\<close>: the backend's and the runner's project, and what the program does
  not decide. \<open>rn_call op x y\<close> is the environment of the call of \<open>op\<close> for \<open>x\<close> and \<open>y\<close> (no call is made
  twice in a pass for the same memories), \<open>rn_order\<close> the iteration order of a map's keys,
  \<open>rn_complete n\<close> the \<open>n\<close>-th answer of the language model, if it gives one. The ages of two memories are
  compared as integers; \<^verbatim>\<open>time.Sub\<close>, which saturates beyond 292 years, agrees with that below.
\<close>

section \<open>Contradicting texts\<close>

definition versionRe :: regex where
  "versionRe = seqs [Opt (lit ''v''), Plus (Rune digit_class), lit ''.'', Plus (Rune digit_class),
     Star (Seq (lit ''.'') (Plus (Rune digit_class)))]"

definition domainStopwords :: "string list" where
  "domainStopwords =
     [''pattern'', ''patterns'', ''session'', ''sessions'', ''memory'', ''memories'', ''engram'', ''project'',
      ''projects'', ''system'', ''systems'', ''context'', ''contexts'', ''feedback'', ''completed'', ''complete'',
      ''clearwatch'', ''using'', ''used'', ''based'', ''current'', ''currently'', ''should'', ''always'',
      ''never'', ''when'', ''where'', ''that'', ''this'', ''with'', ''from'', ''into'', ''over'', ''have'',
      ''will'', ''been'', ''they'', ''their'', ''work'', ''works'', ''working'', ''data'', ''result'',
      ''results'', ''agent'', ''agents'', ''tool'', ''tools'', ''file'', ''files'']"

definition negationPhrases :: "string list" where
  "negationPhrases =
     [''not '', ''no '', ''never '', ''does not'', ''do not'', ''is not'', ''are not'', ''cannot'', ''can't'',
      ''don't'', ''doesn't'', ''isn't'', ''won't'', ''wasn't'', ''weren't'', ''didn't'', ''hasn't'', ''haven't'',
      ''hadn't'']"

definition pastTenseMarkers :: "string list" where
  "pastTenseMarkers = [''was '', ''were '', ''previously '', ''used to '', ''had been '', ''no longer '']"

definition presentTenseMarkers :: "string list" where
  "presentTenseMarkers = ['' is '', '' are '', '' now '', ''currently '', ''today '']"

text \<open>The words of the set \<^verbatim>\<open>significantWords\<close>, each once.\<close>

definition significantWords :: "string \<Rightarrow> string list" where
  "significantWords s =
     remdups (filter (\<lambda>w. length w > 3 \<and> w \<notin> set domainStopwords)
       (FieldsFunc (\<lambda>r. \<not> (97 \<le> r \<and> r \<le> 122 \<or> 48 \<le> r \<and> r \<le> 57)) s))"

definition sharedWordCount :: "string \<Rightarrow> string \<Rightarrow> nat" where
  "sharedWordCount a b = length (filter (\<lambda>w. w \<in> set (significantWords b)) (significantWords a))"

definition containsAny :: "string \<Rightarrow> string list \<Rightarrow> bool" where
  "containsAny s phrases = list_ex (Contains s) phrases"

definition stripVersions :: "string \<Rightarrow> string" where
  "stripVersions s = ReplaceAllString versionRe [] s"

definition sameVersionSet :: "string list \<Rightarrow> string list \<Rightarrow> bool" where
  "sameVersionSet a b \<longleftrightarrow> length a = length b \<and> list_all (\<lambda>v. v \<in> set a) b"

definition isContradiction :: "(string \<Rightarrow> string) \<Rightarrow> string \<Rightarrow> string \<Rightarrow> bool" where
  "isContradiction lower contentA contentB =
     (let a = ToLower lower contentA; b = ToLower lower contentB;
          aVers = FindAllString versionRe a; bVers = FindAllString versionRe b;
          aPast = containsAny a pastTenseMarkers; bPast = containsAny b pastTenseMarkers;
          aPresent = containsAny a presentTenseMarkers; bPresent = containsAny b presentTenseMarkers in
      if sharedWordCount a b \<ge> 5 \<and> containsAny a negationPhrases \<noteq> containsAny b negationPhrases
      then True
      else if aVers \<noteq> [] \<and> bVers \<noteq> [] \<and> sharedWordCount (stripVersions a) (stripVersions b) \<ge> 3
              \<and> \<not> sameVersionSet aVers bVers
      then True
      else (aPast \<and> bPresent \<and> \<not> bPast \<or> bPast \<and> aPresent \<and> \<not> aPast) \<and> sharedWordCount a b \<ge> 4)"

section \<open>Runs\<close>

record RunOptions =
  ru_InferRelationshipsMinSimilarity :: float64
  ru_InferRelationshipsLimit :: int
  ru_ContradictionDetectionLimit :: int
  ru_LLMContradictionDetection :: bool
  ru_RouterURL :: string
  ru_OllamaModel :: string
  ru_LLMMaxCalls :: int
  ru_AutoSupersede :: bool

record Runner =
  rn_bproj :: string
  rn_project :: string
  rn_call :: "string \<Rightarrow> string \<Rightarrow> string \<Rightarrow> call_env"
  rn_order :: "string list \<Rightarrow> string list"
  rn_tie :: "Chunk list \<Rightarrow> Chunk list"
  rn_tkey :: "string \<Rightarrow> nat"
  rn_cosdist :: "float32 list \<Rightarrow> float32 list \<Rightarrow> float64"
  rn_lower :: "string \<Rightarrow> string"
  rn_complete :: "nat \<Rightarrow> string \<Rightarrow> string \<Rightarrow> string \<Rightarrow> string option"

type_synonym pairKey = "string \<times> string"

definition canonical :: "string \<Rightarrow> string \<Rightarrow> pairKey" where
  "canonical a b = (if a < b then (a, b) else (b, a))"

text \<open>A loop that returns at the first error.\<close>

fun each :: "('a \<Rightarrow> 's \<Rightarrow> 's \<times> (db_error + unit)) \<Rightarrow> 'a list \<Rightarrow> 's \<Rightarrow> 's \<times> (db_error + unit)" where
  "each f [] s = (s, Inr ())"
| "each f (x # xs) s = (case f x s of (s', Inl e) \<Rightarrow> (s', Inl e) | (s', Inr _) \<Rightarrow> each f xs s')"

subsection \<open>Reading the tables\<close>

definition live_rows :: "string \<Rightarrow> database \<Rightarrow> Memory list" where
  "live_rows project db = filter (\<lambda>m. m_Project m = project \<and> m_ValidTo m = None) (db_memories db)"

definition row_accessed :: "database \<Rightarrow> Chunk \<Rightarrow> gotime" where
  "row_accessed db c =
     (case find (\<lambda>m. m_ID m = c_MemoryID c) (db_memories db) of None \<Rightarrow> 0 | Some m \<Rightarrow> m_LastAccessed m)"

text \<open>\<open>tie\<close> orders the rows of equally recent memories.\<close>

definition GetAllChunksWithEmbeddings ::
    "(Chunk list \<Rightarrow> Chunk list) \<Rightarrow> string \<Rightarrow> int \<Rightarrow> database \<Rightarrow> Chunk list" where
  "GetAllChunksWithEmbeddings tie project limit db =
     take (nat limit) (sort_stable (\<lambda>a b. row_accessed db b < row_accessed db a)
       (tie (filter (\<lambda>c. c_Embedding c \<noteq> [] \<and> c_MemoryID c \<in> m_ID ` set (live_rows project db)) (db_chunks db))))"

definition GetAllMemoryIDs :: "string \<Rightarrow> database \<Rightarrow> string list" where
  "GetAllMemoryIDs project db = map m_ID (live_rows project db)"

definition GetMemoryTypeMap :: "string \<Rightarrow> database \<Rightarrow> (string \<times> string) list" where
  "GetMemoryTypeMap project db = map (\<lambda>m. (m_ID m, m_MemoryType m)) (live_rows project db)"

definition VectorSearch :: "Runner \<Rightarrow> float32 list \<Rightarrow> int \<Rightarrow> database \<Rightarrow> VectorHit list" where
  "VectorSearch R queryVec limit db =
     VectorSearchWithDateRange (rn_tkey R) (rn_cosdist R) (rn_project R) queryVec limit None None db"

text \<open>The first chunk of each memory, and the entries in the order the map is walked.\<close>

definition first_chunks :: "Chunk list \<Rightarrow> (string \<times> Chunk) list" where
  "first_chunks cs =
     fold (\<lambda>c m. if map_of m (c_MemoryID c) = None then m @ [(c_MemoryID c, c)] else m) cs []"

definition walk :: "Runner \<Rightarrow> (string \<times> Chunk) list \<Rightarrow> (string \<times> Chunk) list" where
  "walk R m = map (\<lambda>i. (i, the (map_of m i))) (rn_order R (map fst m))"

definition other_end :: "string \<Rightarrow> Relationship \<Rightarrow> string" where
  "other_end memID r = (if r_SourceID r = memID then r_TargetID r else r_SourceID r)"

definition new_edge :: "Runner \<Rightarrow> string \<Rightarrow> string \<Rightarrow> string \<Rightarrow> float64 \<Rightarrow> call_env \<Rightarrow> Relationship" where
  "new_edge R source target relType strength env =
     \<lparr>r_ID = e_newid env, r_SourceID = source, r_TargetID = target, r_RelType = relType,
      r_Strength = strength, r_Project = rn_project R, r_CreatedAt = 0\<rparr>"

record uncaughtPair =
  up_sourceID :: string
  up_targetID :: string
  up_textA :: string
  up_textB :: string
  up_strength :: float64

text \<open>The variables of the two scans.\<close>

record scan =
  sc_db :: database
  sc_processed :: "pairKey list"
  sc_created :: int
  sc_uncaught :: "uncaughtPair list"

definition start_scan :: "database \<Rightarrow> scan" where
  "start_scan db = \<lparr>sc_db = db, sc_processed = [], sc_created = 0, sc_uncaught = []\<rparr>"

definition mark :: "pairKey \<Rightarrow> scan \<Rightarrow> scan" where
  "mark key s = s\<lparr>sc_processed := key # sc_processed s\<rparr>"

definition store_edge :: "Runner \<Rightarrow> string \<Rightarrow> string \<Rightarrow> string \<Rightarrow> float64 \<Rightarrow> scan \<Rightarrow> scan \<times> (db_error + unit)" where
  "store_edge R source target relType strength s =
     (let env = rn_call R ''StoreRelationship'' source target in
      case StoreRelationship (rn_bproj R) env (new_edge R source target relType strength env) (sc_db s) of
        (db', Inl e) \<Rightarrow> (s\<lparr>sc_db := db'\<rparr>, Inl e)
      | (db', Inr _) \<Rightarrow> (s\<lparr>sc_db := db', sc_created := sc_created s + 1\<rparr>, Inr ()))"

text \<open>What is returned: the tables, the number of edges created, and the error, if any.\<close>

definition scan_result :: "scan \<times> (db_error + unit) \<Rightarrow> database \<times> int \<times> db_error option" where
  "scan_result r =
     (sc_db (fst r), sc_created (fst r), (case snd r of Inl e \<Rightarrow> Some e | Inr _ \<Rightarrow> None))"

subsection \<open>Linking similar memories\<close>

definition infer_hit ::
    "Runner \<Rightarrow> float64 \<Rightarrow> string \<Rightarrow> string list \<Rightarrow> VectorHit \<Rightarrow> scan \<Rightarrow> scan \<times> (db_error + unit)" where
  "infer_hit R minSimilarity memID linked hit s =
     (let key = canonical memID (vh_MemoryID hit); similarity = 1 - vh_Distance hit in
      if vh_MemoryID hit = memID then (s, Inr ())
      else if key \<in> set (sc_processed s) then (s, Inr ())
      else if similarity < minSimilarity then (mark key s, Inr ())
      else if vh_MemoryID hit \<in> set linked then (mark key s, Inr ())
      else case store_edge R memID (vh_MemoryID hit) ''relates_to'' similarity s of
             (s', Inl e) \<Rightarrow> (s', Inl e)
           | (s', Inr _) \<Rightarrow> (mark key s', Inr ()))"

definition infer_memory ::
    "Runner \<Rightarrow> float64 \<Rightarrow> int \<Rightarrow> string \<times> Chunk \<Rightarrow> scan \<Rightarrow> scan \<times> (db_error + unit)" where
  "infer_memory R minSimilarity limit mc s =
     (let memID = fst mc; chunk = snd mc in
      if e_fault (rn_call R ''GetRelationships'' memID []) ''query'' then (s, Inl DbFailed)
      else let linked = map (other_end memID) (GetRelationships (rn_project R) memID (sc_db s)) in
      if e_fault (rn_call R ''VectorSearch'' memID []) ''query'' then (s, Inl DbFailed)
      else each (infer_hit R minSimilarity memID linked)
             (VectorSearch R (c_Embedding chunk) limit (sc_db s)) s)"

definition InferRelationships ::
    "Runner \<Rightarrow> float64 \<Rightarrow> int \<Rightarrow> database \<Rightarrow> database \<times> int \<times> db_error option" where
  "InferRelationships R minSimilarity limit db =
     (if e_fault (rn_call R ''GetAllChunksWithEmbeddings'' [] []) ''query'' then (db, 0, Some DbFailed)
      else let chunks = GetAllChunksWithEmbeddings (rn_tie R) (rn_project R) limit db in
        scan_result (each (infer_memory R minSimilarity limit) (walk R (first_chunks chunks)) (start_scan db)))"

subsection \<open>Detecting contradictions\<close>

definition maxContradictionChunkLen :: nat where
  "maxContradictionChunkLen = 400"

definition memory_type_of :: "(string \<times> string) list \<Rightarrow> string \<Rightarrow> string" where
  "memory_type_of memTypes i = (case map_of memTypes i of None \<Rightarrow> [] | Some t \<Rightarrow> t)"

definition detect_hit ::
    "Runner \<Rightarrow> float64 \<Rightarrow> RunOptions \<Rightarrow> (string \<times> string) list \<Rightarrow> string \<Rightarrow> Chunk \<Rightarrow> string list
      \<Rightarrow> VectorHit \<Rightarrow> scan \<Rightarrow> scan \<times> (db_error + unit)" where
  "detect_hit R minSimilarity opts memTypes memID chunk alreadyContradicts hit s =
     (let key = canonical memID (vh_MemoryID hit); similarity = 1 - vh_Distance hit in
      if vh_MemoryID hit = memID then (s, Inr ())
      else if memory_type_of memTypes (vh_MemoryID hit) = ''context'' then (s, Inr ())
      else if length (vh_ChunkText hit) > maxContradictionChunkLen then (s, Inr ())
      else if key \<in> set (sc_processed s) then (s, Inr ())
      else if similarity < minSimilarity then (mark key s, Inr ())
      else if vh_MemoryID hit \<in> set alreadyContradicts then (mark key s, Inr ())
      else if \<not> isContradiction (rn_lower R) (c_ChunkText chunk) (vh_ChunkText hit)
      then (mark key
             (if ru_LLMContradictionDetection opts \<and> ru_RouterURL opts \<noteq> []
              then s\<lparr>sc_uncaught := sc_uncaught s @
                [\<lparr>up_sourceID = memID, up_targetID = vh_MemoryID hit, up_textA = c_ChunkText chunk,
                  up_textB = vh_ChunkText hit, up_strength = similarity\<rparr>]\<rparr>
              else s), Inr ())
      else case store_edge R memID (vh_MemoryID hit) ''contradicts'' similarity s of
             (s', Inl e) \<Rightarrow> (s', Inl e)
           | (s', Inr _) \<Rightarrow> (mark key s', Inr ()))"

definition contradicted_by :: "string \<Rightarrow> Relationship list \<Rightarrow> string list" where
  "contradicted_by memID rels = map (other_end memID) (filter (\<lambda>r. r_RelType r = ''contradicts'') rels)"

definition detect_memory ::
    "Runner \<Rightarrow> float64 \<Rightarrow> int \<Rightarrow> RunOptions \<Rightarrow> (string \<times> string) list \<Rightarrow> string \<times> Chunk
      \<Rightarrow> scan \<Rightarrow> scan \<times> (db_error + unit)" where
  "detect_memory R minSimilarity limit opts memTypes mc s =
     (let memID = fst mc; chunk = snd mc in
      if e_fault (rn_call R ''GetRelationships'' memID []) ''query'' then (s, Inl DbFailed)
      else let alreadyContradicts = contradicted_by memID (GetRelationships (rn_project R) memID (sc_db s)) in
      if e_fault (rn_call R ''VectorSearch'' memID []) ''query'' then (s, Inl DbFailed)
      else each (detect_hit R minSimilarity opts memTypes memID chunk alreadyContradicts)
             (VectorSearch R (c_Embedding chunk) limit (sc_db s)) s)"

definition llmContradictionPrompt :: "string \<Rightarrow> string \<Rightarrow> string" where
  "llmContradictionPrompt a b =
     ''Do these two statements contradict each other? Answer only YES or NO.'' @ [CHR 0x0A, CHR 0x0A]
     @ ''Statement A: '' @ a @ [CHR 0x0A, CHR 0x0A] @ ''Statement B: '' @ b"

definition ClassifyContradictionLLM ::
    "Runner \<Rightarrow> nat \<Rightarrow> string \<Rightarrow> string \<Rightarrow> string \<Rightarrow> string \<Rightarrow> bool option" where
  "ClassifyContradictionLLM R n contentA contentB url model =
     map_option (\<lambda>response. HasPrefix (ToLower (rn_lower R) (TrimSpace response)) ''yes'')
       (rn_complete R n url model (llmContradictionPrompt contentA contentB))"

text \<open>The second pass; \<open>n\<close> is \<^verbatim>\<open>llmCalls\<close>, which is returned with the result.\<close>

fun llm_pass ::
    "Runner \<Rightarrow> RunOptions \<Rightarrow> int \<Rightarrow> nat \<Rightarrow> uncaughtPair list \<Rightarrow> scan \<Rightarrow> (scan \<times> (db_error + unit)) \<times> nat" where
  "llm_pass R opts maxCalls n [] s = ((s, Inr ()), n)"
| "llm_pass R opts maxCalls n (p # ps) s =
     (if int n \<ge> maxCalls then ((s, Inr ()), n)
      else case ClassifyContradictionLLM R n (up_textA p) (up_textB p) (ru_RouterURL opts) (ru_OllamaModel opts) of
        Some True \<Rightarrow>
          (case store_edge R (up_sourceID p) (up_targetID p) ''contradicts'' (up_strength p) s of
             (s', Inl e) \<Rightarrow> ((s', Inl e), n + 1)
           | (s', Inr _) \<Rightarrow> llm_pass R opts maxCalls (n + 1) ps s')
      | _ \<Rightarrow> llm_pass R opts maxCalls (n + 1) ps s)"

definition llm_max_calls :: "RunOptions \<Rightarrow> int" where
  "llm_max_calls opts = (if ru_LLMMaxCalls opts \<le> 0 then 10 else ru_LLMMaxCalls opts)"

definition second_pass :: "Runner \<Rightarrow> RunOptions \<Rightarrow> scan \<Rightarrow> (scan \<times> (db_error + unit)) \<times> nat" where
  "second_pass R opts s =
     (if ru_LLMContradictionDetection opts \<and> ru_RouterURL opts \<noteq> [] \<and> sc_uncaught s \<noteq> []
      then llm_pass R opts (llm_max_calls opts) 0 (sc_uncaught s) s else ((s, Inr ()), 0))"

definition detectable_chunks :: "(string \<times> string) list \<Rightarrow> Chunk list \<Rightarrow> Chunk list" where
  "detectable_chunks memTypes chunks =
     filter (\<lambda>c. memory_type_of memTypes (c_MemoryID c) \<noteq> ''context''
       \<and> length (c_ChunkText c) \<le> maxContradictionChunkLen) chunks"

text \<open>The result of the scan, and the number of calls of the language model.\<close>

definition detect_run ::
    "Runner \<Rightarrow> float64 \<Rightarrow> int \<Rightarrow> RunOptions \<Rightarrow> database \<Rightarrow> (database \<times> int \<times> db_error option) \<times> nat" where
  "detect_run R minSimilarity limit opts db =
     (if e_fault (rn_call R ''GetMemoryTypeMap'' [] []) ''query'' then ((db, 0, Some DbFailed), 0)
      else let memTypes = GetMemoryTypeMap (rn_project R) db in
      if e_fault (rn_call R ''GetAllChunksWithEmbeddings'' [] []) ''query'' then ((db, 0, Some DbFailed), 0)
      else let chunks = GetAllChunksWithEmbeddings (rn_tie R) (rn_project R) limit db in
        case each (detect_memory R minSimilarity limit opts memTypes)
               (walk R (first_chunks (detectable_chunks memTypes chunks))) (start_scan db) of
          (s, Inl e) \<Rightarrow> (scan_result (s, Inl e), 0)
        | (s, Inr _) \<Rightarrow> map_prod scan_result id (second_pass R opts s))"

definition detectContradictions ::
    "Runner \<Rightarrow> float64 \<Rightarrow> int \<Rightarrow> RunOptions \<Rightarrow> database \<Rightarrow> database \<times> int \<times> db_error option" where
  "detectContradictions R minSimilarity limit opts db = fst (detect_run R minSimilarity limit opts db)"

definition DetectContradictions ::
    "Runner \<Rightarrow> float64 \<Rightarrow> int \<Rightarrow> database \<Rightarrow> database \<times> int \<times> db_error option" where
  "DetectContradictions R minSimilarity limit db =
     detectContradictions R minSimilarity limit
       \<lparr>ru_InferRelationshipsMinSimilarity = 0, ru_InferRelationshipsLimit = 0, ru_ContradictionDetectionLimit = 0,
        ru_LLMContradictionDetection = False, ru_RouterURL = [], ru_OllamaModel = [], ru_LLMMaxCalls = 0,
        ru_AutoSupersede = False\<rparr> db"

subsection \<open>Retiring the older of two contradicting memories\<close>

definition supersedeThreshold :: duration where
  "supersedeThreshold = 24 * hour"

definition StoreRelationshipTx :: "string \<Rightarrow> call_env \<Rightarrow> Relationship \<Rightarrow> database \<Rightarrow> db_error + database" where
  "StoreRelationshipTx bproj env rel db =
     (if e_fault env ''upsert'' then Inl DbFailed
      else if r_SourceID rel \<notin> m_ID ` set (db_memories db) then Inl (MissingReference (r_SourceID rel))
      else if r_TargetID rel \<notin> m_ID ` set (db_memories db) then Inl (MissingReference (r_TargetID rel))
      else Inr (db\<lparr>db_relationships := upsert_edge (rel\<lparr>r_Project := bproj\<rparr>) (db_relationships db)\<rparr>))"

definition SoftDeleteMemoryTx ::
    "call_env \<Rightarrow> string \<Rightarrow> string \<Rightarrow> string \<Rightarrow> database \<Rightarrow> bool outcome" where
  "SoftDeleteMemoryTx env project i reason db = softDeleteMemoryExec env project i reason db"

definition supersede_tx :: "Runner \<Rightarrow> call_env \<Rightarrow> Memory \<Rightarrow> Memory \<Rightarrow> database \<Rightarrow> unit outcome" where
  "supersede_tx R env newer older db =
     (case StoreRelationshipTx (rn_bproj R) env
             (new_edge R (m_ID newer) (m_ID older) ''supersedes'' 1 env) db of
        Inl e \<Rightarrow> Fail e
      | Inr db1 \<Rightarrow>
          (case SoftDeleteMemoryTx env (rn_project R) (m_ID older) (''superseded by '' @ m_ID newer) db1 of
             Fail e \<Rightarrow> Fail e
           | Return _ \<Rightarrow> Commit () db1
           | Commit _ db2 \<Rightarrow> Commit () db2))"

record supersede_state =
  ss_db :: database
  ss_seen :: "pairKey list"
  ss_superseded :: int

definition newer_older :: "Memory \<Rightarrow> Memory \<Rightarrow> Memory \<times> Memory" where
  "newer_older memA memB = (if m_CreatedAt memB < m_CreatedAt memA then (memA, memB) else (memB, memA))"

definition supersede_edge ::
    "Runner \<Rightarrow> Relationship \<Rightarrow> supersede_state \<Rightarrow> supersede_state \<times> (db_error + unit)" where
  "supersede_edge R rel s =
     (let key = canonical (r_SourceID rel) (r_TargetID rel) in
      if r_RelType rel \<noteq> ''contradicts'' then (s, Inr ())
      else if key \<in> set (ss_seen s) then (s, Inr ())
      else let s1 = s\<lparr>ss_seen := key # ss_seen s\<rparr> in
      if e_fault (rn_call R ''GetMemory'' (r_SourceID rel) (r_TargetID rel)) ''source'' then (s1, Inl DbFailed)
      else if e_fault (rn_call R ''GetMemory'' (r_SourceID rel) (r_TargetID rel)) ''target'' then (s1, Inl DbFailed)
      else case (GetMemory (rn_bproj R) (r_SourceID rel) (ss_db s), GetMemory (rn_bproj R) (r_TargetID rel) (ss_db s)) of
        (Some memA, Some memB) \<Rightarrow>
          if \<bar>m_CreatedAt memA - m_CreatedAt memB\<bar> \<le> supersedeThreshold then (s1, Inr ())
          else let (newer, older) = newer_older memA memB;
                   env = rn_call R ''supersede'' (m_ID newer) (m_ID older) in
            (case in_tx env (supersede_tx R env newer older) (ss_db s) of
               (db', Inl e) \<Rightarrow> (s1\<lparr>ss_db := db'\<rparr>, Inl e)
             | (db', Inr _) \<Rightarrow> (s1\<lparr>ss_db := db', ss_superseded := ss_superseded s + 1\<rparr>, Inr ()))
      | _ \<Rightarrow> (s1, Inr ()))"

definition supersede_memory ::
    "Runner \<Rightarrow> string \<Rightarrow> supersede_state \<Rightarrow> supersede_state \<times> (db_error + unit)" where
  "supersede_memory R memID s =
     (if e_fault (rn_call R ''GetRelationships'' memID []) ''query'' then (s, Inl DbFailed)
      else each (supersede_edge R) (GetRelationships (rn_project R) memID (ss_db s)) s)"

definition AutoSupersede :: "Runner \<Rightarrow> database \<Rightarrow> database \<times> int \<times> db_error option" where
  "AutoSupersede R db =
     (if e_fault (rn_call R ''GetAllMemoryIDs'' [] []) ''query'' then (db, 0, Some DbFailed)
      else let r = each (supersede_memory R) (rn_order R (GetAllMemoryIDs (rn_project R) db))
                 \<lparr>ss_db = db, ss_seen = [], ss_superseded = 0\<rparr> in
        (ss_db (fst r), ss_superseded (fst r), (case snd r of Inl e \<Rightarrow> Some e | Inr _ \<Rightarrow> None)))"

text \<open>\<open>Inr\<close>: the numbers of contradictions detected and of memories retired.\<close>

definition RunAll :: "Runner \<Rightarrow> RunOptions \<Rightarrow> database \<Rightarrow> database \<times> (db_error + int \<times> int)" where
  "RunAll R opts db =
     (let limit = (if ru_InferRelationshipsLimit opts \<le> 0 then 500 else ru_InferRelationshipsLimit opts);
          cdLimit = (if ru_ContradictionDetectionLimit opts \<le> 0 then limit else ru_ContradictionDetectionLimit opts) in
      case detectContradictions R (ru_InferRelationshipsMinSimilarity opts) cdLimit opts db of
        (db1, _, Some e) \<Rightarrow> (db1, Inl e)
      | (db1, contradictions, None) \<Rightarrow>
          if \<not> ru_AutoSupersede opts then (db1, Inr (contradictions, 0))
          else (case AutoSupersede R db1 of
                  (db2, _, Some e) \<Rightarrow> (db2, Inl e)
                | (db2, superseded, None) \<Rightarrow> (db2, Inr (contradictions, superseded))))"

section \<open>Loops that stop at an error\<close>

lemma each_inv:
  assumes "P s" "\<And>x t. x \<in> set xs \<Longrightarrow> P t \<Longrightarrow> P (fst (f x t))"
  shows "P (fst (each f xs s))"
  using assms
proof (induction xs arbitrary: s)
  case (Cons x xs)
  have "P (fst (f x s))" using Cons.prems by simp
  then show ?case using Cons.IH [of "fst (f x s)"] Cons.prems(2) by (auto split: prod.splits sum.splits)
qed simp

lemma each_error:
  assumes "snd (each f xs s) = Inl e" "P s" "\<And>x t. x \<in> set xs \<Longrightarrow> P t \<Longrightarrow> P (fst (f x t))"
  shows "\<exists>x t. x \<in> set xs \<and> P t \<and> snd (f x t) = Inl e"
  using assms
proof (induction xs arbitrary: s)
  case (Cons x xs)
  show ?case
  proof (cases "snd (f x s)")
    case (Inl e')
    with Cons.prems(1) have "e' = e" by (simp split: prod.splits)
    with Inl show ?thesis using Cons.prems(2) by auto
  next
    case (Inr u)
    then have "snd (each f xs (fst (f x s))) = Inl e" using Cons.prems(1) by (simp split: prod.splits)
    moreover have "P (fst (f x s))" using Cons.prems(2,3) by simp
    ultimately show ?thesis using Cons.IH [of "fst (f x s)"] Cons.prems(3) by (meson list.set_intros(2))
  qed
qed simp

text \<open>
  A loop that ends without an error made every step without an error; a fact that the step on \<open>x\<close>
  establishes, and no step destroys, holds after it.
\<close>

lemma each_ok:
  assumes "snd (each f xs s) = Inr ()" "P s"
    and "\<And>x t. x \<in> set xs \<Longrightarrow> P t \<Longrightarrow> snd (f x t) = Inr () \<Longrightarrow> P (fst (f x t))"
  shows "P (fst (each f xs s))"
  using assms
proof (induction xs arbitrary: s)
  case (Cons x xs)
  obtain t where t: "f x s = (t, Inr ())" "each f (x # xs) s = each f xs t"
    using Cons.prems(1) by (auto split: prod.splits sum.splits)
  have "P t" using Cons.prems(2,3) t(1) by (metis fst_conv list.set_intros(1) snd_conv)
  then show ?case using Cons.IH [of t] Cons.prems t(2) by simp
qed simp

lemma each_reaches:
  assumes "snd (each f xs s) = Inr ()" "x \<in> set xs" "P s"
    and keep: "\<And>y t. y \<in> set xs \<Longrightarrow> P t \<Longrightarrow> snd (f y t) = Inr () \<Longrightarrow> P (fst (f y t))"
    and hit: "\<And>t. P t \<Longrightarrow> snd (f x t) = Inr () \<Longrightarrow> Q (fst (f x t))"
    and stay: "\<And>y t. y \<in> set xs \<Longrightarrow> P t \<Longrightarrow> Q t \<Longrightarrow> snd (f y t) = Inr () \<Longrightarrow> Q (fst (f y t))"
  shows "Q (fst (each f xs s))"
  using assms
proof (induction xs arbitrary: s)
  case (Cons y ys)
  obtain t where t: "f y s = (t, Inr ())" "each f (y # ys) s = each f ys t"
    using Cons.prems(1) by (auto split: prod.splits sum.splits)
  have P: "P t" using Cons.prems(3,4) t(1) by (metis fst_conv list.set_intros(1) snd_conv)
  show ?case
  proof (cases "x = y")
    case True
    then have "Q t" using Cons.prems(3,5) t(1) by (metis fst_conv snd_conv)
    then have "P (fst (each f ys t)) \<and> Q (fst (each f ys t))"
      using P Cons.prems(1,4,6) t(2) by (intro each_ok [where P = "\<lambda>t. P t \<and> Q t"]) auto
    then show ?thesis using t by simp
  next
    case False
    then show ?thesis using Cons.IH [of t] Cons.prems P t by auto
  qed
qed simp

section \<open>What retiring a memory changes\<close>

definition retire_row :: "gotime \<Rightarrow> string \<Rightarrow> Memory \<Rightarrow> Memory" where
  "retire_row now newer m = m\<lparr>m_ValidTo := Some now, m_InvalidationReason := Some (''superseded by '' @ newer)\<rparr>"

lemma retire_row_simps [simp]:
  "m_ID (retire_row now n m) = m_ID m" "m_Project (retire_row now n m) = m_Project m"
  "m_CreatedAt (retire_row now n m) = m_CreatedAt m" "m_ValidTo (retire_row now n m) = Some now"
  "m_DocumentID (retire_row now n m) = m_DocumentID m"
  by (simp_all add: retire_row_def)

lemma edge_keys_upsert: "edge_key ` set (upsert_edge rel rs) = insert (edge_key rel) (edge_key ` set rs)"
proof (cases "edge_key rel \<in> edge_key ` set rs")
  case True
  have "map edge_key (upsert_edge rel rs) = map edge_key rs" using True by (simp add: upsert_edge_def)
  then show ?thesis using True by (metis insert_absorb list.set_map)
qed (simp add: upsert_edge_def)

lemma filter_upsert_edge:
  assumes "\<And>r s. edge_key r = edge_key rel \<Longrightarrow> \<not> P (r\<lparr>r_Strength := s\<rparr>)" "\<not> P rel"
  shows "filter P (upsert_edge rel rs) = filter P rs"
proof -
  have "\<not> P r" if "edge_key r = edge_key rel" for r
    using assms(1) [of r "r_Strength r"] that by (cases r) simp
  then have "filter P (map (\<lambda>r. if edge_key r = edge_key rel then r\<lparr>r_Strength := s\<rparr> else r) rs) = filter P rs" for s
    using assms(1) by (induction rs) auto
  then show ?thesis using assms(2) by (simp add: upsert_edge_def)
qed

definition contradictions :: "database \<Rightarrow> Relationship list" where
  "contradictions db = filter (\<lambda>r. r_RelType r = ''contradicts'') (db_relationships db)"

text \<open>One transaction: an edge and the retired row.\<close>

lemma supersede_tx_commit:
  assumes ok: "db_ok db" and proj: "rn_bproj R = rn_project R"
    and newer: "GetMemory (rn_bproj R) n db = Some newer" and older: "GetMemory (rn_bproj R) i db = Some older"
    and tx: "supersede_tx R env newer older db = Commit u db'"
  shows "\<not> m_Immutable older"
    and "db_memories db' = map (\<lambda>m. if m = older then retire_row (e_now env) n m else m) (db_memories db)"
    and "contradictions db' = contradictions db"
    and "edge_key ` set (db_relationships db') = insert (n, i, ''supersedes'') (edge_key ` set (db_relationships db))"
    and "db_ok db'"
proof -
  have ids: "m_ID newer = n" "m_ID older = i" "older \<in> set (db_memories db)" "newer \<in> set (db_memories db)"
    "m_Project older = rn_project R"
    using newer older proj by (auto simp: GetMemory_def find_Some_iff active_row_def)
  define rel where "rel = (new_edge R n i ''supersedes'' 1 env)\<lparr>r_Project := rn_bproj R\<rparr>"
  define db1 where "db1 = db\<lparr>db_relationships := upsert_edge rel (db_relationships db)\<rparr>"
  have rel: "edge_key rel = (n, i, ''supersedes'')" by (simp add: rel_def new_edge_def edge_key_def)
  have G1: "GetMemory (rn_project R) i db1 = Some older" using older proj by (simp add: GetMemory_def db1_def)
  have tx': "\<not> m_Immutable older" "db' = update_rows (\<lambda>r. m_ID r = i \<and> m_Project r = rn_project R)
      (retire_row (e_now env) n) (versionMemoryTx env older ''invalidate'' (''superseded by '' @ n) db1)"
    using tx ids by (auto simp: supersede_tx_def StoreRelationshipTx_def SoftDeleteMemoryTx_def
        softDeleteMemoryExec_def G1 [unfolded db1_def rel_def] retire_row_def [abs_def] db1_def rel_def
        split: if_splits)
  show "\<not> m_Immutable older" by (rule tx')
  have row: "(m_ID m = i \<and> m_Project m = rn_project R) = (m = older)" if "m \<in> set (db_memories db)" for m
    using GetMemory_unique(4) [OF ok older that] ids by auto
  show "db_memories db' = map (\<lambda>m. if m = older then retire_row (e_now env) n m else m) (db_memories db)"
    using row by (auto simp: tx'(2) update_rows_def db1_def)
  show "contradictions db' = contradictions db"
    by (simp add: tx'(2) contradictions_def db1_def)
      (rule filter_upsert_edge, use rel in \<open>auto simp: edge_key_def\<close>)
  show "edge_key ` set (db_relationships db') = insert (n, i, ''supersedes'') (edge_key ` set (db_relationships db))"
    by (simp add: tx'(2) db1_def edge_keys_upsert rel)
  have "db_ok db1"
    using ok ids unfolding db1_def by (intro db_ok_upsert) (auto simp: rel_def new_edge_def mem_ids_def)
  then show "db_ok db'" unfolding tx'(2) by (intro db_ok_update_rows db_ok_versionMemoryTx) simp_all
qed

definition live :: "Memory \<Rightarrow> bool" where
  "live m \<longleftrightarrow> m_ValidTo m = None"

lemma live_retire [simp]: "\<not> live (retire_row t n m)" by (simp add: live_def)

text \<open>
  \<open>n\<close> outdates \<open>m\<close>: both are live memories of the project, they contradict each other and \<open>n\<close> is more
  than the threshold younger. A row that is retired was mutable, and the edge to it is recorded.
\<close>

definition contradict :: "Runner \<Rightarrow> database \<Rightarrow> string \<Rightarrow> string \<Rightarrow> bool" where
  "contradict R db i j =
     list_ex (\<lambda>r. r_Project r = rn_project R
       \<and> (r_SourceID r = i \<and> r_TargetID r = j \<or> r_SourceID r = j \<and> r_TargetID r = i)) (contradictions db)"

definition outdates :: "Runner \<Rightarrow> database \<Rightarrow> Memory \<Rightarrow> Memory \<Rightarrow> bool" where
  "outdates R db n m \<longleftrightarrow>
     n \<in> set (live_rows (rn_project R) db) \<and> m \<in> set (live_rows (rn_project R) db)
     \<and> contradict R db (m_ID n) (m_ID m) \<and> m_CreatedAt m + supersedeThreshold < m_CreatedAt n"

definition retired_row :: "Runner \<Rightarrow> database \<Rightarrow> database \<Rightarrow> Memory \<Rightarrow> Memory \<Rightarrow> bool" where
  "retired_row R db db' m m' \<longleftrightarrow>
     \<not> m_Immutable m
     \<and> (\<exists>n t. outdates R db n m \<and> m' = retire_row t (m_ID n) m
         \<and> (m_ID n, m_ID m, ''supersedes'') \<in> edge_key ` set (db_relationships db'))"

lemma retired_rowI:
  assumes "\<not> m_Immutable m" "outdates R db n m" "(m_ID n, m_ID m, ''supersedes'') \<in> edge_key ` set (db_relationships db')"
  shows "retired_row R db db' m (retire_row t (m_ID n) m)"
  using assms unfolding retired_row_def by auto

lemma live_rows_iff: "m \<in> set (live_rows p db) \<longleftrightarrow> m \<in> set (db_memories db) \<and> m_Project m = p \<and> live m"
  by (auto simp: live_rows_def live_def)

lemma retired_row_live: "retired_row R db db' m m' \<Longrightarrow> live m \<and> \<not> live m'"
  by (auto simp: retired_row_def outdates_def live_rows_iff)

definition live_count :: "database \<Rightarrow> int" where
  "live_count db = int (length (filter live (db_memories db)))"

definition retiring :: "Runner \<Rightarrow> database \<Rightarrow> int \<Rightarrow> database \<Rightarrow> bool" where
  "retiring R db0 k db \<longleftrightarrow>
     db_ok db \<and> contradictions db = contradictions db0 \<and> live_count db + k = live_count db0
     \<and> list_all2 (\<lambda>m m'. m' = m \<or> retired_row R db0 db m m') (db_memories db0) (db_memories db)"

lemma retiring_refl: "db_ok db \<Longrightarrow> retiring R db 0 db"
  by (simp add: retiring_def list_all2_refl)

lemma retired_row_mono:
  assumes "retired_row R db0 db m m'"
    and "edge_key ` set (db_relationships db) \<subseteq> edge_key ` set (db_relationships db')"
  shows "retired_row R db0 db' m m'"
proof -
  obtain n t where "\<not> m_Immutable m" "outdates R db0 n m" "m' = retire_row t (m_ID n) m"
    "(m_ID n, m_ID m, ''supersedes'') \<in> edge_key ` set (db_relationships db)"
    using assms(1) by (auto simp: retired_row_def)
  then show ?thesis using retired_rowI [of m R db0 n db' t] assms(2) by (simp add: subset_iff)
qed

text \<open>A live row has not been touched.\<close>

lemma retiring_live:
  assumes "retiring R db0 k db" "m \<in> set (db_memories db)" "live m"
  shows "m \<in> set (db_memories db0)"
proof -
  have "list_all2 (\<lambda>m m'. m' = m \<or> retired_row R db0 db m m') (db_memories db0) (db_memories db)"
    using assms(1) by (simp add: retiring_def)
  moreover obtain k where "k < length (db_memories db)" "m = db_memories db ! k"
    using assms(2) by (auto simp: in_set_conv_nth)
  ultimately have "db_memories db0 ! k \<in> set (db_memories db0)"
    "m = db_memories db0 ! k \<or> retired_row R db0 db (db_memories db0 ! k) m"
    by (simp_all add: list_all2_conv_all_nth)
  then show ?thesis using assms(3) retired_row_live by auto
qed

lemma GetMemory_live:
  "GetMemory p i db = Some m \<Longrightarrow> m \<in> set (db_memories db) \<and> m_ID m = i \<and> m_Project m = p \<and> live m"
  by (auto simp: GetMemory_def find_Some_iff active_row_def live_def)

lemma length_filter_retire:
  assumes "distinct ms" "x \<in> set ms" "live x"
  shows "length (filter live (map (\<lambda>m. if m = x then retire_row t n m else m) ms)) + 1 = length (filter live ms)"
  using assms
proof (induction ms)
  case (Cons m ms)
  have "map (\<lambda>m. if m = m' then retire_row t n m else m) ms = ms" if "m' \<notin> set ms" for m'
    using that by (induction ms) auto
  from this [of m] show ?case
    using Cons by (cases "x = m") (simp_all del: filter_map length_filter_map)
qed simp

lemma retiring_step:
  assumes inv: "retiring R db0 k db" and proj: "rn_bproj R = rn_project R"
    and newer: "GetMemory (rn_bproj R) n db = Some newer" and older: "GetMemory (rn_bproj R) i db = Some older"
    and gap: "m_CreatedAt older + supersedeThreshold < m_CreatedAt newer"
    and rel: "contradict R db0 n i"
    and tx: "supersede_tx R env newer older db = Commit u db'"
  shows "retiring R db0 (k + 1) db'"
proof -
  have ok: "db_ok db" using inv by (simp add: retiring_def)
  note eff = supersede_tx_commit [OF ok proj newer older tx]
  note N = GetMemory_live [OF newer] and O = GetMemory_live [OF older]
  have n0: "newer \<in> set (db_memories db0)" and o0: "older \<in> set (db_memories db0)"
    using retiring_live [OF inv] N O by blast+
  have mono: "edge_key ` set (db_relationships db) \<subseteq> edge_key ` set (db_relationships db')"
    using eff(4) by blast
  have retired: "retired_row R db0 db' older (retire_row (e_now env) n older)"
    using N O n0 o0 gap rel eff(1,4) proj retired_rowI [of older R db0 newer db' "e_now env"]
    by (simp add: outdates_def live_rows_iff)
  have row: "m'' = m \<or> retired_row R db0 db' m m''"
    if "m' = m \<or> retired_row R db0 db m m'" "m'' = (if m' = older then retire_row (e_now env) n m' else m')" for m m' m''
  proof (cases "m' = older")
    case True
    then show ?thesis using that retired O retired_row_live [of R db0 db m m'] by auto
  qed (use that retired_row_mono [OF _ mono] in auto)
  have "live_count db' + 1 = live_count db"
    using length_filter_retire [of "db_memories db" older "e_now env" n] O db_okD(1) [OF ok] eff(2)
    by (simp add: live_count_def distinct_map)
  moreover have "list_all2 (\<lambda>m m'. m' = m \<or> retired_row R db0 db' m m') (db_memories db0) (db_memories db')"
    unfolding eff(2) list_all2_map2
    by (rule list_all2_mono [where P = "\<lambda>m m'. m' = m \<or> retired_row R db0 db m m'"])
      (use inv in \<open>simp add: retiring_def\<close>, rule row, auto)
  ultimately show ?thesis using inv eff unfolding retiring_def by simp
qed

lemma newer_older_gap:
  assumes "newer_older a b = (newer, older)" "\<not> \<bar>m_CreatedAt a - m_CreatedAt b\<bar> \<le> supersedeThreshold"
  shows "m_CreatedAt older + supersedeThreshold < m_CreatedAt newer"
    and "newer = a \<and> older = b \<or> newer = b \<and> older = a"
  using assms by (auto simp: newer_older_def split: if_splits)

lemma supersede_tx_no_return [simp]: "supersede_tx R env newer older db \<noteq> Return u"
  by (simp add: supersede_tx_def split: sum.splits outcome.splits)

lemma supersede_edge_cases:
  obtains "ss_db (fst (supersede_edge R rel s)) = ss_db s"
      "ss_superseded (fst (supersede_edge R rel s)) = ss_superseded s"
  | a b newer older env u where "GetMemory (rn_bproj R) (r_SourceID rel) (ss_db s) = Some a"
      "GetMemory (rn_bproj R) (r_TargetID rel) (ss_db s) = Some b" "newer_older a b = (newer, older)"
      "\<not> \<bar>m_CreatedAt a - m_CreatedAt b\<bar> \<le> supersedeThreshold" "r_RelType rel = ''contradicts''"
      "supersede_tx R env newer older (ss_db s) = Commit u (ss_db (fst (supersede_edge R rel s)))"
      "ss_superseded (fst (supersede_edge R rel s)) = ss_superseded s + 1"
proof (cases "supersede_edge R rel s")
  case (Pair s' res)
  then show ?thesis
    using that unfolding supersede_edge_def in_tx_def
    by (auto simp: Let_def split: if_splits option.splits prod.splits outcome.splits sum.splits)
qed

lemma retiring_edge:
  assumes inv: "retiring R db0 (ss_superseded s) (ss_db s)" and proj: "rn_bproj R = rn_project R"
    and rel: "rel \<in> set (db_relationships db)" "contradictions db = contradictions db0" "r_Project rel = rn_project R"
  defines "s' \<equiv> fst (supersede_edge R rel s)"
  shows "retiring R db0 (ss_superseded s') (ss_db s')"
proof -
  consider "ss_db s' = ss_db s" "ss_superseded s' = ss_superseded s"
    | a b newer older env u where "GetMemory (rn_bproj R) (r_SourceID rel) (ss_db s) = Some a"
        "GetMemory (rn_bproj R) (r_TargetID rel) (ss_db s) = Some b" "newer_older a b = (newer, older)"
        "\<not> \<bar>m_CreatedAt a - m_CreatedAt b\<bar> \<le> supersedeThreshold" "r_RelType rel = ''contradicts''"
        "supersede_tx R env newer older (ss_db s) = Commit u (ss_db s')" "ss_superseded s' = ss_superseded s + 1"
    unfolding s'_def by (rule supersede_edge_cases)
  then show ?thesis
  proof cases
    case (2 a b newer older env u)
    note A = GetMemory_live [OF 2(1)] and B = GetMemory_live [OF 2(2)]
    have r: "rel \<in> set (contradictions db0)" using rel(1) 2(5) by (simp add: rel(2) [symmetric]) (simp add: contradictions_def)
    from newer_older_gap(2) [OF 2(3,4)] A B 2(1,2)
    have "GetMemory (rn_bproj R) (m_ID newer) (ss_db s) = Some newer" "GetMemory (rn_bproj R) (m_ID older) (ss_db s) = Some older"
      "contradict R db0 (m_ID newer) (m_ID older)"
      using r rel(3) by (auto simp: contradict_def list_ex_iff)
    from retiring_step [OF inv proj this(1,2) newer_older_gap(1) [OF 2(3,4)] this(3) 2(6)] 2(7)
    show ?thesis by simp
  qed (use inv in simp)
qed

lemma retiring_memory:
  fixes memID :: string
  assumes "retiring R db0 (ss_superseded s) (ss_db s)" "rn_bproj R = rn_project R"
  defines "s' \<equiv> fst (supersede_memory R memID s)"
  shows "retiring R db0 (ss_superseded s') (ss_db s')"
proof -
  have "retiring R db0 (ss_superseded t) (ss_db t)"
    if "t = fst (each (supersede_edge R) (GetRelationships (rn_project R) memID (ss_db s)) s)" for t
    unfolding that
    by (rule each_inv [where P = "\<lambda>t. retiring R db0 (ss_superseded t) (ss_db t)"], rule assms(1),
        rule retiring_edge [where db = "ss_db s"])
      (use assms in \<open>auto simp: GetRelationships_def retiring_def\<close>)
  then show ?thesis using assms(1) by (simp add: s'_def supersede_memory_def)
qed

lemma retiring_AutoSupersede:
  assumes "db_ok db" "rn_bproj R = rn_project R"
  shows "retiring R db (fst (snd (AutoSupersede R db))) (fst (AutoSupersede R db))"
proof -
  have "retiring R db (ss_superseded t) (ss_db t)"
    if "t = fst (each (supersede_memory R) xs \<lparr>ss_db = db, ss_seen = [], ss_superseded = 0\<rparr>)" for t xs
    unfolding that
    by (rule each_inv [where P = "\<lambda>t. retiring R db (ss_superseded t) (ss_db t)"])
      (use assms in \<open>simp_all add: retiring_refl retiring_memory\<close>)
  then show ?thesis using retiring_refl [OF assms(1)] by (simp add: AutoSupersede_def Let_def)
qed

section \<open>Which contradictions are resolved\<close>

text \<open>No contradiction of the pair is left that \<^verbatim>\<open>AutoSupersede\<close> would act on.\<close>

definition resolved :: "Runner \<Rightarrow> pairKey \<Rightarrow> database \<Rightarrow> bool" where
  "resolved R key db \<longleftrightarrow>
     (\<forall>a b. GetMemory (rn_bproj R) (fst key) db = Some a \<longrightarrow> GetMemory (rn_bproj R) (snd key) db = Some b
       \<longrightarrow> \<bar>m_CreatedAt a - m_CreatedAt b\<bar> \<le> supersedeThreshold)"

lemma canonical_either: "canonical a b = (a, b) \<or> canonical a b = (b, a)"
  by (simp add: canonical_def)

lemma canonical_eq_iff: "canonical a b = canonical c d \<longleftrightarrow> {a, b} = {c, d}"
  by (auto simp: canonical_def doubleton_eq_iff)

lemma resolved_canonical:
  "resolved R (canonical i j) db \<longleftrightarrow>
     (\<forall>a b. GetMemory (rn_bproj R) i db = Some a \<longrightarrow> GetMemory (rn_bproj R) j db = Some b
       \<longrightarrow> \<bar>m_CreatedAt a - m_CreatedAt b\<bar> \<le> supersedeThreshold)"
  using canonical_either [of i j] by (auto simp: resolved_def abs_minus_commute)

text \<open>Retiring a row leaves the live rows among the live rows.\<close>

definition fewer_live :: "string \<Rightarrow> database \<Rightarrow> database \<Rightarrow> bool" where
  "fewer_live p db db' \<longleftrightarrow> (\<forall>i m. GetMemory p i db' = Some m \<longrightarrow> GetMemory p i db = Some m)"

lemma GetMemory_iff:
  assumes "db_ok db"
  shows "GetMemory p i db = Some m \<longleftrightarrow> m \<in> set (db_memories db) \<and> active_row p i m"
proof
  assume "GetMemory p i db = Some m"
  then show "m \<in> set (db_memories db) \<and> active_row p i m" by (auto simp: GetMemory_def dest: find_SomeD)
next
  assume m: "m \<in> set (db_memories db) \<and> active_row p i m"
  then obtain m0 where m0: "GetMemory p i db = Some m0"
    by (cases "GetMemory p i db") (auto simp: GetMemory_def find_None_iff)
  moreover have "m = m0" using GetMemory_unique(4) [OF assms m0] m by (auto simp: active_row_def)
  ultimately show "GetMemory p i db = Some m" by simp
qed

lemma fewer_live_retire:
  assumes "db_memories db' = map (\<lambda>m. if m = older then retire_row t n m else m) (db_memories db)" "db_ok db" "db_ok db'"
  shows "fewer_live p db db'"
  using assms(1) by (auto simp: fewer_live_def GetMemory_iff [OF assms(2)] GetMemory_iff [OF assms(3)] active_row_def
      split: if_splits)

lemma resolved_fewer: "resolved R key db \<Longrightarrow> fewer_live (rn_bproj R) db db' \<Longrightarrow> resolved R key db'"
  by (auto simp: resolved_def fewer_live_def)

text \<open>An edge: its pair is seen afterwards, and every pair seen stays resolved.\<close>

definition settled :: "Runner \<Rightarrow> supersede_state \<Rightarrow> bool" where
  "settled R s \<longleftrightarrow> db_ok (ss_db s) \<and> (\<forall>key \<in> set (ss_seen s). resolved R key (ss_db s))"

lemma settled_edge:
  assumes s: "settled R s" and proj: "rn_bproj R = rn_project R"
    and ok: "snd (supersede_edge R rel s) = Inr ()"
  defines "s' \<equiv> fst (supersede_edge R rel s)"
  shows "settled R s'" "fewer_live (rn_bproj R) (ss_db s) (ss_db s')" "contradictions (ss_db s') = contradictions (ss_db s)"
    and "set (ss_seen s) \<subseteq> set (ss_seen s')"
    and "r_RelType rel = ''contradicts'' \<Longrightarrow> canonical (r_SourceID rel) (r_TargetID rel) \<in> set (ss_seen s')"
proof -
  let ?key = "canonical (r_SourceID rel) (r_TargetID rel)"
  have db: "db_ok (ss_db s)" using s by (simp add: settled_def)
  have seen: "set (ss_seen s) \<subseteq> set (ss_seen s')" "set (ss_seen s') \<subseteq> insert ?key (set (ss_seen s))"
    unfolding s'_def supersede_edge_def by (auto simp: Let_def split: option.splits prod.splits sum.splits)
  then show "set (ss_seen s) \<subseteq> set (ss_seen s')" by simp
  show "r_RelType rel = ''contradicts'' \<Longrightarrow> ?key \<in> set (ss_seen s')"
    unfolding s'_def supersede_edge_def by (auto simp: Let_def split: option.splits prod.splits sum.splits)
  have "db_ok (ss_db s') \<and> fewer_live (rn_bproj R) (ss_db s) (ss_db s')
      \<and> contradictions (ss_db s') = contradictions (ss_db s) \<and> (?key \<in> set (ss_seen s') \<longrightarrow> resolved R ?key (ss_db s'))"
  proof (cases rule: supersede_edge_cases [of R rel s])
    case 1
    have "resolved R ?key (ss_db s)" if "?key \<in> set (ss_seen s')"
    proof (cases "?key \<in> set (ss_seen s)")
      case False
      with that ok 1(2) show ?thesis
        unfolding s'_def supersede_edge_def resolved_canonical
        by (auto simp: Let_def split: if_splits option.splits prod.splits sum.splits)
    qed (use s in \<open>simp add: settled_def\<close>)
    then show ?thesis using 1(1) db by (simp add: s'_def fewer_live_def)
  next
    case (2 a b newer older env u)
    note A = GetMemory_live [OF 2(1)] and B = GetMemory_live [OF 2(2)]
    from newer_older_gap(2) [OF 2(3,4)] A B 2(1,2)
    have G: "GetMemory (rn_bproj R) (m_ID newer) (ss_db s) = Some newer" "GetMemory (rn_bproj R) (m_ID older) (ss_db s) = Some older"
      "older = a \<and> m_ID older = r_SourceID rel \<or> older = b \<and> m_ID older = r_TargetID rel" by auto
    note eff = supersede_tx_commit [OF db proj G(1,2) 2(6)]
    have none: "GetMemory (rn_bproj R) (m_ID older) (ss_db s') = None"
    proof (rule ccontr)
      assume "GetMemory (rn_bproj R) (m_ID older) (ss_db s') \<noteq> None"
      then obtain m where "GetMemory (rn_bproj R) (m_ID older) (ss_db s') = Some m" by blast
      then have m: "m \<in> set (db_memories (ss_db s'))" "m_ID m = m_ID older" "live m" using GetMemory_live by blast+
      then show False using eff(2) GetMemory_unique(4) [OF db G(2)] by (auto simp: s'_def split: if_splits)
    qed
    have "resolved R ?key (ss_db s')" using none G(3) by (auto simp: resolved_canonical)
    then show ?thesis using eff fewer_live_retire [OF eff(2) db eff(5)] by (simp add: s'_def)
  qed
  then show "settled R s'" "fewer_live (rn_bproj R) (ss_db s) (ss_db s')" "contradictions (ss_db s') = contradictions (ss_db s)"
    using s seen(2) resolved_fewer [of R _ "ss_db s" "ss_db s'"] by (auto simp: settled_def)
qed

definition progress :: "Runner \<Rightarrow> supersede_state \<Rightarrow> supersede_state \<Rightarrow> bool" where
  "progress R s t \<longleftrightarrow>
     settled R t \<and> fewer_live (rn_bproj R) (ss_db s) (ss_db t)
     \<and> contradictions (ss_db t) = contradictions (ss_db s) \<and> set (ss_seen s) \<subseteq> set (ss_seen t)"

lemma progress_refl: "settled R s \<Longrightarrow> progress R s s"
  by (simp add: progress_def fewer_live_def)

lemma progress_trans: "progress R r s \<Longrightarrow> progress R s t \<Longrightarrow> progress R r t"
  by (auto simp: progress_def fewer_live_def)

lemma progress_edge:
  assumes "settled R s" "rn_bproj R = rn_project R" "snd (supersede_edge R rel s) = Inr ()"
  shows "progress R s (fst (supersede_edge R rel s))"
  using settled_edge [OF assms] by (simp add: progress_def)

lemma progress_memory:
  assumes s: "settled R s" and proj: "rn_bproj R = rn_project R" and ok: "snd (supersede_memory R i s) = Inr ()"
  shows "progress R s (fst (supersede_memory R i s))"
    and "rel \<in> set (contradictions (ss_db s)) \<Longrightarrow> r_Project rel = rn_project R \<Longrightarrow> touches_edge i rel
      \<Longrightarrow> canonical (r_SourceID rel) (r_TargetID rel) \<in> set (ss_seen (fst (supersede_memory R i s)))"
proof -
  let ?rels = "GetRelationships (rn_project R) i (ss_db s)"
  have run: "supersede_memory R i s = each (supersede_edge R) ?rels s"
    using ok by (auto simp: supersede_memory_def split: if_splits)
  have step: "progress R s (fst (supersede_edge R r t))" if "progress R s t" "snd (supersede_edge R r t) = Inr ()" for r t
    using that progress_trans [OF that(1) progress_edge [OF _ proj that(2)]] by (simp add: progress_def)
  show "progress R s (fst (supersede_memory R i s))"
    unfolding run by (rule each_ok [where P = "progress R s"])
      (use ok run progress_refl [OF s] step in auto)
  assume rel: "rel \<in> set (contradictions (ss_db s))" "r_Project rel = rn_project R" "touches_edge i rel"
  show "canonical (r_SourceID rel) (r_TargetID rel) \<in> set (ss_seen (fst (supersede_memory R i s)))"
    unfolding run
  proof (rule each_reaches [where P = "progress R s" and x = rel])
    show "rel \<in> set ?rels" using rel by (auto simp: GetRelationships_def contradictions_def)
    fix t assume "progress R s t" "snd (supersede_edge R rel t) = Inr ()"
    then show "canonical (r_SourceID rel) (r_TargetID rel) \<in> set (ss_seen (fst (supersede_edge R rel t)))"
      using settled_edge(5) [OF _ proj, of t rel] rel(1) by (auto simp: progress_def contradictions_def)
  next
    fix r t
    assume "progress R s t" "snd (supersede_edge R r t) = Inr ()"
      "canonical (r_SourceID rel) (r_TargetID rel) \<in> set (ss_seen t)"
    then show "canonical (r_SourceID rel) (r_TargetID rel) \<in> set (ss_seen (fst (supersede_edge R r t)))"
      using settled_edge(4) [OF _ proj, of t r] by (auto simp: progress_def)
  qed (use ok run progress_refl [OF s] step in auto)
qed

lemma AutoSupersede_run:
  assumes "snd (snd (AutoSupersede R db)) = None"
  obtains s where "each (supersede_memory R) (rn_order R (GetAllMemoryIDs (rn_project R) db))
      \<lparr>ss_db = db, ss_seen = [], ss_superseded = 0\<rparr> = (s, Inr ())" "fst (AutoSupersede R db) = ss_db s"
proof -
  let ?r = "each (supersede_memory R) (rn_order R (GetAllMemoryIDs (rn_project R) db))
      \<lparr>ss_db = db, ss_seen = [], ss_superseded = 0\<rparr>"
  have "snd ?r = Inr ()" "fst (AutoSupersede R db) = ss_db (fst ?r)"
    using assms by (auto simp: AutoSupersede_def Let_def split: if_splits sum.splits)
  then show ?thesis using that [of "fst ?r"] by (metis prod.collapse)
qed

text \<open>Contradictions of the project between live memories are resolved by a run that succeeds.\<close>

lemma AutoSupersede_resolves:
  assumes ok: "db_ok db" and proj: "rn_bproj R = rn_project R"
    and order: "\<And>xs. set (rn_order R xs) = set xs"
    and run: "snd (snd (AutoSupersede R db)) = None"
    and rel: "rel \<in> set (contradictions db)" "r_Project rel = rn_project R"
  shows "resolved R (canonical (r_SourceID rel) (r_TargetID rel)) (fst (AutoSupersede R db))"
proof -
  define s0 where "s0 = \<lparr>ss_db = db, ss_seen = [], ss_superseded = 0\<rparr>"
  let ?key = "canonical (r_SourceID rel) (r_TargetID rel)"
  let ?ids = "rn_order R (GetAllMemoryIDs (rn_project R) db)"
  obtain s where s: "each (supersede_memory R) ?ids s0 = (s, Inr ())" "fst (AutoSupersede R db) = ss_db s"
    using AutoSupersede_run [OF run] unfolding s0_def by blast
  have s0: "settled R s0" using ok by (simp add: s0_def settled_def)
  have step: "progress R s0 (fst (supersede_memory R i t))"
    if "progress R s0 t" "snd (supersede_memory R i t) = Inr ()" for i t
    using that progress_trans [OF that(1) progress_memory(1) [OF _ proj that(2)]] by (simp add: progress_def)
  have fin: "progress R s0 (fst (each (supersede_memory R) ?ids s0))"
    by (rule each_ok [where P = "progress R s0"]) (use s progress_refl [OF s0] step in auto)
  show ?thesis
  proof (cases "r_SourceID rel \<in> set ?ids")
    case True
    have "?key \<in> set (ss_seen (fst (each (supersede_memory R) ?ids s0)))"
    proof (rule each_reaches [where P = "progress R s0" and x = "r_SourceID rel"])
      fix t assume "progress R s0 t" "snd (supersede_memory R (r_SourceID rel) t) = Inr ()"
      then show "?key \<in> set (ss_seen (fst (supersede_memory R (r_SourceID rel) t)))"
        using progress_memory(2) [OF _ proj, of t "r_SourceID rel" rel] rel
        by (auto simp: progress_def s0_def touches_edge_def)
    next
      fix i t assume "progress R s0 t" "?key \<in> set (ss_seen t)" "snd (supersede_memory R i t) = Inr ()"
      then show "?key \<in> set (ss_seen (fst (supersede_memory R i t)))"
        using progress_memory(1) [OF _ proj, of t i] by (auto simp: progress_def)
    qed (use s progress_refl [OF s0] step True in auto)
    then show ?thesis using fin s by (simp add: progress_def settled_def)
  next
    case False
    have "m_ID a \<in> set ?ids" if "GetMemory (rn_bproj R) (r_SourceID rel) db = Some a" for a
    proof -
      have "a \<in> set (live_rows (rn_project R) db)" using GetMemory_live [OF that] proj by (simp add: live_rows_iff)
      then show ?thesis unfolding order GetAllMemoryIDs_def by simp
    qed
    then have "GetMemory (rn_bproj R) (r_SourceID rel) db = None"
      using False GetMemory_live by (cases "GetMemory (rn_bproj R) (r_SourceID rel) db") force+
    then have "GetMemory (rn_bproj R) (r_SourceID rel) (ss_db s) = None"
      using fin s by (cases "GetMemory (rn_bproj R) (r_SourceID rel) (ss_db s)") (auto simp: progress_def fewer_live_def s0_def)
    then show ?thesis using s by (simp add: resolved_canonical)
  qed
qed

section \<open>Which errors a run reports\<close>

definition quiet :: "Runner \<Rightarrow> bool" where
  "quiet R \<longleftrightarrow> (\<forall>op x y l. \<not> e_fault (rn_call R op x y) l)"

text \<open>When the database answers, only an immutable memory stops the run.\<close>

lemma supersede_tx_error:
  assumes "db_ok db" "rn_bproj R = rn_project R" "\<And>l. \<not> e_fault env l"
    and newer: "GetMemory (rn_bproj R) n db = Some newer" and older: "GetMemory (rn_bproj R) i db = Some older"
    and "snd (in_tx env (supersede_tx R env newer older) db) = Inl e"
  shows "m_Immutable older"
proof -
  have "m_ID newer = n" "m_ID older = i" "newer \<in> set (db_memories db)" "older \<in> set (db_memories db)"
    using GetMemory_live [OF newer] GetMemory_live [OF older] by auto
  moreover have "GetMemory (rn_project R) i (db\<lparr>db_relationships := es\<rparr>) = Some older" for es
    using older assms(2) by (simp add: GetMemory_def)
  ultimately show ?thesis
    using assms(3,6) by (auto simp: in_tx_def supersede_tx_def StoreRelationshipTx_def SoftDeleteMemoryTx_def
        softDeleteMemoryExec_def new_edge_def split: if_splits)
qed

lemma supersede_edge_error:
  assumes inv: "retiring R db0 k (ss_db s)" and proj: "rn_bproj R = rn_project R" and "quiet R"
    and rel: "rel \<in> set (db_relationships db)" "contradictions db = contradictions db0" "r_Project rel = rn_project R"
    and err: "snd (supersede_edge R rel s) = Inl e"
  shows "\<exists>n m. outdates R db0 n m \<and> m_Immutable m"
proof -
  have ok: "db_ok (ss_db s)" using inv by (simp add: retiring_def)
  obtain a b newer older where G: "GetMemory (rn_bproj R) (r_SourceID rel) (ss_db s) = Some a"
    "GetMemory (rn_bproj R) (r_TargetID rel) (ss_db s) = Some b" "newer_older a b = (newer, older)"
    and gap: "\<not> \<bar>m_CreatedAt a - m_CreatedAt b\<bar> \<le> supersedeThreshold" and ty: "r_RelType rel = ''contradicts''"
    and tx: "snd (in_tx (rn_call R ''supersede'' (m_ID newer) (m_ID older))
        (supersede_tx R (rn_call R ''supersede'' (m_ID newer) (m_ID older)) newer older) (ss_db s)) = Inl e"
    using err assms(3) unfolding supersede_edge_def quiet_def
    by (auto simp: Let_def split: if_splits option.splits prod.splits sum.splits)
  note A = GetMemory_live [OF G(1)] and B = GetMemory_live [OF G(2)]
  have swap: "newer = a \<and> older = b \<or> newer = b \<and> older = a" by (rule newer_older_gap(2) [OF G(3) gap])
  have N: "GetMemory (rn_bproj R) (m_ID newer) (ss_db s) = Some newer"
    and O: "GetMemory (rn_bproj R) (m_ID older) (ss_db s) = Some older" using swap G(1,2) A B by auto
  have "m_Immutable older" by (rule supersede_tx_error [OF ok proj _ N O tx]) (use assms(3) in \<open>simp add: quiet_def\<close>)
  moreover have "rel \<in> set (contradictions db0)" using rel(1) ty by (simp add: rel(2) [symmetric]) (simp add: contradictions_def)
  then have "contradict R db0 (m_ID newer) (m_ID older)"
    using rel(3) swap A B by (auto simp: contradict_def list_ex_iff)
  then have "outdates R db0 newer older"
    using swap A B proj retiring_live [OF inv] newer_older_gap(1) [OF G(3) gap] by (auto simp: outdates_def live_rows_iff)
  ultimately show ?thesis by blast
qed

lemma AutoSupersede_error:
  assumes ok: "db_ok db" and proj: "rn_bproj R = rn_project R" and quiet: "quiet R"
    and err: "snd (snd (AutoSupersede R db)) = Some e"
  shows "\<exists>n m. outdates R db n m \<and> m_Immutable m"
proof -
  let ?P = "\<lambda>t. retiring R db (ss_superseded t) (ss_db t)"
  have "snd (each (supersede_memory R) (rn_order R (GetAllMemoryIDs (rn_project R) db))
      \<lparr>ss_db = db, ss_seen = [], ss_superseded = 0\<rparr>) = Inl e"
    using err quiet by (auto simp: AutoSupersede_def Let_def quiet_def split: sum.splits)
  then obtain i s where s: "?P s" "snd (supersede_memory R i s) = Inl e"
    using each_error [where P = ?P and f = "supersede_memory R"] retiring_refl [OF ok] retiring_memory [OF _ proj] by fastforce
  from s(2) quiet have "snd (each (supersede_edge R) (GetRelationships (rn_project R) i (ss_db s)) s) = Inl e"
    by (simp add: supersede_memory_def quiet_def)
  moreover have "?P (fst (supersede_edge R r t))" if "r \<in> set (GetRelationships (rn_project R) i (ss_db s))" "?P t" for r t
    using retiring_edge [OF that(2) proj, of r "ss_db s"] that(1) s(1) by (simp add: GetRelationships_def retiring_def)
  ultimately obtain rel t where rel: "rel \<in> set (GetRelationships (rn_project R) i (ss_db s))" "?P t"
    "snd (supersede_edge R rel t) = Inl e"
    using each_error [where P = ?P and f = "supersede_edge R", OF _ s(1)] by blast
  show ?thesis
    by (rule supersede_edge_error [OF rel(2) proj quiet, where db = "ss_db s"])
      (use rel s(1) in \<open>auto simp: GetRelationships_def retiring_def\<close>)
qed

lemma contradict_same: "contradictions db' = contradictions db \<Longrightarrow> contradict R db' i j = contradict R db i j"
  by (simp add: contradict_def)

lemma AutoSupersede_leaves_none:
  assumes ok: "db_ok db" and proj: "rn_bproj R = rn_project R" and order: "\<And>xs. set (rn_order R xs) = set xs"
    and run: "snd (snd (AutoSupersede R db)) = None"
  shows "\<not> outdates R (fst (AutoSupersede R db)) n m"
proof
  let ?db = "fst (AutoSupersede R db)"
  assume out: "outdates R ?db n m"
  have inv: "retiring R db (fst (snd (AutoSupersede R db))) ?db" by (rule retiring_AutoSupersede [OF ok proj])
  then obtain rel where rel: "rel \<in> set (contradictions db)" "r_Project rel = rn_project R"
    "r_SourceID rel = m_ID n \<and> r_TargetID rel = m_ID m \<or> r_SourceID rel = m_ID m \<and> r_TargetID rel = m_ID n"
    using out by (auto simp: outdates_def retiring_def contradict_def list_ex_iff)
  have G: "GetMemory (rn_bproj R) (m_ID n) ?db = Some n" "GetMemory (rn_bproj R) (m_ID m) ?db = Some m"
    using out inv proj GetMemory_iff [of ?db] by (auto simp: outdates_def live_rows_def retiring_def active_row_def)
  have "\<bar>m_CreatedAt n - m_CreatedAt m\<bar> \<le> supersedeThreshold"
    using AutoSupersede_resolves [OF ok proj order run rel(1,2)] rel(3) G
    by (auto simp: resolved_canonical abs_minus_commute)
  moreover have "m_CreatedAt m + supersedeThreshold < m_CreatedAt n" using out by (simp add: outdates_def)
  ultimately show False by linarith
qed

section \<open>What the scans change\<close>

text \<open>
  A scan adds edges of one type between different live memories that are similar enough; the
  strength of an edge it finds is overwritten.
\<close>

definition found_edge :: "string \<Rightarrow> float64 \<Rightarrow> database \<Rightarrow> Relationship \<Rightarrow> bool" where
  "found_edge ty minSim db r \<longleftrightarrow>
     r_RelType r = ty \<and> r_SourceID r \<noteq> r_TargetID r \<and> minSim \<le> r_Strength r
     \<and> active_exists (r_SourceID r) db \<and> active_exists (r_TargetID r) db"

definition same_edge :: "Relationship \<Rightarrow> Relationship \<Rightarrow> bool" where
  "same_edge r r' \<longleftrightarrow> edge_key r = edge_key r' \<and> r_Project r = r_Project r'"

definition extends :: "string \<Rightarrow> float64 \<Rightarrow> database \<Rightarrow> database \<Rightarrow> bool" where
  "extends ty minSim db db' \<longleftrightarrow>
     db_ok db' \<and> db_memories db' = db_memories db \<and> db_chunks db' = db_chunks db \<and> db_versions db' = db_versions db
     \<and> (\<forall>r \<in> set (db_relationships db'). r \<in> set (db_relationships db) \<or> found_edge ty minSim db r)
     \<and> (\<forall>r \<in> set (db_relationships db). \<exists>r' \<in> set (db_relationships db'). same_edge r r')"

lemma extends_refl: "db_ok db \<Longrightarrow> extends ty minSim db db"
  by (auto simp: extends_def same_edge_def)

lemma same_edge_upsert: "r \<in> set rs \<Longrightarrow> \<exists>r' \<in> set (upsert_edge rel rs). same_edge r r'"
  by (cases "edge_key r = edge_key rel")
    (auto simp: upsert_edge_def same_edge_def intro: bexI [of _ "r\<lparr>r_Strength := r_Strength rel\<rparr>"] bexI [of _ r])

lemma set_upsert_edge:
  "r \<in> set (upsert_edge rel rs) \<Longrightarrow> r \<in> set rs \<or> edge_key r = edge_key rel \<and> r_Strength r = r_Strength rel"
  by (auto simp: upsert_edge_def split: if_splits)

lemma StoreRelationship_cases:
  obtains e where "StoreRelationship bp env rel db = (db, Inl e)"
  | "active_exists (r_SourceID rel) db" "active_exists (r_TargetID rel) db"
    "StoreRelationship bp env rel db
      = (db\<lparr>db_relationships := upsert_edge (rel\<lparr>r_Project := bp\<rparr>) (db_relationships db)\<rparr>, Inr ())"
proof -
  let ?db = "db\<lparr>db_relationships := upsert_edge (rel\<lparr>r_Project := bp\<rparr>) (db_relationships db)\<rparr>"
  have "(\<exists>e. StoreRelationship bp env rel db = (db, Inl e))
      \<or> active_exists (r_SourceID rel) db \<and> active_exists (r_TargetID rel) db
        \<and> StoreRelationship bp env rel db = (?db, Inr ())"
    by (simp add: StoreRelationship_def in_tx_def)
  then show ?thesis using that by blast
qed

lemma extends_store:
  assumes ext: "extends ty minSim db db1" and "found_edge ty minSim db rel"
    and act: "active_exists (r_SourceID rel) db1" "active_exists (r_TargetID rel) db1"
  shows "extends ty minSim db (db1\<lparr>db_relationships := upsert_edge (rel\<lparr>r_Project := bp\<rparr>) (db_relationships db1)\<rparr>)"
    (is "extends ty minSim db ?db")
proof -
  let ?rel = "rel\<lparr>r_Project := bp\<rparr>"
  have "db_ok ?db"
    using ext act by (intro db_ok_upsert) (auto simp: extends_def dest: active_exists_mem)
  moreover have "r \<in> set (db_relationships db) \<or> found_edge ty minSim db r" if "r \<in> set (db_relationships ?db)" for r
    using set_upsert_edge [of r ?rel] that ext assms(2)
    by (fastforce simp: extends_def found_edge_def edge_key_def)
  moreover have "\<exists>r' \<in> set (db_relationships ?db). same_edge r r'" if "r \<in> set (db_relationships db)" for r
  proof -
    have "\<forall>r \<in> set (db_relationships db). \<exists>r' \<in> set (db_relationships db1). same_edge r r'"
      using ext unfolding extends_def by simp
    then have "\<exists>r' \<in> set (db_relationships db1). same_edge r r'" using that by (rule bspec)
    then obtain r1 where r1: "r1 \<in> set (db_relationships db1)" "same_edge r r1" by (rule bexE)
    from same_edge_upsert [OF r1(1), of ?rel]
    obtain r2 where "r2 \<in> set (upsert_edge ?rel (db_relationships db1))" "same_edge r1 r2" by (rule bexE)
    then show ?thesis using r1(2) by (intro bexI [of _ r2]) (simp_all add: same_edge_def)
  qed
  ultimately show ?thesis using ext by (auto simp: extends_def)
qed

lemma active_exists_cong: "db_memories db' = db_memories db \<Longrightarrow> active_exists i db' = active_exists i db"
  by (simp add: active_exists_def)

lemma store_edge_simps:
  "sc_processed (fst (store_edge R i j ty x s)) = sc_processed s"
  "sc_uncaught (fst (store_edge R i j ty x s)) = sc_uncaught s"
  by (simp_all add: store_edge_def Let_def split: prod.splits sum.splits)

lemma extends_store_edge:
  assumes ext: "extends ty minSim db (sc_db s)" and "i \<noteq> j" "minSim \<le> x"
  shows "extends ty minSim db (sc_db (fst (store_edge R i j ty x s)))"
proof -
  define env where "env = rn_call R ''StoreRelationship'' i j"
  define rel where "rel = new_edge R i j ty x env"
  show ?thesis
  proof (cases rule: StoreRelationship_cases [of "rn_bproj R" env rel "sc_db s"])
    case 1
    then show ?thesis using ext by (simp add: store_edge_def Let_def env_def rel_def)
  next
    case 2
    have "found_edge ty minSim db rel"
      using 2(1,2) assms active_exists_cong [of "sc_db s" db]
      by (simp add: found_edge_def rel_def new_edge_def extends_def)
    from extends_store [OF ext this 2(1,2)] 2(3)
    show ?thesis by (simp add: store_edge_def Let_def env_def rel_def)
  qed
qed

text \<open>The pairs left to the language model are similar enough, too.\<close>

definition scanned :: "string \<Rightarrow> float64 \<Rightarrow> database \<Rightarrow> scan \<Rightarrow> bool" where
  "scanned ty minSim db s \<longleftrightarrow>
     extends ty minSim db (sc_db s)
     \<and> list_all (\<lambda>p. up_sourceID p \<noteq> up_targetID p \<and> minSim \<le> up_strength p) (sc_uncaught s)"

lemma scanned_start: "db_ok db \<Longrightarrow> scanned ty minSim db (start_scan db)"
  by (simp add: scanned_def start_scan_def extends_refl)

lemma scanned_mark [simp]: "scanned ty minSim db (mark key s) = scanned ty minSim db s"
  by (simp add: scanned_def mark_def)

lemma scanned_store_edge:
  "scanned ty minSim db s \<Longrightarrow> i \<noteq> j \<Longrightarrow> minSim \<le> x \<Longrightarrow> scanned ty minSim db (fst (store_edge R i j ty x s))"
  by (simp add: scanned_def extends_store_edge store_edge_simps)

lemma scanned_infer_hit:
  assumes "scanned ''relates_to'' minSim db s"
  shows "scanned ''relates_to'' minSim db (fst (infer_hit R minSim memID linked hit s))"
  using assms scanned_store_edge [OF assms, of memID "vh_MemoryID hit" "1 - vh_Distance hit" R]
  by (auto simp: infer_hit_def Let_def split: prod.splits sum.splits)

lemma scanned_detect_hit:
  assumes "scanned ''contradicts'' minSim db s"
  shows "scanned ''contradicts'' minSim db (fst (detect_hit R minSim opts memTypes memID chunk ac hit s))"
proof -
  have "scanned ''contradicts'' minSim db (s\<lparr>sc_uncaught := sc_uncaught s @ [\<lparr>up_sourceID = memID,
      up_targetID = j, up_textA = t, up_textB = t', up_strength = x\<rparr>]\<rparr>)" if "memID \<noteq> j" "minSim \<le> x" for j t t' x
    using assms that by (simp add: scanned_def)
  then show ?thesis
    using assms scanned_store_edge [OF assms, of memID "vh_MemoryID hit" "1 - vh_Distance hit" R]
    by (auto simp: detect_hit_def Let_def split: prod.splits sum.splits)
qed

lemma scanned_memory:
  shows "scanned ''relates_to'' minSim db s \<Longrightarrow> scanned ''relates_to'' minSim db (fst (infer_memory R minSim limit mc s))"
    and "scanned ''contradicts'' minSim db s
      \<Longrightarrow> scanned ''contradicts'' minSim db (fst (detect_memory R minSim limit opts memTypes mc s))"
  by (auto simp: infer_memory_def detect_memory_def Let_def intro!: each_inv scanned_infer_hit scanned_detect_hit)

lemma scanned_llm_pass:
  assumes "scanned ''contradicts'' minSim db s"
    "list_all (\<lambda>p. up_sourceID p \<noteq> up_targetID p \<and> minSim \<le> up_strength p) ps"
  shows "scanned ''contradicts'' minSim db (fst (fst (llm_pass R opts k n ps s)))"
  using assms
proof (induction ps arbitrary: n s)
  case (Cons p ps)
  have "scanned ''contradicts'' minSim db (fst (store_edge R (up_sourceID p) (up_targetID p) ''contradicts'' (up_strength p) s))"
    using Cons.prems by (simp add: scanned_store_edge)
  then show ?case using Cons by (auto split: option.splits bool.splits prod.splits sum.splits)
qed simp

lemma scanned_second_pass:
  "scanned ''contradicts'' minSim db s \<Longrightarrow> scanned ''contradicts'' minSim db (fst (fst (second_pass R opts s)))"
  by (auto simp: second_pass_def intro!: scanned_llm_pass) (simp add: scanned_def)

text \<open>A run that gets past its first two queries.\<close>

lemma detect_run_cases:
  fixes R minSim limit opts db
  defines "memTypes \<equiv> GetMemoryTypeMap (rn_project R) db"
  defines "mcs \<equiv> walk R (first_chunks (detectable_chunks memTypes
      (GetAllChunksWithEmbeddings (rn_tie R) (rn_project R) limit db)))"
  obtains "detect_run R minSim limit opts db = ((db, 0, Some DbFailed), 0)"
  | s e where "each (detect_memory R minSim limit opts memTypes) mcs (start_scan db) = (s, Inl e)"
      "detect_run R minSim limit opts db = ((sc_db s, sc_created s, Some e), 0)"
  | s where "each (detect_memory R minSim limit opts memTypes) mcs (start_scan db) = (s, Inr ())"
      "detect_run R minSim limit opts db = map_prod scan_result id (second_pass R opts s)"
proof -
  obtain s res where r: "each (detect_memory R minSim limit opts memTypes) mcs (start_scan db) = (s, res)"
    by (cases "each (detect_memory R minSim limit opts memTypes) mcs (start_scan db)")
  have "detect_run R minSim limit opts db = ((db, 0, Some DbFailed), 0)
      \<or> detect_run R minSim limit opts db = (case (s, res) of (s, Inl e) \<Rightarrow> (scan_result (s, Inl e), 0)
          | (s, Inr _) \<Rightarrow> map_prod scan_result id (second_pass R opts s))"
    using r by (simp add: detect_run_def Let_def memTypes_def mcs_def)
  then show ?thesis using that r by (cases res) (auto simp: scan_result_def)
qed

lemma detectContradictions_extends:
  assumes "db_ok db"
  shows "extends ''contradicts'' minSim db (fst (detectContradictions R minSim limit opts db))"
proof -
  have scan: "scanned ''contradicts'' minSim db
      (fst (each (detect_memory R minSim limit opts memTypes) mcs (start_scan db)))" for memTypes mcs
    by (rule each_inv) (use assms in \<open>simp_all add: scanned_start scanned_memory\<close>)
  show ?thesis
  proof (cases rule: detect_run_cases [of R minSim limit opts db])
    case 1
    then show ?thesis using extends_refl [OF assms] by (simp add: detectContradictions_def)
  next
    case (2 s e)
    have "scanned ''contradicts'' minSim db s" using scan 2(1) by (metis fst_conv)
    then show ?thesis by (simp add: detectContradictions_def 2(2) scanned_def)
  next
    case (3 s)
    have "scanned ''contradicts'' minSim db s" using scan 3(1) by (metis fst_conv)
    from scanned_second_pass [OF this, of R opts] show ?thesis
      by (simp add: detectContradictions_def 3(2) scan_result_def scanned_def)
  qed
qed

lemma InferRelationships_extends:
  assumes "db_ok db"
  shows "extends ''relates_to'' minSim db (fst (InferRelationships R minSim limit db))"
proof -
  have "scanned ''relates_to'' minSim db (fst (each (infer_memory R minSim limit) mcs (start_scan db)))" for mcs
    by (rule each_inv) (use assms in \<open>simp_all add: scanned_start scanned_memory\<close>)
  then show ?thesis
    using extends_refl [OF assms] by (simp add: InferRelationships_def Let_def scan_result_def scanned_def)
qed

section \<open>Invalidated memories stop the detection\<close>

lemma each_append_ok:
  assumes "snd (each f (xs @ y # ys) s) = Inr ()"
  shows "\<exists>t. each f xs s = (t, Inr ()) \<and> snd (f y t) = Inr ()"
  using assms
  by (induction xs arbitrary: s) (auto split: prod.splits sum.splits)

lemma processed_detect_hit:
  "set (sc_processed (fst (detect_hit R minSim opts memTypes memID chunk ac hit s)))
     \<subseteq> insert (canonical memID (vh_MemoryID hit)) (set (sc_processed s))"
  using store_edge_simps(1) [of R memID "vh_MemoryID hit" "''contradicts''" "1 - vh_Distance hit" s]
  by (auto simp: detect_hit_def Let_def mark_def split: prod.splits sum.splits if_splits)

lemma store_edge_dead:
  assumes "\<not> active_exists j (sc_db s)"
  shows "\<exists>e. snd (store_edge R i j ty x s) = Inl e"
proof (cases rule: StoreRelationship_cases [of "rn_bproj R" "rn_call R ''StoreRelationship'' i j"
      "new_edge R i j ty x (rn_call R ''StoreRelationship'' i j)" "sc_db s"])
  case 2
  then show ?thesis using assms by (simp add: new_edge_def)
qed (simp add: store_edge_def Let_def)

lemma VectorSearch_cong:
  "db_memories db' = db_memories db \<Longrightarrow> db_chunks db' = db_chunks db \<Longrightarrow> VectorSearch R q limit db' = VectorSearch R q limit db"
  by (simp add: VectorSearch_def VectorSearchWithDateRange_def searched_chunk_def [abs_def])

text \<open>While the pair of \<open>a\<close> and the invalidated \<open>d\<close> has not been handled.\<close>

definition untouched :: "float64 \<Rightarrow> database \<Rightarrow> string \<Rightarrow> string \<Rightarrow> scan \<Rightarrow> bool" where
  "untouched minSim db a d s \<longleftrightarrow> scanned ''contradicts'' minSim db s \<and> canonical a d \<notin> set (sc_processed s)"

lemma untouched_hit:
  assumes "untouched minSim db a d s" "memID \<noteq> d" "memID \<noteq> a \<or> vh_MemoryID hit \<noteq> d"
  shows "untouched minSim db a d (fst (detect_hit R minSim opts memTypes memID chunk ac hit s))"
proof -
  have "canonical a d \<noteq> canonical memID (vh_MemoryID hit)"
    using assms(2,3) by (auto simp: canonical_eq_iff doubleton_eq_iff)
  then show ?thesis
    using assms(1) processed_detect_hit [of R minSim opts memTypes memID chunk ac hit s]
    by (auto simp: untouched_def intro: scanned_detect_hit)
qed

lemma untouched_other_memory:
  assumes "untouched minSim db a d s" "fst mc \<noteq> d" "fst mc \<noteq> a"
  shows "untouched minSim db a d (fst (detect_memory R minSim limit opts memTypes mc s))"
proof -
  have "untouched minSim db a d (fst (each (detect_hit R minSim opts memTypes (fst mc) (snd mc) ac) hits s))" for ac hits
    by (rule each_inv [where P = "untouched minSim db a d"]) (use assms untouched_hit in auto)
  then show ?thesis using assms(1) by (simp add: detect_memory_def Let_def)
qed

lemma dead_memory_stops:
  assumes un: "untouched minSim db a d s" and ad: "a \<noteq> d" and dead: "\<not> active_exists d db"
    and ty: "memory_type_of memTypes d \<noteq> ''context''"
    and fresh: "d \<notin> set (contradicted_by a (GetRelationships (rn_project R) a db))"
    and hits: "VectorSearch R (c_Embedding chunk) limit db = pre @ hit # post" "vh_MemoryID hit = d" "d \<notin> vh_MemoryID ` set pre"
    and like: "length (vh_ChunkText hit) \<le> maxContradictionChunkLen" "minSim \<le> 1 - vh_Distance hit"
      "isContradiction (rn_lower R) (c_ChunkText chunk) (vh_ChunkText hit)"
  shows "snd (detect_memory R minSim limit opts memTypes (a, chunk) s) \<noteq> Inr ()"
proof
  assume ok: "snd (detect_memory R minSim limit opts memTypes (a, chunk) s) = Inr ()"
  have ext: "extends ''contradicts'' minSim db (sc_db s)" using un by (simp add: untouched_def scanned_def)
  define ac where "ac = contradicted_by a (GetRelationships (rn_project R) a (sc_db s))"
  have old: "r \<in> set (db_relationships db)" if "r \<in> set (db_relationships (sc_db s))" "touches_edge d r" for r
    using ext that dead by (auto simp: extends_def found_edge_def touches_edge_def)
  have "d \<notin> set ac"
  proof
    assume "d \<in> set ac"
    then obtain r where r: "r \<in> set (db_relationships (sc_db s))" "r_Project r = rn_project R" "touches_edge a r"
      "r_RelType r = ''contradicts''" "d = other_end a r"
      unfolding ac_def contradicted_by_def GetRelationships_def by auto
    then have "touches_edge d r" by (auto simp: touches_edge_def other_end_def)
    then have "d \<in> set (contradicted_by a (GetRelationships (rn_project R) a db))"
      using r old unfolding contradicted_by_def GetRelationships_def by auto
    then show False using fresh by blast
  qed
  moreover have "VectorSearch R (c_Embedding chunk) limit (sc_db s) = pre @ hit # post"
    using VectorSearch_cong [of "sc_db s" db R "c_Embedding chunk" limit] ext hits(1) by (simp add: extends_def)
  then have "snd (each (detect_hit R minSim opts memTypes a chunk ac) (pre @ hit # post) s) = Inr ()"
    using ok by (simp add: detect_memory_def Let_def ac_def split: if_splits)
  then obtain t where t: "each (detect_hit R minSim opts memTypes a chunk ac) pre s = (t, Inr ())"
    "snd (detect_hit R minSim opts memTypes a chunk ac hit t) = Inr ()" by (metis each_append_ok)
  have "untouched minSim db a d (fst (each (detect_hit R minSim opts memTypes a chunk ac) pre s))"
    by (rule each_inv [where P = "untouched minSim db a d"]) (rule un, rule untouched_hit, use ad hits(3) in auto)
  then have un': "untouched minSim db a d t" by (simp add: t(1))
  then have "\<not> active_exists d (sc_db t)"
    using dead active_exists_cong [of "sc_db t" db] by (simp add: untouched_def scanned_def extends_def)
  from store_edge_dead [OF this, of R a "''contradicts''" "1 - vh_Distance hit"]
  obtain e where "snd (store_edge R a d ''contradicts'' (1 - vh_Distance hit) t) = Inl e" by blast
  ultimately show False
    using t(2) un' ad ty like hits(2) by (auto simp: detect_hit_def Let_def untouched_def split: prod.splits sum.splits)
qed

lemma first_chunks_set: "snd ` set (first_chunks cs) \<subseteq> set cs"
    and first_chunks_keys: "(i, c) \<in> set (first_chunks cs) \<Longrightarrow> i = c_MemoryID c"
proof -
  have "\<forall>p \<in> set (fold (\<lambda>c m. if map_of m (c_MemoryID c) = None then m @ [(c_MemoryID c, c)] else m) ds m0).
      p \<in> set m0 \<or> snd p \<in> set ds \<and> fst p = c_MemoryID (snd p)" for ds m0
    by (induction ds arbitrary: m0) (fastforce split: if_splits)+
  from this [of cs "[]"] show "snd ` set (first_chunks cs) \<subseteq> set cs" "(i, c) \<in> set (first_chunks cs) \<Longrightarrow> i = c_MemoryID c"
    by (auto simp: first_chunks_def)
qed

lemma scanned_memory_live:
  assumes "\<And>xs. set (rn_tie R xs) \<subseteq> set xs"
    and "map_of (first_chunks (detectable_chunks memTypes (GetAllChunksWithEmbeddings (rn_tie R) p limit db))) i = Some c"
  shows "active_exists i db"
proof -
  have "(i, c) \<in> set (first_chunks (detectable_chunks memTypes (GetAllChunksWithEmbeddings (rn_tie R) p limit db)))"
    by (rule map_of_SomeD) (rule assms(2))
  then have "i = c_MemoryID c" "c \<in> set (GetAllChunksWithEmbeddings (rn_tie R) p limit db)"
    using first_chunks_keys first_chunks_set by (fastforce simp: detectable_chunks_def)+
  then have "i \<in> m_ID ` set (live_rows p db)"
    using subsetD [OF assms(1)] unfolding GetAllChunksWithEmbeddings_def by (fastforce dest!: in_set_takeD)
  then show ?thesis by (auto simp: live_rows_def active_exists_def list_ex_iff)
qed

lemma walk_entries:
  assumes "\<And>xs. set (rn_order R xs) = set xs" "mc \<in> set (walk R m)"
  shows "map_of m (fst mc) = Some (snd mc)"
proof -
  obtain i where i: "i \<in> fst ` set m" "mc = (i, the (map_of m i))" using assms by (auto simp: walk_def)
  from i(1) have "map_of m i \<noteq> None" by (simp add: map_of_eq_None_iff)
  then show ?thesis using i(2) by auto
qed

lemma in_walk:
  assumes "\<And>xs. set (rn_order R xs) = set xs" "map_of m i = Some c"
  shows "(i, c) \<in> set (walk R m)"
  using assms map_of_SomeD [OF assms(2)] by (force simp: walk_def)

lemma memory_type_of_dead:
  assumes "\<not> active_exists d db"
  shows "memory_type_of (GetMemoryTypeMap p db) d = []"
proof -
  have "map_of (GetMemoryTypeMap p db) d = None"
    using assms by (auto simp: map_of_eq_None_iff GetMemoryTypeMap_def live_rows_def active_exists_def list_ex_iff)
  then show ?thesis by (simp add: memory_type_of_def)
qed

lemma dead_memory_blocks_detection:
  assumes ok: "db_ok db" and order: "\<And>xs. set (rn_order R xs) = set xs" and tie: "\<And>xs. set (rn_tie R xs) \<subseteq> set xs"
    and a: "map_of (first_chunks (detectable_chunks (GetMemoryTypeMap (rn_project R) db)
          (GetAllChunksWithEmbeddings (rn_tie R) (rn_project R) limit db))) a = Some chunk"
    and dead: "\<not> active_exists d db"
    and fresh: "d \<notin> set (contradicted_by a (GetRelationships (rn_project R) a db))"
    and hits: "VectorSearch R (c_Embedding chunk) limit db = pre @ hit # post" "vh_MemoryID hit = d" "d \<notin> vh_MemoryID ` set pre"
    and like: "length (vh_ChunkText hit) \<le> maxContradictionChunkLen" "minSim \<le> 1 - vh_Distance hit"
      "isContradiction (rn_lower R) (c_ChunkText chunk) (vh_ChunkText hit)"
  shows "snd (snd (detectContradictions R minSim limit opts db)) \<noteq> None"
proof (cases rule: detect_run_cases [of R minSim limit opts db])
  case (3 s)
  let ?types = "GetMemoryTypeMap (rn_project R) db"
  let ?m = "first_chunks (detectable_chunks ?types (GetAllChunksWithEmbeddings (rn_tie R) (rn_project R) limit db))"
  have alive: "fst mc \<noteq> d" if "mc \<in> set (walk R ?m)" for mc
    using scanned_memory_live [OF tie walk_entries [OF order that]] dead by auto
  have ad: "a \<noteq> d" using scanned_memory_live [OF tie a] dead by auto
  have stop: "snd (detect_memory R minSim limit opts ?types (a, chunk) t) \<noteq> Inr ()" if "untouched minSim db a d t" for t
    by (rule dead_memory_stops [OF that ad dead _ fresh hits like]) (simp add: memory_type_of_dead [OF dead])
  have "(\<lambda>_. False) (fst (each (detect_memory R minSim limit opts ?types) (walk R ?m) (start_scan db)))"
  proof (rule each_reaches [where P = "untouched minSim db a d" and x = "(a, chunk)"])
    show "untouched minSim db a d (start_scan db)"
      using scanned_start [OF ok] by (simp add: untouched_def) (simp add: start_scan_def)
    fix mc t
    assume mc: "mc \<in> set (walk R ?m)" "untouched minSim db a d t" "snd (detect_memory R minSim limit opts ?types mc t) = Inr ()"
    show "untouched minSim db a d (fst (detect_memory R minSim limit opts ?types mc t))"
    proof (cases "fst mc = a")
      case True
      with walk_entries [OF order mc(1)] a have "mc = (a, chunk)" by (cases mc) simp
      with mc stop show ?thesis by blast
    qed (rule untouched_other_memory [OF mc(2) alive [OF mc(1)]])
  qed (use 3(1) stop in_walk [OF order a] in auto)
  then show ?thesis ..
qed (simp_all add: detectContradictions_def)

section \<open>The language model is asked a bounded number of times\<close>

lemma llm_pass_calls:
  assumes "int n \<le> maxCalls"
  shows "int (snd (llm_pass R opts maxCalls n ps s)) \<le> min maxCalls (int n + int (length ps))"
  using assms
proof (induction ps arbitrary: n s)
  case (Cons p ps)
  show ?case
  proof (cases "int n \<ge> maxCalls")
    case False
    then have IH: "int (snd (llm_pass R opts maxCalls (n + 1) ps t)) \<le> min maxCalls (int (n + 1) + int (length ps))" for t
      using Cons.IH [of "n + 1" t] by simp
    have "(\<exists>t. snd (llm_pass R opts maxCalls n (p # ps) s) = snd (llm_pass R opts maxCalls (n + 1) ps t))
        \<or> snd (llm_pass R opts maxCalls n (p # ps) s) = n + 1"
      using False by (auto split: option.splits bool.splits prod.splits sum.splits)
    then show ?thesis
    proof
      assume "\<exists>t. snd (llm_pass R opts maxCalls n (p # ps) s) = snd (llm_pass R opts maxCalls (n + 1) ps t)"
      then obtain t where "snd (llm_pass R opts maxCalls n (p # ps) s) = snd (llm_pass R opts maxCalls (n + 1) ps t)" ..
      then show ?thesis using IH [of t] by (simp del: llm_pass.simps)
    next
      assume "snd (llm_pass R opts maxCalls n (p # ps) s) = n + 1"
      then show ?thesis using False by (simp del: llm_pass.simps)
    qed
  qed (use Cons.prems in simp)
qed simp

lemma llm_calls_le: "int (snd (detect_run R minSim limit opts db)) \<le> llm_max_calls opts"
proof -
  have "0 \<le> llm_max_calls opts" by (simp add: llm_max_calls_def)
  then have "int (snd (second_pass R opts s)) \<le> llm_max_calls opts" for s
    using llm_pass_calls [of 0 "llm_max_calls opts" R opts "sc_uncaught s" s] by (simp add: second_pass_def)
  then show ?thesis
    using \<open>0 \<le> llm_max_calls opts\<close> by (cases rule: detect_run_cases [of R minSim limit opts db]) simp_all
qed

section \<open>Properties\<close>

text \<open>
  C12: \<^verbatim>\<open>AutoSupersede\<close> only retires what is outdated. Whether it ends well or with an error, every
  row is as it was, except memories of the project that were live and mutable, that a live memory
  of the project contradicts and that are more than 24 hours older than it; those are marked as
  superseded by that memory, and the edge to them is in the graph. The number it returns is the
  number of memories it retired, and the tables stay consistent.
\<close>

theorem supersede_retires_only_outdated:
  assumes "db_ok db" "rn_bproj R = rn_project R" "AutoSupersede R db = (db', k, err)"
  shows "list_all2 (\<lambda>m m'. m' = m \<or> retired_row R db db' m m') (db_memories db) (db_memories db')
    \<and> live_count db' + k = live_count db \<and> db_ok db'"
  using retiring_AutoSupersede [OF assms(1,2)] assms(3) by (simp add: retiring_def)

text \<open>
  C13: \<^verbatim>\<open>AutoSupersede\<close> resolves every contradiction it may resolve. When the database answers every
  call and no outdated memory is immutable, the run ends without an error, whatever the order in
  which the memories are walked, and afterwards no live memory of the project is outdated.
\<close>

theorem supersede_resolves_contradictions:
  assumes "db_ok db" "rn_bproj R = rn_project R" "\<And>xs. set (rn_order R xs) = set xs" "quiet R"
    and "\<And>n m. outdates R db n m \<Longrightarrow> \<not> m_Immutable m"
  shows "snd (snd (AutoSupersede R db)) = None \<and> (\<forall>n m. \<not> outdates R (fst (AutoSupersede R db)) n m)"
proof -
  have run: "snd (snd (AutoSupersede R db)) = None"
    using AutoSupersede_error [OF assms(1,2,4)] assms(5) by (cases "snd (snd (AutoSupersede R db))") blast+
  with AutoSupersede_leaves_none [OF assms(1,2,3) run] show ?thesis by blast
qed

lemma extends_contradict:
  assumes "extends ty minSim db db'" "contradict R db i j"
  shows "contradict R db' i j"
proof -
  obtain r where r: "r \<in> set (db_relationships db)" "r_RelType r = ''contradicts''" "r_Project r = rn_project R"
    "r_SourceID r = i \<and> r_TargetID r = j \<or> r_SourceID r = j \<and> r_TargetID r = i"
    using assms(2) by (auto simp: contradict_def contradictions_def list_ex_iff)
  have "\<forall>r \<in> set (db_relationships db). \<exists>r' \<in> set (db_relationships db'). same_edge r r'"
    using assms(1) by (simp add: extends_def)
  from bspec [OF this r(1)] obtain r' where "r' \<in> set (db_relationships db')" "same_edge r r'" by (rule bexE)
  then show ?thesis
    using r(2-4) by (auto simp: contradict_def contradictions_def list_ex_iff same_edge_def edge_key_def intro!: bexI [of _ r'])
qed

lemma immutable_blocks:
  assumes ok: "db_ok db" and proj: "rn_bproj R = rn_project R" and order: "\<And>xs. set (rn_order R xs) = set xs"
    and out: "outdates R db n m" "m_Immutable m" and newest: "\<And>n'. \<not> outdates R db n' n"
  shows "snd (snd (AutoSupersede R db)) \<noteq> None"
proof
  assume run: "snd (snd (AutoSupersede R db)) = None"
  let ?db = "fst (AutoSupersede R db)"
  have inv: "retiring R db (fst (snd (AutoSupersede R db))) ?db" by (rule retiring_AutoSupersede [OF ok proj])
  have keep: "x \<in> set (db_memories ?db)" if x: "x \<in> set (db_memories db)" "\<And>db' x'. \<not> retired_row R db db' x x'" for x
  proof -
    obtain k where "k < length (db_memories db)" "x = db_memories db ! k" using x(1) by (auto simp: in_set_conv_nth)
    then show ?thesis using inv x(2) by (auto simp: retiring_def list_all2_conv_all_nth in_set_conv_nth)
  qed
  have "n \<in> set (db_memories ?db)" "m \<in> set (db_memories ?db)"
    using keep [of n] keep [of m] out newest by (auto simp: retired_row_def outdates_def live_rows_iff)
  then have "outdates R ?db n m"
    using out(1) inv contradict_same [of ?db db R] by (auto simp: outdates_def live_rows_iff retiring_def)
  then show False using AutoSupersede_leaves_none [OF ok proj order run] by blast
qed

text \<open>
  C23: An immutable memory stops consolidation. When the newest memory of the project contradicts an
  immutable one that is more than 24 hours older, every run with automatic supersession reports an
  error, whatever else it is asked to do and in whatever order it walks the memories: the
  transaction that would retire_row the immutable memory fails, and the run returns at once instead
  of going on to the next contradiction.
\<close>

theorem immutable_contradiction_stops_consolidation:
  assumes "db_ok db" "rn_bproj R = rn_project R" "\<And>xs. set (rn_order R xs) = set xs" "ru_AutoSupersede opts"
    and "outdates R db n m" "m_Immutable m"
    and "\<And>n'. n' \<in> set (live_rows (rn_project R) db) \<Longrightarrow> m_CreatedAt n' \<le> m_CreatedAt n"
  shows "\<exists>e. snd (RunAll R opts db) = Inl e"
proof -
  define limit where "limit = (if ru_ContradictionDetectionLimit opts \<le> 0
      then (if ru_InferRelationshipsLimit opts \<le> 0 then 500 else ru_InferRelationshipsLimit opts)
      else ru_ContradictionDetectionLimit opts)"
  obtain db1 c err where d: "detectContradictions R (ru_InferRelationshipsMinSimilarity opts) limit opts db = (db1, c, err)"
    by (cases "detectContradictions R (ru_InferRelationshipsMinSimilarity opts) limit opts db")
  have ext: "extends ''contradicts'' (ru_InferRelationshipsMinSimilarity opts) db db1"
    using detectContradictions_extends [OF assms(1), of "ru_InferRelationshipsMinSimilarity opts" R limit opts] d by simp
  have rows: "live_rows p db1 = live_rows p db" for p using ext by (simp add: extends_def live_rows_def)
  have "outdates R db1 n m" "\<not> outdates R db1 n' n" for n'
    using assms(5,7) rows extends_contradict [OF ext] by (auto simp: outdates_def supersedeThreshold_def dest!: assms(7))
  then have "snd (snd (AutoSupersede R db1)) \<noteq> None"
    using immutable_blocks [OF _ assms(2,3) _ assms(6), of db1 n] ext by (auto simp: extends_def)
  then obtain db2 k e where "AutoSupersede R db1 = (db2, k, Some e)" by (cases "AutoSupersede R db1") auto
  then show ?thesis
    using d assms(4) by (cases err) (simp_all add: RunAll_def Let_def limit_def [symmetric])
qed

text \<open>
  C22: An invalidated memory stops the detection of contradictions. The vector search also finds the
  chunks of memories that are no longer valid, while an edge may only join valid ones. When the
  nearest chunk of an invalidated memory is short and similar enough to a scanned memory, no
  contradiction joins the two yet and the texts contradict each other, the pass returns an error instead of skipping the pair, whatever the
  options and the order of the walk.
\<close>

theorem invalidated_memory_stops_detection:
  assumes "db_ok db" "\<And>xs. set (rn_order R xs) = set xs" "\<And>xs. set (rn_tie R xs) \<subseteq> set xs"
    and "map_of (first_chunks (detectable_chunks (GetMemoryTypeMap (rn_project R) db)
          (GetAllChunksWithEmbeddings (rn_tie R) (rn_project R) limit db))) a = Some chunk"
    and "\<not> active_exists d db"
    and "d \<notin> set (contradicted_by a (GetRelationships (rn_project R) a db))"
    and "VectorSearch R (c_Embedding chunk) limit db = pre @ hit # post" "vh_MemoryID hit = d" "d \<notin> vh_MemoryID ` set pre"
    and "length (vh_ChunkText hit) \<le> maxContradictionChunkLen" "minSim \<le> 1 - vh_Distance hit"
    and "isContradiction (rn_lower R) (c_ChunkText chunk) (vh_ChunkText hit)"
  shows "snd (snd (detectContradictions R minSim limit opts db)) \<noteq> None"
  by (rule dead_memory_blocks_detection [OF assms])

text \<open>
  Detecting contradictions calls the language model at most as often as the options say, and at
  most ten times when they say nothing, also when calls fail.
\<close>

theorem llm_calls_bounded:
  "int (snd (detect_run R minSim limit opts db)) \<le> (if ru_LLMMaxCalls opts \<le> 0 then 10 else ru_LLMMaxCalls opts)"
  using llm_calls_le [of R minSim limit opts db] by (simp add: llm_max_calls_def)

text \<open>
  The comparison of version sets is not symmetric: lists of the same length are taken as equal when
  every version of the second is in the first.
\<close>

lemma version_sets_compared_one_way:
  "sameVersionSet [''v1.0'', ''v2.0''] [''v1.0'', ''v1.0''] \<and> \<not> sameVersionSet [''v1.0'', ''v1.0''] [''v1.0'', ''v2.0'']"
  by (simp add: sameVersionSet_def)

section \<open>Instances\<close>

definition plain_runner :: Runner where
  "plain_runner = \<lparr>rn_bproj = ''p'', rn_project = ''p'', rn_call = (\<lambda>_ _ _. calm), rn_order = (\<lambda>xs. xs),
     rn_tie = (\<lambda>xs. xs), rn_tkey = length, rn_cosdist = (\<lambda>_ _. 0), rn_lower = (\<lambda>s. s),
     rn_complete = (\<lambda>_ _ _ _. None)\<rparr>"

definition dated_memory :: "string \<Rightarrow> gotime \<Rightarrow> bool \<Rightarrow> Memory" where
  "dated_memory i t imm = (note_memory i imm)\<lparr>m_CreatedAt := t, m_MemoryType := ''decision''\<rparr>"

definition quarrel :: "bool \<Rightarrow> database" where
  "quarrel imm = empty_db\<lparr>db_memories := [dated_memory ''n'' (48 * hour) False, dated_memory ''o'' 0 imm],
     db_relationships := [\<lparr>r_ID = ''r'', r_SourceID = ''o'', r_TargetID = ''n'', r_RelType = ''contradicts'',
       r_Strength = 1, r_Project = ''p'', r_CreatedAt = 0\<rparr>]\<rparr>"

lemma plain_runner_simps [simp]:
  "rn_bproj plain_runner = ''p''" "rn_project plain_runner = ''p''" "rn_call plain_runner op x y = calm"
  "rn_order plain_runner xs = xs" "rn_tie plain_runner cs = cs" "rn_tkey plain_runner = length"
  "rn_cosdist plain_runner = (\<lambda>_ _. 0)" "rn_lower plain_runner = (\<lambda>s. s)"
  by (simp_all add: plain_runner_def)

lemma quarrel_ok: "db_ok (quarrel imm)"
  by (simp add: quarrel_def db_ok_def empty_db_def dated_memory_def note_memory_def mem_ids_def docs_ok_def open_versions_def)

lemma quarrel_outdates:
  "outdates plain_runner (quarrel imm) (dated_memory ''n'' (48 * hour) False) (dated_memory ''o'' 0 imm)"
  by (simp add: outdates_def quarrel_def live_rows_def empty_db_def dated_memory_def note_memory_def contradict_def
      contradictions_def supersedeThreshold_def)

lemma quarrel_mutable: "outdates plain_runner (quarrel False) n m \<Longrightarrow> \<not> m_Immutable m"
  by (auto simp: outdates_def quarrel_def live_rows_def empty_db_def dated_memory_def note_memory_def)

theorem supersede_retires_only_outdated_witness:
  "live_count (fst (AutoSupersede plain_runner (quarrel False))) + 1 = live_count (quarrel False)"
proof -
  have "fst (snd (AutoSupersede plain_runner (quarrel False))) = 1"
    by code_simp
  then show ?thesis
    using supersede_retires_only_outdated [OF quarrel_ok, of plain_runner False _ 1] by (metis plain_runner_simps(1,2) prod.collapse)
qed

theorem supersede_resolves_contradictions_witness:
  "outdates plain_runner (quarrel False) (dated_memory ''n'' (48 * hour) False) (dated_memory ''o'' 0 False)
   \<and> snd (snd (AutoSupersede plain_runner (quarrel False))) = None
   \<and> \<not> outdates plain_runner (fst (AutoSupersede plain_runner (quarrel False)))
        (dated_memory ''n'' (48 * hour) False) (dated_memory ''o'' 0 False)"
  using supersede_resolves_contradictions [of "quarrel False" plain_runner] quarrel_ok quarrel_outdates quarrel_mutable
  by (simp add: quiet_def calm_def)

definition retiring_options :: RunOptions where
  "retiring_options = \<lparr>ru_InferRelationshipsMinSimilarity = 1 / 2, ru_InferRelationshipsLimit = 0,
     ru_ContradictionDetectionLimit = 0, ru_LLMContradictionDetection = False, ru_RouterURL = [],
     ru_OllamaModel = [], ru_LLMMaxCalls = 0, ru_AutoSupersede = True\<rparr>"

theorem immutable_contradiction_stops_consolidation_witness:
  "\<exists>e. snd (RunAll plain_runner retiring_options (quarrel True)) = Inl e"
  by (rule immutable_contradiction_stops_consolidation [OF quarrel_ok _ _ _ quarrel_outdates])
    (auto simp: retiring_options_def dated_memory_def note_memory_def quarrel_def live_rows_def empty_db_def)

definition memory_chunk :: "string \<Rightarrow> string \<Rightarrow> string \<Rightarrow> Chunk" where
  "memory_chunk i mem s = \<lparr>c_ID = i, c_MemoryID = mem, c_ChunkText = s, c_ChunkIndex = 0, c_ChunkHash = [],
     c_Embedding = [1], c_SectionHeading = None, c_ChunkType = [], c_LastMatched = None, c_Project = ''p''\<rparr>"

definition forgotten_db :: database where
  "forgotten_db = empty_db\<lparr>db_memories := [dated_memory ''n'' 0 False, (dated_memory ''o'' 0 False)\<lparr>m_ValidTo := Some 5\<rparr>],
     db_chunks := [memory_chunk ''c'' ''n'' ''alpha beta gamma delta is open'',
       memory_chunk ''dd'' ''o'' ''alpha beta gamma delta was shut'']\<rparr>"

lemma forgotten_ok: "db_ok forgotten_db"
  by (simp add: forgotten_db_def db_ok_def empty_db_def dated_memory_def note_memory_def mem_ids_def docs_ok_def
      open_versions_def memory_chunk_def)

lemma forgotten_contradiction:
  "isContradiction (\<lambda>s. s) ''alpha beta gamma delta is open'' ''alpha beta gamma delta was shut''"
  by code_simp

lemma forgotten_hits:
  "VectorSearch plain_runner [1] 500 forgotten_db
     = [hit_of (\<lambda>_ _. 0) [1] (memory_chunk ''c'' ''n'' ''alpha beta gamma delta is open'')]
       @ hit_of (\<lambda>_ _. 0) [1] (memory_chunk ''dd'' ''o'' ''alpha beta gamma delta was shut'') # []"
  by (simp add: VectorSearch_def VectorSearchWithDateRange_def searched_chunk_def forgotten_db_def empty_db_def
      memory_chunk_def dated_memory_def note_memory_def in_window_def hit_of_def hit_before_def)

lemma forgotten_scanned:
  "map_of (first_chunks (detectable_chunks (GetMemoryTypeMap ''p'' forgotten_db)
      (GetAllChunksWithEmbeddings (\<lambda>xs. xs) ''p'' 500 forgotten_db))) ''n''
     = Some (memory_chunk ''c'' ''n'' ''alpha beta gamma delta is open'')"
  by (simp add: first_chunks_def detectable_chunks_def GetAllChunksWithEmbeddings_def GetMemoryTypeMap_def
      live_rows_def forgotten_db_def empty_db_def memory_chunk_def dated_memory_def note_memory_def memory_type_of_def
      maxContradictionChunkLen_def)

theorem invalidated_memory_stops_detection_witness:
  "snd (snd (detectContradictions plain_runner (1 / 2) 500 retiring_options forgotten_db)) \<noteq> None"
proof (rule invalidated_memory_stops_detection [OF forgotten_ok _ _ _ _ _ _ refl])
  show "VectorSearch plain_runner (c_Embedding (memory_chunk ''c'' ''n'' ''alpha beta gamma delta is open'')) 500 forgotten_db
     = [hit_of (\<lambda>_ _. 0) [1] (memory_chunk ''c'' ''n'' ''alpha beta gamma delta is open'')]
       @ hit_of (\<lambda>_ _. 0) [1] (memory_chunk ''dd'' ''o'' ''alpha beta gamma delta was shut'') # []"
    using forgotten_hits by (simp add: memory_chunk_def)
  show "map_of (first_chunks (detectable_chunks (GetMemoryTypeMap (rn_project plain_runner) forgotten_db)
      (GetAllChunksWithEmbeddings (rn_tie plain_runner) (rn_project plain_runner) 500 forgotten_db))) ''n''
     = Some (memory_chunk ''c'' ''n'' ''alpha beta gamma delta is open'')"
    using forgotten_scanned by (simp add: plain_runner_def)
qed (use forgotten_contradiction in \<open>simp_all add: hit_of_def memory_chunk_def maxContradictionChunkLen_def
      active_exists_def forgotten_db_def empty_db_def dated_memory_def note_memory_def contradicted_by_def GetRelationships_def\<close>)

end
