(* ===== verification/Upstream_Guard.thy ===== *)
theory Upstream_Guard
  imports Engram_Prelude
begin

text \<open>
  The guards against requests to private addresses (\<^verbatim>\<open>src/internal/netutil/private_ip.go\<close>) and the
  dialers of the embedding client that use them (\<^verbatim>\<open>src/internal/embed/litellm.go\<close>).

  An address is the 128 bits of a 16-byte \<^verbatim>\<open>net.IP\<close>. What the network decides is in \<open>net_env\<close>: the
  answer to the \<open>n\<close>-th DNS query, which may differ from one query to the next, and which addresses
  accept a connection. Parsing and printing of addresses and URLs are the standard library's and
  are parameters too; what is relied on of them is stated where it is used.
\<close>

section \<open>Private ranges\<close>

type_synonym ip_addr = "128 word"

definition v4_mapped :: "32 word \<Rightarrow> ip_addr" where
  "v4_mapped a = push_bit 32 (mask 16) OR ucast a"

text \<open>\<^verbatim>\<open>net.IP.To4\<close>: an address of the block \<^verbatim>\<open>::ffff:0:0/96\<close>.\<close>

definition To4 :: "ip_addr \<Rightarrow> 32 word option" where
  "To4 ip = (if drop_bit 32 ip = mask 16 then Some (ucast ip) else None)"

definition privateRanges4 :: "(32 word \<times> nat) list" where
  "privateRanges4 =
     [(0x00000000, 8), (0x0A000000, 8), (0x64400000, 10), (0x7F000000, 8), (0xA9FE0000, 16),
      (0xAC100000, 12), (0xC0A80000, 16), (0xC6120000, 15), (0xF0000000, 4)]"

definition privateRanges6 :: "(ip_addr \<times> nat) list" where
  "privateRanges6 =
     [(1, 128), (push_bit 112 0xFC00, 7), (push_bit 112 0xFE80, 10)]"

text \<open>\<^verbatim>\<open>IPNet.Contains\<close> for the two widths; addresses of different widths never match.\<close>

definition contains4 :: "32 word \<Rightarrow> 32 word \<times> nat \<Rightarrow> bool" where
  "contains4 a r \<longleftrightarrow> drop_bit (32 - snd r) a = drop_bit (32 - snd r) (fst r)"

definition contains6 :: "ip_addr \<Rightarrow> ip_addr \<times> nat \<Rightarrow> bool" where
  "contains6 a r \<longleftrightarrow> drop_bit (128 - snd r) a = drop_bit (128 - snd r) (fst r)"

definition private_ip :: "ip_addr \<Rightarrow> bool" where
  "private_ip ip =
     (case To4 ip of
        Some a \<Rightarrow> list_ex (contains4 a) privateRanges4
      | None \<Rightarrow> list_ex (contains6 ip) privateRanges6)"

section \<open>The network\<close>

text \<open>An address with the zone of a scoped literal, as \<^verbatim>\<open>net.IPAddr\<close>.\<close>

type_synonym zoned_ip = "ip_addr \<times> string"

record net_env =
  ne_parseIP :: "string \<Rightarrow> ip_addr option"
  ne_printIP :: "ip_addr \<Rightarrow> string"
  ne_zoned :: "string \<Rightarrow> zoned_ip option"
  ne_parseURL :: "string \<Rightarrow> (string \<times> string) option"
  ne_split :: "string \<Rightarrow> (string \<times> string) option"
  ne_dns :: "nat \<Rightarrow> string \<Rightarrow> zoned_ip list option"
  ne_reach :: "ip_addr \<Rightarrow> bool"

definition zoned_string :: "net_env \<Rightarrow> zoned_ip \<Rightarrow> string" where
  "zoned_string E a = ne_printIP E (fst a) @ (if snd a = [] then [] else ''%'' @ snd a)"

text \<open>
  A lookup answers a literal, with or without zone, without a query; \<open>n\<close> counts the queries.
\<close>

definition LookupIPAddr :: "net_env \<Rightarrow> nat \<Rightarrow> string \<Rightarrow> zoned_ip list option" where
  "LookupIPAddr E n host =
     (case ne_zoned E host of Some a \<Rightarrow> Some [a] | None \<Rightarrow> ne_dns E n host)"

definition IsPrivateIP :: "net_env \<Rightarrow> string \<Rightarrow> bool" where
  "IsPrivateIP E ipStr = (case ne_parseIP E ipStr of None \<Rightarrow> False | Some ip \<Rightarrow> private_ip ip)"

text \<open>\<^verbatim>\<open>net.Dialer.DialContext\<close>: the host is resolved and its addresses are tried in turn.\<close>

definition base_dial :: "net_env \<Rightarrow> nat \<Rightarrow> string \<Rightarrow> ip_addr option" where
  "base_dial E n addr =
     (case ne_split E addr of
        None \<Rightarrow> None
      | Some (host, port) \<Rightarrow>
          (case LookupIPAddr E n host of None \<Rightarrow> None | Some ips \<Rightarrow> find (ne_reach E) (map fst ips)))"

definition JoinHostPort :: "string \<Rightarrow> string \<Rightarrow> string" where
  "JoinHostPort host port =
     (if CHR '':'' \<in> set host then ''['' @ host @ '']:'' @ port else host @ '':'' @ port)"

section \<open>Validation and dialing\<close>

datatype upstream_error = BadURL | BadScheme | NoHost | PrivateAddress | LookupFailed | NoAddress

definition validateUpstreamURLWithResolver :: "net_env \<Rightarrow> nat \<Rightarrow> string \<Rightarrow> upstream_error + unit" where
  "validateUpstreamURLWithResolver E n urlStr =
     (case ne_parseURL E urlStr of
        None \<Rightarrow> Inl BadURL
      | Some (scheme, hostname) \<Rightarrow>
          if scheme \<noteq> ''http'' \<and> scheme \<noteq> ''https'' then Inl BadScheme
          else if hostname = [] then Inl NoHost
          else if ne_parseIP E hostname \<noteq> None
          then (if IsPrivateIP E hostname then Inl PrivateAddress else Inr ())
          else (case LookupIPAddr E n hostname of
                  None \<Rightarrow> Inl LookupFailed
                | Some ips \<Rightarrow>
                    if ips = [] then Inl NoAddress
                    else if list_ex (\<lambda>a. IsPrivateIP E (ne_printIP E (fst a))) ips then Inl PrivateAddress
                    else Inr ()))"

definition ValidateUpstreamURL :: "net_env \<Rightarrow> nat \<Rightarrow> string \<Rightarrow> upstream_error + unit" where
  "ValidateUpstreamURL E n urlStr = validateUpstreamURLWithResolver E n urlStr"

record SafeDialOptions =
  sd_AllowPrivateConfiguredHost :: bool

text \<open>
  The dial hook: an error, or the result of the dialer. The first query is number \<open>n\<close>; the dialer
  gets a literal and needs none. The interface value of an address without bytes is left out.
\<close>

definition upstream_dial ::
    "net_env \<Rightarrow> nat \<Rightarrow> string \<Rightarrow> SafeDialOptions \<Rightarrow> string \<Rightarrow> upstream_error + ip_addr option" where
  "upstream_dial E n configuredHost opts addr =
     (case ne_split E addr of
        None \<Rightarrow> Inl BadURL
      | Some (host, port) \<Rightarrow>
          (case LookupIPAddr E n host of
             None \<Rightarrow> Inl LookupFailed
           | Some ips \<Rightarrow>
               if ips = [] then Inl NoAddress
               else if (\<not> sd_AllowPrivateConfiguredHost opts \<or> host \<noteq> configuredHost)
                       \<and> list_ex (\<lambda>a. IsPrivateIP E (ne_printIP E (fst a))) ips
               then Inl PrivateAddress
               else Inr (base_dial E (n + 1) (JoinHostPort (ne_printIP E (fst (hd ips))) port))))"

definition NewUpstreamDialContext ::
    "net_env \<Rightarrow> nat \<Rightarrow> string \<Rightarrow> SafeDialOptions \<Rightarrow> string \<Rightarrow> upstream_error + ip_addr option" where
  "NewUpstreamDialContext E n baseURL opts addr =
     upstream_dial E n (case ne_parseURL E baseURL of None \<Rightarrow> [] | Some (_, host) \<Rightarrow> host) opts addr"

text \<open>
  The two dialers of the embedding client: they check the answer to one lookup and then dial the
  name, which is looked up once more.
\<close>

definition litellm_dial :: "net_env \<Rightarrow> nat \<Rightarrow> string \<Rightarrow> string \<Rightarrow> upstream_error + ip_addr option" where
  "litellm_dial E n baseURL addr =
     (let configuredHost =
            (if baseURL = [] then [] else case ne_parseURL E baseURL of None \<Rightarrow> [] | Some (_, host) \<Rightarrow> host) in
      case ne_split E addr of
        None \<Rightarrow> Inl BadURL
      | Some (host, port) \<Rightarrow>
          if configuredHost = [] then Inr (base_dial E n addr)
          else (case LookupIPAddr E n host of
                  None \<Rightarrow> Inl LookupFailed
                | Some ips \<Rightarrow>
                    if host \<noteq> configuredHost \<and> list_ex (\<lambda>a. IsPrivateIP E (zoned_string E a)) ips
                    then Inl PrivateAddress
                    else Inr (base_dial E (n + 1) addr)))"

definition litellm_validated_dial :: "net_env \<Rightarrow> nat \<Rightarrow> string \<Rightarrow> upstream_error + ip_addr option" where
  "litellm_validated_dial E n addr =
     (case ne_split E addr of
        None \<Rightarrow> Inl BadURL
      | Some (host, port) \<Rightarrow>
          (case LookupIPAddr E n host of
             None \<Rightarrow> Inl LookupFailed
           | Some ips \<Rightarrow>
               if list_ex (\<lambda>a. IsPrivateIP E (zoned_string E a)) ips then Inl PrivateAddress
               else Inr (base_dial E (n + 1) addr)))"

section \<open>Which addresses are private\<close>

lemma To4_mapped [simp]: "To4 (v4_mapped a) = Some a"
proof -
  have "drop_bit 32 (v4_mapped a) = mask 16"
    unfolding v4_mapped_def by (rule bit_word_eqI) (auto simp: bit_simps dest: bit_imp_le_length)
  moreover have "ucast (v4_mapped a) = a"
    unfolding v4_mapped_def by (rule bit_word_eqI) (auto simp: bit_simps)
  ultimately show ?thesis by (simp add: To4_def)
qed

definition ipv4 :: "nat \<Rightarrow> nat \<Rightarrow> nat \<Rightarrow> nat \<Rightarrow> 32 word" where
  "ipv4 a b c d = word_of_nat (((a * 256 + b) * 256 + c) * 256 + d)"

lemma div_eq_range:
  fixes x q k :: nat
  assumes "0 < k"
  shows "x div k = q \<longleftrightarrow> q * k \<le> x \<and> x \<le> q * k + (k - 1)"
proof
  assume "x div k = q"
  then show "q * k \<le> x \<and> x \<le> q * k + (k - 1)"
    using dividend_less_times_div [OF assms, of x] times_div_less_eq_dividend [of k x] by (auto simp: mult.commute)
next
  assume "q * k \<le> x \<and> x \<le> q * k + (k - 1)"
  then show "x div k = q" using assms by (intro div_nat_eqI) (auto simp: mult.commute)
qed

lemma drop_bit_eq_iff:
  fixes a r :: "'a::len word"
  shows "drop_bit n a = drop_bit n r \<longleftrightarrow>
    (unat r div 2 ^ n) * 2 ^ n \<le> unat a \<and> unat a \<le> (unat r div 2 ^ n) * 2 ^ n + (2 ^ n - 1)"
  unfolding word_unat_eq_iff unat_drop_bit_eq by (simp add: drop_bit_eq_div div_eq_range)

lemma private_v4_iff:
  "private_ip (v4_mapped a) \<longleftrightarrow>
     a \<le> ipv4 0 255 255 255 \<or> (ipv4 10 0 0 0 \<le> a \<and> a \<le> ipv4 10 255 255 255)
     \<or> (ipv4 100 64 0 0 \<le> a \<and> a \<le> ipv4 100 127 255 255) \<or> (ipv4 127 0 0 0 \<le> a \<and> a \<le> ipv4 127 255 255 255)
     \<or> (ipv4 169 254 0 0 \<le> a \<and> a \<le> ipv4 169 254 255 255) \<or> (ipv4 172 16 0 0 \<le> a \<and> a \<le> ipv4 172 31 255 255)
     \<or> (ipv4 192 168 0 0 \<le> a \<and> a \<le> ipv4 192 168 255 255) \<or> (ipv4 198 18 0 0 \<le> a \<and> a \<le> ipv4 198 19 255 255)
     \<or> ipv4 240 0 0 0 \<le> a"
proof -
  have "unat a \<le> 4294967295" using unsigned_less [of a, where ?'a = nat] by simp
  then show ?thesis
    unfolding private_ip_def privateRanges4_def contains4_def drop_bit_eq_iff ipv4_def word_le_nat_alt
    by simp
qed

section \<open>What the guards promise\<close>

text \<open>
  What is relied on of package \<^verbatim>\<open>net\<close>: a printed address parses back and is a literal without a zone,
  and splitting undoes joining for the ports that splitting yields.
\<close>

definition net_laws :: "net_env \<Rightarrow> bool" where
  "net_laws E \<longleftrightarrow>
     (\<forall>ip. ne_parseIP E (ne_printIP E ip) = Some ip) \<and> (\<forall>ip. ne_zoned E (ne_printIP E ip) = Some (ip, []))
     \<and> (\<forall>addr h p ip. ne_split E addr = Some (h, p)
          \<longrightarrow> ne_split E (JoinHostPort (ne_printIP E ip) p) = Some (ne_printIP E ip, p))"

lemma IsPrivateIP_print: "net_laws E \<Longrightarrow> IsPrivateIP E (ne_printIP E ip) = private_ip ip"
  by (simp add: net_laws_def IsPrivateIP_def)

lemma dial_literal:
  assumes "net_laws E" "ne_split E addr = Some (h, p)"
  shows "base_dial E n (JoinHostPort (ne_printIP E ip) p) = (if ne_reach E ip then Some ip else None)"
proof -
  have "ne_split E (JoinHostPort (ne_printIP E ip) p) = Some (ne_printIP E ip, p)"
    using assms unfolding net_laws_def by blast
  then show ?thesis using assms(1) by (simp add: base_dial_def LookupIPAddr_def net_laws_def)
qed

lemma upstream_dial_connected:
  assumes "net_laws E" "upstream_dial E n configured opts addr = Inr (Some ip)"
  obtains host port ips where "ne_split E addr = Some (host, port)" "LookupIPAddr E n host = Some ips"
    "ip \<in> fst ` set ips"
    "sd_AllowPrivateConfiguredHost opts \<and> host = configured \<or> (\<forall>a \<in> set ips. \<not> private_ip (fst a))"
proof -
  obtain host port ips where s: "ne_split E addr = Some (host, port)" "LookupIPAddr E n host = Some ips" "ips \<noteq> []"
    and d: "base_dial E (n + 1) (JoinHostPort (ne_printIP E (fst (hd ips))) port) = Some ip"
    and c: "\<not> ((\<not> sd_AllowPrivateConfiguredHost opts \<or> host \<noteq> configured)
      \<and> list_ex (\<lambda>a. IsPrivateIP E (ne_printIP E (fst a))) ips)"
    using assms(2) by (auto simp: upstream_dial_def split: option.splits prod.splits if_splits)
  have "ip = fst (hd ips)" using d dial_literal [OF assms(1) s(1)] by (simp split: if_splits)
  then show ?thesis using that s c by (auto simp: IsPrivateIP_print [OF assms(1)] list_ex_iff)
qed

text \<open>
  The private ranges of IPv4 are what their comments say. An IPv4 address, written as such or mapped
  into IPv6, is private exactly when it lies in one of the nine blocks, the bounds included.
\<close>

theorem private_ipv4_blocks:
  "private_ip (v4_mapped a) \<longleftrightarrow>
     a \<le> ipv4 0 255 255 255 \<or> (ipv4 10 0 0 0 \<le> a \<and> a \<le> ipv4 10 255 255 255)
     \<or> (ipv4 100 64 0 0 \<le> a \<and> a \<le> ipv4 100 127 255 255) \<or> (ipv4 127 0 0 0 \<le> a \<and> a \<le> ipv4 127 255 255 255)
     \<or> (ipv4 169 254 0 0 \<le> a \<and> a \<le> ipv4 169 254 255 255) \<or> (ipv4 172 16 0 0 \<le> a \<and> a \<le> ipv4 172 31 255 255)
     \<or> (ipv4 192 168 0 0 \<le> a \<and> a \<le> ipv4 192 168 255 255) \<or> (ipv4 198 18 0 0 \<le> a \<and> a \<le> ipv4 198 19 255 255)
     \<or> ipv4 240 0 0 0 \<le> a"
  by (rule private_v4_iff)

text \<open>
  C27: A dialer built by \<^verbatim>\<open>NewUpstreamDialContext\<close> without the exception for the configured host never
  connects to a private address, whatever the resolver answers and however its answers change:
  it connects to an address it has checked.
\<close>

theorem pinned_dial_never_private:
  assumes "net_laws E" "\<not> sd_AllowPrivateConfiguredHost opts"
    and "NewUpstreamDialContext E n baseURL opts addr = Inr (Some ip)"
  shows "\<not> private_ip ip"
proof -
  let ?configured = "case ne_parseURL E baseURL of None \<Rightarrow> [] | Some (_, host) \<Rightarrow> host"
  have "upstream_dial E n ?configured opts addr = Inr (Some ip)" using assms(3) by (simp add: NewUpstreamDialContext_def)
  then show ?thesis by (rule upstream_dial_connected [OF assms(1)]) (use assms(2) in auto)
qed

text \<open>
  C28: The dialer for addresses that users supply can be led to a private address. It checks the answer
  to one lookup of the host and then dials the host by name, which is looked up again: a name
  that resolves to a public address first and to a private one at the next query is connected to
  the private one, even when the URL was validated before.
\<close>

theorem rebinding_reaches_private_address:
  assumes "net_laws E" "ne_split E addr = Some (host, port)" "ne_zoned E host = None"
    and "ne_dns E n host = Some [(public, [])]" "\<not> private_ip public"
    and "ne_dns E (n + 1) host = Some [(secret, [])]" "private_ip secret" "ne_reach E secret"
  shows "litellm_validated_dial E n addr = Inr (Some secret)"
proof -
  have "LookupIPAddr E n host = Some [(public, [])]" using assms(3,4) by (simp add: LookupIPAddr_def)
  moreover have "base_dial E (n + 1) addr = Some secret"
    using assms(2,3,6,8) by (simp add: base_dial_def LookupIPAddr_def)
  ultimately show ?thesis
    using assms(2,5) IsPrivateIP_print [OF assms(1)] by (simp add: litellm_validated_dial_def zoned_string_def)
qed

text \<open>
  The unspecified address of IPv6 is not among the ranges, although that of IPv4 is; dialing it reaches
  the local host like dialing \<^verbatim>\<open>0.0.0.0\<close>.
\<close>

lemma unspecified_ipv6_is_public: "\<not> private_ip 0 \<and> private_ip (v4_mapped 0) \<and> private_ip 1"
proof -
  have "To4 0 = None" "To4 1 = None" by (simp_all add: To4_def mask_eq_decr_exp)
  then show ?thesis
    by (simp add: private_ip_def privateRanges4_def privateRanges6_def contains4_def contains6_def)
qed

text \<open>
  A scoped literal is not recognised at dial time: the string that the lookup returns carries the zone,
  and a string with a zone does not parse as an address.
\<close>

lemma zoned_literal_passes:
  assumes "ne_split E addr = Some (host, port)" "ne_zoned E host = Some (ip, zone)" "zone \<noteq> []"
    and "ne_parseIP E (ne_printIP E ip @ ''%'' @ zone) = None" "ne_reach E ip"
  shows "litellm_validated_dial E n addr = Inr (Some ip)"
  using assms by (simp add: litellm_validated_dial_def LookupIPAddr_def base_dial_def zoned_string_def IsPrivateIP_def)

lemma validated_url_public:
  assumes "net_laws E" "ValidateUpstreamURL E n urlStr = Inr ()" "ne_parseURL E urlStr = Some (scheme, host)"
    "ne_parseIP E host = None"
  shows "\<exists>ips. LookupIPAddr E n host = Some ips \<and> ips \<noteq> [] \<and> (\<forall>a \<in> set ips. \<not> private_ip (fst a))"
  using assms by (auto simp: ValidateUpstreamURL_def validateUpstreamURLWithResolver_def IsPrivateIP_print list_ex_iff
      split: if_splits option.splits)

section \<open>Instances\<close>

text \<open>Addresses as strings of their bits.\<close>

definition bits_print :: "ip_addr \<Rightarrow> string" where
  "bits_print ip = map (\<lambda>i. if bit ip i then CHR ''1'' else CHR ''0'') [0..<128]"

definition bits_parse :: "string \<Rightarrow> ip_addr option" where
  "bits_parse s = (if length s = 128 \<and> set s \<subseteq> {CHR ''0'', CHR ''1''}
     then Some (horner_sum of_bool 2 (map (\<lambda>c. c = CHR ''1'') s)) else None)"

definition colon_split :: "string \<Rightarrow> (string \<times> string) option" where
  "colon_split s = (if CHR '':'' \<in> set s
     then Some (takeWhile (\<lambda>c. c \<noteq> CHR '':'') s, tl (dropWhile (\<lambda>c. c \<noteq> CHR '':'') s)) else None)"

text \<open>A resolver that answers with a public address first and with the loopback address afterwards.\<close>

definition rebinding_net :: net_env where
  "rebinding_net = \<lparr>ne_parseIP = bits_parse, ne_printIP = bits_print,
     ne_zoned = (\<lambda>s. map_option (\<lambda>ip. (ip, [])) (bits_parse s)), ne_parseURL = (\<lambda>s. Some (''http'', s)),
     ne_split = colon_split,
     ne_dns = (\<lambda>n _. Some [(if n = 0 then v4_mapped (ipv4 8 8 8 8) else v4_mapped (ipv4 127 0 0 1), [])]),
     ne_reach = (\<lambda>_. True)\<rparr>"

lemma bits_roundtrip: "bits_parse (bits_print ip) = Some ip"
proof -
  have "map (\<lambda>c. c = CHR ''1'') (bits_print ip) = map (bit ip) [0..<128]"
    by (simp add: bits_print_def comp_def if_distrib)
  moreover have "horner_sum of_bool 2 (map (bit ip) [0..<128]) = ip"
    using horner_sum_bit_eq_take_bit [of ip 128] by (simp add: take_bit_word_eq_self)
  moreover have "length (bits_print ip) = 128" "set (bits_print ip) \<subseteq> {CHR ''0'', CHR ''1''}"
    by (auto simp: bits_print_def)
  ultimately show ?thesis by (simp only: bits_parse_def if_True simp_thms)
qed

lemma colon_split_join: "CHR '':'' \<notin> set h \<Longrightarrow> colon_split (JoinHostPort h p) = Some (h, p)"
  by (auto simp: colon_split_def JoinHostPort_def takeWhile_append dropWhile_append)

lemma rebinding_net_laws: "net_laws rebinding_net"
proof -
  have "CHR '':'' \<notin> set (bits_print ip)" for ip by (auto simp: bits_print_def)
  then show ?thesis by (simp add: net_laws_def rebinding_net_def bits_roundtrip colon_split_join)
qed

lemma example_addresses: "\<not> private_ip (v4_mapped (ipv4 8 8 8 8))" "private_ip (v4_mapped (ipv4 127 0 0 1))"
  by (simp_all add: private_v4_iff ipv4_def)

theorem rebinding_reaches_private_address_witness:
  "litellm_validated_dial rebinding_net 0 ''h:1'' = Inr (Some (v4_mapped (ipv4 127 0 0 1)))"
  by (rule rebinding_reaches_private_address [OF rebinding_net_laws, where host = "''h''" and port = "''1''"
        and public = "v4_mapped (ipv4 8 8 8 8)"])
    (simp_all add: rebinding_net_def colon_split_def bits_parse_def example_addresses example_addresses [simplified])

theorem pinned_dial_never_private_witness:
  "NewUpstreamDialContext rebinding_net 0 ''u'' \<lparr>sd_AllowPrivateConfiguredHost = False\<rparr> ''h:1''
     = Inr (Some (v4_mapped (ipv4 8 8 8 8)))
   \<and> \<not> private_ip (v4_mapped (ipv4 8 8 8 8))"
proof -
  have "ne_split rebinding_net ''h:1'' = Some (''h'', ''1'')" by (simp add: rebinding_net_def colon_split_def)
  note split = this
  have look: "LookupIPAddr rebinding_net 0 ''h'' = Some [(v4_mapped (ipv4 8 8 8 8), [])]"
    by (simp add: LookupIPAddr_def rebinding_net_def bits_parse_def)
  from dial_literal [OF rebinding_net_laws split]
  have dial: "base_dial rebinding_net n (JoinHostPort (ne_printIP rebinding_net ip) ''1'') = Some ip" for n ip
    by (simp add: rebinding_net_def)
  have run: "NewUpstreamDialContext rebinding_net 0 ''u'' \<lparr>sd_AllowPrivateConfiguredHost = False\<rparr> ''h:1''
     = Inr (Some (v4_mapped (ipv4 8 8 8 8)))"
    using dial IsPrivateIP_print [OF rebinding_net_laws] example_addresses(1)
    by (simp add: NewUpstreamDialContext_def upstream_dial_def split look)
  from pinned_dial_never_private [OF rebinding_net_laws _ run] run show ?thesis by simp
qed

end
