(* ===== verification/Safe_Path.thy ===== *)
theory Safe_Path
  imports Engram_Prelude
begin

text \<open>
  The guard of file operations (\<^verbatim>\<open>src/internal/mcp/safepath.go\<close>) and the part of package
  \<^verbatim>\<open>path/filepath\<close> it uses, for Unix. The working directory and the resolution of symbolic links in
  the file system are parameters.
\<close>

section \<open>Paths\<close>

abbreviation slash :: string where "slash \<equiv> ''/''"

fun split_slash :: "string \<Rightarrow> string list" where
  "split_slash [] = [[]]"
| "split_slash (c # cs) =
     (if c = CHR ''/'' then [] # split_slash cs
      else case split_slash cs of x # xs \<Rightarrow> (c # x) # xs | [] \<Rightarrow> [[c]])"

text \<open>One element of the path on the stack of those kept, the last one first.\<close>

definition clean_step :: "bool \<Rightarrow> string \<Rightarrow> string list \<Rightarrow> string list" where
  "clean_step rooted x st =
     (if x = [] \<or> x = ''.'' then st
      else if x = ''..''
      then (case st of
              [] \<Rightarrow> if rooted then [] else [''..'']
            | t # ts \<Rightarrow> if t = ''..'' then ''..'' # st else ts)
      else x # st)"

definition IsAbs :: "string \<Rightarrow> bool" where
  "IsAbs p = HasPrefix p slash"

definition Clean :: "string \<Rightarrow> string" where
  "Clean p =
     (if p = [] then ''.''
      else let parts = rev (fold (clean_step (IsAbs p)) (split_slash p) []);
               out = (if IsAbs p then slash else []) @ Join parts slash in
        if out = [] then ''.'' else out)"

definition path_join :: "string \<Rightarrow> string \<Rightarrow> string" where
  "path_join a b = (if a \<noteq> [] then Clean (a @ slash @ b) else if b \<noteq> [] then Clean b else [])"

definition path_Abs :: "string option \<Rightarrow> string \<Rightarrow> string option" where
  "path_Abs cwd p = (if IsAbs p then Some (Clean p) else map_option (\<lambda>d. path_join d p) cwd)"

definition path_Dir :: "string \<Rightarrow> string" where
  "path_Dir p = Clean (rev (dropWhile (\<lambda>c. c \<noteq> CHR ''/'') (rev p)))"

definition path_Base :: "string \<Rightarrow> string" where
  "path_Base p =
     (if p = [] then ''.''
      else let q = rev (dropWhile (\<lambda>c. c = CHR ''/'') (rev p));
               l = rev (takeWhile (\<lambda>c. c \<noteq> CHR ''/'') (rev q)) in
        if l = [] then slash else l)"

section \<open>The guard\<close>

datatype path_error = NoBaseDir | BaseUnresolved | TargetUnresolved | EscapesBase

definition inside :: "string \<Rightarrow> string \<Rightarrow> bool" where
  "inside base p \<longleftrightarrow> p = base \<or> HasPrefix p (base @ slash)"

definition SafePath ::
    "string option \<Rightarrow> (string \<Rightarrow> string option) \<Rightarrow> string \<Rightarrow> string \<Rightarrow> path_error + string" where
  "SafePath cwd evalSymlinks baseDir target =
     (if baseDir = [] then Inl NoBaseDir
      else case path_Abs cwd baseDir of
        None \<Rightarrow> Inl BaseUnresolved
      | Some absBase \<Rightarrow>
      case evalSymlinks absBase of
        None \<Rightarrow> Inl BaseUnresolved
      | Some realBase \<Rightarrow>
      case (if IsAbs target then path_Abs cwd target else Some (path_join absBase target)) of
        None \<Rightarrow> Inl TargetUnresolved
      | Some absTarget \<Rightarrow>
      if \<not> inside absBase absTarget then Inl EscapesBase
      else case evalSymlinks absTarget of
        Some realTarget \<Rightarrow> if inside realBase realTarget then Inr realTarget else Inl EscapesBase
      | None \<Rightarrow>
      case evalSymlinks (path_Dir absTarget) of
        Some parentReal \<Rightarrow>
          (let candidate = path_join parentReal (path_Base absTarget) in
           if inside realBase candidate then Inr candidate else Inl EscapesBase)
      | None \<Rightarrow> Inr absTarget)"

section \<open>The elements of a path\<close>

definition elements :: "string \<Rightarrow> string list" where
  "elements p = filter (\<lambda>x. x \<noteq> []) (split_slash p)"

lemma split_slash_ne [simp]: "split_slash p \<noteq> []"
  by (cases p) (auto split: list.splits)

lemma split_slash_append: "split_slash (a @ slash @ b) = split_slash a @ split_slash b"
proof (induction a)
  case (Cons c a)
  then show ?case by (cases "split_slash a") auto
qed simp

lemma elements_append: "elements (a @ slash @ b) = elements a @ elements b"
  by (simp only: elements_def split_slash_append filter_append)

lemma no_slash_split: "x \<in> set (split_slash p) \<Longrightarrow> CHR ''/'' \<notin> set x"
proof (induction p arbitrary: x)
  case (Cons c p)
  then show ?case by (cases "split_slash p") (auto split: if_splits)
qed simp

lemma split_slash_id: "CHR ''/'' \<notin> set x \<Longrightarrow> split_slash x = [x]"
  by (induction x) auto

text \<open>Containment of strings is containment of elements: no sibling shares the prefix.\<close>

lemma inside_elements: "inside base p \<Longrightarrow> prefix (elements base) (elements p)"
  by (auto simp: inside_def prefix_def elements_append [simplified])

lemma elements_Join:
  assumes "\<And>x. x \<in> set xs \<Longrightarrow> x \<noteq> [] \<and> CHR ''/'' \<notin> set x"
  shows "elements (Join xs slash) = xs"
  using assms
proof (induction xs rule: induct_list012)
  case (2 x)
  then show ?case by (simp add: elements_def split_slash_id)
next
  case (3 x y xs)
  have "elements x = [x]" using 3(3) [of x] by (simp add: elements_def split_slash_id)
  then show ?case using 3(2) 3(3) elements_append [of x "Join (y # xs) slash"] by simp
qed (simp add: elements_def)

definition plain_elements :: "string list \<Rightarrow> bool" where
  "plain_elements xs \<longleftrightarrow> (\<forall>x \<in> set xs. x \<noteq> [] \<and> CHR ''/'' \<notin> set x \<and> x \<noteq> ''.'' \<and> x \<noteq> ''..'')"

lemma clean_step_plain:
  "plain_elements st \<Longrightarrow> CHR ''/'' \<notin> set x \<Longrightarrow> plain_elements (clean_step True x st)"
  by (cases st) (simp_all add: clean_step_def plain_elements_def)

lemma clean_fold_plain:
  "plain_elements st \<Longrightarrow> (\<And>x. x \<in> set xs \<Longrightarrow> CHR ''/'' \<notin> set x) \<Longrightarrow> plain_elements (fold (clean_step True) xs st)"
  by (induction xs arbitrary: st) (simp_all add: clean_step_plain)

text \<open>A cleaned absolute path is absolute and has no \<^verbatim>\<open>.\<close> or \<^verbatim>\<open>..\<close>.\<close>

lemma Clean_abs:
  assumes "IsAbs p"
  shows "IsAbs (Clean p)" "plain_elements (elements (Clean p))"
    "elements (Clean p) = rev (fold (clean_step True) (split_slash p) [])"
proof -
  define xs where "xs = rev (fold (clean_step True) (split_slash p) [])"
  have p: "p \<noteq> []" using assms by (auto simp: IsAbs_def)
  have c: "Clean p = slash @ Join xs slash" using assms p by (simp add: Clean_def xs_def Let_def)
  have "plain_elements (fold (clean_step True) (split_slash p) [])"
    by (rule clean_fold_plain) (simp add: plain_elements_def, rule no_slash_split)
  then have xs: "plain_elements xs" by (simp add: xs_def plain_elements_def)
  have e: "elements (Clean p) = xs"
    using elements_append [of "[]" "Join xs slash"] elements_Join [of xs] xs
    by (simp add: c plain_elements_def elements_def)
  show "IsAbs (Clean p)" by (simp add: c IsAbs_def)
  show "plain_elements (elements (Clean p))" using xs e by simp
  show "elements (Clean p) = rev (fold (clean_step True) (split_slash p) [])" using e by (simp add: xs_def)
qed

lemma path_join_abs:
  assumes "IsAbs a"
  shows "IsAbs (path_join a b)" "plain_elements (elements (path_join a b))"
proof -
  have "IsAbs (a @ slash @ b)" "a \<noteq> []" using assms by (auto simp: IsAbs_def prefix_def)
  then show "IsAbs (path_join a b)" "plain_elements (elements (path_join a b))"
    by (simp_all add: path_join_def Clean_abs(1,2))
qed

lemma path_Abs_abs:
  assumes "path_Abs cwd p = Some q" "\<And>d. cwd = Some d \<Longrightarrow> IsAbs d"
  shows "IsAbs q" "plain_elements (elements q)"
  using assms by (auto simp: path_Abs_def Clean_abs(1,2) path_join_abs split: if_splits)

section \<open>What the guard promises\<close>

text \<open>
  C29: What \<^verbatim>\<open>SafePath\<close> lets through. The path it has checked is free of \<^verbatim>\<open>..\<close> and lies, element by
  element, below the base directory, so that neither a traversal nor a sibling directory with the
  base as prefix of its name passes. When the path or its parent exists, the result is the path
  with its links resolved and lies below the resolved base directory.
\<close>

theorem safe_path_confined:
  assumes "SafePath cwd evalSymlinks baseDir target = Inr r" "\<And>d. cwd = Some d \<Longrightarrow> IsAbs d"
  shows "\<exists>absBase realBase absTarget. path_Abs cwd baseDir = Some absBase \<and> evalSymlinks absBase = Some realBase
    \<and> ''..'' \<notin> set (elements absTarget) \<and> prefix (elements absBase) (elements absTarget)
    \<and> (if evalSymlinks absTarget = None \<and> evalSymlinks (path_Dir absTarget) = None then r = absTarget
       else prefix (elements realBase) (elements r)
         \<and> (case evalSymlinks absTarget of Some t \<Rightarrow> r = t
            | None \<Rightarrow> r = path_join (the (evalSymlinks (path_Dir absTarget))) (path_Base absTarget)))"
proof -
  obtain absBase realBase absTarget where
    b: "path_Abs cwd baseDir = Some absBase" "evalSymlinks absBase = Some realBase"
    and t: "(if IsAbs target then path_Abs cwd target else Some (path_join absBase target)) = Some absTarget"
    and i: "inside absBase absTarget"
    and r: "case evalSymlinks absTarget of
        Some realTarget \<Rightarrow> inside realBase realTarget \<and> r = realTarget
      | None \<Rightarrow> (case evalSymlinks (path_Dir absTarget) of
          Some parentReal \<Rightarrow> inside realBase (path_join parentReal (path_Base absTarget))
            \<and> r = path_join parentReal (path_Base absTarget)
        | None \<Rightarrow> r = absTarget)"
    using assms(1) by (auto simp: SafePath_def Let_def split: if_splits option.splits)
  have "IsAbs absBase" by (rule path_Abs_abs(1) [OF b(1) assms(2)])
  then have "plain_elements (elements absTarget)"
    using t path_Abs_abs(2) [OF _ assms(2)] path_join_abs(2) by (auto split: if_splits)
  then have "''..'' \<notin> set (elements absTarget)" unfolding plain_elements_def by blast
  then show ?thesis
    using b r inside_elements [OF i] inside_elements [of realBase r]
    by (intro exI [of _ absBase] exI [of _ realBase] exI [of _ absTarget]) (auto split: option.splits)
qed

text \<open>
  The guard looks at links only in the base, the path and its parent. When the last two do not exist, a
  path that is lexically inside is accepted as it is, whatever the directories further up are linked to.
\<close>

lemma unresolved_path_accepted:
  assumes "baseDir \<noteq> []" "path_Abs cwd baseDir = Some absBase" "evalSymlinks absBase = Some realBase" "\<not> IsAbs target"
    and "inside absBase (path_join absBase target)" "evalSymlinks (path_join absBase target) = None"
    "evalSymlinks (path_Dir (path_join absBase target)) = None"
  shows "SafePath cwd evalSymlinks baseDir target = Inr (path_join absBase target)"
  using assms by (simp add: SafePath_def)

text \<open>A data directory with a link to a directory outside it.\<close>

definition linked_files :: "string \<Rightarrow> string option" where
  "linked_files p =
     (if p = ''/d'' then Some ''/d'' else if p = ''/d/l'' then Some ''/e'' else if p = ''/e'' then Some ''/e''
      else None)"

text \<open>
  So with two elements missing below a link out of the base the path is accepted, and with one
  missing it is refused.
\<close>

lemma missing_parent_hides_link:
  "SafePath None linked_files ''/d'' ''l/x/y'' = Inr ''/d/l/x/y''
   \<and> linked_files ''/d/l'' = Some ''/e'' \<and> \<not> inside ''/d'' ''/e''
   \<and> SafePath None linked_files ''/d'' ''l/x'' = Inl EscapesBase"
proof -
  have "path_join ''/d'' ''l/x/y'' = ''/d/l/x/y''" by code_simp
  moreover have "SafePath None linked_files ''/d'' ''l/x/y'' = Inr (path_join ''/d'' ''l/x/y'')"
    by (rule unresolved_path_accepted) code_simp+
  moreover have "linked_files ''/d/l'' = Some ''/e'' \<and> \<not> inside ''/d'' ''/e''
      \<and> SafePath None linked_files ''/d'' ''l/x'' = Inl EscapesBase" by code_simp
  ultimately show ?thesis by simp
qed

text \<open>The base directory itself is always accepted; the root as base refuses everything below it.\<close>

lemma root_base_refuses_all: "\<not> inside slash ''/x'' \<and> inside slash slash"
  by (simp add: inside_def)

theorem safe_path_confined_witness:
  "SafePath None linked_files ''/d'' ''a/../f'' = Inr ''/d/f''
   \<and> (\<exists>absBase realBase absTarget. path_Abs None ''/d'' = Some absBase \<and> linked_files absBase = Some realBase
    \<and> ''..'' \<notin> set (elements absTarget) \<and> prefix (elements absBase) (elements absTarget)
    \<and> (if linked_files absTarget = None \<and> linked_files (path_Dir absTarget) = None then ''/d/f'' = absTarget
       else prefix (elements realBase) (elements ''/d/f'')
         \<and> (case linked_files absTarget of Some t \<Rightarrow> ''/d/f'' = t
            | None \<Rightarrow> ''/d/f'' = path_join (the (linked_files (path_Dir absTarget))) (path_Base absTarget))))"
proof -
  have "SafePath None linked_files ''/d'' ''a/../f'' = Inr ''/d/f''" by code_simp
  from safe_path_confined [OF this] this show ?thesis by simp
qed

end
