(* ===== verification/Drift_Audit.thy ===== *)
theory Drift_Audit
  imports Memory_Tables
begin

text \<open>
  The drift audit (\<^verbatim>\<open>src/internal/audit/auditor.go\<close>, \<^verbatim>\<open>rbo.go\<close>): registered queries are recalled again
  and again, and each result list is compared with the one before it. The recall, the clock, fresh
  ids, failures of the database and the order of rows with equal time stamps are parameters; the
  advisory lock is the outcome of the attempt to take it. The columns \<^verbatim>\<open>scores\<close> and
  \<^verbatim>\<open>embedding_model_version\<close>, which stay NULL, are left out.
\<close>

section \<open>Comparing ranked lists\<close>

text \<open>The loop of \<^verbatim>\<open>RBO\<close> over the common length: the two growing sets and the sum so far.\<close>

fun rbo_loop ::
    "float64 \<Rightarrow> nat \<Rightarrow> string list \<Rightarrow> string list \<Rightarrow> float64 \<Rightarrow> string list \<Rightarrow> string list \<Rightarrow> float64" where
  "rbo_loop p d aSet bSet acc (x # xs) (y # ys) =
     (let aSet' = List.insert x aSet; bSet' = List.insert y bSet;
          xi = length (filter (\<lambda>i. i \<in> set bSet') aSet') in
      rbo_loop p (d + 1) aSet' bSet' (acc + p ^ (d - 1) * of_nat xi / of_nat d) xs ys)"
| "rbo_loop p d aSet bSet acc _ _ = acc"

definition RBO :: "string list \<Rightarrow> string list \<Rightarrow> float64 \<Rightarrow> float64" where
  "RBO a b p = (if min (length a) (length b) = 0 then 0 else (1 - p) * rbo_loop p 1 [] [] 0 a b)"

definition JaccardTopK :: "string list \<Rightarrow> string list \<Rightarrow> nat \<Rightarrow> float64" where
  "JaccardTopK a b k0 =
     (let k = min (min k0 (length a)) (length b);
          inter = length (filter (\<lambda>v. v \<in> set (take k a)) (take k b));
          uni = 2 * k - inter in
      if k = 0 \<or> uni = 0 then 0 else of_nat inter / of_nat uni)"

definition setDiff :: "string list \<Rightarrow> string list \<Rightarrow> string list" where
  "setDiff a b = filter (\<lambda>v. v \<notin> set b) a"

section \<open>Queries and snapshots\<close>

record CanonicalQuery =
  cq_ID :: string
  cq_Project :: string
  cq_Query :: string
  cq_Description :: string
  cq_Active :: bool
  cq_AlertThreshold :: "float64 option"
  cq_CreatedAt :: gotime

record Snapshot =
  sn_ID :: string
  sn_QueryID :: string
  sn_Project :: string
  sn_MemoryIDs :: "string list"
  sn_EmbeddingModel :: string
  sn_RunAt :: gotime
  sn_RBOVsPrev :: "float64 option"
  sn_JaccardAt5 :: "float64 option"
  sn_JaccardAt10 :: "float64 option"
  sn_JaccardFull :: "float64 option"
  sn_Additions :: "string list"
  sn_Removals :: "string list"

record SnapshotSummary =
  sy_QueryID :: string
  sy_QueryText :: string
  sy_Project :: string
  sy_SnapshotID :: string
  sy_RunAt :: gotime
  sy_RBOVsPrev :: "float64 option"
  sy_JaccardAt5 :: "float64 option"
  sy_IsBaseline :: bool

text \<open>The two tables, and the alerts raised so far: the ids of the queries.\<close>

record audit_db =
  au_queries :: "CanonicalQuery list"
  au_snapshots :: "Snapshot list"
  au_alerts :: "string list"

text \<open>
  A worker's calls: \<open>aw_recall project query k\<close> the ids recalled, or an error; \<open>aw_call op id\<close> the
  environment of a statement, with its clock and fresh id.
\<close>

record AuditWorker =
  aw_recall :: "string \<Rightarrow> string \<Rightarrow> nat \<Rightarrow> string list option"
  aw_embedModel :: string
  aw_call :: "string \<Rightarrow> string \<Rightarrow> call_env"
  aw_tie :: "Snapshot list \<Rightarrow> Snapshot list"
  aw_locked :: bool

definition rboP :: float64 where "rboP = 9 / 10"

definition audit_topK :: nat where "audit_topK = 20"

definition newest_first :: "AuditWorker \<Rightarrow> string \<Rightarrow> audit_db \<Rightarrow> Snapshot list" where
  "newest_first W queryID db =
     sort_stable (\<lambda>s t. sn_RunAt t < sn_RunAt s) (aw_tie W (filter (\<lambda>s. sn_QueryID s = queryID) (au_snapshots db)))"

definition latestSnapshot :: "AuditWorker \<Rightarrow> string \<Rightarrow> audit_db \<Rightarrow> db_error + Snapshot option" where
  "latestSnapshot W queryID db =
     (if e_fault (aw_call W ''latest'' queryID) ''query'' then Inl DbFailed
      else Inr (case newest_first W queryID db of [] \<Rightarrow> None | s # _ \<Rightarrow> Some s))"

definition GetSnapshots :: "AuditWorker \<Rightarrow> string \<Rightarrow> int \<Rightarrow> audit_db \<Rightarrow> db_error + Snapshot list" where
  "GetSnapshots W queryID limit db =
     (let n = (if limit \<le> 0 then 10 else limit) in
      if e_fault (aw_call W ''snapshots'' queryID) ''query'' then Inl DbFailed
      else Inr (take (nat n) (newest_first W queryID db)))"

definition insertSnapshot :: "AuditWorker \<Rightarrow> Snapshot \<Rightarrow> audit_db \<Rightarrow> db_error + audit_db" where
  "insertSnapshot W s db =
     (if e_fault (aw_call W ''insert'' (sn_QueryID s)) ''exec'' then Inl DbFailed
      else if sn_ID s \<in> sn_ID ` set (au_snapshots db) then Inl (DuplicateKey (sn_ID s))
      else if sn_QueryID s \<notin> cq_ID ` set (au_queries db) then Inl (MissingReference (sn_QueryID s))
      else Inr (db\<lparr>au_snapshots := au_snapshots db @ [s]\<rparr>))"

definition compare_with :: "Snapshot \<Rightarrow> Snapshot \<Rightarrow> Snapshot" where
  "compare_with prev s =
     (let ids = sn_MemoryIDs s; old = sn_MemoryIDs prev in
      s\<lparr>sn_RBOVsPrev := Some (RBO ids old rboP), sn_JaccardAt5 := Some (JaccardTopK ids old 5),
        sn_JaccardAt10 := Some (JaccardTopK ids old 10), sn_JaccardFull := Some (JaccardTopK ids old (length ids)),
        sn_Additions := setDiff ids old, sn_Removals := setDiff old ids\<rparr>)"

definition alerts :: "CanonicalQuery \<Rightarrow> Snapshot \<Rightarrow> bool" where
  "alerts q s =
     (case (cq_AlertThreshold q, sn_RBOVsPrev s) of (Some t, Some r) \<Rightarrow> r < t | _ \<Rightarrow> False)"

definition runQuerySnapshot :: "AuditWorker \<Rightarrow> CanonicalQuery \<Rightarrow> audit_db \<Rightarrow> audit_db \<times> (db_error + Snapshot)" where
  "runQuerySnapshot W q db =
     (case latestSnapshot W (cq_ID q) db of
        Inl e \<Rightarrow> (db, Inl e)
      | Inr prev \<Rightarrow>
          (case aw_recall W (cq_Project q) (cq_Query q) audit_topK of
             None \<Rightarrow> (db, Inl DbFailed)
           | Some ids \<Rightarrow>
               (let env = aw_call W ''snapshot'' (cq_ID q);
                    s0 = \<lparr>sn_ID = e_newid env, sn_QueryID = cq_ID q, sn_Project = cq_Project q, sn_MemoryIDs = ids,
                      sn_EmbeddingModel = aw_embedModel W, sn_RunAt = e_now env, sn_RBOVsPrev = None,
                      sn_JaccardAt5 = None, sn_JaccardAt10 = None, sn_JaccardFull = None,
                      sn_Additions = [], sn_Removals = []\<rparr>;
                    s = (case prev of None \<Rightarrow> s0 | Some p \<Rightarrow> compare_with p s0);
                    db1 = (if alerts q s then db\<lparr>au_alerts := au_alerts db @ [cq_ID q]\<rparr> else db) in
                case insertSnapshot W s db1 of Inl e \<Rightarrow> (db1, Inl e) | Inr db2 \<Rightarrow> (db2, Inr s))))"

definition snapshotToSummary :: "CanonicalQuery \<Rightarrow> Snapshot \<Rightarrow> SnapshotSummary" where
  "snapshotToSummary q s =
     \<lparr>sy_QueryID = cq_ID q, sy_QueryText = cq_Query q, sy_Project = cq_Project q, sy_SnapshotID = sn_ID s,
      sy_RunAt = sn_RunAt s, sy_RBOVsPrev = sn_RBOVsPrev s, sy_JaccardAt5 = sn_JaccardAt5 s,
      sy_IsBaseline = (sn_RBOVsPrev s = None)\<rparr>"

text \<open>The loop over the queries: a query that fails is skipped.\<close>

fun audit_queries :: "AuditWorker \<Rightarrow> CanonicalQuery list \<Rightarrow> audit_db \<Rightarrow> audit_db \<times> SnapshotSummary list" where
  "audit_queries W [] db = (db, [])"
| "audit_queries W (q # qs) db =
     (case runQuerySnapshot W q db of
        (db', Inl _) \<Rightarrow> audit_queries W qs db'
      | (db', Inr s) \<Rightarrow> (let (db'', ss) = audit_queries W qs db' in (db'', snapshotToSummary q s # ss)))"

section \<open>Operations\<close>

definition by_created :: "CanonicalQuery list \<Rightarrow> CanonicalQuery list" where
  "by_created qs = sort_stable (\<lambda>a b. cq_CreatedAt a < cq_CreatedAt b) qs"

definition by_project :: "CanonicalQuery list \<Rightarrow> CanonicalQuery list" where
  "by_project qs =
     sort_stable (\<lambda>a b. cq_Project a < cq_Project b \<or> cq_Project a = cq_Project b \<and> cq_CreatedAt a < cq_CreatedAt b) qs"

definition loadQueriesByProject :: "AuditWorker \<Rightarrow> string \<Rightarrow> audit_db \<Rightarrow> db_error + CanonicalQuery list" where
  "loadQueriesByProject W project db =
     (if e_fault (aw_call W ''queries'' project) ''query'' then Inl DbFailed
      else Inr (by_created (filter (\<lambda>q. cq_Project q = project) (au_queries db))))"

definition loadActiveQueries :: "AuditWorker \<Rightarrow> string \<Rightarrow> audit_db \<Rightarrow> db_error + CanonicalQuery list" where
  "loadActiveQueries W project db =
     (if project = []
      then (if e_fault (aw_call W ''active'' []) ''query'' then Inl DbFailed
            else Inr (by_project (filter cq_Active (au_queries db))))
      else loadQueriesByProject W project db)"

definition loadAllQueries :: "AuditWorker \<Rightarrow> audit_db \<Rightarrow> db_error + CanonicalQuery list" where
  "loadAllQueries W db =
     (if e_fault (aw_call W ''all'' []) ''query'' then Inl DbFailed else Inr (by_project (au_queries db)))"

definition ListQueries :: "AuditWorker \<Rightarrow> string \<Rightarrow> audit_db \<Rightarrow> db_error + CanonicalQuery list" where
  "ListQueries W project db = (if project = [] then loadAllQueries W db else loadQueriesByProject W project db)"

definition RegisterQuery ::
    "AuditWorker \<Rightarrow> string \<Rightarrow> string \<Rightarrow> string \<Rightarrow> audit_db \<Rightarrow> audit_db \<times> (db_error + string)" where
  "RegisterQuery W project query description db =
     (let env = aw_call W ''register'' query; i = e_newid env in
      if e_fault env ''exec'' then (db, Inl DbFailed)
      else if i \<in> cq_ID ` set (au_queries db) then (db, Inl (DuplicateKey i))
      else (db\<lparr>au_queries := au_queries db @ [\<lparr>cq_ID = i, cq_Project = project, cq_Query = query,
              cq_Description = description, cq_Active = True, cq_AlertThreshold = None, cq_CreatedAt = e_now env\<rparr>]\<rparr>, Inr i))"

definition DeactivateQuery :: "AuditWorker \<Rightarrow> string \<Rightarrow> audit_db \<Rightarrow> audit_db \<times> (db_error + unit)" where
  "DeactivateQuery W queryID db =
     (if e_fault (aw_call W ''deactivate'' queryID) ''exec'' then (db, Inl DbFailed)
      else if queryID \<notin> cq_ID ` set (au_queries db) then (db, Inl (NoSuchEvent queryID))
      else (db\<lparr>au_queries := map (\<lambda>q. if cq_ID q = queryID then q\<lparr>cq_Active := False\<rparr> else q) (au_queries db)\<rparr>, Inr ()))"

definition audit_RunPass :: "AuditWorker \<Rightarrow> audit_db \<Rightarrow> audit_db \<times> (db_error + SnapshotSummary list)" where
  "audit_RunPass W db =
     (let env = aw_call W ''lock'' [] in
      if e_fault env ''acquire'' \<or> e_fault env ''query'' then (db, Inl DbFailed)
      else if \<not> aw_locked W then (db, Inr [])
      else case loadActiveQueries W [] db of
        Inl e \<Rightarrow> (db, Inl e)
      | Inr qs \<Rightarrow> (let (db', ss) = audit_queries W qs db in (db', Inr ss)))"

definition RunProjectAudit :: "AuditWorker \<Rightarrow> string \<Rightarrow> audit_db \<Rightarrow> audit_db \<times> (db_error + SnapshotSummary list)" where
  "RunProjectAudit W project db =
     (case loadQueriesByProject W project db of
        Inl e \<Rightarrow> (db, Inl e)
      | Inr qs \<Rightarrow> (let (db', ss) = audit_queries W qs db in (db', Inr ss)))"

section \<open>Rank-biased overlap\<close>

text \<open>The loop adds up the weighted overlaps of the prefixes.\<close>

lemma rbo_loop_sum:
  assumes "0 < d" "distinct aSet"
  shows "rbo_loop p d aSet bSet acc xs ys
     = acc + (\<Sum>j < min (length xs) (length ys). p ^ (d - 1 + j)
         * of_nat (card ((set aSet \<union> set (take (Suc j) xs)) \<inter> (set bSet \<union> set (take (Suc j) ys)))) / of_nat (d + j))"
  using assms
proof (induction p d aSet bSet acc xs ys rule: rbo_loop.induct)
  case (1 p d aSet bSet acc x xs y ys)
  let ?A = "List.insert x aSet" and ?B = "List.insert y bSet"
  let ?w = "\<lambda>j. p ^ (d - 1 + j)
     * of_nat (card ((set aSet \<union> set (take (Suc j) (x # xs))) \<inter> (set bSet \<union> set (take (Suc j) (y # ys))))) / of_nat (d + j)"
  have xi: "length (filter (\<lambda>i. i \<in> set ?B) ?A) = card (set ?A \<inter> set ?B)"
    using 1(3) by (subst distinct_card [symmetric]) (auto simp: Int_def)
  have step: "rbo_loop p d aSet bSet acc (x # xs) (y # ys) = rbo_loop p (d + 1) ?A ?B (acc + ?w 0) xs ys"
    using xi by (simp add: Let_def)
  have shift: "p ^ (d + 1 - 1 + j) * of_nat (card ((set ?A \<union> set (take (Suc j) xs)) \<inter> (set ?B \<union> set (take (Suc j) ys))))
      / of_nat (d + 1 + j) = ?w (Suc j)" for j
    using 1(2) by (simp add: Un_insert_left insert_commute)
  have "rbo_loop p (d + 1) ?A ?B (acc + ?w 0) xs ys = acc + ?w 0 + (\<Sum>j < min (length xs) (length ys). ?w (Suc j))"
    using 1(1) [OF refl refl refl] 1(3) xi unfolding shift [symmetric] by (simp add: distinct_insert)
  also have "\<dots> = acc + (\<Sum>j < Suc (min (length xs) (length ys)). ?w j)"
    by (simp only: sum.lessThan_Suc_shift add.assoc)
  finally show ?case using step by simp
qed simp_all

lemma RBO_formula:
  "RBO a b p = (1 - p) * (\<Sum>j < min (length a) (length b).
     p ^ j * of_nat (card (set (take (Suc j) a) \<inter> set (take (Suc j) b))) / of_nat (Suc j))"
proof (cases "min (length a) (length b) = 0")
  case False
  then show ?thesis unfolding RBO_def by (subst rbo_loop_sum) simp_all
qed (simp add: RBO_def)

lemma geometric: "(1 - p) * (\<Sum>j < k. p ^ j) = 1 - (p :: rat) ^ k"
  by (simp add: one_diff_power_eq)

lemma rbo_range:
  assumes "0 \<le> p" "p \<le> 1"
  shows "0 \<le> RBO a b p" "RBO a b p \<le> 1 - p ^ min (length a) (length b)"
proof -
  let ?o = "\<lambda>j. rat_of_nat (card (set (take (Suc j) a) \<inter> set (take (Suc j) b))) / of_nat (Suc j)"
  have o: "0 \<le> ?o j" "?o j \<le> 1" for j
  proof -
    have "card (set (take (Suc j) a) \<inter> set (take (Suc j) b)) \<le> card (set (take (Suc j) a))" by (intro card_mono) auto
    also have "\<dots> \<le> Suc j" using card_length [of "take (Suc j) a"] by simp
    finally show "?o j \<le> 1" by (simp add: divide_le_eq)
  qed simp
  have f: "RBO a b p = (1 - p) * (\<Sum>j < min (length a) (length b). p ^ j * ?o j)" by (simp add: RBO_formula)
  show "0 \<le> RBO a b p" unfolding f using assms o by (intro mult_nonneg_nonneg sum_nonneg) auto
  have "(\<Sum>j < min (length a) (length b). p ^ j * ?o j) \<le> (\<Sum>j < min (length a) (length b). p ^ j)"
    by (intro sum_mono mult_left_le o zero_le_power assms)
  then have "RBO a b p \<le> (1 - p) * (\<Sum>j < min (length a) (length b). p ^ j)"
    unfolding f using assms by (intro mult_left_mono) auto
  then show "RBO a b p \<le> 1 - p ^ min (length a) (length b)" by (simp only: geometric)
qed

lemma rbo_identical:
  assumes "distinct a"
  shows "RBO a a p = 1 - p ^ length a"
proof -
  have "card (set (take (Suc j) a)) = Suc j" if "j < length a" for j
    using that assms by (simp add: distinct_card min_def)
  then have "(\<Sum>j < length a. p ^ j * of_nat (card (set (take (Suc j) a) \<inter> set (take (Suc j) a))) / of_nat (Suc j))
      = (\<Sum>j < length a. p ^ j)"
    by (intro sum.cong) auto
  then show ?thesis by (simp only: RBO_formula min.idem geometric)
qed

section \<open>Snapshots\<close>

definition quiet_audit :: "AuditWorker \<Rightarrow> bool" where
  "quiet_audit W \<longleftrightarrow> (\<forall>op i l. \<not> e_fault (aw_call W op i) l)"

lemma snapshot_diff:
  "set (sn_MemoryIDs s) = (set (sn_MemoryIDs p) - set (sn_Removals (compare_with p s))) \<union> set (sn_Additions (compare_with p s))"
  by (auto simp: compare_with_def Let_def setDiff_def)

lemma audit_alert:
  assumes "quiet_audit W" "newest_first W (cq_ID q) db = prev # rest" "aw_recall W (cq_Project q) (cq_Query q) audit_topK = Some ids"
    and "cq_AlertThreshold q = Some t" "RBO ids (sn_MemoryIDs prev) rboP < t"
  shows "au_alerts (fst (runQuerySnapshot W q db)) = au_alerts db @ [cq_ID q]"
  using assms by (auto simp: runQuerySnapshot_def latestSnapshot_def quiet_audit_def Let_def compare_with_def alerts_def
      insertSnapshot_def)

text \<open>The ids of the snapshots to come are fresh.\<close>

definition fresh_audit :: "AuditWorker \<Rightarrow> CanonicalQuery list \<Rightarrow> audit_db \<Rightarrow> bool" where
  "fresh_audit W qs db \<longleftrightarrow>
     distinct (map (\<lambda>q. e_newid (aw_call W ''snapshot'' (cq_ID q))) qs)
     \<and> (\<forall>q \<in> set qs. e_newid (aw_call W ''snapshot'' (cq_ID q)) \<notin> sn_ID ` set (au_snapshots db) \<and> q \<in> set (au_queries db))"

lemma runQuerySnapshot_ok:
  assumes "quiet_audit W" "aw_recall W (cq_Project q) (cq_Query q) audit_topK = Some ids" "q \<in> set (au_queries db)"
    and "e_newid (aw_call W ''snapshot'' (cq_ID q)) \<notin> sn_ID ` set (au_snapshots db)"
  obtains db' s where "runQuerySnapshot W q db = (db', Inr s)" "au_queries db' = au_queries db"
    "au_snapshots db' = au_snapshots db @ [s]" "sn_ID s = e_newid (aw_call W ''snapshot'' (cq_ID q))"
    "sn_QueryID s = cq_ID q" "sn_MemoryIDs s = ids"
proof -
  obtain prev where prev: "latestSnapshot W (cq_ID q) db = Inr prev"
    using assms(1) by (simp add: latestSnapshot_def quiet_audit_def)
  let ?r = "runQuerySnapshot W q db"
  have "\<exists>s. snd ?r = Inr s \<and> au_queries (fst ?r) = au_queries db \<and> au_snapshots (fst ?r) = au_snapshots db @ [s]
      \<and> sn_ID s = e_newid (aw_call W ''snapshot'' (cq_ID q)) \<and> sn_QueryID s = cq_ID q \<and> sn_MemoryIDs s = ids"
    using assms prev by (cases prev)
      (simp_all add: runQuerySnapshot_def Let_def insertSnapshot_def quiet_audit_def compare_with_def)
  then show ?thesis using that by (metis prod.collapse)
qed

lemma audit_queries_all:
  assumes "quiet_audit W" "\<And>p x. aw_recall W p x audit_topK \<noteq> None" "fresh_audit W qs db"
  shows "map sy_QueryID (snd (audit_queries W qs db)) = map cq_ID qs
    \<and> map sn_QueryID (au_snapshots (fst (audit_queries W qs db))) = map sn_QueryID (au_snapshots db) @ map cq_ID qs"
  using assms(3)
proof (induction qs arbitrary: db)
  case (Cons q qs)
  obtain ids where "aw_recall W (cq_Project q) (cq_Query q) audit_topK = Some ids" using assms(2) by blast
  then obtain db' s where s: "runQuerySnapshot W q db = (db', Inr s)" "au_queries db' = au_queries db"
    "au_snapshots db' = au_snapshots db @ [s]" "sn_ID s = e_newid (aw_call W ''snapshot'' (cq_ID q))" "sn_QueryID s = cq_ID q"
    using Cons.prems by (auto simp: fresh_audit_def intro: runQuerySnapshot_ok [OF assms(1)])
  have "fresh_audit W qs db'" using Cons.prems s(2-4) by (auto simp: fresh_audit_def image_iff)
  from Cons.IH [OF this] s show ?case
    by (cases "audit_queries W qs db'") (simp add: snapshotToSummary_def)
qed simp

section \<open>Properties\<close>

text \<open>
  C31: The drift measure. \<^verbatim>\<open>RBO\<close> is the weighted sum of the overlaps of all common prefixes, it is never
  negative, and on lists of common length \<open>k\<close> it is at most \<open>1 - p ^ k\<close>; two equal lists without
  repetitions reach that bound and no more.
\<close>

theorem rbo_bounds:
  assumes "0 \<le> p" "p \<le> 1"
  shows "RBO a b p = (1 - p) * (\<Sum>j < min (length a) (length b).
      p ^ j * of_nat (card (set (take (Suc j) a) \<inter> set (take (Suc j) b))) / of_nat (Suc j))
    \<and> 0 \<le> RBO a b p \<and> RBO a b p \<le> 1 - p ^ min (length a) (length b)
    \<and> (distinct a \<longrightarrow> RBO a a p = 1 - p ^ length a)"
  using RBO_formula [of a b p] rbo_range [OF assms, of a b] rbo_identical [of a p] by simp

text \<open>
  An unchanged ranking raises a drift alert. When the recall returns the very list of the last
  snapshot, and its length \<open>k\<close> is so small that \<open>1 - 0.9 ^ k\<close> is below the threshold, the audit
  reports drift; up to eleven results the value stays below 0.7.
\<close>

theorem unchanged_ranking_alerts:
  assumes "quiet_audit W" "newest_first W (cq_ID q) db = prev # rest"
    and "aw_recall W (cq_Project q) (cq_Query q) audit_topK = Some (sn_MemoryIDs prev)" "distinct (sn_MemoryIDs prev)"
    and "cq_AlertThreshold q = Some t" "1 - (9 / 10) ^ length (sn_MemoryIDs prev) < t"
  shows "au_alerts (fst (runQuerySnapshot W q db)) = au_alerts db @ [cq_ID q]"
  by (rule audit_alert [OF assms(1-3,5)]) (use rbo_identical [OF assms(4), of rboP] assms(6) in \<open>simp add: rboP_def\<close>)

text \<open>
  C32: Deactivating a query does not stop the audits of its project. When the database answers, the
  recalls succeed and ids are fresh, the scheduled pass takes a snapshot of every active query and
  of no other, while the audit of a project takes one of every query of the project, active or not.
\<close>

theorem project_audit_ignores_deactivation:
  assumes "quiet_audit W" "\<And>p x. aw_recall W p x audit_topK \<noteq> None" "aw_locked W"
    and "fresh_audit W (by_project (filter cq_Active (au_queries db))) db"
    and "fresh_audit W (by_created (filter (\<lambda>q. cq_Project q = project) (au_queries db))) db"
  shows "map_sum id (map sy_QueryID) (snd (audit_RunPass W db)) = Inr (map cq_ID (by_project (filter cq_Active (au_queries db))))
    \<and> map_sum id (map sy_QueryID) (snd (RunProjectAudit W project db))
        = Inr (map cq_ID (by_created (filter (\<lambda>q. cq_Project q = project) (au_queries db))))"
  using audit_queries_all [OF assms(1,2,4)] audit_queries_all [OF assms(1,2,5)] assms(1,3)
  by (cases "audit_queries W (by_project (filter cq_Active (au_queries db))) db";
      cases "audit_queries W (by_created (filter (\<lambda>q. cq_Project q = project) (au_queries db))) db")
    (simp add: audit_RunPass_def RunProjectAudit_def loadActiveQueries_def loadQueriesByProject_def quiet_audit_def Let_def)

text \<open>A list that only got shorter counts as unchanged in the comparison of the full lists.\<close>

lemma shrunk_list_full_jaccard:
  assumes "distinct a" "0 < n" "n \<le> length a"
  shows "JaccardTopK (take n a) a (length (take n a)) = 1"
proof -
  have "filter (\<lambda>v. v \<in> set (take n a)) (take n a) = take n a" by (simp add: filter_id_conv)
  then show ?thesis using assms by (simp add: JaccardTopK_def Let_def min_def)
qed

section \<open>Instances\<close>

definition audit_worker :: AuditWorker where
  "audit_worker = \<lparr>aw_recall = (\<lambda>_ _ _. Some [''m'', ''n'', ''o'']), aw_embedModel = ''e'',
     aw_call = (\<lambda>_ i. \<lparr>e_now = 9, e_newid = ''s'' @ i, e_fault = (\<lambda>_. False)\<rparr>), aw_tie = (\<lambda>ss. ss), aw_locked = True\<rparr>"

definition old_query :: CanonicalQuery where
  "old_query = \<lparr>cq_ID = ''q'', cq_Project = ''p'', cq_Query = ''x'', cq_Description = [], cq_Active = False,
     cq_AlertThreshold = Some (1 / 2), cq_CreatedAt = 0\<rparr>"

definition first_snapshot :: Snapshot where
  "first_snapshot = \<lparr>sn_ID = ''f'', sn_QueryID = ''q'', sn_Project = ''p'', sn_MemoryIDs = [''m'', ''n'', ''o''],
     sn_EmbeddingModel = ''e'', sn_RunAt = 1, sn_RBOVsPrev = None, sn_JaccardAt5 = None, sn_JaccardAt10 = None,
     sn_JaccardFull = None, sn_Additions = [], sn_Removals = []\<rparr>"

definition audited_db :: audit_db where
  "audited_db = \<lparr>au_queries = [old_query], au_snapshots = [first_snapshot], au_alerts = []\<rparr>"

lemma audit_worker_quiet: "quiet_audit audit_worker"
  by (simp add: quiet_audit_def audit_worker_def)

theorem rbo_bounds_witness:
  "RBO [''m'', ''n''] [''m'', ''n''] (9 / 10) = 19 / 100 \<and> RBO [''m''] [''n''] (9 / 10) \<le> 1 / 10"
  using rbo_bounds [of "9 / 10" "[''m'', ''n'']" "[]"] rbo_bounds [of "9 / 10" "[''m'']" "[''n'']"]
  by (simp add: power2_eq_square)

theorem unchanged_ranking_alerts_witness:
  "au_alerts (fst (runQuerySnapshot audit_worker old_query audited_db)) = [''q'']"
  using unchanged_ranking_alerts [OF audit_worker_quiet, of old_query audited_db first_snapshot "[]" "1 / 2"]
  by (simp add: newest_first_def audit_worker_def old_query_def audited_db_def first_snapshot_def power3_eq_cube)

theorem project_audit_ignores_deactivation_witness:
  "map_sum id (map sy_QueryID) (snd (audit_RunPass audit_worker audited_db)) = Inr []
   \<and> map_sum id (map sy_QueryID) (snd (RunProjectAudit audit_worker ''p'' audited_db)) = Inr [''q'']"
  using project_audit_ignores_deactivation [OF audit_worker_quiet, of audited_db "''p''"]
  by (simp add: fresh_audit_def by_project_def by_created_def audit_worker_def audited_db_def old_query_def first_snapshot_def)

end
