(* ===== verification/Summaries.thy ===== *)
theory Summaries
  imports Memory_Ops Recall_Signal
begin

text \<open>
  The summaries of memories (\<^verbatim>\<open>src/internal/summarize/worker.go\<close>) and the decay of importance
  (\<^verbatim>\<open>src/internal/search/decay.go\<close>): what one tick of each worker does to the tables. The language
  models, the clock, the order in which the database returns rows, its failures and the point at
  which a context is cancelled are parameters; tickers, goroutines and panics are left out.
\<close>

section \<open>Summarizing a text\<close>

definition maxContent :: nat where "maxContent = 2000"

definition summary_batchSize :: int where "summary_batchSize = 10"

definition modelNotFoundBackoff :: duration where "modelNotFoundBackoff = 10 * minute"

definition summarizePrompt :: string where
  "summarizePrompt =
     ''Summarize the following memory in 1-2 concise sentences. Focus on the key fact or decision. No preamble.''
     @ [CHR 0x0A, CHR 0x0A]"

datatype summary_error = ModelNotFound | SummaryFailed

text \<open>
  A rune as the bytes Go writes for it: what is not a valid rune becomes U+FFFD.
\<close>

definition rune_bytes :: "string \<Rightarrow> string" where
  "rune_bytes p = (if fst (decode_rune p) = 0xFFFD then [CHR 0xEF, CHR 0xBF, CHR 0xBD] else p)"

definition truncateRunes :: "string \<Rightarrow> nat \<Rightarrow> string" where
  "truncateRunes s n =
     (if length (rune_pieces s) \<le> n then s else concat (map rune_bytes (take n (rune_pieces s))))"

text \<open>
  The worker of a project. \<open>sw_complete url model prompt\<close> and \<open>sw_claude\<close> are the two services: the
  text of an error (\<open>Inl\<close>) or an answer. \<open>sw_until\<close> is \<^verbatim>\<open>modelNotFoundUntil\<close>, 0 when it is zero.
\<close>

record summary_worker =
  sw_bproj :: string
  sw_project :: string
  sw_url :: string
  sw_model :: string
  sw_claude :: "(string \<Rightarrow> string + string) option"
  sw_complete :: "string \<Rightarrow> string \<Rightarrow> string \<Rightarrow> string + string"
  sw_lower :: "string \<Rightarrow> string"
  sw_call :: "string \<Rightarrow> call_env"
  sw_cancelled :: "string \<Rightarrow> bool"
  sw_until :: gotime

definition SummarizeContent :: "summary_worker \<Rightarrow> string \<Rightarrow> summary_error + string" where
  "SummarizeContent W content =
     (let content' = (if length (rune_pieces content) > maxContent then truncateRunes content maxContent else content) in
      case sw_complete W (sw_url W) (sw_model W) (summarizePrompt @ content') of
        Inl err \<Rightarrow> Inl (if Contains (ToLower (sw_lower W) err) ''not found'' then ModelNotFound else SummaryFailed)
      | Inr result \<Rightarrow> Inr result)"

definition ClaudeSummarize :: "(string \<Rightarrow> string + string) \<Rightarrow> string \<Rightarrow> summary_error + string" where
  "ClaudeSummarize client content =
     (let content' = (if length (rune_pieces content) > maxContent then truncateRunes content maxContent else content) in
      case client content' of Inl _ \<Rightarrow> Inl SummaryFailed | Inr result \<Rightarrow> Inr (TrimSpace result))"

definition summary_of :: "summary_worker \<Rightarrow> string \<Rightarrow> summary_error + string" where
  "summary_of W content =
     (case sw_claude W of Some client \<Rightarrow> ClaudeSummarize client content | None \<Rightarrow> SummarizeContent W content)"

section \<open>One memory and one batch\<close>

definition summary_pending :: "string \<Rightarrow> Memory \<Rightarrow> bool" where
  "summary_pending project m \<longleftrightarrow>
     m_Project m = project \<and> m_ValidTo m = None \<and> (m_Summary m = None \<or> m_Summary m = Some (m_Content m))"

definition GetMemoriesPendingSummary ::
    "(Memory list \<Rightarrow> Memory list) \<Rightarrow> string \<Rightarrow> int \<Rightarrow> database \<Rightarrow> (string \<times> string) list" where
  "GetMemoriesPendingSummary order project limit db =
     map (\<lambda>m. (m_ID m, m_Content m)) (take (nat limit) (order (filter (summary_pending project) (db_memories db))))"

definition GetPendingSummaryCount :: "string \<Rightarrow> database \<Rightarrow> nat" where
  "GetPendingSummaryCount project db = length (filter (summary_pending project) (db_memories db))"

text \<open>\<^verbatim>\<open>SummarizeOne\<close> and \<^verbatim>\<open>SummarizeOneWithClaude\<close>: \<open>summarize\<close> is the service of each.\<close>

datatype summarize_error = StoreError db_error | ServiceError summary_error

definition summarize_one ::
    "(string \<Rightarrow> summary_error + string) \<Rightarrow> string \<Rightarrow> call_env \<Rightarrow> string \<Rightarrow> database
      \<Rightarrow> database \<times> (summarize_error + unit)" where
  "summarize_one summarize bproj env memoryID db =
     (if e_fault env ''get'' then (db, Inl (StoreError DbFailed))
      else case GetMemory bproj memoryID db of
        None \<Rightarrow> (db, Inl (StoreError (NoSuchMemory memoryID)))
      | Some mem \<Rightarrow>
          if m_Summary mem \<noteq> None \<and> m_Summary mem \<noteq> Some (m_Content mem) then (db, Inr ())
          else case summarize (m_Content mem) of
            Inl e \<Rightarrow> (db, Inl (ServiceError e))
          | Inr summary \<Rightarrow> map_prod id (map_sum StoreError id) (StoreSummary bproj env memoryID summary db))"

definition SummarizeOne ::
    "summary_worker \<Rightarrow> call_env \<Rightarrow> string \<Rightarrow> database \<Rightarrow> database \<times> (summarize_error + unit)" where
  "SummarizeOne W env = summarize_one (SummarizeContent W) (sw_bproj W) env"

definition SummarizeOneWithClaude ::
    "(string \<Rightarrow> string + string) \<Rightarrow> string \<Rightarrow> call_env \<Rightarrow> string \<Rightarrow> database \<Rightarrow> database \<times> (summarize_error + unit)" where
  "SummarizeOneWithClaude client bproj env = summarize_one (ClaudeSummarize client) bproj env"

fun summarize_rows :: "summary_worker \<Rightarrow> (string \<times> string) list \<Rightarrow> database \<Rightarrow> summary_worker \<times> database" where
  "summarize_rows W [] db = (W, db)"
| "summarize_rows W ((i, content) # rows) db =
     (if sw_cancelled W i then (W, db)
      else case summary_of W content of
        Inl ModelNotFound \<Rightarrow> (W\<lparr>sw_until := e_now (sw_call W i) + modelNotFoundBackoff\<rparr>, db)
      | Inl SummaryFailed \<Rightarrow> summarize_rows W rows db
      | Inr summary \<Rightarrow>
          summarize_rows (W\<lparr>sw_until := 0\<rparr>) rows (fst (StoreSummary (sw_bproj W) (sw_call W i) i summary db)))"

text \<open>The query for pending memories has no order: \<open>order\<close> is the one in which it returns rows this time.\<close>

definition summary_runOnce ::
    "(Memory list \<Rightarrow> Memory list) \<Rightarrow> summary_worker \<Rightarrow> database \<Rightarrow> summary_worker \<times> database" where
  "summary_runOnce order W db =
     (if sw_until W \<noteq> 0 \<and> e_now (sw_call W []) < sw_until W then (W, db)
      else if e_fault (sw_call W []) ''fetch'' then (W, db)
      else summarize_rows W (GetMemoriesPendingSummary order (sw_project W) summary_batchSize db) db)"

section \<open>Decay of importance\<close>

definition decayFactor :: float64 where "decayFactor = 95 / 100"

definition decay_runOnce :: "call_env \<Rightarrow> string \<Rightarrow> database \<Rightarrow> database" where
  "decay_runOnce env project db = fst (DecayStaleImportance env project decayFactor db)"

section \<open>What a batch leaves to do\<close>

lemma StoreSummary_rows:
  assumes "\<not> e_fault env ''update''"
  shows "db_memories (fst (StoreSummary p env i s db))
    = map (\<lambda>m. if m_ID m = i \<and> m_Project m = p then m\<lparr>m_Summary := Some s\<rparr> else m) (db_memories db)"
  using assms by (simp add: StoreSummary_def exec_def update_rows_def)

definition answering :: "summary_worker \<Rightarrow> string set \<Rightarrow> bool" where
  "answering W C \<longleftrightarrow>
     (\<forall>c \<in> C. \<exists>s. summary_of W c = Inr s \<and> s \<noteq> c) \<and> (\<forall>i l. \<not> e_fault (sw_call W i) l) \<and> (\<forall>i. \<not> sw_cancelled W i)"

lemma answering_until [simp]: "answering (W\<lparr>sw_until := t\<rparr>) C = answering W C"
proof -
  have "summary_of (W\<lparr>sw_until := t\<rparr>) = summary_of W"
    by (simp add: fun_eq_iff summary_of_def SummarizeContent_def split: option.split sum.split)
  then show ?thesis by (simp add: answering_def)
qed

text \<open>
  The rows of a batch, whose contents are read before the batch, are no longer pending after it,
  and no other row is changed.
\<close>

lemma summarize_rows_effect:
  assumes "answering W (m_Content ` set (db_memories db))" "\<And>i c. (i, c) \<in> set rows \<Longrightarrow> \<exists>m \<in> set (db_memories db). m_ID m = i \<and> m_Content m = c \<and> m_Project m = sw_bproj W"
    and "distinct (map m_ID (db_memories db))"
  shows "\<exists>f. db_memories (snd (summarize_rows W rows db)) = map f (db_memories db)
    \<and> (\<forall>m \<in> set (db_memories db). m_ID (f m) = m_ID m \<and> m_Content (f m) = m_Content m \<and> m_Project (f m) = m_Project m
        \<and> m_ValidTo (f m) = m_ValidTo m
        \<and> (if m_ID m \<in> fst ` set rows then m_Summary (f m) \<noteq> None \<and> m_Summary (f m) \<noteq> Some (m_Content m) else f m = m))
    \<and> sw_until (fst (summarize_rows W rows db)) = (if rows = [] then sw_until W else 0)
    \<and> (\<exists>t. fst (summarize_rows W rows db) = W\<lparr>sw_until := t\<rparr>)"
  using assms
proof (induction rows arbitrary: W db)
  case Nil
  show ?case by (rule exI [of _ id]) (simp, metis summary_worker.surjective summary_worker.update_convs(10))
next
  case (Cons r rows)
  obtain i c where r: "r = (i, c)" by (cases r)
  obtain m0 where m0: "m0 \<in> set (db_memories db)" "m_ID m0 = i" "m_Content m0 = c" "m_Project m0 = sw_bproj W"
    using Cons.prems(2) [of i c] r by auto
  then obtain s where s: "summary_of W c = Inr s" "s \<noteq> c" using Cons.prems(1) unfolding answering_def by blast
  define W' where "W' = W\<lparr>sw_until := 0\<rparr>"
  define db' where "db' = fst (StoreSummary (sw_bproj W) (sw_call W i) i s db)"
  define g where "g = (\<lambda>m :: Memory. if m_ID m = i \<and> m_Project m = sw_bproj W then m\<lparr>m_Summary := Some s\<rparr> else m)"
  have db': "db_memories db' = map g (db_memories db)"
    using Cons.prems(1) StoreSummary_rows [of "sw_call W i"] by (simp add: db'_def g_def answering_def)
  have run: "summarize_rows W (r # rows) db = summarize_rows W' rows db'"
    using Cons.prems(1) s by (simp add: r answering_def W'_def db'_def)
  have pre: "\<exists>m \<in> set (db_memories db'). m_ID m = j \<and> m_Content m = d \<and> m_Project m = sw_bproj W'"
    if "(j, d) \<in> set rows" for j d
  proof -
    have "(j, d) \<in> set (r # rows)" using that by simp
    from Cons.prems(2) [OF this] obtain m where "m \<in> set (db_memories db)" "m_ID m = j" "m_Content m = d" "m_Project m = sw_bproj W"
      by (elim bexE conjE)
    then show ?thesis by (intro bexI [of _ "g m"]) (simp_all add: db' g_def W'_def)
  qed
  have dis: "distinct (map m_ID (db_memories db'))"
  proof -
    have "map m_ID (map g (db_memories db)) = map m_ID (db_memories db)" by (simp add: g_def)
    then show ?thesis using Cons.prems(3) by (simp only: db')
  qed
  have "map m_Content (map g (db_memories db)) = map m_Content (db_memories db)" by (simp add: g_def)
  then have "m_Content ` set (db_memories db') = m_Content ` set (db_memories db)" unfolding db' by (metis list.set_map)
  then have ans: "answering W' (m_Content ` set (db_memories db'))" using Cons.prems(1) by (simp add: W'_def)
  obtain f where f: "db_memories (snd (summarize_rows W' rows db')) = map f (db_memories db')"
    and keep: "\<forall>m \<in> set (db_memories db'). m_ID (f m) = m_ID m \<and> m_Content (f m) = m_Content m \<and> m_Project (f m) = m_Project m
        \<and> m_ValidTo (f m) = m_ValidTo m
        \<and> (if m_ID m \<in> fst ` set rows then m_Summary (f m) \<noteq> None \<and> m_Summary (f m) \<noteq> Some (m_Content m) else f m = m)"
    and W: "sw_until (fst (summarize_rows W' rows db')) = (if rows = [] then sw_until W' else 0)"
      "\<exists>t. fst (summarize_rows W' rows db') = W'\<lparr>sw_until := t\<rparr>"
    using Cons.IH [OF ans pre dis] by blast
  have uniq: "m = m0" if "m \<in> set (db_memories db)" "m_ID m = i" for m
    using Cons.prems(3) m0(1,2) that by (metis distinct_map inj_onD)
  have g: "m_ID (g m) = m_ID m" "m_Content (g m) = m_Content m" "m_Project (g m) = m_Project m" "m_ValidTo (g m) = m_ValidTo m"
    for m by (simp_all add: g_def)
  have "m_ID (f (g m)) = m_ID m \<and> m_Content (f (g m)) = m_Content m \<and> m_Project (f (g m)) = m_Project m
      \<and> m_ValidTo (f (g m)) = m_ValidTo m
      \<and> (if m_ID m \<in> fst ` set (r # rows) then m_Summary (f (g m)) \<noteq> None \<and> m_Summary (f (g m)) \<noteq> Some (m_Content m)
         else f (g m) = m)" if m: "m \<in> set (db_memories db)" for m
  proof -
    have k: "g m \<in> set (db_memories db')" using m by (simp add: db')
    show ?thesis
    proof (cases "m_ID m = i")
      case True
      then have gm: "m_Summary (g m) = Some s" "m_Content m = c" using uniq [OF m True] m0 by (simp_all add: g_def)
      have "m_Summary (f (g m)) \<noteq> None \<and> m_Summary (f (g m)) \<noteq> Some (m_Content m)"
        using bspec [OF keep k] gm s(2) g by (cases "m_ID m \<in> fst ` set rows") simp_all
      then show ?thesis using bspec [OF keep k] g True by (simp add: r)
    next
      case False
      then have "g m = m" by (simp add: g_def)
      then show ?thesis using bspec [OF keep k] False by (cases "m_ID m \<in> fst ` set rows") (simp_all add: r)
    qed
  qed
  then show ?case using f W by (intro exI [of _ "f \<circ> g"]) (auto simp: run db' W'_def)
qed

lemma length_filter_rest:
  assumes "distinct (map k P)" "mset Q = mset P"
  shows "length (filter (\<lambda>m. k m \<notin> k ` set (take n Q)) P) = length P - n"
proof -
  have dis: "distinct (map k Q)" using assms mset_eq_imp_distinct_iff [of "map k Q" "map k P"] by simp
  have "k m \<notin> k ` set (take n Q)" if "m \<in> set (drop n Q)" for m
  proof -
    have "distinct (map k (take n Q) @ map k (drop n Q))" using dis by (metis append_take_drop_id map_append)
    then show ?thesis using that by auto
  qed
  then have rest: "filter (\<lambda>m. k m \<notin> k ` set (take n Q)) (drop n Q) = drop n Q" by (simp add: filter_id_conv)
  have "filter (\<lambda>m. k m \<notin> k ` set (take n Q)) (take n Q) = []" by (simp add: filter_empty_conv)
  then have "filter (\<lambda>m. k m \<notin> k ` set (take n Q)) Q = drop n Q"
    using rest by (metis append_Nil append_take_drop_id filter_append)
  then have "length (filter (\<lambda>m. k m \<notin> k ` set (take n Q)) Q) = length Q - n" by simp
  then show ?thesis using assms(2) by (metis mset_filter size_mset)
qed

lemma summary_pass:
  assumes ans: "answering W (m_Content ` set (db_memories db))" and proj: "sw_bproj W = sw_project W" and until: "sw_until W = 0"
    and order: "\<And>ms. mset (order ms) = mset ms" and dis: "distinct (map m_ID (db_memories db))"
  shows "GetPendingSummaryCount (sw_project W) (snd (summary_runOnce order W db)) = GetPendingSummaryCount (sw_project W) db - 10"
    and "fst (summary_runOnce order W db) = W" "distinct (map m_ID (db_memories (snd (summary_runOnce order W db))))"
    "m_Content ` set (db_memories (snd (summary_runOnce order W db))) = m_Content ` set (db_memories db)"
proof -
  let ?P = "filter (summary_pending (sw_project W)) (db_memories db)"
  let ?B = "take 10 (order ?P)"
  define rows where "rows = GetMemoriesPendingSummary order (sw_project W) summary_batchSize db"
  have rows: "rows = map (\<lambda>m. (m_ID m, m_Content m)) ?B"
    by (simp add: rows_def GetMemoriesPendingSummary_def summary_batchSize_def)
  have run: "summary_runOnce order W db = summarize_rows W rows db"
    using ans until by (simp add: summary_runOnce_def rows_def answering_def)
  have B: "set ?B \<subseteq> set ?P" using order [of ?P] by (metis set_mset_mset set_take_subset)
  have pre: "\<exists>m \<in> set (db_memories db). m_ID m = i \<and> m_Content m = c \<and> m_Project m = sw_bproj W" if "(i, c) \<in> set rows" for i c
    using that B proj by (fastforce simp: rows summary_pending_def)
  obtain f where f: "db_memories (snd (summarize_rows W rows db)) = map f (db_memories db)"
    and keep: "\<forall>m \<in> set (db_memories db). m_ID (f m) = m_ID m \<and> m_Content (f m) = m_Content m \<and> m_Project (f m) = m_Project m
        \<and> m_ValidTo (f m) = m_ValidTo m
        \<and> (if m_ID m \<in> fst ` set rows then m_Summary (f m) \<noteq> None \<and> m_Summary (f m) \<noteq> Some (m_Content m) else f m = m)"
    and W: "sw_until (fst (summarize_rows W rows db)) = (if rows = [] then sw_until W else 0)"
      "\<exists>t. fst (summarize_rows W rows db) = W\<lparr>sw_until := t\<rparr>"
    using summarize_rows_effect [OF ans pre dis] by blast
  have ids: "fst ` set rows = m_ID ` set ?B" by (simp add: rows image_image)
  have pend: "summary_pending (sw_project W) (f m) \<longleftrightarrow> summary_pending (sw_project W) m \<and> m_ID m \<notin> m_ID ` set ?B"
    if "m \<in> set (db_memories db)" for m
  proof (cases "m_ID m \<in> m_ID ` set ?B")
    case True
    then show ?thesis using bspec [OF keep that] unfolding ids summary_pending_def by simp
  next
    case False
    then show ?thesis using bspec [OF keep that] unfolding ids by simp
  qed
  have "GetPendingSummaryCount (sw_project W) (snd (summary_runOnce order W db))
      = length (filter (\<lambda>m. summary_pending (sw_project W) (f m)) (db_memories db))"
    by (simp add: GetPendingSummaryCount_def run f filter_map comp_def)
  also have "\<dots> = length (filter (\<lambda>m. m_ID m \<notin> m_ID ` set ?B) ?P)"
    using pend by (simp add: filter_filter cong: filter_cong)
  also have "\<dots> = length ?P - 10"
    by (rule length_filter_rest) (use dis order in \<open>simp_all add: distinct_map_filter\<close>)
  finally show "GetPendingSummaryCount (sw_project W) (snd (summary_runOnce order W db)) = GetPendingSummaryCount (sw_project W) db - 10"
    by (simp add: GetPendingSummaryCount_def)
  show "fst (summary_runOnce order W db) = W" using W until run by auto
  show "m_Content ` set (db_memories (snd (summary_runOnce order W db))) = m_Content ` set (db_memories db)"
    using keep by (force simp: run f image_image)
  have "map m_ID (map f (db_memories db)) = map m_ID (db_memories db)" using keep by simp
  then show "distinct (map m_ID (db_memories (snd (summary_runOnce order W db))))" using dis by (simp only: run f)
qed

text \<open>Passes one after the other, each with its own order; nothing else changes the tables between them.\<close>

fun summary_passes ::
    "(Memory list \<Rightarrow> Memory list) list \<Rightarrow> summary_worker \<Rightarrow> database \<Rightarrow> summary_worker \<times> database" where
  "summary_passes [] W db = (W, db)"
| "summary_passes (order # orders) W db = (let (W', db') = summary_runOnce order W db in summary_passes orders W' db')"

definition permutes_rows :: "(Memory list \<Rightarrow> Memory list) \<Rightarrow> bool" where
  "permutes_rows order \<longleftrightarrow> (\<forall>ms. mset (order ms) = mset ms)"

lemma summary_passes_count:
  assumes "sw_bproj W = sw_project W" "sw_until W = 0" "list_all permutes_rows orders"
    "answering W (m_Content ` set (db_memories db))" "distinct (map m_ID (db_memories db))"
  shows "GetPendingSummaryCount (sw_project W) (snd (summary_passes orders W db))
    = GetPendingSummaryCount (sw_project W) db - 10 * length orders"
  using assms(3-5)
proof (induction orders arbitrary: db)
  case (Cons order orders)
  have "mset (order ms) = mset ms" for ms using Cons.prems(1) by (simp add: permutes_rows_def)
  note step = summary_pass [OF Cons.prems(2) assms(1,2) this Cons.prems(3)]
  have "summary_passes (order # orders) W db = summary_passes orders W (snd (summary_runOnce order W db))"
    using step(2) by (simp add: split_beta)
  then show ?case using Cons.IH [OF _ _ step(3)] Cons.prems(1,2) step(1,4) by simp
qed simp

text \<open>
  C33: The summaries catch up. When the service answers every stored text with another text, the database
  answers every call, no back-off is pending and nothing else changes the tables, each pass of the
  worker summarizes ten pending memories. The query has no order, so each pass may see the rows in
  another one; after as many passes as there are batches of ten none is pending all the same.
\<close>

theorem summaries_catch_up:
  assumes "sw_bproj W = sw_project W" "sw_until W = 0" "list_all permutes_rows orders"
    and "answering W (m_Content ` set (db_memories db))" "db_ok db"
    and "GetPendingSummaryCount (sw_project W) db \<le> 10 * length orders"
  shows "GetPendingSummaryCount (sw_project W) (snd (summary_passes orders W db)) = 0"
  using summary_passes_count [OF assms(1-4) db_okD(1) [OF assms(5)]] assms(6) by simp

lemma failing_rows_skipped:
  assumes "\<And>i c. (i, c) \<in> set rows \<Longrightarrow> summary_of W c = Inl SummaryFailed"
  shows "summarize_rows W rows db = (W, db)"
  using assms
proof (induction rows)
  case (Cons r rows)
  obtain i c where r: "r = (i, c)" by (cases r)
  have "summary_of W c = Inl SummaryFailed" using Cons.prems [of i c] r by simp
  moreover have "summarize_rows W rows db = (W, db)"
    using Cons.IH Cons.prems by (metis list.set_intros(2))
  ultimately show ?case by (simp add: r)
qed simp

text \<open>
  Ten memories that cannot be summarized may keep all others waiting. A failure leaves no mark and the
  query has no order that moves on, so as long as every pass is handed ten memories on which the
  service fails, the tables do not change; and when ten or more pending memories fail there is an order
  that does this. Nothing in the worker prevents it, though another order may end it.
\<close>

definition failing_rows :: "summary_worker \<Rightarrow> (Memory list \<Rightarrow> Memory list) \<Rightarrow> database \<Rightarrow> bool" where
  "failing_rows W order db \<longleftrightarrow>
     (\<forall>(i, c) \<in> set (GetMemoriesPendingSummary order (sw_project W) summary_batchSize db). summary_of W c = Inl SummaryFailed)"

lemma failing_batches_change_nothing:
  "list_all (\<lambda>order. failing_rows W order db) orders \<Longrightarrow> summary_passes orders W db = (W, db)"
proof (induction orders)
  case (Cons order orders)
  then have "\<And>i c. (i, c) \<in> set (GetMemoriesPendingSummary order (sw_project W) summary_batchSize db)
      \<Longrightarrow> summary_of W c = Inl SummaryFailed"
    by (auto simp: failing_rows_def)
  from failing_rows_skipped [of _ W db, OF this] have "summary_runOnce order W db = (W, db)"
    by (simp add: summary_runOnce_def)
  then show ?case using Cons by simp
qed simp

lemma failing_batch_may_starve:
  assumes "10 \<le> length (filter (\<lambda>m. summary_of W (m_Content m) = Inl SummaryFailed)
      (filter (summary_pending (sw_project W)) (db_memories db)))"
  shows "\<exists>order. permutes_rows order \<and> (\<forall>n. summary_passes (replicate n order) W db = (W, db))"
proof -
  let ?bad = "\<lambda>m. summary_of W (m_Content m) = Inl SummaryFailed"
  let ?order = "\<lambda>ms. filter ?bad ms @ filter (\<lambda>m. \<not> ?bad m) ms"
  have perm: "permutes_rows ?order" by (simp add: permutes_rows_def)
  have "failing_rows W ?order db"
    unfolding failing_rows_def GetMemoriesPendingSummary_def summary_batchSize_def
    using assms by (auto dest: in_set_takeD)
  then have "summary_passes (replicate n ?order) W db = (W, db)" for n
    by (intro failing_batches_change_nothing) (simp add: list_all_iff)
  with perm show ?thesis by blast
qed

text \<open>
  A summary that repeats the content counts as pending, so it is requested again in every pass.
\<close>

lemma echoed_summary_stays_pending:
  assumes "summary_pending project m"
  shows "summary_pending project (m\<lparr>m_Summary := Some (m_Content m)\<rparr>)"
  using assms by (simp add: summary_pending_def)

text \<open>A pass of the decay leaves importances at a tenth or above and never raises one that was.\<close>

lemma decay_pass_bounds:
  assumes "m \<in> set (db_memories db)" "m_DynamicImportance m = Some x" "1 / 10 \<le> x"
  shows "\<exists>m' \<in> set (db_memories (decay_runOnce env project db)). m_ID m' = m_ID m
    \<and> (\<exists>y. m_DynamicImportance m' = Some y \<and> 1 / 10 \<le> y \<and> y \<le> x \<and> decayFactor * x \<le> y)"
proof -
  let ?p = "\<lambda>m. m_Project m = project \<and> m_ValidTo m = None \<and> (case m_NextReviewAt m of None \<Rightarrow> False | Some t \<Rightarrow> t < e_now env)"
  let ?f = "\<lambda>m. m\<lparr>m_DynamicImportance := (case m_DynamicImportance m of None \<Rightarrow> Some (1 / 10)
        | Some d \<Rightarrow> Some (max (1 / 10) (d * decayFactor))),
      m_NextReviewAt := map_option (\<lambda>t. t + \<lfloor>m_RetrievalIntervalHrs m * of_int hour\<rfloor>) (m_NextReviewAt m)\<rparr>"
  have rows: "db_memories (decay_runOnce env project db) = (if e_fault env ''update'' then db_memories db
      else map (\<lambda>m. if ?p m then ?f m else m) (db_memories db))"
    by (simp add: decay_runOnce_def DecayStaleImportance_def exec_def update_rows_def)
  show ?thesis
  proof (cases "e_fault env ''update'' \<or> \<not> ?p m")
    case True
    then have "m \<in> set (db_memories (decay_runOnce env project db))" using assms(1) unfolding rows by auto
    then show ?thesis using assms by (intro bexI [of _ m]) (auto simp: decayFactor_def)
  next
    case False
    then have "?f m \<in> set (db_memories (decay_runOnce env project db))" using assms(1) unfolding rows by auto
    then show ?thesis using assms by (intro bexI [of _ "?f m"]) (auto simp: decayFactor_def)
  qed
qed

section \<open>Instances\<close>

definition summarizer :: "(string \<Rightarrow> string + string) \<Rightarrow> summary_worker" where
  "summarizer client = \<lparr>sw_bproj = ''p'', sw_project = ''p'', sw_url = [], sw_model = [], sw_claude = Some client,
     sw_complete = (\<lambda>_ _ _. Inl []), sw_lower = (\<lambda>s. s), sw_call = (\<lambda>_. calm),
     sw_cancelled = (\<lambda>_. False), sw_until = 0\<rparr>"

definition two_notes :: database where
  "two_notes = empty_db\<lparr>db_memories := [stored_note ''a'' False, stored_note ''b'' False]\<rparr>"

lemma two_notes_ok: "db_ok two_notes"
  by (simp add: two_notes_def db_ok_def empty_db_def mem_ids_def docs_ok_def open_versions_def)
    (simp add: stored_note_def inserted_row_def prepare_memory_def note_memory_def)

lemma stored_note_summary [simp]: "m_Summary (stored_note i imm) = None"
  by (simp add: stored_note_def inserted_row_def)

lemma short_pieces: "length (rune_pieces ''old'') \<le> maxContent"
  by (simp add: rune_pieces.simps decode_rune_def maxContent_def)

lemma trimmed_short: "TrimSpace ''short'' = ''short''"
  by code_simp

theorem summaries_catch_up_witness:
  "GetPendingSummaryCount ''p'' two_notes = 2
   \<and> GetPendingSummaryCount ''p'' (snd (summary_passes [rev] (summarizer (\<lambda>_. Inr ''short'')) two_notes)) = 0"
proof -
  have pending: "GetPendingSummaryCount ''p'' two_notes = 2"
    by (simp add: GetPendingSummaryCount_def two_notes_def summary_pending_def)
  have "answering (summarizer (\<lambda>_. Inr ''short'')) (m_Content ` set (db_memories two_notes))"
    using short_pieces trimmed_short
    by (simp add: answering_def summarizer_def summary_of_def ClaudeSummarize_def two_notes_def calm_def)
  then show ?thesis
    using summaries_catch_up [of "summarizer (\<lambda>_. Inr ''short'')" "[rev]" two_notes] two_notes_ok pending
    by (simp add: summarizer_def permutes_rows_def)
qed

end
