(* ===== verification/Spec2Isabelle.thy ===== *)
theory Spec2Isabelle
  imports Engram_Prelude Circuit_Breaker Layer_B_Store Ingest_Queue Engine_Pool Minhash Atom_Dedup Weight_Tuner Embed_Vector Search_Store Recall_Laws Store_Recall Safety Consolidate Upstream_Guard Safe_Path Drift_Audit Summaries
begin

text \<open>
  Engram is a memory service for language-model agents. A client stores memories over the Model
  Context Protocol; the service cuts each into chunks, stores memory and chunks in Postgres, has an
  embedding service fill in a vector per chunk in the background, and answers queries by fusing
  vector search, text search and recency. This library models the parts of the service that decide
  what is stored, what is returned and when, and proves what they guarantee. All paths are under
  \<^verbatim>\<open>src/internal\<close>.

  \<^bold>\<open>Conventions.\<close> A Go function is an Isabelle function of the same name; a method takes its receiver
  as an argument and returns it updated. A struct is a record, an error a value of a sum type
  (\<^verbatim>\<open>Inl\<close>), a string a list of bytes (\<^verbatim>\<open>char\<close>, UTF-8 decoded where the source ranges over runes). A
  \<^verbatim>\<open>uint32\<close> or \<^verbatim>\<open>uint64\<close> is a word, so sums wrap; an \<^verbatim>\<open>int\<close> is an \<^verbatim>\<open>int\<close> where its range cannot matter;
  a \<^verbatim>\<open>float64\<close> is a rational or real number, so rounding is not modelled, except in \<^verbatim>\<open>Embed_Vector\<close>
  where a \<^verbatim>\<open>float32\<close> is its 32 bits. A Go map is an association list where the code only looks keys
  up, and its iteration order is an arbitrary permutation wherever the code ranges over it; the same
  holds for \<^verbatim>\<open>sort.Slice\<close>, which is not stable. Time is an integer. What the code calls and does
  not contain (Postgres' text search, the pgvector index, the embedding service, SHA-256, the
  language model, unicode tables) is a parameter, and a theorem says what it needs of it. A loop
  that may not end is a \<^verbatim>\<open>partial_function (option)\<close> or has fuel; then a lemma shows that it returns
  or exactly when it does not (\<^verbatim>\<open>Layer_B\<close> and \<^verbatim>\<open>Union_Find\<close>: fuel as large as the forest;
  \<^verbatim>\<open>Engine_Pool\<close>: the eviction loop; \<^verbatim>\<open>Reembed\<close>, \<^verbatim>\<open>Embed_Gateway\<close>: the drain loops).

  \<^bold>\<open>Shared ground.\<close> \<^verbatim>\<open>Engram_Prelude\<close> has the parts of the Go standard library the sources use and the
  lemmas on lists, maps and sums every component shares. \<^verbatim>\<open>Engram_Types\<close> is \<^verbatim>\<open>types/types.go\<close>.
  \<^verbatim>\<open>Go_Regexp\<close> is a leftmost-first matcher for the regular expressions the sources compile.

  \<^bold>\<open>Storage.\<close> \<^verbatim>\<open>Memory_Tables\<close>, \<^verbatim>\<open>Memory_Graph\<close> and \<^verbatim>\<open>Memory_Ops\<close> model \<^verbatim>\<open>db/postgres_memory.go\<close>,
  \<^verbatim>\<open>postgres_chunk.go\<close>, \<^verbatim>\<open>postgres_document.go\<close>, \<^verbatim>\<open>postgres_feedback.go\<close>, \<^verbatim>\<open>postgres_prune.go\<close> and
  \<^verbatim>\<open>postgres_relationship.go\<close>: the database is a record of tables (lists of rows), a statement a
  function on it, a transaction rolls back, and a call environment lets the database fail any call;
  keys are checked for memories, chunks and pairs of edges, not for generated ids of other rows.
  Over every sequence of statements and failures the tables stay consistent, no content of a memory
  is lost, a forgotten memory stays forgotten and an immutable one keeps its content, a merge
  excepted.

  \<^bold>\<open>Writing.\<close> \<^verbatim>\<open>Chunker\<close> (\<^verbatim>\<open>chunk/chunker.go\<close>) cuts a text into overlapping windows of sentences:
  nothing is lost or skipped. \<^verbatim>\<open>Search_Store\<close> (\<^verbatim>\<open>search/engine.go\<close>) is the writing half of the engine
  over the tables: storing is all or nothing, the embedder guard refuses another model, a
  correction and a migration have the effects (and the two gaps) the theorems describe. \<^verbatim>\<open>Minhash\<close>
  (\<^verbatim>\<open>minhash/minhash.go\<close>, \<^verbatim>\<open>lsh.go\<close>) finds near duplicates; \<^verbatim>\<open>Atom_Dedup\<close> (\<^verbatim>\<open>atom/atom.go\<close>, \<^verbatim>\<open>dedup.go\<close>)
  retires superseded facts; \<^verbatim>\<open>Ingest_Queue\<close> (\<^verbatim>\<open>ingestqueue/queue.go\<close>) is the asynchronous queue as a
  step relation over atomic sections.

  \<^bold>\<open>Embedding.\<close> \<^verbatim>\<open>Circuit_Breaker\<close> (\<^verbatim>\<open>embed/circuit_breaker.go\<close>) stands in front of the embedding
  service: it trips exactly on a full sliding window and admits one probe at a time.
  \<^verbatim>\<open>Embed_Gateway\<close> (\<^verbatim>\<open>embedgateway\<close>) and \<^verbatim>\<open>Reembed\<close> (\<^verbatim>\<open>reembed/worker.go\<close>, \<^verbatim>\<open>global_worker.go\<close>) fill in
  missing vectors in the background: they catch up when the service answers, whatever other transactions do
  between batches as long as they stop adding chunks, and spin when a full batch cannot be embedded; the worker of a project is launched once under every interleaving of the
  calls that start, wake and stop it. \<^verbatim>\<open>Embed_Vector\<close> (\<^verbatim>\<open>embed/vector.go\<close>) is the byte encoding and the
  similarity of vectors.

  \<^bold>\<open>Recall.\<close> \<^verbatim>\<open>Recall_Score\<close> (\<^verbatim>\<open>search/score.go\<close>, \<^verbatim>\<open>fusion.go\<close>, \<^verbatim>\<open>validity_window.go\<close>,
  \<^verbatim>\<open>envconf/envconf.go\<close>), \<^verbatim>\<open>Recall_Signal\<close> (\<^verbatim>\<open>query_signal.go\<close>, \<^verbatim>\<open>exact_fact_boost.go\<close>), \<^verbatim>\<open>Recall_Rank\<close>
  (the passes over the list of results in \<^verbatim>\<open>engine.go\<close>, \<^verbatim>\<open>session_diversity.go\<close>,
  \<^verbatim>\<open>session_ndcg_agg.go\<close>, \<^verbatim>\<open>federation.go\<close>) and \<^verbatim>\<open>Recall_Query\<close> (\<^verbatim>\<open>paraphrase_union.go\<close>,
  \<^verbatim>\<open>temporal_window.go\<close>) are composed in \<^verbatim>\<open>Recall\<close> into \<^verbatim>\<open>RecallWithOpts\<close>. \<^verbatim>\<open>Recall_Laws\<close> shows, through a contract of the
  vector index that the model of its SQL satisfies, that a recall returns at most topK live memories
  of its project, each once, that it changes nothing but access statistics and, the first time, the
  registration of the embedder, what it does and tells its caller when the embedder fails, and when
  live memories are hidden. \<^verbatim>\<open>Store_Recall\<close> composes the parts: what a store writes and the worker embeds, the vector
  query finds. \<^verbatim>\<open>Weight_Tuner\<close> (\<^verbatim>\<open>weight/tuner.go\<close>) adapts the weights of the scores.

  \<^bold>\<open>Aggregation.\<close> \<^verbatim>\<open>Layer_B_Text\<close>, \<^verbatim>\<open>Union_Find\<close>, \<^verbatim>\<open>Layer_B\<close> and \<^verbatim>\<open>Layer_B_Store\<close> (\<^verbatim>\<open>aggq/aggq.go\<close>,
  \<^verbatim>\<open>layerb/layerb.go\<close>, \<^verbatim>\<open>diagnose.go\<close>, \<^verbatim>\<open>db/postgres_layerb.go\<close>) build deterministic summaries for
  counting questions: the connectivity gate decides connectivity, and over the Postgres tables,
  through the contract of a store, a summary counts exactly its evidence.

  \<^bold>\<open>Serving.\<close> \<^verbatim>\<open>Engine_Pool\<close> (\<^verbatim>\<open>mcp/pool.go\<close>) keeps one engine per project, at most a fixed number,
  under every interleaving of its callers. \<^verbatim>\<open>Tool_Args\<close> (\<^verbatim>\<open>mcp/tools.go\<close>) reads the arguments of a tool
  call. \<^verbatim>\<open>Safety\<close> (\<^verbatim>\<open>mcp/safety.go\<close>) verifies a proposed action against stored constraints: the decision
  is the strongest demand of the baselines and the matches.

  \<^bold>\<open>Upkeep.\<close> \<^verbatim>\<open>Consolidate\<close> (\<^verbatim>\<open>consolidate/consolidate.go\<close>, \<^verbatim>\<open>llm_contradiction.go\<close>) detects contradicting
  memories and retires the older one: only outdated, mutable memories are retired, a run that
  succeeds leaves none, and two kinds of memories make every run fail; the calls of the language
  model are bounded. \<^verbatim>\<open>Drift_Audit\<close> (\<^verbatim>\<open>audit/auditor.go\<close>, \<^verbatim>\<open>rbo.go\<close>) compares the recalls of registered
  queries over time: the range of the drift measure, and what it says of an unchanged ranking.
  \<^verbatim>\<open>Summaries\<close> (\<^verbatim>\<open>summarize/worker.go\<close>, \<^verbatim>\<open>search/decay.go\<close>) is what the two periodic workers do in a tick: summaries
  catch up whatever order each query returns, and may starve behind ten memories that fail.

  \<^bold>\<open>Guards.\<close> \<^verbatim>\<open>Upstream_Guard\<close> (\<^verbatim>\<open>netutil/private_ip.go\<close>, the dialers of \<^verbatim>\<open>embed/litellm.go\<close>) keeps requests
  away from private addresses, over a resolver whose answers change: dialing the checked literal is
  safe, dialing the name again is not. \<^verbatim>\<open>Safe_Path\<close> (\<^verbatim>\<open>mcp/safepath.go\<close>) keeps file operations below a
  directory, links that hide behind missing directories excepted.

  \<^bold>\<open>Interfaces.\<close> \<^verbatim>\<open>invariant_system\<close> (an invariant kept by every operation holds after every run) is
  interpreted on the breaker, the throttle and the tables; \<^verbatim>\<open>strict_weak_order\<close> on the orders the code
  sorts by; the contract of a forest of disjoint sets on the parent array of the connectivity gate;
  what a chunk carries over into the next (\<^verbatim>\<open>carry_over\<close>) on both strategies of the chunker; the contract
  of an event store on the Postgres tables of Layer B; the contract of a vector
  index on the model of the vector query.

  \<^bold>\<open>Not modelled.\<close> The transport and registration of tools (\<^verbatim>\<open>mcp/server.go\<close>, HTTP and SSE), the
  remaining tool handlers, the command line programs (\<^verbatim>\<open>src/cmd\<close>), the evaluation harness
  (\<^verbatim>\<open>longmemeval\<close>, \<^verbatim>\<open>cmd/audit\<close>, \<^verbatim>\<open>eval\<close>, \<^verbatim>\<open>wp05retrofit\<close>), the importers of chat exports, the clients of
  language models and of the embedding service, and the workers that extract entities and atoms
  with a language model. They are glue between the parts above and services outside the repository, or
  measure the service rather than make it up. Cancellation of contexts is modelled only where a
  worker's lifecycle depends on it; logging, metrics and rounding of floating-point numbers are left
  out throughout.
\<close>

end
